(* ===== verification/Errdefs.thy ===== *)
theory Errdefs
  imports Prelude
begin

text \<open>
  The error classification of \<open>core/errdefs\<close>: the marker categories and wrappers of
  \<open>errors.go\<close>, the provider normalisation of \<open>http.go\<close> and the hints of \<open>retry.go\<close>.
  An \<open>error\<close> value is a tree (\<open>fmt.Errorf\<close> with a \<open>%w\<close>, the marker structs and the
  hint structs have one child, \<open>errors.Join\<close> has many); the nil error is \<open>None\<close>.
  \<open>Coded\<close> stands for an error of a provider SDK that carries an HTTP status.
\<close>

subsection \<open>Categories and error values\<close>

datatype category =
  NotFound | Validation | Unauthorized | Forbidden | Conflict | RateLimit | Timeout
| Interrupted | Aborted | NotAvailable | Internal | BudgetExceeded | PolicyDenied

datatype go_error =
  Plain string
| DeadlineExceeded
| Canceled
| Coded int string
| Wrapf string go_error
| Mark category go_error
| Join "go_error list"
| RetryAfterHint go_error int
| RetryCountHint go_error int
| RequestIDHint go_error string

type_synonym err = "go_error option"

primrec error_string :: "go_error \<Rightarrow> string" where
  "error_string (Plain m) = m"
| "error_string DeadlineExceeded = ''context deadline exceeded''"
| "error_string Canceled = ''context canceled''"
| "error_string (Coded c m) = m"
| "error_string (Wrapf p e) = p @ '': '' @ error_string e"
| "error_string (Mark c e) = error_string e"
| "error_string (Join es) = join_on (CHR 0x0A) (map error_string es)"
| "error_string (RetryAfterHint e d) = error_string e"
| "error_string (RetryCountHint e n) = error_string e"
| "error_string (RequestIDHint e i) = error_string e"

text \<open>\<open>errors.As\<close>: the first node of the tree, in preorder, that the target accepts.\<close>

definition or_else :: "'a option \<Rightarrow> 'a option \<Rightarrow> 'a option" where
  "or_else a b = (case a of Some v \<Rightarrow> Some v | None \<Rightarrow> b)"

primrec errors_As :: "(go_error \<Rightarrow> 'a option) \<Rightarrow> go_error \<Rightarrow> 'a option" where
  "errors_As t (Plain m) = t (Plain m)"
| "errors_As t DeadlineExceeded = t DeadlineExceeded"
| "errors_As t Canceled = t Canceled"
| "errors_As t (Coded c m) = t (Coded c m)"
| "errors_As t (Wrapf p e) = or_else (t (Wrapf p e)) (errors_As t e)"
| "errors_As t (Mark c e) = or_else (t (Mark c e)) (errors_As t e)"
| "errors_As t (Join es) = or_else (t (Join es)) (first_some (map (errors_As t) es))"
| "errors_As t (RetryAfterHint e d) = or_else (t (RetryAfterHint e d)) (errors_As t e)"
| "errors_As t (RetryCountHint e n) = or_else (t (RetryCountHint e n)) (errors_As t e)"
| "errors_As t (RequestIDHint e i) = or_else (t (RequestIDHint e i)) (errors_As t e)"

text \<open>\<open>errors.Is\<close> against a sentinel: some node of the tree is that value.\<close>

definition errors_Is :: "go_error \<Rightarrow> go_error \<Rightarrow> bool" where
  "errors_Is e target \<longleftrightarrow> errors_As (\<lambda>n. if n = target then Some () else None) e \<noteq> None"

definition mark_target :: "category \<Rightarrow> go_error \<Rightarrow> unit option" where
  "mark_target c n = (case n of Mark c' e \<Rightarrow> if c' = c then Some () else None | _ \<Rightarrow> None)"

text \<open>\<open>IsNotFound\<close> \<dots> \<open>IsPolicyDenied\<close>, one per category; false on nil.\<close>

definition Is :: "category \<Rightarrow> err \<Rightarrow> bool" where
  "Is c err = (case err of None \<Rightarrow> False | Some e \<Rightarrow> errors_As (mark_target c) e \<noteq> None)"

definition markOrNil :: "(go_error \<Rightarrow> go_error) \<Rightarrow> err \<Rightarrow> err" where
  "markOrNil w err = map_option w err"

text \<open>The constructors \<open>NotFound(err)\<close> \<dots> \<open>PolicyDenied(err)\<close> and their formatting forms.
  The formatting arguments of a message are not rendered: the text is the format string.\<close>

definition mark_as :: "category \<Rightarrow> err \<Rightarrow> err" where
  "mark_as c err = markOrNil (Mark c) err"

definition errf :: "category \<Rightarrow> string \<Rightarrow> go_error" where
  "errf c msg = Mark c (Plain msg)"

definition errf_w :: "category \<Rightarrow> string \<Rightarrow> go_error \<Rightarrow> go_error" where
  "errf_w c msg e = Mark c (Wrapf msg e)"

definition HTTPStatus :: "err \<Rightarrow> int" where
  "HTTPStatus err =
     (if err = None then 200
      else if Is NotFound err then 404
      else if Is Validation err then 400
      else if Is Unauthorized err then 401
      else if Is Forbidden err then 403
      else if Is Conflict err then 409
      else if Is RateLimit err then 429
      else if Is BudgetExceeded err then 429
      else if Is PolicyDenied err then 403
      else if Is Timeout err then 504
      else if Is NotAvailable err then 503
      else if Is Internal err then 500
      else if Is Interrupted err \<or> Is Aborted err then 409
      else 500)"

definition HasClassification :: "err \<Rightarrow> bool" where
  "HasClassification err \<longleftrightarrow>
     Is NotFound err \<or> Is Validation err \<or> Is Unauthorized err \<or> Is Forbidden err \<or>
     Is Conflict err \<or> Is RateLimit err \<or> Is Timeout err \<or> Is Interrupted err \<or>
     Is Aborted err \<or> Is NotAvailable err \<or> Is Internal err \<or> Is BudgetExceeded err \<or>
     Is PolicyDenied err"

definition FromContext :: "err \<Rightarrow> err" where
  "FromContext err =
     (case err of None \<Rightarrow> None
      | Some e \<Rightarrow>
          if HasClassification err then err
          else if errors_Is e DeadlineExceeded then mark_as Timeout err
          else if errors_Is e Canceled then mark_as Aborted err
          else err)"

subsection \<open>Provider errors (\<open>http.go\<close>)\<close>

datatype ProviderCategory =
  ProviderTransient | ProviderRateLimit | ProviderAuth | ProviderBilling
| ProviderContextOverflow | ProviderPermanent

definition ProviderCategoryFromHTTPCode :: "int \<Rightarrow> ProviderCategory \<times> bool" where
  "ProviderCategoryFromHTTPCode code =
     (if code \<in> {401, 403} then (ProviderAuth, True)
      else if code = 402 then (ProviderBilling, True)
      else if code = 429 then (ProviderRateLimit, True)
      else if code \<in> {400, 404, 405, 422} then (ProviderPermanent, True)
      else (ProviderTransient, False))"

definition ClassifyStatus :: "int \<Rightarrow> err \<Rightarrow> err" where
  "ClassifyStatus status cause =
     (if status \<in> {400, 404, 405, 422} then mark_as Validation cause
      else if status = 401 then mark_as Unauthorized cause
      else if status \<in> {403, 402} then mark_as Forbidden cause
      else if status = 409 then mark_as Conflict cause
      else if status = 429 then mark_as RateLimit cause
      else if status \<in> {408, 504} then mark_as Timeout cause
      else mark_as NotAvailable cause)"

definition ClassifyHTTPStatus :: "string \<Rightarrow> int \<Rightarrow> string \<Rightarrow> err" where
  "ClassifyHTTPStatus provider code body =
     (let msg0 = provider @ '': http '' @ show_int code;
          msg = (if body \<noteq> [] then msg0 @ '': '' @ body else msg0);
          wrapped = Some (Plain msg);
          rest = (if code \<ge> 500 then mark_as NotAvailable wrapped else mark_as Internal wrapped)
      in if code < 400 then mark_as Internal wrapped
         else if code = 403 then mark_as Forbidden wrapped
         else (case ProviderCategoryFromHTTPCode code of
                 (ProviderAuth, True) \<Rightarrow> mark_as Unauthorized wrapped
               | (ProviderBilling, True) \<Rightarrow> mark_as Forbidden wrapped
               | (ProviderRateLimit, True) \<Rightarrow> mark_as RateLimit wrapped
               | (ProviderPermanent, True) \<Rightarrow> mark_as Validation wrapped
               | _ \<Rightarrow> rest))"

definition coded_target :: "go_error \<Rightarrow> int option" where
  "coded_target n = (case n of Coded c m \<Rightarrow> Some c | _ \<Rightarrow> None)"

fun walk_messages :: "string \<Rightarrow> go_error \<Rightarrow> string"
  and walk_all :: "string \<Rightarrow> go_error list \<Rightarrow> string" where
  "walk_messages b e =
     (let b1 = (if b \<noteq> [] then b @ '' '' else b) @ to_lower (error_string e)
      in (case e of
            Wrapf p u \<Rightarrow> walk_messages b1 u
          | Mark c u \<Rightarrow> walk_messages b1 u
          | RetryAfterHint u d \<Rightarrow> walk_messages b1 u
          | RetryCountHint u n \<Rightarrow> walk_messages b1 u
          | RequestIDHint u i \<Rightarrow> walk_messages b1 u
          | Join us \<Rightarrow> walk_all b1 us
          | _ \<Rightarrow> b1))"
| "walk_all b [] = b"
| "walk_all b (e # es) = walk_all (walk_messages b e) es"

declare walk_messages.simps [simp del]

definition collectErrorMessages :: "go_error \<Rightarrow> string" where
  "collectErrorMessages e = walk_messages [] e"

definition providerKeywordClassifiers :: "(ProviderCategory \<times> string list) list" where
  "providerKeywordClassifiers =
    [(ProviderContextOverflow,
       [''context length exceeded'', ''maximum context length'', ''too many tokens'',
        ''content too large'', ''request too large'', ''payload too large'', ''max_tokens'']),
     (ProviderAuth,
       [''invalid api key'', ''incorrect api key'', ''unauthorized'', ''authentication'',
        ''permission denied'', ''api key not found'', ''invalid_api_key'', ''invalid x-api-key'']),
     (ProviderBilling,
       [''insufficient credits'', ''insufficient credit'', ''billing'', ''payment required'',
        ''quota exceeded'', ''insufficient_quota'', ''no credit'']),
     (ProviderRateLimit,
       [''rate limit'', ''rate_limit'', ''too many requests'', ''overloaded'',
        ''resource_exhausted'', ''at capacity'', ''capacity exceeded'', ''server is busy'',
        ''currently overloaded''])]"

text \<open>The first match of the pattern \<^verbatim>\<open>\b(?:http|status)\s*(\d{3})\b\<close>, as its group.\<close>

definition word_char :: "char \<Rightarrow> bool" where
  "word_char c \<longleftrightarrow> (let n = (of_char c :: nat) in
     (48 \<le> n \<and> n \<le> 57) \<or> (65 \<le> n \<and> n \<le> 90) \<or> n = 95 \<or> (97 \<le> n \<and> n \<le> 122))"

definition re_space :: "char \<Rightarrow> bool" where
  "re_space c \<longleftrightarrow> of_char c \<in> {9, 10, 12, 13, 32 :: nat}"

definition http_code_at :: "string \<Rightarrow> string option" where
  "http_code_at s =
     (let after = (if has_prefix s ''http'' then Some (drop 4 s)
                   else if has_prefix s ''status'' then Some (drop 6 s) else None)
      in (case after of None \<Rightarrow> None
          | Some a \<Rightarrow>
              (let r = dropWhile re_space a; d = take 3 r; t = drop 3 r
               in if length d = 3 \<and> list_all is_digit d \<and> (t = [] \<or> \<not> word_char (hd t))
                  then Some d else None)))"

fun providerHTTPCodePattern :: "char option \<Rightarrow> string \<Rightarrow> string option" where
  "providerHTTPCodePattern prev [] = None"
| "providerHTTPCodePattern prev (c # cs) =
     (case (if (case prev of None \<Rightarrow> True | Some p \<Rightarrow> \<not> word_char p)
            then http_code_at (c # cs) else None) of
        Some d \<Rightarrow> Some d
      | None \<Rightarrow> providerHTTPCodePattern (Some c) cs)"

definition ClassifyProvider :: "err \<Rightarrow> ProviderCategory" where
  "ClassifyProvider err =
     (case err of None \<Rightarrow> ProviderTransient
      | Some e \<Rightarrow>
          (let by_code = (case errors_As coded_target e of
                            None \<Rightarrow> None
                          | Some code \<Rightarrow>
                              (case ProviderCategoryFromHTTPCode code of
                                 (cat, True) \<Rightarrow> Some cat | _ \<Rightarrow> None));
               msg = collectErrorMessages e;
               by_kw = map_option fst
                 (find (\<lambda>(cat, kws). list_ex (contains_str msg) kws) providerKeywordClassifiers);
               by_pat = (case providerHTTPCodePattern None msg of
                           None \<Rightarrow> None
                         | Some d \<Rightarrow>
                             (case atoi d of
                                None \<Rightarrow> None
                              | Some code \<Rightarrow>
                                  (case ProviderCategoryFromHTTPCode code of
                                     (cat, True) \<Rightarrow> Some cat | _ \<Rightarrow> None)))
           in (case by_code of
                 Some cat \<Rightarrow> cat
               | None \<Rightarrow>
                   (case by_kw of
                      Some cat \<Rightarrow> cat
                    | None \<Rightarrow> (case by_pat of Some cat \<Rightarrow> cat | None \<Rightarrow> ProviderTransient)))))"

definition ClassifyProviderError :: "string \<Rightarrow> err \<Rightarrow> err" where
  "ClassifyProviderError provider err =
     (case err of None \<Rightarrow> None
      | Some e \<Rightarrow>
          if HasClassification err then err
          else let wrapped = Some (Wrapf provider e) in
            (case ClassifyProvider err of
               ProviderAuth \<Rightarrow> mark_as Unauthorized wrapped
             | ProviderBilling \<Rightarrow> mark_as Forbidden wrapped
             | ProviderRateLimit \<Rightarrow> mark_as RateLimit wrapped
             | ProviderContextOverflow \<Rightarrow> mark_as Validation wrapped
             | ProviderPermanent \<Rightarrow> mark_as Validation wrapped
             | ProviderTransient \<Rightarrow> mark_as NotAvailable wrapped))"

subsection \<open>Retry hints (\<open>retry.go\<close>)\<close>

definition WithRetryAfter :: "err \<Rightarrow> int \<Rightarrow> err" where
  "WithRetryAfter err d =
     (case err of None \<Rightarrow> None | Some e \<Rightarrow> if d \<le> 0 then err else Some (RetryAfterHint e d))"

definition retry_after_target :: "go_error \<Rightarrow> int option" where
  "retry_after_target n = (case n of RetryAfterHint e d \<Rightarrow> Some d | _ \<Rightarrow> None)"

definition RetryAfter :: "err \<Rightarrow> int \<times> bool" where
  "RetryAfter err =
     (case err of None \<Rightarrow> (0, False)
      | Some e \<Rightarrow> (case errors_As retry_after_target e of
                     Some d \<Rightarrow> (d, d > 0) | None \<Rightarrow> (0, False)))"

text \<open>Durations are nanoseconds: \<open>time.Second\<close> is 1000000000, and the product wraps at 64 bits.\<close>

definition ParseRetryAfter :: "string \<Rightarrow> int" where
  "ParseRetryAfter value =
     (let v = trim_space value in
      if v = [] then 0
      else (case atoi v of
              None \<Rightarrow> 0
            | Some seconds \<Rightarrow> if seconds < 0 then 0 else wrap64 (seconds * 1000000000)))"

definition ParseRetryCount :: "string \<Rightarrow> int" where
  "ParseRetryCount value =
     (let v = trim_space value in
      if v = [] then 0
      else (case atoi v of None \<Rightarrow> 0 | Some n \<Rightarrow> if n < 0 then 0 else n))"

definition WithRetryCount :: "err \<Rightarrow> int \<Rightarrow> err" where
  "WithRetryCount err n =
     (case err of None \<Rightarrow> None | Some e \<Rightarrow> if n \<le> 0 then err else Some (RetryCountHint e n))"

definition RetryCount :: "err \<Rightarrow> int" where
  "RetryCount err =
     (case err of None \<Rightarrow> 0
      | Some e \<Rightarrow>
          (case errors_As (\<lambda>n. case n of RetryCountHint u k \<Rightarrow> Some k | _ \<Rightarrow> None) e of
             Some k \<Rightarrow> k | None \<Rightarrow> 0))"

definition WithRequestID :: "err \<Rightarrow> string \<Rightarrow> err" where
  "WithRequestID err i =
     (case err of None \<Rightarrow> None
      | Some e \<Rightarrow> if trim_space i = [] then err else Some (RequestIDHint e i))"

definition RequestID :: "err \<Rightarrow> string \<times> bool" where
  "RequestID err =
     (case err of None \<Rightarrow> ([], False)
      | Some e \<Rightarrow>
          (case errors_As (\<lambda>n. case n of RequestIDHint u i \<Rightarrow> Some i | _ \<Rightarrow> None) e of
             Some i \<Rightarrow> (i, i \<noteq> []) | None \<Rightarrow> ([], False)))"


subsection \<open>The category a provider category stands for\<close>

definition provider_class :: "ProviderCategory \<Rightarrow> category" where
  "provider_class p =
     (case p of ProviderAuth \<Rightarrow> Unauthorized | ProviderBilling \<Rightarrow> Forbidden
      | ProviderRateLimit \<Rightarrow> RateLimit | ProviderContextOverflow \<Rightarrow> Validation
      | ProviderPermanent \<Rightarrow> Validation | ProviderTransient \<Rightarrow> NotAvailable)"

subsection \<open>Rewriting classifications\<close>

lemma or_else_None [simp]: "or_else None b = b"
  by (simp add: or_else_def)

lemma or_else_Some [simp]: "or_else (Some v) b = Some v"
  by (simp add: or_else_def)

lemma or_else_eq_None [simp]: "or_else a b = None \<longleftrightarrow> a = None \<and> b = None"
  by (cases a) auto

named_theorems err_simps \<open>classification of each error constructor\<close>

lemma Is_None [err_simps]: "Is c None = False"
  by (simp add: Is_def)

lemma Is_Mark [err_simps]: "Is c (Some (Mark c' e)) \<longleftrightarrow> c' = c \<or> Is c (Some e)"
  by (auto simp: Is_def mark_target_def)

lemma Is_leaf [err_simps]:
  "Is c (Some (Plain m)) = False" "Is c (Some DeadlineExceeded) = False"
  "Is c (Some Canceled) = False" "Is c (Some (Coded n m)) = False"
  by (auto simp: Is_def mark_target_def)

lemma Is_wrapper [err_simps]:
  "Is c (Some (Wrapf p e)) = Is c (Some e)"
  "Is c (Some (RetryAfterHint e d)) = Is c (Some e)"
  "Is c (Some (RetryCountHint e n)) = Is c (Some e)"
  "Is c (Some (RequestIDHint e i)) = Is c (Some e)"
  by (auto simp: Is_def mark_target_def)

lemma Is_Join [err_simps]: "Is c (Some (Join es)) \<longleftrightarrow> (\<exists>e \<in> set es. Is c (Some e))"
  by (auto simp: Is_def mark_target_def)

lemma mark_simps [err_simps]: "mark_as c None = None" "mark_as c (Some e) = Some (Mark c e)"
  by (simp_all add: mark_as_def markOrNil_def)

lemma Is_errf [err_simps]: "Is c (Some (errf c' m)) \<longleftrightarrow> c' = c"
  by (simp add: errf_def err_simps)

lemma Is_errf_w [err_simps]: "Is c (Some (errf_w c' m e)) \<longleftrightarrow> c' = c \<or> Is c (Some e)"
  by (simp add: errf_w_def err_simps)

lemma HasClassification_iff: "HasClassification err \<longleftrightarrow> (\<exists>c. Is c err)"
proof
  assume "\<exists>c. Is c err"
  then obtain c where "Is c err" ..
  then show "HasClassification err"
    by (cases c) (auto simp: HasClassification_def)
qed (auto simp: HasClassification_def)

lemma unclassified_mark:
  assumes "\<not> HasClassification (Some e)"
  shows "Is c (mark_as c' (Some e)) \<longleftrightarrow> c = c'"
  using assms by (auto simp: HasClassification_iff err_simps)

lemma HTTPStatus_mark:
  assumes "\<not> HasClassification (Some e)"
  shows "HTTPStatus (mark_as c (Some e)) =
    (case c of NotFound \<Rightarrow> 404 | Validation \<Rightarrow> 400 | Unauthorized \<Rightarrow> 401 | Forbidden \<Rightarrow> 403
     | Conflict \<Rightarrow> 409 | RateLimit \<Rightarrow> 429 | BudgetExceeded \<Rightarrow> 429 | PolicyDenied \<Rightarrow> 403
     | Timeout \<Rightarrow> 504 | NotAvailable \<Rightarrow> 503 | Internal \<Rightarrow> 500 | Interrupted \<Rightarrow> 409
     | Aborted \<Rightarrow> 409)"
  using assms by (cases c) (simp_all add: HTTPStatus_def unclassified_mark, simp_all add: err_simps)

text \<open>The nodes of an error tree: what \<open>errors.As\<close> can reach.\<close>

primrec nodes_of :: "go_error \<Rightarrow> go_error set" where
  "nodes_of (Plain m) = {Plain m}"
| "nodes_of DeadlineExceeded = {DeadlineExceeded}"
| "nodes_of Canceled = {Canceled}"
| "nodes_of (Coded c m) = {Coded c m}"
| "nodes_of (Wrapf p e) = insert (Wrapf p e) (nodes_of e)"
| "nodes_of (Mark c e) = insert (Mark c e) (nodes_of e)"
| "nodes_of (Join es) = insert (Join es) (\<Union> (set (map nodes_of es)))"
| "nodes_of (RetryAfterHint e d) = insert (RetryAfterHint e d) (nodes_of e)"
| "nodes_of (RetryCountHint e n) = insert (RetryCountHint e n) (nodes_of e)"
| "nodes_of (RequestIDHint e i) = insert (RequestIDHint e i) (nodes_of e)"

lemma errors_As_None_iff: "errors_As t e = None \<longleftrightarrow> (\<forall>n \<in> nodes_of e. t n = None)"
  by (induction e) auto

lemma errors_Is_iff: "errors_Is e target \<longleftrightarrow> target \<in> nodes_of e"
  by (auto simp: errors_Is_def errors_As_None_iff)

lemma mark_target_Some: "mark_target c n \<noteq> None \<longleftrightarrow> (\<exists>u. n = Mark c u)"
  by (cases n) (auto simp: mark_target_def)

lemma Is_iff: "Is c (Some e) \<longleftrightarrow> (\<exists>u. Mark c u \<in> nodes_of e)"
  using mark_target_Some by (fastforce simp: Is_def errors_As_None_iff)

lemma nodes_of_self [simp]: "e \<in> nodes_of e"
  by (cases e) auto


lemma ClassifyProviderError_eq:
  "\<not> HasClassification (Some e) \<Longrightarrow>
   ClassifyProviderError p (Some e) =
     Some (Mark (provider_class (ClassifyProvider (Some e))) (Wrapf p e))"
  by (cases "ClassifyProvider (Some e)")
    (simp_all add: ClassifyProviderError_def provider_class_def err_simps)

lemma ClassifyStatus_mark: "\<exists>c. \<forall>err. ClassifyStatus st err = mark_as c err"
  by (auto simp: ClassifyStatus_def)

subsection \<open>Properties\<close>

text \<open>\<open>ClassifyProviderError\<close> gives an unclassified provider error exactly one category, the one
  its provider category dictates, keeps every node of the original chain reachable for
  \<open>errors.Is\<close> and \<open>errors.As\<close>, and is idempotent: a second classification at another
  boundary leaves the first one's result as it is.\<close>

theorem provider_error_classified:
  assumes "\<not> HasClassification (Some e)"
  shows "\<exists>r. ClassifyProviderError p (Some e) = Some r \<and>
    (\<forall>c. Is c (Some r) \<longleftrightarrow> c = provider_class (ClassifyProvider (Some e))) \<and>
    nodes_of e \<subseteq> nodes_of r \<and> ClassifyProviderError q (Some r) = Some r"
proof -
  let ?r = "Mark (provider_class (ClassifyProvider (Some e))) (Wrapf p e)"
  have "HasClassification (Some ?r)"
    by (auto simp: HasClassification_iff err_simps)
  then have "ClassifyProviderError q (Some ?r) = Some ?r"
    by (simp add: ClassifyProviderError_def)
  moreover have "Is c (Some ?r) \<longleftrightarrow> c = provider_class (ClassifyProvider (Some e))" for c
    using assms by (auto simp: HasClassification_iff err_simps)
  ultimately show ?thesis
    using assms by (auto simp: ClassifyProviderError_eq)
qed

theorem provider_error_classified_witness:
  "\<not> HasClassification (Some (Coded 429 ''slow down'')) \<and>
   (\<exists>r. ClassifyProviderError ''openai'' (Some (Coded 429 ''slow down'')) = Some r \<and>
     (\<forall>c. Is c (Some r) \<longleftrightarrow> c = RateLimit) \<and>
     ClassifyProviderError ''router'' (Some r) = Some r)"
proof -
  have h: "\<not> HasClassification (Some (Coded 429 ''slow down''))"
    by (simp add: HasClassification_def err_simps)
  have k: "provider_class (ClassifyProvider (Some (Coded 429 ''slow down''))) = RateLimit"
    by (simp add: ClassifyProvider_def coded_target_def ProviderCategoryFromHTTPCode_def
        provider_class_def)
  show ?thesis
    using h provider_error_classified [OF h, of "''openai''" "''router''"] by (auto simp: k)
qed

text \<open>The forward and the reverse status mapping agree: the category \<open>ClassifyStatus\<close> gives an
  unclassified cause is the category \<open>HTTPStatus\<close> reports for it, so mapping a provider status to
  an error, the error to the wire status and that status back yields the same error value.\<close>

theorem classify_status_roundtrip:
  assumes "\<not> HasClassification (Some e)"
  shows "ClassifyStatus (HTTPStatus (ClassifyStatus st (Some e))) (Some e) = ClassifyStatus st (Some e)"
proof -
  note hs = HTTPStatus_mark [OF assms]
  consider "st \<in> {400, 404, 405, 422}" | "st = 401" | "st \<in> {402, 403}" | "st = 409" | "st = 429"
    | "st \<in> {408, 504}" | "st \<notin> {400, 401, 402, 403, 404, 405, 408, 409, 422, 429, 504}"
    by auto
  then show ?thesis
    by cases (auto simp: ClassifyStatus_def hs)
qed

theorem classify_status_roundtrip_witness:
  "\<not> HasClassification (Some (Plain ''boom'')) \<and>
   ClassifyStatus (HTTPStatus (ClassifyStatus 408 (Some (Plain ''boom'')))) (Some (Plain ''boom''))
     = Some (Mark Timeout (Plain ''boom''))"
proof -
  have h: "\<not> HasClassification (Some (Plain ''boom''))"
    by (simp add: HasClassification_def err_simps)
  show ?thesis
    using h classify_status_roundtrip [OF h, of 408] by (simp add: ClassifyStatus_def err_simps)
qed

text \<open>The two status classifiers agree on a non-2xx code exactly when it is one of the mapped client
  codes or a 5xx code other than 504; the comment on \<open>ClassifyStatus\<close> says they apply the same
  mapping, but 408, 409, 504 and every unmapped 4xx code are classified differently.\<close>

theorem status_classifiers_agree_iff:
  assumes "400 \<le> code"
  shows "(\<forall>c. Is c (ClassifyHTTPStatus p code b) = Is c (ClassifyStatus code (Some (Plain m)))) \<longleftrightarrow>
    code \<in> {400, 401, 402, 403, 404, 405, 422, 429} \<or> (500 \<le> code \<and> code \<noteq> 504)"
proof -
  have eq: "(\<forall>c. Is c (mark_as c1 (Some (Plain m1))) = Is c (mark_as c2 (Some (Plain m2)))) \<longleftrightarrow> c1 = c2"
    for c1 c2 m1 m2
    by (auto simp: err_simps)
  consider "code \<in> {400, 401, 402, 403, 404, 405, 422, 429}" | "code \<in> {408, 409}" | "code = 504"
    | "500 \<le> code" "code \<noteq> 504"
    | "code < 500" "code \<notin> {400, 401, 402, 403, 404, 405, 408, 409, 422, 429}"
    by fastforce
  then show ?thesis
    using assms
    by cases (auto simp: ClassifyHTTPStatus_def ClassifyStatus_def ProviderCategoryFromHTTPCode_def
        eq Let_def)
qed

theorem status_classifiers_agree_iff_witness:
  "\<not> (\<forall>c. Is c (ClassifyHTTPStatus ''p'' 409 []) = Is c (ClassifyStatus 409 (Some (Plain ''m'')))) \<and>
   (\<forall>c. Is c (ClassifyHTTPStatus ''p'' 503 []) = Is c (ClassifyStatus 503 (Some (Plain ''m''))))"
  using status_classifiers_agree_iff [of 409 "''p''" "[]" "''m''"]
    status_classifiers_agree_iff [of 503 "''p''" "[]" "''m''"]
  by simp

text \<open>\<open>ParseRetryAfter\<close> reads a decimal number of seconds exactly as long as the product with
  \<open>time.Second\<close> fits 64 bits, and its result is then non-negative; past that bound the product
  wraps, and the documented non-negative result fails (9223372037 seconds gives a negative
  duration).\<close>

theorem parse_retry_after_exact:
  assumes "atoi (trim_space v) = Some n" "0 \<le> n" "trim_space v \<noteq> []"
  shows "(ParseRetryAfter v = n * 1000000000 \<longleftrightarrow> n \<le> 9223372036) \<and>
    (n = 9223372037 \<longrightarrow> ParseRetryAfter v < 0)"
proof -
  have p: "ParseRetryAfter v = wrap64 (n * 1000000000)"
    using assms by (simp add: ParseRetryAfter_def)
  show ?thesis
  proof (cases "n \<le> 9223372036")
    case True
    with assms(2) have "int64 (n * 1000000000)" by (simp add: int64_def)
    with p True show ?thesis by simp
  next
    case False
    then have "\<not> int64 (n * 1000000000)" by (simp add: int64_def)
    then have "wrap64 (n * 1000000000) \<noteq> n * 1000000000"
      using wrap64_range by metis
    then show ?thesis using p False by (auto simp: wrap64_def)
  qed
qed

theorem parse_retry_after_exact_witness:
  "ParseRetryAfter '' 30 '' = 30000000000 \<and> ParseRetryAfter ''9223372037'' < 0"
proof -
  have a: "atoi (trim_space '' 30 '') = Some 30" "trim_space '' 30 '' \<noteq> []"
    by code_simp+
  have b: "atoi (trim_space ''9223372037'') = Some 9223372037" "trim_space ''9223372037'' \<noteq> []"
    by code_simp+
  show ?thesis
    using parse_retry_after_exact [of "'' 30 ''" 30, OF a(1) _ a(2)]
      parse_retry_after_exact [of "''9223372037''" 9223372037, OF b(1) _ b(2)] by simp
qed

end
