(* ===== verification/Event_Subject.thy ===== *)
theory Event_Subject
  imports Prelude
begin

text \<open>
  Routing keys of the event bus, \<open>core/event/subject.go\<close>: validation of subjects and patterns,
  the segment matcher shared by \<open>Pattern.Matches\<close> and the bus, and the producer kind. The
  matcher's index loop is proved equal to an inductive reading of the wildcard rules.
\<close>

datatype subject_error =
  EmptyLiteral
| TooLong nat
| EdgeDot
| EmptySegment nat
| WildcardInSubject nat
| TrailNotLast
| PartialWildcard

definition subjectMaxBytes :: nat where
  "subjectMaxBytes = 1024"

definition splitSubject :: "string \<Rightarrow> string list" where
  "splitSubject s = split_on CHR ''.'' s"

text \<open>The segment loop of \<open>Subject.Validate\<close>; \<open>i\<close> is the index of the first segment.\<close>

fun subject_segs :: "nat \<Rightarrow> string list \<Rightarrow> subject_error option" where
  "subject_segs i [] = None"
| "subject_segs i (seg # segs) =
     (if seg = [] then Some (EmptySegment i)
      else if contains_any seg ''*>'' then Some (WildcardInSubject i)
      else subject_segs (Suc i) segs)"

definition Subject_Validate :: "string \<Rightarrow> subject_error option" where
  "Subject_Validate s =
     (if s = [] then Some EmptyLiteral
      else if length s > subjectMaxBytes then Some (TooLong (length s))
      else if has_prefix s ''.'' \<or> has_suffix s ''.'' then Some EdgeDot
      else subject_segs 0 (split_on CHR ''.'' s))"

text \<open>The segment loop of \<open>Pattern.Validate\<close>; \<open>n\<close> is the number of segments of the pattern.\<close>

fun pattern_segs :: "nat \<Rightarrow> nat \<Rightarrow> string list \<Rightarrow> subject_error option" where
  "pattern_segs n i [] = None"
| "pattern_segs n i (seg # segs) =
     (if seg = [] then Some (EmptySegment i)
      else if seg = ''>'' then
        (if i \<noteq> n - 1 then Some TrailNotLast else pattern_segs n (Suc i) segs)
      else if seg = ''*'' then pattern_segs n (Suc i) segs
      else if contains_any seg ''*>'' then Some PartialWildcard
      else pattern_segs n (Suc i) segs)"

definition Pattern_Validate :: "string \<Rightarrow> subject_error option" where
  "Pattern_Validate p =
     (if p = [] then Some EmptyLiteral
      else if length p > subjectMaxBytes then Some (TooLong (length p))
      else if has_prefix p ''.'' \<or> has_suffix p ''.'' then Some EdgeDot
      else let segs = split_on CHR ''.'' p in pattern_segs (length segs) 0 segs)"

text \<open>The loop of \<open>matchSegs\<close> from index \<open>i\<close>: \<open>last\<close> and the lengths are those of the whole
  slices, so the pattern's remaining segments are what the range clause still has to visit.\<close>

fun match_loop :: "nat \<Rightarrow> string list \<Rightarrow> nat \<Rightarrow> string list \<Rightarrow> bool" where
  "match_loop n sSegs i [] \<longleftrightarrow> n = length sSegs"
| "match_loop n sSegs i (pSeg # rest) \<longleftrightarrow>
     (if pSeg = ''>'' \<and> i = n - 1 then length sSegs \<ge> i + 1
      else if i \<ge> length sSegs then False
      else if pSeg = ''*'' then match_loop n sSegs (Suc i) rest
      else if pSeg \<noteq> sSegs ! i then False
      else match_loop n sSegs (Suc i) rest)"

definition matchSegs :: "string list \<Rightarrow> string list \<Rightarrow> bool" where
  "matchSegs pSegs sSegs = match_loop (length pSegs) sSegs 0 pSegs"

definition Matches :: "string \<Rightarrow> string \<Rightarrow> bool" where
  "Matches p s =
     (if p = [] \<or> s = [] then False else matchSegs (splitSubject p) (splitSubject s))"

definition ProducerKind :: "string \<Rightarrow> string" where
  "ProducerKind subj =
     (if subj = [] then []
      else (case index_byte subj CHR ''.'' of
              Some i \<Rightarrow> if i > 0 then take i subj else []
            | None \<Rightarrow> []))"

subsection \<open>The wildcard rules\<close>

text \<open>What the documentation of \<open>Pattern\<close> promises, segment by segment: a literal matches itself,
  \<^verbatim>\<open>*\<close> any one segment, a final \<^verbatim>\<open>>\<close> one or more.\<close>

inductive seg_match :: "string list \<Rightarrow> string list \<Rightarrow> bool" where
  match_nil: "seg_match [] []"
| match_lit: "seg_match ps ss \<Longrightarrow> seg_match (w # ps) (w # ss)"
| match_one: "seg_match ps ss \<Longrightarrow> seg_match (''*'' # ps) (w # ss)"
| match_trail: "ss \<noteq> [] \<Longrightarrow> seg_match [''>''] ss"

inductive_simps seg_match_Nil [simp]: "seg_match [] ss"
inductive_simps seg_match_Cons_Nil [simp]: "seg_match (p # ps) []"
inductive_simps seg_match_Cons_Cons: "seg_match (p # ps) (s # ss)"

definition valid_word :: "string \<Rightarrow> bool" where
  "valid_word w \<longleftrightarrow> w \<noteq> [] \<and> CHR ''*'' \<notin> set w \<and> CHR ''>'' \<notin> set w"

subsection \<open>Lemmas\<close>

lemma match_loop_seg_match:
  assumes "n = i + length ps" "i \<le> length sSegs"
  shows "match_loop n sSegs i ps \<longleftrightarrow> seg_match ps (drop i sSegs)"
  using assms
proof (induction ps arbitrary: i)
  case Nil
  then show ?case by auto
next
  case (Cons p ps)
  show ?case
  proof (cases "i < length sSegs")
    case True
    then have d: "drop i sSegs = sSegs ! i # drop (Suc i) sSegs"
      by (simp add: Cons_nth_drop_Suc)
    have IH: "match_loop n sSegs (Suc i) ps \<longleftrightarrow> seg_match ps (drop (Suc i) sSegs)"
      using Cons True by simp
    show ?thesis
      using Cons.prems True IH by (auto simp: d seg_match_Cons_Cons)
  qed (use Cons.prems in auto)
qed

lemma match_trail_iff: "seg_match [''>''] ss \<longleftrightarrow> ss \<noteq> []"
  by (cases ss) (auto intro: match_trail)

lemma subject_segs_None: "subject_segs i segs = None \<longleftrightarrow> (\<forall>w \<in> set segs. valid_word w)"
proof (induction segs arbitrary: i)
  case (Cons w ws)
  have "valid_word w \<longleftrightarrow> w \<noteq> [] \<and> \<not> contains_any w ''*>''"
    by (auto simp: valid_word_def contains_any_iff)
  with Cons show ?case by simp
qed simp

lemma edge_dot_split:
  assumes "has_prefix s ''.'' \<or> has_suffix s ''.''"
  shows "[] \<in> set (split_on CHR ''.'' s)"
proof -
  from assms consider (pre) t where "s = CHR ''.'' # t" | (suf) t where "s = t @ [CHR ''.'']"
    by (auto simp: has_prefix_iff has_suffix_iff)
  then show ?thesis
  proof cases
    case pre
    then show ?thesis by simp
  next
    case suf
    then show ?thesis by (simp add: split_on_append_sep)
  qed
qed

lemma Subject_Validate_iff:
  "Subject_Validate s = None \<longleftrightarrow>
     length s \<le> subjectMaxBytes \<and> (\<forall>w \<in> set (splitSubject s). valid_word w)"
proof -
  have "[] \<notin> set (split_on CHR ''.'' s)" if "\<forall>w \<in> set (split_on CHR ''.'' s). valid_word w"
    using that by (auto simp: valid_word_def)
  then show ?thesis
    using edge_dot_split [of s]
    by (auto simp: Subject_Validate_def subject_segs_None splitSubject_def valid_word_def)
qed

lemma valid_segs_pattern:
  assumes "\<forall>w \<in> set segs. valid_word w"
  shows "pattern_segs n i segs = None"
  using assms
proof (induction segs arbitrary: i)
  case (Cons w ws)
  then have "valid_word w" by simp
  then have "w \<noteq> []" "w \<noteq> ''>''" "w \<noteq> ''*''" "\<not> contains_any w ''*>''"
    by (auto simp: valid_word_def contains_any_iff)
  with Cons show ?case by simp
qed simp

lemma seg_match_literal:
  assumes "\<forall>w \<in> set ps. valid_word w"
  shows "seg_match ps ss \<longleftrightarrow> ps = ss"
  using assms
proof (induction ps arbitrary: ss)
  case (Cons w ws)
  then show ?case
    by (cases ss) (auto simp: seg_match_Cons_Cons valid_word_def)
qed auto

lemma seg_match_star_all: "ps \<noteq> [] \<Longrightarrow> seg_match (ps @ [''>'']) ss \<Longrightarrow> length ps < length ss"
proof (induction ps arbitrary: ss)
  case (Cons p ps)
  then show ?case
    by (cases ss; cases "ps = []") (auto simp: seg_match_Cons_Cons match_trail_iff neq_Nil_conv)
qed simp

lemma seg_match_prefix_trail:
  assumes "\<forall>w \<in> set ps. valid_word w"
  shows "seg_match (ps @ [''>'']) ss \<longleftrightarrow> (\<exists>t. t \<noteq> [] \<and> ss = ps @ t)"
  using assms
proof (induction ps arbitrary: ss)
  case Nil
  then show ?case by (simp add: match_trail_iff)
next
  case (Cons w ws)
  then show ?case
    by (cases ss) (auto simp: seg_match_Cons_Cons valid_word_def)
qed

lemma splitSubject_inject: "splitSubject s = splitSubject t \<Longrightarrow> s = t"
  unfolding splitSubject_def by (metis join_split)

subsection \<open>Properties\<close>

text \<open>C34. The index loop of \<open>matchSegs\<close> decides exactly the wildcard rules, for every pattern and
  every subject, malformed ones included (a \<^verbatim>\<open>>\<close> before the end is a literal).\<close>

theorem matchSegs_iff: "matchSegs pSegs sSegs \<longleftrightarrow> seg_match pSegs sSegs"
  using match_loop_seg_match [of "length pSegs" 0 pSegs sSegs] by (simp add: matchSegs_def)

text \<open>A well-formed subject is also a well-formed pattern, and as a pattern it selects that subject
  and nothing else; followed by a trailing wildcard it selects exactly the subjects below it.\<close>

theorem subject_as_pattern:
  assumes "Subject_Validate s = None"
  shows "Pattern_Validate s = None \<and> (\<forall>t. t \<noteq> [] \<longrightarrow> (Matches s t \<longleftrightarrow> t = s)) \<and>
    (\<forall>t. t \<noteq> [] \<longrightarrow> (Matches (s @ ''.>'') t \<longleftrightarrow>
      (\<exists>below. below \<noteq> [] \<and> splitSubject t = splitSubject s @ below)))"
proof -
  have v: "\<forall>w \<in> set (splitSubject s). valid_word w" and len: "length s \<le> subjectMaxBytes"
    using assms by (simp_all add: Subject_Validate_iff)
  have ne: "s \<noteq> []" using assms by (auto simp: Subject_Validate_def)
  have edge: "\<not> (has_prefix s ''.'' \<or> has_suffix s ''.'')"
    using edge_dot_split [of s] v by (auto simp: splitSubject_def valid_word_def)
  have "Pattern_Validate s = None"
    using v len ne edge valid_segs_pattern by (simp add: Pattern_Validate_def splitSubject_def Let_def)
  moreover have "Matches s t \<longleftrightarrow> t = s" if "t \<noteq> []" for t
    using that ne v seg_match_literal [OF v] splitSubject_inject
    by (auto simp: Matches_def matchSegs_def match_loop_seg_match)
  moreover have "splitSubject (s @ ''.>'') = splitSubject s @ [''>'']"
    using split_on_append_sep [of "CHR ''.''" s "''>''"] by (simp add: splitSubject_def)
  then have "Matches (s @ ''.>'') t \<longleftrightarrow>
      (\<exists>below. below \<noteq> [] \<and> splitSubject t = splitSubject s @ below)" if "t \<noteq> []" for t
    using that v by (simp add: Matches_def matchSegs_def match_loop_seg_match seg_match_prefix_trail)
  ultimately show ?thesis by blast
qed

theorem subject_as_pattern_witness:
  "Subject_Validate ''graph.run.r1'' = None \<and> Matches ''graph.run.r1'' ''graph.run.r1'' \<and>
   \<not> Matches ''graph.run.r1'' ''graph.run.r2'' \<and>
   Matches ''graph.run.r1.>'' ''graph.run.r1.node.n1'' \<and> \<not> Matches ''graph.run.r1.>'' ''graph.run.r1''"
proof -
  have h: "Subject_Validate ''graph.run.r1'' = None"
    by code_simp
  show ?thesis
    using h subject_as_pattern [OF h] by (auto simp: splitSubject_def)
qed

end
