(* ===== verification/Agent_Board.thy ===== *)
theory Agent_Board
  imports Errdefs "HOL-Library.Finite_Map"
begin

text \<open>
  The execution blackboard of \<open>core/agent/board.go\<close> and its write history, the deltas of
  \<open>core/agent/board_delta.go\<close>. Go maps are finite maps. The nil slice and an empty slice are
  told apart (\<open>Nil_slice\<close>, \<open>Slice []\<close>), because a delta reads a nil replacement as "the
  channel is gone". Values are immutable here: deep copies are the identity, and what sharing
  between a board and its shallow clone can do is outside the model. The write counter counts
  below \<open>2 ^ 64\<close> and is a natural number; a part of a message is its encoding.
\<close>

subsection \<open>Messages and values\<close>

datatype Role = RoleSystem | RoleUser | RoleAssistant | RoleTool

record Message =
  mrole :: Role
  mparts :: "string list"

datatype 'a slice = Nil_slice | Slice "'a list"

fun elems :: "'a slice \<Rightarrow> 'a list" where
  "elems Nil_slice = []"
| "elems (Slice xs) = xs"

abbreviation slen :: "'a slice \<Rightarrow> nat" where
  "slen s \<equiv> length (elems s)"

text \<open>\<open>append(s, xs...)\<close> and \<open>s[n:]\<close>.\<close>

fun append_slice :: "'a slice \<Rightarrow> 'a list \<Rightarrow> 'a slice" where
  "append_slice s [] = s"
| "append_slice s xs = Slice (elems s @ xs)"

fun drop_slice :: "nat \<Rightarrow> 'a slice \<Rightarrow> 'a slice" where
  "drop_slice n Nil_slice = Nil_slice"
| "drop_slice n (Slice xs) = Slice (drop n xs)"

definition CloneMessages :: "Message slice \<Rightarrow> Message slice" where
  "CloneMessages msgs = (case msgs of Nil_slice \<Rightarrow> Nil_slice | Slice ms \<Rightarrow> Slice (map id ms))"

text \<open>The values of a board var: JSON-like data, message lists, and \<open>VOpaque\<close> for what
  implements \<open>Cloneable\<close> or goes through reflection.\<close>

datatype val =
  VNil | VString string | VInt int | VBool bool
| VList "val list"
| VMap "(string, val) fmap"
| VMsgs "Message slice"
| VOpaque string

primrec deepCopyValue :: "val \<Rightarrow> val" where
  "deepCopyValue VNil = VNil"
| "deepCopyValue (VString s) = VString s"
| "deepCopyValue (VInt i) = VInt i"
| "deepCopyValue (VBool b) = VBool b"
| "deepCopyValue (VList vs) = VList (map deepCopyValue vs)"
| "deepCopyValue (VMap m) = VMap (fmmap deepCopyValue m)"
| "deepCopyValue (VMsgs ms) = VMsgs (CloneMessages ms)"
| "deepCopyValue (VOpaque s) = VOpaque s"

definition deepCopyVars :: "(string, val) fmap \<Rightarrow> (string, val) fmap" where
  "deepCopyVars src = fmmap deepCopyValue src"

subsection \<open>The board\<close>

definition MainChannel :: string where
  "MainChannel = ''__main_channel''"

record Board =
  channels :: "(string, Message slice) fmap"
  vars :: "(string, val) fmap"
  seqno :: nat
  varSeq :: "(string, nat) fmap"
  chanSeq :: "(string, nat) fmap"

record BoardSnapshot =
  sVars :: "(string, val) fmap"
  sChannels :: "(string, Message slice) fmap"

definition NewBoard :: Board where
  "NewBoard = \<lparr>channels = fmap_of_list [(MainChannel, Slice [])], vars = fmempty, seqno = 0,
     varSeq = fmempty, chanSeq = fmempty\<rparr>"

definition Clone :: "Board \<Rightarrow> Board" where
  "Clone b = \<lparr>channels = fmmap CloneMessages (channels b), vars = vars b, seqno = seqno b,
     varSeq = varSeq b, chanSeq = chanSeq b\<rparr>"

definition noteVarWriteLocked :: "string \<Rightarrow> Board \<Rightarrow> Board" where
  "noteVarWriteLocked key b =
     b\<lparr>seqno := Suc (seqno b), varSeq := fmupd key (Suc (seqno b)) (varSeq b)\<rparr>"

definition noteChannelReplaceLocked :: "string \<Rightarrow> Board \<Rightarrow> Board" where
  "noteChannelReplaceLocked name b =
     b\<lparr>seqno := Suc (seqno b), chanSeq := fmupd name (Suc (seqno b)) (chanSeq b)\<rparr>"

definition SetVar :: "string \<Rightarrow> val \<Rightarrow> Board \<Rightarrow> Board" where
  "SetVar key v b = noteVarWriteLocked key (b\<lparr>vars := fmupd key v (vars b)\<rparr>)"

definition DeleteVar :: "string \<Rightarrow> Board \<Rightarrow> Board" where
  "DeleteVar key b = noteVarWriteLocked key (b\<lparr>vars := fmdrop key (vars b)\<rparr>)"

definition Var :: "Board \<Rightarrow> string \<Rightarrow> val option" where
  "Var b key = fmlookup (vars b) key"

definition VarString :: "Board \<Rightarrow> string \<Rightarrow> string" where
  "VarString b key = (case fmlookup (vars b) key of Some (VString s) \<Rightarrow> s | _ \<Rightarrow> [])"

definition AppendSliceVar :: "string \<Rightarrow> val \<Rightarrow> Board \<Rightarrow> go_error + Board" where
  "AppendSliceVar key v b =
     (case fmlookup (vars b) key of
        None \<Rightarrow> Inr (noteVarWriteLocked key (b\<lparr>vars := fmupd key (VList [v]) (vars b)\<rparr>))
      | Some (VList vs) \<Rightarrow>
          Inr (noteVarWriteLocked key (b\<lparr>vars := fmupd key (VList (vs @ [v])) (vars b)\<rparr>))
      | Some _ \<Rightarrow> Inl (errf Validation ''agent.Board: var is not []any''))"

text \<open>The range loop of \<open>UpdateSliceVarItem\<close>: the first matching item is replaced.\<close>

fun update_first :: "(val \<Rightarrow> bool) \<Rightarrow> (val \<Rightarrow> val) \<Rightarrow> val list \<Rightarrow> val list option" where
  "update_first match upd [] = None"
| "update_first match upd (x # xs) =
     (if match x then Some (upd x # xs) else map_option ((#) x) (update_first match upd xs))"

definition UpdateSliceVarItem :: "string \<Rightarrow> (val \<Rightarrow> bool) \<Rightarrow> (val \<Rightarrow> val) \<Rightarrow> Board \<Rightarrow> Board" where
  "UpdateSliceVarItem key match upd b =
     (case fmlookup (vars b) key of
        Some (VList vs) \<Rightarrow>
          (case update_first match upd vs of
             None \<Rightarrow> b
           | Some vs' \<Rightarrow> noteVarWriteLocked key (b\<lparr>vars := fmupd key (VList vs') (vars b)\<rparr>))
      | _ \<Rightarrow> b)"

text \<open>\<open>b.channels[name]\<close>: a missing key reads as the nil slice.\<close>

definition chan :: "Board \<Rightarrow> string \<Rightarrow> Message slice" where
  "chan b name = (case fmlookup (channels b) name of None \<Rightarrow> Nil_slice | Some s \<Rightarrow> s)"

definition Channel :: "Board \<Rightarrow> string \<Rightarrow> Message slice" where
  "Channel b name = (if slen (chan b name) = 0 then Nil_slice else CloneMessages (chan b name))"

definition ChannelLen :: "Board \<Rightarrow> string \<Rightarrow> nat" where
  "ChannelLen b name = slen (chan b name)"

definition LastMessage :: "Board \<Rightarrow> string \<Rightarrow> Message option" where
  "LastMessage b name =
     (let ms = elems (chan b name) in if length ms = 0 then None else Some (ms ! (length ms - 1)))"

definition ChannelTail :: "Board \<Rightarrow> string \<Rightarrow> int \<Rightarrow> Message slice" where
  "ChannelTail b name count =
     (let s = chan b name; n = slen s in
      if count \<le> 0 \<or> n = 0 then Nil_slice
      else CloneMessages (if count < int n then drop_slice (n - nat count) s else s))"

definition ChannelView :: "Board \<Rightarrow> string \<Rightarrow> Message slice" where
  "ChannelView b name =
     (if slen (chan b name) = 0 then Nil_slice else Slice (elems (chan b name)))"

definition SetChannel :: "string \<Rightarrow> Message slice \<Rightarrow> Board \<Rightarrow> Board" where
  "SetChannel name msgs b =
     noteChannelReplaceLocked name (b\<lparr>channels := fmupd name (CloneMessages msgs) (channels b)\<rparr>)"

definition AppendChannelMessages :: "string \<Rightarrow> Message list \<Rightarrow> Board \<Rightarrow> Board" where
  "AppendChannelMessages name msgs b =
     (if msgs = [] then b
      else b\<lparr>channels := fmupd name (append_slice (chan b name) msgs) (channels b)\<rparr>)"

definition AppendChannelMessage :: "string \<Rightarrow> Message \<Rightarrow> Board \<Rightarrow> Board" where
  "AppendChannelMessage name msg b = AppendChannelMessages name [msg] b"

definition PopChannelMessage :: "string \<Rightarrow> Board \<Rightarrow> Board \<times> Message option" where
  "PopChannelMessage name b =
     (let ms = elems (chan b name) in
      if length ms = 0 then (b, None)
      else (noteChannelReplaceLocked name
              (b\<lparr>channels := fmupd name (Slice (take (length ms - 1) ms)) (channels b)\<rparr>),
            Some (ms ! (length ms - 1))))"

definition ChannelsCopy :: "Board \<Rightarrow> (string, Message slice) fmap" where
  "ChannelsCopy b = fmmap CloneMessages (channels b)"

definition Snapshot :: "Board \<Rightarrow> BoardSnapshot" where
  "Snapshot b = \<lparr>sVars = deepCopyVars (vars b), sChannels = fmmap CloneMessages (channels b)\<rparr>"

definition snapshot_channels :: "BoardSnapshot \<Rightarrow> (string, Message slice) fmap" where
  "snapshot_channels snap =
     (if sChannels snap \<noteq> fmempty then fmmap CloneMessages (sChannels snap)
      else fmap_of_list [(MainChannel, Slice [])])"

definition RestoreBoard :: "BoardSnapshot option \<Rightarrow> Board" where
  "RestoreBoard snap =
     (case snap of
        None \<Rightarrow> NewBoard
      | Some s \<Rightarrow> \<lparr>channels = snapshot_channels s, vars = deepCopyVars (sVars s), seqno = 0,
                   varSeq = fmempty, chanSeq = fmempty\<rparr>)"

text \<open>\<open>noteRestoreLocked\<close>: every installed and every removed var is stamped, but of the channels
  only those installed; \<open>previous\<close> is the replaced var map.\<close>

definition noteRestoreLocked :: "(string, val) fmap \<Rightarrow> Board \<Rightarrow> Board" where
  "noteRestoreLocked previous b =
     (let s = Suc (seqno b) in
      b\<lparr>seqno := s,
        varSeq := varSeq b ++\<^sub>f fmmap (\<lambda>_. s) (vars b)
          ++\<^sub>f fmmap (\<lambda>_. s) (fmfilter (\<lambda>k. fmlookup (vars b) k = None) previous),
        chanSeq := chanSeq b ++\<^sub>f fmmap (\<lambda>_. s) (channels b)\<rparr>)"

definition RestoreFrom :: "BoardSnapshot option \<Rightarrow> Board \<Rightarrow> Board" where
  "RestoreFrom snap b =
     (case snap of
        None \<Rightarrow> b
      | Some s \<Rightarrow>
          noteRestoreLocked (vars b)
            (b\<lparr>vars := deepCopyVars (sVars s), channels := snapshot_channels s\<rparr>))"

subsection \<open>Marks and deltas\<close>

record BoardMark =
  mseq :: nat
  mchannels :: "(string, nat) fmap"

record BoardDelta =
  dvars :: "(string, val) fmap"
  removed :: "string list"
  appends :: "(string, Message slice) fmap"
  replaced :: "(string, Message slice) fmap"

definition Board_Mark :: "Board \<Rightarrow> BoardMark" where
  "Board_Mark b = \<lparr>mseq = seqno b, mchannels = fmmap slen (channels b)\<rparr>"

text \<open>Reading a counter map: a missing key is 0.\<close>

definition fmget :: "(string, nat) fmap \<Rightarrow> string \<Rightarrow> nat" where
  "fmget m k = (case fmlookup m k of None \<Rightarrow> 0 | Some n \<Rightarrow> n)"

definition sorted_keys :: "string fset \<Rightarrow> string list" where
  "sorted_keys ks = sorted_list_of_fset ks"

definition Since :: "Board \<Rightarrow> BoardMark \<Rightarrow> BoardDelta" where
  "Since b mk =
     (let written = (\<lambda>k. fmget (varSeq b) k > mseq mk);
          rewritten = (\<lambda>c. fmget (chanSeq b) c > mseq mk);
          base = fmget (mchannels mk)
      in \<lparr>dvars = fmfilter written (vars b),
          removed = sorted_keys
            (ffilter (\<lambda>k. written k \<and> fmlookup (vars b) k = None) (fmdom (varSeq b))),
          appends = fmmap_keys (\<lambda>c ms. drop_slice (base c) ms)
            (fmfilter (\<lambda>c. \<not> rewritten c \<and> slen (chan b c) > base c) (channels b)),
          replaced = fmfilter rewritten (channels b)
            ++\<^sub>f fmmap (\<lambda>_. Nil_slice)
                  (fmfilter (\<lambda>c. fmlookup (channels b) c = None) (mchannels mk))\<rparr>)"

definition SinceMark :: "Board \<Rightarrow> BoardMark \<Rightarrow> BoardDelta \<times> BoardMark" where
  "SinceMark b mk = (Since b mk, Board_Mark b)"

definition continuesChannel :: "Message slice \<Rightarrow> Message slice \<Rightarrow> bool" where
  "continuesChannel base next =
     (let bs = elems base; ns = elems next in
      if length bs = 0 then True
      else if length ns < length bs then False
      else if bs ! 0 \<noteq> ns ! 0 then False
      else bs ! (length bs - 1) = ns ! (length bs - 1))"

definition fmchan :: "(string, Message slice) fmap \<Rightarrow> string \<Rightarrow> Message slice" where
  "fmchan m c = (case fmlookup m c of None \<Rightarrow> Nil_slice | Some s \<Rightarrow> s)"

text \<open>\<open>SnapshotDelta(base, next)\<close> with both snapshots present.\<close>

definition SnapshotDelta :: "BoardSnapshot \<Rightarrow> BoardSnapshot \<Rightarrow> BoardDelta" where
  "SnapshotDelta base next =
     (let bs = fmchan (sChannels base); ns = fmchan (sChannels next);
          grew = (\<lambda>c. slen (ns c) > slen (bs c) \<and> continuesChannel (bs c) (ns c));
          same = (\<lambda>c. slen (ns c) = slen (bs c) \<and> continuesChannel (bs c) (ns c))
      in \<lparr>dvars = fmfilter (\<lambda>k. fmlookup (sVars base) k \<noteq> fmlookup (sVars next) k) (sVars next),
          removed = sorted_keys
            (ffilter (\<lambda>k. fmlookup (sVars next) k = None) (fmdom (sVars base))),
          appends = fmmap_keys (\<lambda>c ms. drop_slice (slen (bs c)) ms)
            (fmfilter grew (sChannels next)),
          replaced = fmmap (\<lambda>_. Nil_slice)
              (fmfilter (\<lambda>c. fmlookup (sChannels next) c = None) (sChannels base))
            ++\<^sub>f fmfilter (\<lambda>c. \<not> grew c \<and> \<not> same c) (sChannels next)\<rparr>)"

definition Delta_Empty :: "BoardDelta \<Rightarrow> bool" where
  "Delta_Empty d \<longleftrightarrow> dvars d = fmempty \<and> removed d = [] \<and> appends d = fmempty \<and> replaced d = fmempty"

text \<open>The four loops shared by \<open>ApplyToSnapshot\<close> and \<open>applyDeltaLocked\<close>, on the var map and on the
  channel map. A nil replacement deletes the channel.\<close>

definition apply_vars :: "BoardDelta \<Rightarrow> (string, val) fmap \<Rightarrow> (string, val) fmap" where
  "apply_vars d m = fmdrop_set (set (removed d)) m ++\<^sub>f fmmap deepCopyValue (dvars d)"

definition apply_replaced ::
  "(string, Message slice) fmap \<Rightarrow> (string, Message slice) fmap \<Rightarrow> (string, Message slice) fmap" where
  "apply_replaced r m =
     fmfilter (\<lambda>c. fmlookup r c \<noteq> Some Nil_slice) (m ++\<^sub>f fmmap CloneMessages r)"

definition apply_appends ::
  "(string, Message slice) fmap \<Rightarrow> (string, Message slice) fmap \<Rightarrow> (string, Message slice) fmap" where
  "apply_appends a m =
     m ++\<^sub>f fmmap_keys (\<lambda>c ms. append_slice (fmchan m c) (elems ms))
           (fmfilter (\<lambda>c. slen (fmchan a c) \<noteq> 0) a)"

definition ApplyToSnapshot :: "BoardDelta \<Rightarrow> BoardSnapshot \<Rightarrow> BoardSnapshot" where
  "ApplyToSnapshot d snap =
     \<lparr>sVars = apply_vars d (sVars snap),
      sChannels = apply_appends (appends d) (apply_replaced (replaced d) (sChannels snap))\<rparr>"

text \<open>\<open>applyDeltaLocked\<close>: the same writes on a board, each var write and each replacement stamped
  in turn; the maps are walked in the orders \<open>vs\<close> and \<open>cs\<close>.\<close>

definition applyDeltaLocked :: "string list \<Rightarrow> string list \<Rightarrow> BoardDelta \<Rightarrow> Board \<Rightarrow> Board" where
  "applyDeltaLocked vs cs d b =
     (let b1 = fold (\<lambda>key b. noteVarWriteLocked key (b\<lparr>vars := fmdrop key (vars b)\<rparr>)) (removed d) b;
          b2 = fold (\<lambda>key b. case fmlookup (dvars d) key of
                 None \<Rightarrow> b
               | Some v \<Rightarrow> noteVarWriteLocked key (b\<lparr>vars := fmupd key (deepCopyValue v) (vars b)\<rparr>))
               vs b1;
          b3 = fold (\<lambda>name b. case fmlookup (replaced d) name of
                 None \<Rightarrow> b
               | Some Nil_slice \<Rightarrow>
                   noteChannelReplaceLocked name (b\<lparr>channels := fmdrop name (channels b)\<rparr>)
               | Some msgs \<Rightarrow>
                   noteChannelReplaceLocked name
                     (b\<lparr>channels := fmupd name (CloneMessages msgs) (channels b)\<rparr>))
               cs b2
      in b3\<lparr>channels := apply_appends (appends d) (channels b3)\<rparr>)"

subsection \<open>Histories of writes\<close>

text \<open>The mutating calls a board can receive; a run of them is applied left to right.\<close>

datatype board_op =
  OpSetVar string val
| OpDeleteVar string
| OpAppendSliceVar string val
| OpUpdateSliceVarItem string "val \<Rightarrow> bool" "val \<Rightarrow> val"
| OpSetChannel string "Message slice"
| OpAppendChannelMessages string "Message list"
| OpPopChannelMessage string
| OpRestoreFrom "BoardSnapshot option"
| OpApplyTo "string list" "string list" BoardDelta

fun board_step :: "board_op \<Rightarrow> Board \<Rightarrow> Board" where
  "board_step (OpSetVar k v) b = SetVar k v b"
| "board_step (OpDeleteVar k) b = DeleteVar k b"
| "board_step (OpAppendSliceVar k v) b = (case AppendSliceVar k v b of Inl e \<Rightarrow> b | Inr b' \<Rightarrow> b')"
| "board_step (OpUpdateSliceVarItem k m u) b = UpdateSliceVarItem k m u b"
| "board_step (OpSetChannel c ms) b = SetChannel c ms b"
| "board_step (OpAppendChannelMessages c ms) b = AppendChannelMessages c ms b"
| "board_step (OpPopChannelMessage c) b = fst (PopChannelMessage c b)"
| "board_step (OpRestoreFrom s) b = RestoreFrom s b"
| "board_step (OpApplyTo vs cs d) b = applyDeltaLocked vs cs d b"

definition run_ops :: "board_op list \<Rightarrow> Board \<Rightarrow> Board" where
  "run_ops ops b = fold board_step ops b"

text \<open>A restore is faithful to a mark when it brings back every channel the mark has seen.\<close>

fun keeps_channels :: "BoardMark \<Rightarrow> board_op \<Rightarrow> bool" where
  "keeps_channels m (OpRestoreFrom (Some s)) \<longleftrightarrow> fmdom (mchannels m) |\<subseteq>| fmdom (snapshot_channels s)"
| "keeps_channels m _ \<longleftrightarrow> True"

text \<open>\<open>b\<close> has evolved from \<open>b0\<close>: what was not stamped since is as it was, up to appends.\<close>

definition tracks :: "Board \<Rightarrow> Board \<Rightarrow> bool" where
  "tracks b0 b \<longleftrightarrow>
     seqno b0 \<le> seqno b \<and>
     (\<forall>k. fmget (varSeq b) k \<le> seqno b0 \<longrightarrow> fmlookup (vars b) k = fmlookup (vars b0) k) \<and>
     (\<forall>c ms. fmget (chanSeq b) c \<le> seqno b0 \<longrightarrow> fmlookup (channels b0) c = Some ms \<longrightarrow>
        (\<exists>xs. fmlookup (channels b) c = Some (append_slice ms xs)))"

subsection \<open>Copies are identities\<close>

lemma CloneMessages_id [simp]: "CloneMessages ms = ms"
  by (cases ms) (auto simp: CloneMessages_def)

lemma fmmap_Clone [simp]: "fmmap CloneMessages m = m"
  by (rule fmap_ext) (simp add: fmlookup_map option.map_ident_strong)

lemma deepCopyValue_id [simp]: "deepCopyValue v = v"
proof (induction v)
  case (VList vs)
  then show ?case by (simp add: map_idI)
next
  case (VMap m)
  have "fmlookup (fmmap deepCopyValue m) k = fmlookup m k" for k
  proof (cases "fmlookup m k")
    case (Some x)
    then have "x \<in> fmran' m" by (rule fmran'I)
    with VMap Some show ?thesis by (simp add: fmlookup_map)
  qed (simp add: fmlookup_map)
  then show ?case by (simp add: fmap_ext)
qed auto

lemma fmmap_deepCopy [simp]: "fmmap deepCopyValue m = m"
  by (rule fmap_ext) (simp add: fmlookup_map option.map_ident_strong)

lemma deepCopyVars_id [simp]: "deepCopyVars m = m"
  by (simp add: deepCopyVars_def)

lemma elems_append_slice [simp]: "elems (append_slice s xs) = elems s @ xs"
  by (cases xs) auto

lemma append_slice_Nil [simp]: "append_slice s [] = s"
  by simp

lemma append_slice_append [simp]: "append_slice (append_slice s xs) ys = append_slice s (xs @ ys)"
  by (cases xs; cases ys) auto

lemma elems_drop_slice [simp]: "elems (drop_slice n s) = drop n (elems s)"
  by (cases s) auto

lemma fmget_upd [simp]: "fmget (fmupd k v m) k' = (if k' = k then v else fmget m k')"
  by (simp add: fmget_def)

lemma fmget_empty [simp]: "fmget fmempty k = 0"
  by (simp add: fmget_def)

lemma fmget_pos_dom: "n < fmget m k \<Longrightarrow> k |\<in>| fmdom m"
  by (auto simp: fmget_def split: option.splits intro: fmdomI)

lemma chan_fmchan: "chan b c = fmchan (channels b) c"
  by (simp add: chan_def fmchan_def)

subsection \<open>Every operation is tracked\<close>

lemma tracksD:
  assumes "tracks b0 b"
  shows tracks_seq: "seqno b0 \<le> seqno b"
    and tracks_var: "fmget (varSeq b) k \<le> seqno b0 \<Longrightarrow> fmlookup (vars b) k = fmlookup (vars b0) k"
    and tracks_chan: "fmget (chanSeq b) c \<le> seqno b0 \<Longrightarrow> fmlookup (channels b0) c = Some ms \<Longrightarrow>
      \<exists>xs. fmlookup (channels b) c = Some (append_slice ms xs)"
  using assms unfolding tracks_def by blast+

lemma tracksI:
  assumes "seqno b0 \<le> seqno b"
    and "\<And>k. fmget (varSeq b) k \<le> seqno b0 \<Longrightarrow> fmlookup (vars b) k = fmlookup (vars b0) k"
    and "\<And>c ms. fmget (chanSeq b) c \<le> seqno b0 \<Longrightarrow> fmlookup (channels b0) c = Some ms \<Longrightarrow>
      \<exists>xs. fmlookup (channels b) c = Some (append_slice ms xs)"
  shows "tracks b0 b"
  using assms unfolding tracks_def by blast

lemma tracks_refl [simp, intro]: "tracks b b"
  by (auto simp: tracks_def intro: exI [of _ "[]"])

lemma tracks_var_write:
  assumes "tracks b0 b" "\<And>k. k \<noteq> key \<Longrightarrow> fmlookup m k = fmlookup (vars b) k"
  shows "tracks b0 (noteVarWriteLocked key (b\<lparr>vars := m\<rparr>))"
  using assms tracksD [OF assms(1)]
  by (intro tracksI) (auto simp: noteVarWriteLocked_def split: if_splits)

lemma tracks_chan_write:
  assumes "tracks b0 b" "\<And>c. c \<noteq> name \<Longrightarrow> fmlookup m c = fmlookup (channels b) c"
  shows "tracks b0 (noteChannelReplaceLocked name (b\<lparr>channels := m\<rparr>))"
  using assms tracksD [OF assms(1)]
  by (intro tracksI) (auto simp: noteChannelReplaceLocked_def split: if_splits)

lemma tracks_append:
  assumes t: "tracks b0 b"
    and ext: "\<And>c. fmlookup m c = fmlookup (channels b) c \<or>
      (\<exists>xs. fmlookup m c = Some (append_slice (chan b c) xs))"
  shows "tracks b0 (b\<lparr>channels := m\<rparr>)"
proof (rule tracksI)
  fix c ms
  assume "fmget (chanSeq (b\<lparr>channels := m\<rparr>)) c \<le> seqno b0" "fmlookup (channels b0) c = Some ms"
  then obtain xs where xs: "fmlookup (channels b) c = Some (append_slice ms xs)"
    using tracks_chan [OF t, of c ms] by auto
  from ext [of c] show "\<exists>xs. fmlookup (channels (b\<lparr>channels := m\<rparr>)) c = Some (append_slice ms xs)"
    using xs by (auto simp: chan_def)
qed (use tracksD [OF t] in auto)

lemma RestoreFrom_stamps:
  "fmget (varSeq (RestoreFrom (Some s) b)) k =
     (if fmlookup (sVars s) k \<noteq> None \<or> fmlookup (vars b) k \<noteq> None
      then Suc (seqno b) else fmget (varSeq b) k)"
  "fmget (chanSeq (RestoreFrom (Some s) b)) c =
     (if c |\<in>| fmdom (snapshot_channels s) then Suc (seqno b) else fmget (chanSeq b) c)"
  by (auto simp: RestoreFrom_def noteRestoreLocked_def Let_def fmget_def fmlookup_dom_iff
      split: option.splits)

lemma RestoreFrom_fields:
  "seqno (RestoreFrom (Some s) b) = Suc (seqno b)"
  "vars (RestoreFrom (Some s) b) = sVars s"
  "channels (RestoreFrom (Some s) b) = snapshot_channels s"
  by (simp_all add: RestoreFrom_def noteRestoreLocked_def Let_def)

lemma tracks_restore:
  assumes t: "tracks b0 b" and keep: "fmdom (channels b0) |\<subseteq>| fmdom (snapshot_channels s)"
  shows "tracks b0 (RestoreFrom (Some s) b)"
proof (rule tracksI)
  fix k
  assume "fmget (varSeq (RestoreFrom (Some s) b)) k \<le> seqno b0"
  with tracks_seq [OF t] have "fmlookup (sVars s) k = None" "fmlookup (vars b) k = None"
    "fmget (varSeq b) k \<le> seqno b0"
    by (auto simp: RestoreFrom_stamps split: if_splits)
  with tracks_var [OF t] show "fmlookup (vars (RestoreFrom (Some s) b)) k = fmlookup (vars b0) k"
    by (simp add: RestoreFrom_fields)
next
  fix c ms
  assume "fmget (chanSeq (RestoreFrom (Some s) b)) c \<le> seqno b0"
    and "fmlookup (channels b0) c = Some ms"
  with keep tracks_seq [OF t]
  show "\<exists>xs. fmlookup (channels (RestoreFrom (Some s) b)) c = Some (append_slice ms xs)"
    by (auto simp: RestoreFrom_stamps dest: fmdomI split: if_splits)
qed (use tracks_seq [OF t] in \<open>simp add: RestoreFrom_fields\<close>)

lemma fold_tracks:
  assumes "tracks b0 b" "\<And>x b. tracks b0 b \<Longrightarrow> tracks b0 (f x b)"
  shows "tracks b0 (fold f xs b)"
  using assms by (induction xs arbitrary: b) auto

lemma apply_appends_lookup:
  "fmlookup (apply_appends a m) c =
     (if slen (fmchan a c) \<noteq> 0 then Some (append_slice (fmchan m c) (elems (fmchan a c)))
      else fmlookup m c)"
  by (auto simp: apply_appends_def fmchan_def fmlookup_dom_iff split: option.splits)

lemma tracks_applyDelta: "tracks b0 b \<Longrightarrow> tracks b0 (applyDeltaLocked vs cs d b)"
  unfolding applyDeltaLocked_def Let_def
  by (intro tracks_append fold_tracks)
    (auto intro!: tracks_var_write tracks_chan_write simp: apply_appends_lookup chan_fmchan
      split: option.splits slice.splits)

lemma tracks_step:
  assumes t: "tracks b0 b" and keep: "keeps_channels (Board_Mark b0) op"
  shows "tracks b0 (board_step op b)"
proof (cases op)
  case (OpRestoreFrom s)
  then show ?thesis
    using t keep tracks_restore
    by (cases s) (auto simp: RestoreFrom_def Board_Mark_def)
next
  case (OpAppendChannelMessages c ms)
  have "tracks b0 (b\<lparr>channels := fmupd c (append_slice (chan b c) ms) (channels b)\<rparr>)"
    by (rule tracks_append [OF t]) auto
  then show ?thesis using OpAppendChannelMessages t by (simp add: AppendChannelMessages_def)
qed (use t in \<open>auto simp: SetVar_def DeleteVar_def AppendSliceVar_def UpdateSliceVarItem_def
    SetChannel_def PopChannelMessage_def Let_def intro!: tracks_var_write tracks_chan_write
    tracks_applyDelta split: option.splits val.splits\<close>)

lemma tracks_run:
  "tracks b0 b \<Longrightarrow> list_all (keeps_channels (Board_Mark b0)) ops \<Longrightarrow> tracks b0 (run_ops ops b)"
  by (induction ops arbitrary: b) (auto simp: run_ops_def tracks_step)

subsection \<open>Replaying a delta\<close>

lemma sorted_keys_set [simp]: "set (sorted_keys ks) = fset ks"
  by (simp add: sorted_keys_def)

lemma apply_vars_lookup:
  "fmlookup (apply_vars d m) k =
     (case fmlookup (dvars d) k of Some v \<Rightarrow> Some v
      | None \<Rightarrow> if k \<in> set (removed d) then None else fmlookup m k)"
  by (auto simp: apply_vars_def fmlookup_dom_iff split: option.splits)

lemma apply_replaced_lookup:
  "fmlookup (apply_replaced r m) c =
     (case fmlookup r c of None \<Rightarrow> fmlookup m c | Some Nil_slice \<Rightarrow> None | Some ms \<Rightarrow> Some ms)"
  by (auto simp: apply_replaced_def fmlookup_dom_iff split: option.splits slice.splits)

lemma elems_apply_channels:
  "elems (fmchan (apply_appends a (apply_replaced r m)) c) =
     (case fmlookup r c of None \<Rightarrow> elems (fmchan m c) | Some ms \<Rightarrow> elems ms) @ elems (fmchan a c)"
  by (auto simp: fmchan_def apply_appends_lookup apply_replaced_lookup split: option.splits slice.splits)

lemma Since_lookups:
  "fmlookup (dvars (Since b mk)) k = (if fmget (varSeq b) k > mseq mk then fmlookup (vars b) k else None)"
  "k \<in> set (removed (Since b mk)) \<longleftrightarrow> fmget (varSeq b) k > mseq mk \<and> fmlookup (vars b) k = None"
  "fmlookup (appends (Since b mk)) c =
     (if \<not> fmget (chanSeq b) c > mseq mk \<and> slen (chan b c) > fmget (mchannels mk) c
      then map_option (drop_slice (fmget (mchannels mk) c)) (fmlookup (channels b) c) else None)"
  "fmlookup (replaced (Since b mk)) c =
     (if fmlookup (channels b) c = None \<and> c |\<in>| fmdom (mchannels mk) then Some Nil_slice
      else if fmget (chanSeq b) c > mseq mk then fmlookup (channels b) c else None)"
  by (auto simp: Since_def Let_def fmlookup_dom_iff dest: fmget_pos_dom)

lemma tracks_replay_vars:
  assumes "tracks b0 b"
  shows "apply_vars (Since b (Board_Mark b0)) (vars b0) = vars b"
proof (rule fmap_ext)
  fix k
  show "fmlookup (apply_vars (Since b (Board_Mark b0)) (vars b0)) k = fmlookup (vars b) k"
    using tracks_var [OF assms, of k]
    by (auto simp: apply_vars_lookup Since_lookups Board_Mark_def split: option.splits)
qed

lemma tracks_replay_chan:
  assumes "tracks b0 b"
  shows "elems (fmchan (apply_appends (appends (Since b (Board_Mark b0)))
      (apply_replaced (replaced (Since b (Board_Mark b0))) (channels b0))) c) = elems (chan b c)"
proof (cases "fmget (chanSeq b) c \<le> seqno b0")
  case False
  then show ?thesis unfolding elems_apply_channels
    by (auto simp: Since_lookups Board_Mark_def fmchan_def chan_def
        dest: fmdom_notI split: option.splits)
next
  case True
  show ?thesis
  proof (cases "fmlookup (channels b0) c")
    case None
    then show ?thesis using True unfolding elems_apply_channels
      by (auto simp: Since_lookups Board_Mark_def fmchan_def chan_def fmget_def
          fmlookup_dom_iff split: option.splits)
  next
    case (Some ms)
    then obtain xs where "fmlookup (channels b) c = Some (append_slice ms xs)"
      using tracks_chan [OF assms True] by blast
    with Some True show ?thesis unfolding elems_apply_channels
      by (auto simp: Since_lookups Board_Mark_def fmchan_def chan_def fmget_def)
  qed
qed

subsection \<open>Applying a delta to a board and to a snapshot\<close>

lemma fold_fields:
  assumes "\<And>x b. g (f x b) = g b"
  shows "g (fold f xs b) = g b"
  using assms by (induction xs arbitrary: b) auto

lemma fold_remove_vars:
  "fmlookup (vars (fold (\<lambda>key b. noteVarWriteLocked key (b\<lparr>vars := fmdrop key (vars b)\<rparr>)) ks b)) k =
     (if k \<in> set ks then None else fmlookup (vars b) k)"
  by (induction ks arbitrary: b) (auto simp: noteVarWriteLocked_def)

lemma fold_set_vars:
  "fmlookup (vars (fold (\<lambda>key b. case fmlookup m key of None \<Rightarrow> b
       | Some v \<Rightarrow> noteVarWriteLocked key (b\<lparr>vars := fmupd key (deepCopyValue v) (vars b)\<rparr>)) ks b)) k =
     (if k \<in> set ks \<and> fmlookup m k \<noteq> None then fmlookup m k else fmlookup (vars b) k)"
  by (induction ks arbitrary: b) (auto simp: noteVarWriteLocked_def split: option.splits)

lemma fold_replace_channels:
  "fmlookup (channels (fold (\<lambda>name b. case fmlookup r name of None \<Rightarrow> b
       | Some Nil_slice \<Rightarrow> noteChannelReplaceLocked name (b\<lparr>channels := fmdrop name (channels b)\<rparr>)
       | Some msgs \<Rightarrow> noteChannelReplaceLocked name
            (b\<lparr>channels := fmupd name (CloneMessages msgs) (channels b)\<rparr>)) cs b)) c =
     (if c \<in> set cs then fmlookup (apply_replaced r (channels b)) c else fmlookup (channels b) c)"
  by (induction cs arbitrary: b)
    (auto simp: noteChannelReplaceLocked_def apply_replaced_lookup split: option.splits slice.splits)

lemma applyDelta_vars:
  assumes "fset (fmdom (dvars d)) \<subseteq> set vs"
  shows "vars (applyDeltaLocked vs cs d b) = apply_vars d (vars b)"
proof (rule fmap_ext)
  fix k
  have v: "vars (fold (\<lambda>name b. case fmlookup (replaced d) name of None \<Rightarrow> b
       | Some Nil_slice \<Rightarrow> noteChannelReplaceLocked name (b\<lparr>channels := fmdrop name (channels b)\<rparr>)
       | Some msgs \<Rightarrow> noteChannelReplaceLocked name
            (b\<lparr>channels := fmupd name (CloneMessages msgs) (channels b)\<rparr>)) cs b') = vars b'" for b'
    by (rule fold_fields) (auto simp: noteChannelReplaceLocked_def split: option.splits slice.splits)
  have "k \<in> set vs" if "fmlookup (dvars d) k \<noteq> None"
    using that assms by (auto dest: fmdomI)
  then show "fmlookup (vars (applyDeltaLocked vs cs d b)) k = fmlookup (apply_vars d (vars b)) k"
    by (auto simp: applyDeltaLocked_def Let_def v fold_set_vars fold_remove_vars apply_vars_lookup
        split: option.splits)
qed

lemma applyDelta_channels:
  assumes "fset (fmdom (replaced d)) \<subseteq> set cs"
  shows "channels (applyDeltaLocked vs cs d b) =
    apply_appends (appends d) (apply_replaced (replaced d) (channels b))"
proof -
  let ?b2 = "fold (\<lambda>key b. case fmlookup (dvars d) key of None \<Rightarrow> b
       | Some v \<Rightarrow> noteVarWriteLocked key (b\<lparr>vars := fmupd key (deepCopyValue v) (vars b)\<rparr>)) vs
       (fold (\<lambda>key b. noteVarWriteLocked key (b\<lparr>vars := fmdrop key (vars b)\<rparr>)) (removed d) b)"
  have "channels ?b2 =
      channels (fold (\<lambda>key b. noteVarWriteLocked key (b\<lparr>vars := fmdrop key (vars b)\<rparr>)) (removed d) b)"
    by (rule fold_fields) (auto simp: noteVarWriteLocked_def split: option.splits)
  also have "\<dots> = channels b"
    by (rule fold_fields) (auto simp: noteVarWriteLocked_def)
  finally have b2: "channels ?b2 = channels b" .
  have "fmlookup (apply_replaced (replaced d) (channels b)) c = fmlookup (channels b) c"
    if "c \<notin> set cs" for c
    using that assms by (auto simp: apply_replaced_lookup dest: fmdomI split: option.splits)
  then have "channels (fold (\<lambda>name b. case fmlookup (replaced d) name of None \<Rightarrow> b
       | Some Nil_slice \<Rightarrow> noteChannelReplaceLocked name (b\<lparr>channels := fmdrop name (channels b)\<rparr>)
       | Some msgs \<Rightarrow> noteChannelReplaceLocked name
            (b\<lparr>channels := fmupd name (CloneMessages msgs) (channels b)\<rparr>)) cs ?b2) =
      apply_replaced (replaced d) (channels b)"
    by (intro fmap_ext) (simp add: fold_replace_channels b2)
  then show ?thesis by (simp add: applyDeltaLocked_def Let_def)
qed

subsection \<open>Deltas between snapshots\<close>

lemma SnapshotDelta_lookups:
  "fmlookup (dvars (SnapshotDelta base next)) k =
     (if fmlookup (sVars base) k \<noteq> fmlookup (sVars next) k then fmlookup (sVars next) k else None)"
  "k \<in> set (removed (SnapshotDelta base next)) \<longleftrightarrow>
     fmlookup (sVars next) k = None \<and> fmlookup (sVars base) k \<noteq> None"
  by (auto simp: SnapshotDelta_def Let_def fmlookup_dom_iff)

lemma SnapshotDelta_channels:
  fixes base nxt
  defines "bs \<equiv> fmchan (sChannels base)" and "ns \<equiv> fmchan (sChannels nxt)"
  assumes pre: "\<And>c. continuesChannel (bs c) (ns c) \<Longrightarrow> \<exists>xs. elems (ns c) = elems (bs c) @ xs"
  shows "elems (fmchan (apply_appends (appends (SnapshotDelta base nxt))
      (apply_replaced (replaced (SnapshotDelta base nxt)) (sChannels base))) c) = elems (ns c)"
proof (cases "fmlookup (sChannels nxt) c")
  case None
  then show ?thesis unfolding elems_apply_channels
    by (auto simp: SnapshotDelta_def Let_def ns_def fmchan_def fmlookup_dom_iff split: option.splits)
next
  case (Some ms)
  then have n: "ns c = ms" by (simp add: ns_def fmchan_def)
  show ?thesis
  proof (cases "continuesChannel (bs c) ms")
    case True
    with pre [of c] n obtain xs where xs: "elems ms = elems (bs c) @ xs" by auto
    show ?thesis unfolding elems_apply_channels using Some n xs True
      by (cases "xs = []")
        (auto simp: SnapshotDelta_def Let_def bs_def fmchan_def fmlookup_dom_iff split: option.splits)
  next
    case False
    then show ?thesis unfolding elems_apply_channels using Some n
      by (auto simp: SnapshotDelta_def Let_def bs_def fmchan_def fmlookup_dom_iff split: option.splits)
  qed
qed

subsection \<open>Properties\<close>

text \<open>C32. A delta is complete: after any sequence of board calls, applying \<open>Since\<close> of a mark to the
  snapshot taken at that mark rebuilds the vars exactly and every channel's messages, provided each
  restore among the calls brings back the channels the mark has seen.\<close>

theorem since_replay:
  assumes "list_all (keeps_channels (Board_Mark b0)) ops"
  shows "let b = run_ops ops b0; s = ApplyToSnapshot (Since b (Board_Mark b0)) (Snapshot b0) in
    sVars s = vars b \<and> (\<forall>c. elems (fmchan (sChannels s) c) = elems (chan b c))"
proof -
  have "tracks b0 (run_ops ops b0)"
    using assms by (intro tracks_run) auto
  then show ?thesis
    by (simp add: ApplyToSnapshot_def Snapshot_def Let_def tracks_replay_vars tracks_replay_chan)
qed

theorem since_replay_witness:
  "let ops = [OpSetVar ''a'' (VInt 1), OpRestoreFrom (Some (Snapshot NewBoard)),
        OpAppendChannelMessages MainChannel [\<lparr>mrole = RoleUser, mparts = [''hi'']\<rparr>]];
      b = run_ops ops NewBoard;
      s = ApplyToSnapshot (Since b (Board_Mark NewBoard)) (Snapshot NewBoard) in
    list_all (keeps_channels (Board_Mark NewBoard)) ops \<and>
    sVars s = fmempty \<and> elems (fmchan (sChannels s) MainChannel) = [\<lparr>mrole = RoleUser, mparts = [''hi'']\<rparr>]"
proof -
  let ?ops = "[OpSetVar ''a'' (VInt 1), OpRestoreFrom (Some (Snapshot NewBoard)),
        OpAppendChannelMessages MainChannel [\<lparr>mrole = RoleUser, mparts = [''hi'']\<rparr>]]"
  have h: "list_all (keeps_channels (Board_Mark NewBoard)) ?ops"
    by (simp add: NewBoard_def Snapshot_def Board_Mark_def snapshot_channels_def)
  have "vars (run_ops ?ops NewBoard) = fmempty"
    "elems (chan (run_ops ?ops NewBoard) MainChannel) = [\<lparr>mrole = RoleUser, mparts = [''hi'']\<rparr>]"
    by (simp_all add: run_ops_def AppendChannelMessages_def RestoreFrom_fields Snapshot_def NewBoard_def
        chan_def snapshot_channels_def)
  with h since_replay [OF h] show ?thesis by (simp add: Let_def)
qed

text \<open>The proviso is needed: a restore that drops a channel the mark has seen does not stamp it, so
  a later append to that channel is reported as a suffix of the old one and the replayed channel
  differs from the board's. The comments on \<open>BoardMark\<close> and \<open>noteRestoreLocked\<close> promise a
  conservative delta here.\<close>

theorem dropped_channel_delta_wrong:
  "\<exists>b0 s c ms. let b = run_ops [OpRestoreFrom (Some s), OpAppendChannelMessages c ms] b0 in
     elems (fmchan (sChannels (ApplyToSnapshot (Since b (Board_Mark b0)) (Snapshot b0))) c)
       \<noteq> elems (chan b c)"
proof -
  let ?m = "\<lambda>t. \<lparr>mrole = RoleUser, mparts = [t]\<rparr>"
  let ?start = "AppendChannelMessages ''x'' [?m ''old''] NewBoard"
  let ?ms = "[?m ''new1'', ?m ''new2'']"
  let ?b = "run_ops [OpRestoreFrom (Some (Snapshot NewBoard)), OpAppendChannelMessages ''x'' ?ms] ?start"
  have b: "elems (chan ?b ''x'') = ?ms"
    by (simp add: run_ops_def AppendChannelMessages_def RestoreFrom_fields Snapshot_def NewBoard_def
        chan_def snapshot_channels_def MainChannel_def)
  have seq: "fmget (chanSeq ?b) ''x'' = 0" "seqno ?start = 0"
    by (simp_all add: run_ops_def AppendChannelMessages_def RestoreFrom_stamps RestoreFrom_fields
        Snapshot_def NewBoard_def snapshot_channels_def MainChannel_def)
  have mc: "fmget (mchannels (Board_Mark ?start)) ''x'' = 1" "mseq (Board_Mark ?start) = 0"
    by (simp_all add: Board_Mark_def fmget_def AppendChannelMessages_def NewBoard_def chan_def)
  have lk: "fmlookup (channels ?b) ''x'' = Some (Slice ?ms)"
    by (simp add: run_ops_def AppendChannelMessages_def RestoreFrom_fields Snapshot_def NewBoard_def
        chan_def snapshot_channels_def MainChannel_def)
  have r: "fmlookup (replaced (Since ?b (Board_Mark ?start))) ''x'' = None"
    unfolding Since_lookups(4) using seq mc lk by simp
  have a: "fmlookup (appends (Since ?b (Board_Mark ?start))) ''x'' = Some (Slice [?m ''new2''])"
    unfolding Since_lookups(3) using seq mc lk b by simp
  have "elems (fmchan (sChannels (Snapshot ?start)) ''x'') = [?m ''old'']"
    by (simp add: Snapshot_def AppendChannelMessages_def NewBoard_def chan_def fmchan_def MainChannel_def)
  then have "elems (fmchan (sChannels (ApplyToSnapshot (Since ?b (Board_Mark ?start)) (Snapshot ?start))) ''x'')
      = [?m ''old'', ?m ''new2'']"
    using r a by (simp add: ApplyToSnapshot_def elems_apply_channels fmchan_def [of "appends _"])
  then have "elems (fmchan (sChannels (ApplyToSnapshot (Since ?b (Board_Mark ?start)) (Snapshot ?start))) ''x'')
      \<noteq> elems (chan ?b ''x'')"
    unfolding b by simp
  then show ?thesis unfolding Let_def by blast
qed

text \<open>Applying a delta to a live board and to a snapshot of it are the same state change: whatever
  order the two maps are walked in, the snapshot of the patched board is the patched snapshot.\<close>

theorem apply_delta_commutes:
  assumes "fset (fmdom (dvars d)) \<subseteq> set vs" "fset (fmdom (replaced d)) \<subseteq> set cs"
  shows "Snapshot (applyDeltaLocked vs cs d b) = ApplyToSnapshot d (Snapshot b)"
  using assms by (simp add: Snapshot_def ApplyToSnapshot_def applyDelta_vars applyDelta_channels)

theorem apply_delta_commutes_witness:
  "let d = \<lparr>dvars = fmap_of_list [(''k'', VInt 2)], removed = [''old''], appends = fmempty,
        replaced = fmap_of_list [(''c'', Nil_slice)]\<rparr> in
    Snapshot (applyDeltaLocked [''k''] [''c''] d NewBoard) = ApplyToSnapshot d (Snapshot NewBoard)"
  unfolding Let_def by (rule apply_delta_commutes) simp_all



end
