(* ===== verification/Resource_Reference.thy ===== *)
theory Resource_Reference
  imports Agent_Board
begin

text \<open>
  References inside strings: the \<^verbatim>\<open>${scheme:path}\<close> parser of \<open>core/resource/reference.go\<close>, shared by
  every phase that expands settings, and the board scheme of \<open>core/agent/board_refs.go\<close> with its
  static analysis. A resolver is a function from a parsed reference to a value or an error. The
  JSON codec of the standard library is an argument (\<open>parse\<close> and \<open>print\<close>); struct fields behind
  \<open>VOpaque\<close> values, which Go reads by reflection, are not visible to nested lookups here.
\<close>

abbreviation BS :: char where
  "BS \<equiv> CHR 0x5C"

subsection \<open>Parsing\<close>

record Reference =
  Scheme :: string
  Path :: string
  Raw :: string
  Escaped :: bool
  Whole :: bool
  Unterminated :: bool

definition Literal :: "Reference \<Rightarrow> string" where
  "Literal r = (if Escaped r \<and> length (Raw r) > 0 then drop 1 (Raw r) else Raw r)"

definition backslashed :: "string \<Rightarrow> nat \<Rightarrow> bool" where
  "backslashed s i \<longleftrightarrow> length (takeWhile (\<lambda>c. c = BS) (rev (take i s))) mod 2 = 1"

definition refEnd :: "string \<Rightarrow> nat \<Rightarrow> nat option" where
  "refEnd s from =
     map_option Suc (find (\<lambda>i. s ! i = CHR ''}'' \<and> \<not> backslashed s i) [from..<length s])"

text \<open>\<open>strings.Cut(s, ":")\<close>: before, after, found.\<close>

definition cut_colon :: "string \<Rightarrow> string \<times> string \<times> bool" where
  "cut_colon s = (case index_byte s CHR '':'' of
     None \<Rightarrow> (s, [], False) | Some i \<Rightarrow> (take i s, drop (Suc i) s, True))"

definition parseReference :: "string \<Rightarrow> bool \<Rightarrow> bool \<Rightarrow> bool \<Rightarrow> Reference" where
  "parseReference raw escaped whole unterminated =
     (let body = (if escaped then drop 1 raw else raw);
          inner0 = drop 2 body;
          inner = (if unterminated then inner0 else take (length inner0 - 1) inner0);
          (scheme, path, _) = cut_colon inner
      in \<lparr>Scheme = trim_space scheme, Path = trim_space path, Raw = raw, Escaped = escaped,
          Whole = whole, Unterminated = unterminated\<rparr>)"

type_synonym resolver = "Reference \<Rightarrow> go_error + val"

subsection \<open>Expansion\<close>

lemma refEnd_bounds: "refEnd s from = Some e \<Longrightarrow> from < e \<and> e \<le> length s"
  by (auto simp: refEnd_def find_Some_iff)

text \<open>A replacement that has to be text: the type assertion to \<open>string\<close>.\<close>

definition as_text :: "string \<Rightarrow> go_error + val \<Rightarrow> go_error + string" where
  "as_text msg r = (case r of Inl e \<Rightarrow> Inl e | Inr (VString t) \<Rightarrow> Inr t | Inr _ \<Rightarrow> Inl (errf Validation msg))"

function expand_loop :: "resolver \<Rightarrow> string \<Rightarrow> string \<Rightarrow> go_error + val"
  and expand_plain :: "resolver \<Rightarrow> string \<Rightarrow> string \<Rightarrow> go_error + val" where
  "expand_loop resolve rest sb =
     (let relPlain = index_str rest ''${''; relEsc = index_str rest (BS # ''${'') in
      case relEsc of
        Some e \<Rightarrow>
          if relPlain = None \<or> e < the relPlain then
            (case refEnd rest (e + 1 + 2) of
               None \<Rightarrow>
                 (case as_text ''escaped reference must resolve to text''
                         (resolve (parseReference (drop e rest) True False True)) of
                    Inl err \<Rightarrow> Inl err | Inr str \<Rightarrow> Inr (VString (sb @ take e rest @ str)))
             | Some en \<Rightarrow>
                 (case as_text ''escaped reference must resolve to text''
                         (resolve (parseReference (take (en - e) (drop e rest)) True False False)) of
                    Inl err \<Rightarrow> Inl err
                  | Inr str \<Rightarrow> expand_loop resolve (drop en rest) (sb @ take e rest @ str)))
          else expand_plain resolve rest sb
      | None \<Rightarrow> expand_plain resolve rest sb)"
| "expand_plain resolve rest sb =
     (case index_str rest ''${'' of
        None \<Rightarrow> Inr (VString (sb @ rest))
      | Some p \<Rightarrow>
          (case refEnd rest (p + 2) of
             None \<Rightarrow>
               (case as_text ''reference must resolve to text''
                       (resolve (parseReference (drop p rest) False False True)) of
                  Inl err \<Rightarrow> Inl err | Inr str \<Rightarrow> Inr (VString (sb @ take p rest @ str)))
           | Some en \<Rightarrow>
               (let raw = take (en - p) (drop p rest);
                    whole = (p = 0 \<and> en = length rest)
                in if contains_str (take (length raw - 3) (drop 2 raw)) ''${''
                   then Inl (errf Validation ''nested references are not supported'')
                   else
                     (let r = resolve (parseReference raw False whole False) in
                      if whole then r
                      else (case as_text ''reference cannot be embedded in text'' r of
                              Inl err \<Rightarrow> Inl err
                            | Inr str \<Rightarrow> expand_loop resolve (drop en rest) (sb @ take p rest @ str))))))"
  by pat_completeness auto
termination
  by (relation "measure (\<lambda>x. case x of Inl (_, rest, _) \<Rightarrow> 2 * length rest + 1
        | Inr (_, rest, _) \<Rightarrow> 2 * length rest)")
    (auto dest!: refEnd_bounds)

declare expand_loop.simps [simp del] expand_plain.simps [simp del]

definition ExpandRefs :: "resolver \<Rightarrow> string \<Rightarrow> go_error + val" where
  "ExpandRefs resolve s =
     (if \<not> contains_str s ''${'' then Inr (VString s) else expand_loop resolve s [])"

text \<open>\<open>ExpandValue\<close>: maps are walked in key order here; the first error in that order is the one
  reported, where Go's map order is unspecified.\<close>

primrec seq_results :: "(go_error + 'a) list \<Rightarrow> go_error + 'a list" where
  "seq_results [] = Inr []"
| "seq_results (r # rs) =
     (case r of Inl e \<Rightarrow> Inl e
      | Inr x \<Rightarrow> (case seq_results rs of Inl e \<Rightarrow> Inl e | Inr xs \<Rightarrow> Inr (x # xs)))"

definition seq_map :: "(string, go_error + val) fmap \<Rightarrow> go_error + (string, val) fmap" where
  "seq_map m =
     (let ks = sorted_keys (fmdom m) in
      case seq_results (map (\<lambda>k. the (fmlookup m k)) ks) of
        Inl e \<Rightarrow> Inl e
      | Inr vs \<Rightarrow> Inr (fmap_of_list (zip ks vs)))"

primrec ExpandValue :: "resolver \<Rightarrow> val \<Rightarrow> go_error + val" where
  "ExpandValue resolve VNil = Inr VNil"
| "ExpandValue resolve (VString s) = ExpandRefs resolve s"
| "ExpandValue resolve (VInt i) = Inr (VInt i)"
| "ExpandValue resolve (VBool b) = Inr (VBool b)"
| "ExpandValue resolve (VList vs) =
     (case seq_results (map (ExpandValue resolve) vs) of Inl e \<Rightarrow> Inl e | Inr xs \<Rightarrow> Inr (VList xs))"
| "ExpandValue resolve (VMap m) =
     (case seq_map (fmmap (ExpandValue resolve) m) of Inl e \<Rightarrow> Inl e | Inr m' \<Rightarrow> Inr (VMap m'))"
| "ExpandValue resolve (VMsgs ms) = Inr (VMsgs ms)"
| "ExpandValue resolve (VOpaque s) = Inr (VOpaque s)"

definition PassthroughScheme :: "string \<Rightarrow> resolver" where
  "PassthroughScheme prefix r =
     (if Scheme r \<noteq> prefix then Inl (errf Validation ''passthrough scheme cannot resolve'')
      else Inr (VString (Raw r)))"

subsection \<open>Board references\<close>

definition BoardRefMarker :: string where
  "BoardRefMarker = ''${board:''"

definition ident_start :: "char \<Rightarrow> bool" where
  "ident_start c \<longleftrightarrow> word_char c \<and> \<not> is_digit c"

definition boardIdent :: "string \<Rightarrow> bool" where
  "boardIdent s \<longleftrightarrow> s \<noteq> [] \<and> ident_start (hd s) \<and> list_all word_char s"

definition validBoardPath :: "string \<Rightarrow> bool" where
  "validBoardPath p = (if p = [] then False else list_all boardIdent (split_on CHR ''.'' p))"

text \<open>The body of a default up to the closing brace, as the pattern's
  \<^verbatim>\<open>((?:[^}\\]|\\.)*)\}\<close> takes it; the result is what follows the brace.\<close>

fun scan_default :: "string \<Rightarrow> string option" where
  "scan_default [] = None"
| "scan_default (c # cs) =
     (if c = CHR ''}'' then Some cs
      else if c = BS then
        (case cs of [] \<Rightarrow> None
         | d # ds \<Rightarrow> if d = CHR 0x0A then None else scan_default ds)
      else scan_default cs)"

text \<open>One match of \<open>boardRefPattern\<close> at the start of a string: the path and the rest.\<close>

definition match_ref :: "string \<Rightarrow> (string \<times> string) option" where
  "match_ref s =
     (if \<not> has_prefix s BoardRefMarker then None
      else let r = drop (length BoardRefMarker) s;
               path = takeWhile (\<lambda>c. word_char c \<or> c = CHR ''.'') r;
               after = dropWhile (\<lambda>c. word_char c \<or> c = CHR ''.'') r
           in if \<not> validBoardPath path then None
              else (case after of
                      [] \<Rightarrow> None
                    | c # cs \<Rightarrow>
                        if c = CHR ''}'' then Some (path, cs)
                        else if c = CHR '':'' then map_option (Pair path) (scan_default cs)
                        else None))"

lemma scan_default_length: "scan_default s = Some t \<Longrightarrow> length t < length s"
proof (induction s rule: scan_default.induct)
  case (2 c cs)
  then show ?case
    by (force split: if_splits list.splits)
qed simp

lemma match_ref_length: "match_ref s = Some (p, t) \<Longrightarrow> length t < length s"
proof -
  assume m: "match_ref s = Some (p, t)"
  let ?r = "drop (length BoardRefMarker) s"
  let ?a = "dropWhile (\<lambda>c. word_char c \<or> c = CHR ''.'') ?r"
  have "length ?a \<le> length ?r" by (rule length_dropWhile_le)
  moreover have "length t < length ?a"
    using m by (auto simp: match_ref_def Let_def dest: scan_default_length split: if_splits list.splits)
  ultimately show "length t < length s" by simp
qed

text \<open>\<open>findStringRefs\<close>: all matches, left to right and not overlapping; \<open>n\<close> counts the backslashes
  just before the position.\<close>

function find_string_refs :: "nat \<Rightarrow> string \<Rightarrow> string list" where
  "find_string_refs n [] = []"
| "find_string_refs n (c # cs) =
     (case match_ref (c # cs) of
        Some (path, rest) \<Rightarrow> (if n mod 2 = 1 then [] else [path]) @ find_string_refs 0 rest
      | None \<Rightarrow> find_string_refs (if c = BS then Suc n else 0) cs)"
  by pat_completeness auto
termination
  by (relation "measure (\<lambda>(n, s). length s)") (auto dest: match_ref_length)

primrec findBoardRefs :: "val \<Rightarrow> string list" where
  "findBoardRefs VNil = []"
| "findBoardRefs (VString s) = find_string_refs 0 s"
| "findBoardRefs (VInt i) = []"
| "findBoardRefs (VBool b) = []"
| "findBoardRefs (VList vs) = concat (map findBoardRefs vs)"
| "findBoardRefs (VMap m) =
     (let m' = fmmap findBoardRefs m
      in concat (map (\<lambda>k. the (fmlookup m' k)) (sorted_keys (fmdom m'))))"
| "findBoardRefs (VMsgs ms) = []"
| "findBoardRefs (VOpaque s) = []"

definition ContainsBoardRef :: "val \<Rightarrow> bool" where
  "ContainsBoardRef v \<longleftrightarrow> length (findBoardRefs v) > 0"

definition ExtractBoardRefs :: "val \<Rightarrow> string list" where
  "ExtractBoardRefs v = sort (remdups (findBoardRefs v))"

definition lookupBoardSegment :: "val \<Rightarrow> string \<Rightarrow> val option" where
  "lookupBoardSegment v seg = (case v of VMap m \<Rightarrow> fmlookup m seg | _ \<Rightarrow> None)"

fun walk_path :: "val option \<Rightarrow> string list \<Rightarrow> val option" where
  "walk_path None segs = None"
| "walk_path (Some v) [] = Some v"
| "walk_path (Some v) (seg # segs) = walk_path (lookupBoardSegment v seg) segs"

definition lookupBoardRef :: "Board \<Rightarrow> string \<Rightarrow> val option" where
  "lookupBoardRef b path =
     (case Var b path of
        Some v \<Rightarrow> Some v
      | None \<Rightarrow>
          (let segs = split_on CHR ''.'' path in
           if length segs = 1 then None else walk_path (Var b (hd segs)) (tl segs)))"

fun unescapeBoardDefault :: "string \<Rightarrow> string" where
  "unescapeBoardDefault [] = []"
| "unescapeBoardDefault [c] = [c]"
| "unescapeBoardDefault (c # d # cs) =
     (if c = BS \<and> (d = CHR ''}'' \<or> d = BS) then d # unescapeBoardDefault cs
      else c # unescapeBoardDefault (d # cs))"

definition parseBoardRef :: "string \<Rightarrow> (string \<times> string option) option" where
  "parseBoardRef body =
     (case cut_colon body of
        (path, def, hasDef) \<Rightarrow>
          if \<not> validBoardPath path then None
          else Some (path, if hasDef then Some (unescapeBoardDefault def) else None))"

definition typedBoardDefault :: "(string \<Rightarrow> val option) \<Rightarrow> string \<Rightarrow> val" where
  "typedBoardDefault parse raw = (case parse raw of Some v \<Rightarrow> v | None \<Rightarrow> VString raw)"

definition stringifyBoardValue :: "(val \<Rightarrow> string) \<Rightarrow> val \<Rightarrow> string" where
  "stringifyBoardValue print v = (case v of VString s \<Rightarrow> s | _ \<Rightarrow> print v)"

definition boardResolver :: "(string \<Rightarrow> val option) \<Rightarrow> (val \<Rightarrow> string) \<Rightarrow> Board \<Rightarrow> resolver" where
  "boardResolver parse print b ref =
     (if has_prefix (Scheme ref) ''board.'' then Inl (errf Validation ''legacy board reference'')
      else if Scheme ref \<noteq> ''board'' then Inr (VString (Raw ref))
      else if Escaped ref then Inr (VString (Literal ref))
      else if Unterminated ref then Inl (errf Validation ''malformed board reference'')
      else (case parseBoardRef (Path ref) of
              None \<Rightarrow> Inl (errf Validation ''malformed board reference'')
            | Some (path, def) \<Rightarrow>
                (case lookupBoardRef b path of
                   Some v \<Rightarrow> Inr (if Whole ref then v else VString (stringifyBoardValue print v))
                 | None \<Rightarrow>
                     (case def of
                        Some d \<Rightarrow> Inr (if Whole ref then typedBoardDefault parse d else VString d)
                      | None \<Rightarrow> Inl (errf Validation ''board reference does not resolve'')))))"

definition resolveString :: "(string \<Rightarrow> val option) \<Rightarrow> (val \<Rightarrow> string) \<Rightarrow> Board \<Rightarrow> string \<Rightarrow> go_error + val" where
  "resolveString parse print b s =
     (if \<not> contains_str s ''${'' then Inr (VString s) else ExpandRefs (boardResolver parse print b) s)"

text \<open>\<open>boardRefPattern.MatchString\<close>: some position matches.\<close>

fun has_ref :: "string \<Rightarrow> bool" where
  "has_ref [] = False"
| "has_ref (c # cs) = (match_ref (c # cs) \<noteq> None \<or> has_ref cs)"

primrec Board_Resolve :: "(string \<Rightarrow> go_error + val) \<Rightarrow> val \<Rightarrow> go_error + val" where
  "Board_Resolve rs VNil = Inr VNil"
| "Board_Resolve rs (VString s) = rs s"
| "Board_Resolve rs (VInt i) = Inr (VInt i)"
| "Board_Resolve rs (VBool b) = Inr (VBool b)"
| "Board_Resolve rs (VList vs) =
     (case seq_results (map (Board_Resolve rs) vs) of Inl e \<Rightarrow> Inl e | Inr xs \<Rightarrow> Inr (VList xs))"
| "Board_Resolve rs (VMap m) =
     (case seq_map (fmmap_keys (\<lambda>k r. if has_ref k
            then Inl (errf Validation ''board references are not supported in object keys'') else r)
          (fmmap (Board_Resolve rs) m)) of
        Inl e \<Rightarrow> Inl e | Inr m' \<Rightarrow> Inr (VMap m'))"
| "Board_Resolve rs (VMsgs ms) = Inr (VMsgs ms)"
| "Board_Resolve rs (VOpaque s) = Inr (VOpaque s)"

subsection \<open>Templates\<close>

text \<open>A template alternates literal text and references and ends in literal text; \<open>render\<close> is the
  string an author writes, \<open>expansion\<close> the text it stands for when \<open>f\<close> gives each reference's
  value.\<close>

fun render :: "(string \<times> string) list \<Rightarrow> string \<Rightarrow> string" where
  "render [] fin = fin"
| "render ((l, b) # segs) fin = l @ ''${'' @ b @ ''}'' @ render segs fin"

definition expansion :: "(string \<Rightarrow> string) \<Rightarrow> (string \<times> string) list \<Rightarrow> string \<Rightarrow> string" where
  "expansion f segs fin = concat (map (\<lambda>(l, b). l @ f b) segs) @ fin"

definition plain_text :: "string \<Rightarrow> bool" where
  "plain_text t \<longleftrightarrow> CHR ''$'' \<notin> set t \<and> BS \<notin> set t"

definition plain_body :: "string \<Rightarrow> bool" where
  "plain_body b \<longleftrightarrow> plain_text b \<and> CHR ''}'' \<notin> set b"

definition plain_template :: "(string \<times> string) list \<Rightarrow> string \<Rightarrow> bool" where
  "plain_template segs fin \<longleftrightarrow>
     list_all (\<lambda>(l, b). plain_text l \<and> plain_body b) segs \<and> plain_text fin"

lemma index_str_None: "c \<notin> set s \<Longrightarrow> index_str s (c # cs) = None"
  by (induction s) (auto simp: has_prefix_def)

lemma index_str_after: "c \<notin> set l \<Longrightarrow> index_str (l @ (c # cs) @ t) (c # cs) = Some (length l)"
  by (induction l) (auto simp: has_prefix_def)

lemma contains_str_None: "c \<notin> set s \<Longrightarrow> \<not> contains_str s (c # cs)"
  by (induction s) (auto simp: has_prefix_def)

lemma contains_str_after: "contains_str (l @ w @ t) w"
proof (induction l)
  case Nil
  show ?case
    using has_prefix_append [of w t] by (cases "w @ t") auto
qed simp

lemma backslashed_None: "BS \<notin> set s \<Longrightarrow> \<not> backslashed s i"
proof -
  assume "BS \<notin> set s"
  then have "BS \<notin> set (rev (take i s))" by (auto dest: in_set_takeD)
  then have "takeWhile (\<lambda>c. c = BS) (rev (take i s)) = []"
    by (cases "rev (take i s)") auto
  then show ?thesis by (simp add: backslashed_def)
qed

lemma find_upt_first:
  assumes "from \<le> k" "k < n" "P k" "\<And>i. from \<le> i \<Longrightarrow> i < k \<Longrightarrow> \<not> P i"
  shows "find P [from..<n] = Some k"
proof -
  have "find P [from..<n] = find P ([from..<k] @ k # [Suc k..<n])"
    using assms(1,2) upt_add_eq_append [of "from" k "n - k"] by (simp add: upt_conv_Cons)
  also have "\<dots> = Some k"
  proof -
    have "find P xs = None \<Longrightarrow> find P (xs @ k # ys) = Some k" for xs ys
      using assms(3) by (induction xs) (auto split: if_splits)
    then show ?thesis using assms(4) by (auto simp: find_None_iff)
  qed
  finally show ?thesis .
qed

lemma refEnd_body:
  assumes "BS \<notin> set (u @ b)" "CHR ''}'' \<notin> set b"
  shows "refEnd (u @ b @ CHR ''}'' # t) (length u) = Some (length u + length b + 1)"
proof -
  have nb: "\<not> backslashed (u @ b @ CHR ''}'' # t) (length u + length b)"
  proof -
    have "take (length u + length b) (u @ b @ CHR ''}'' # t) = u @ b" by simp
    then show ?thesis
      using backslashed_None [OF assms(1), of "length (u @ b)"] by (simp add: backslashed_def)
  qed
  have "(u @ b @ CHR ''}'' # t) ! i \<noteq> CHR ''}''" if "length u \<le> i" "i < length u + length b" for i
    using that assms(2) by (auto simp: nth_append in_set_conv_nth)
  then have "find (\<lambda>i. (u @ b @ CHR ''}'' # t) ! i = CHR ''}'' \<and> \<not> backslashed (u @ b @ CHR ''}'' # t) i)
      [length u..<length (u @ b @ CHR ''}'' # t)] = Some (length u + length b)"
    using nb by (intro find_upt_first) (auto simp: nth_append)
  then show ?thesis by (simp add: refEnd_def)
qed

lemma render_no_BS: "plain_template segs fin \<Longrightarrow> BS \<notin> set (render segs fin)"
  by (induction segs fin rule: render.induct)
    (auto simp: plain_template_def plain_text_def plain_body_def)

lemma expand_loop_plain:
  "BS \<notin> set rest \<Longrightarrow> expand_loop resolve rest sb = expand_plain resolve rest sb"
  using index_str_None [of BS rest "''${''"] by (subst expand_loop.simps) (simp add: Let_def)

lemma expand_plain_ref:
  assumes "plain_text l" "plain_body b"
  shows "expand_plain resolve (l @ ''${'' @ b @ ''}'' @ t) sb =
    (let whole = (l = [] \<and> t = []);
         r = resolve (parseReference (''${'' @ b @ ''}'') False whole False)
     in if whole then r
        else (case as_text ''reference cannot be embedded in text'' r of
                Inl err \<Rightarrow> Inl err
              | Inr str \<Rightarrow> expand_loop resolve t (sb @ l @ str)))"
proof -
  let ?rest = "l @ ''${'' @ b @ ''}'' @ t"
  have i: "index_str ?rest ''${'' = Some (length l)"
    using assms(1) index_str_after [of "CHR ''$''" l "''{''" "b @ ''}'' @ t"] by (simp add: plain_text_def)
  have e: "refEnd ?rest (length l + 2) = Some (length l + 2 + length b + 1)"
    using assms refEnd_body [of "l @ ''${''" b t] by (simp add: plain_text_def plain_body_def)
  have n: "\<not> contains_str b ''${''"
    using assms(2) contains_str_None by (simp add: plain_text_def plain_body_def)
  have d: "drop (length l + 2 + length b + 1) ?rest = t" and tk: "take (length l) ?rest = l"
    by (simp_all add: numeral_eq_Suc)
  have raw: "take (length l + 2 + length b + 1 - length l) (drop (length l) ?rest) = ''${'' @ b @ ''}''"
    by (simp add: numeral_eq_Suc)
  have w: "(length l = 0 \<and> length l + 2 + length b + 1 = length ?rest) = (l = [] \<and> t = [])"
    by auto
  have body: "take (length (''${'' @ b @ ''}'') - 3) (drop 2 (''${'' @ b @ ''}'')) = b"
    by simp
  show ?thesis
    unfolding expand_plain.simps [of resolve ?rest] i option.case e Let_def d tk raw w body
    using n by simp
qed

lemma expand_loop_template:
  assumes "plain_template segs fin"
    and "\<And>l b w. (l, b) \<in> set segs \<Longrightarrow>
      resolve (parseReference (''${'' @ b @ ''}'') False w False) = Inr (VString (f b))"
  shows "expand_loop resolve (render segs fin) sb =
    Inr (VString (if segs \<noteq> [] \<and> fst (last segs) = [] \<and> fin = [] then f (snd (last segs))
                  else sb @ expansion f segs fin))"
  using assms
proof (induction segs arbitrary: sb)
  case Nil
  then have "index_str fin ''${'' = None"
    by (simp add: plain_template_def plain_text_def index_str_None)
  with Nil show ?case
    using expand_loop_plain [of fin]
    by (simp add: plain_template_def plain_text_def expansion_def expand_plain.simps)
next
  case (Cons seg segs)
  obtain l b where seg: "seg = (l, b)" by force
  have lb: "plain_text l" "plain_body b" and tmpl: "plain_template segs fin"
    using Cons.prems(1) seg by (auto simp: plain_template_def)
  have r: "resolve (parseReference (''${'' @ b @ ''}'') False w False) = Inr (VString (f b))" for w
    by (rule Cons.prems(2) [of l]) (simp add: seg)
  have IH: "expand_loop resolve (render segs fin) sb' =
      Inr (VString (if segs \<noteq> [] \<and> fst (last segs) = [] \<and> fin = [] then f (snd (last segs))
                    else sb' @ expansion f segs fin))" for sb'
  proof (rule Cons.IH [OF tmpl])
    fix l b w
    assume "(l, b) \<in> set segs"
    then show "resolve (parseReference (''${'' @ b @ ''}'') False w False) = Inr (VString (f b))"
      by (intro Cons.prems(2) [of l]) simp
  qed
  have em: "render segs fin = [] \<longleftrightarrow> segs = [] \<and> fin = []"
    by (cases segs) auto
  show ?case
    unfolding seg render.simps
    using expand_loop_plain [OF render_no_BS [OF Cons.prems(1)]] seg
      expand_plain_ref [OF lb, of resolve "render segs fin" sb] r em IH
    by (auto simp: Let_def as_text_def expansion_def)
qed

subsection \<open>Board lookups\<close>

lemma lookupBoardRef_exact: "Var b path = Some v \<Longrightarrow> lookupBoardRef b path = Some v"
  by (simp add: lookupBoardRef_def)

lemma walk_path_append: "walk_path v (xs @ ys) = walk_path (walk_path v xs) ys"
  by (induction v xs rule: walk_path.induct) (auto elim: walk_path.elims)

subsection \<open>Properties\<close>

text \<open>What \<open>ExpandRefs\<close> returns on a template of plain text and well-formed references that all
  resolve to text: the expansion of every segment, except that a template ending in two adjacent
  references (or in a reference at the start of the string) returns the last reference's value
  alone. For adjacent references that loses all the text before it: the whole-string test looks at
  the unread rest and not at the string.\<close>

theorem expand_refs_template:
  assumes "plain_template segs fin" "segs \<noteq> []"
    and "\<And>l b w. (l, b) \<in> set segs \<Longrightarrow>
      resolve (parseReference (''${'' @ b @ ''}'') False w False) = Inr (VString (f b))"
  shows "ExpandRefs resolve (render segs fin) =
    Inr (VString (if fst (last segs) = [] \<and> fin = [] then f (snd (last segs))
                  else expansion f segs fin))"
proof -
  obtain l b segs' where "segs = (l, b) # segs'"
    using assms(2) by (cases segs) auto
  then have "contains_str (render segs fin) ''${''"
    using contains_str_after [of l "''${''" "b @ ''}'' @ render segs' fin"] by simp
  then show ?thesis
    using expand_loop_template [where resolve = resolve and f = f and sb = "[]", OF assms(1,3)] assms(2) by (simp add: ExpandRefs_def)
qed

text \<open>The witness uses the passthrough-like resolver that returns the path of a reference:
  \<^verbatim>\<open>h=${env:A}.${env:B}\<close> expands in full, \<^verbatim>\<open>h=${env:A}${env:B}\<close> to the last value only.\<close>

theorem expand_refs_template_witness:
  "ExpandRefs (\<lambda>r. Inr (VString (Path r))) ''h=${env:A}.${env:B}'' = Inr (VString ''h=A.B'') \<and>
   ExpandRefs (\<lambda>r. Inr (VString (Path r))) ''h=${env:A}${env:B}'' = Inr (VString ''B'')"
proof -
  have t: "plain_template [(''h='', ''env:A''), (l, ''env:B'')] []" if "l = [] \<or> l = ''.''" for l
    using that by (auto simp: plain_template_def plain_text_def plain_body_def)
  have p: "Path (parseReference (''${'' @ b @ ''}'') False w False) = drop 4 b"
    if "b = ''env:A'' \<or> b = ''env:B''" for b w
    using that by (auto simp: parseReference_def cut_colon_def trim_space_def is_space_def)
  have r: "Inr (VString (Path (parseReference (''${'' @ b @ ''}'') False w False))) =
      (Inr (VString (drop 4 b)) :: go_error + val)"
    if "(l, b) \<in> set [(''h='', ''env:A''), (l', ''env:B'')]" for l l' b w
    using that p by auto
  have "ExpandRefs (\<lambda>r. Inr (VString (Path r))) (render [(''h='', ''env:A''), (''.'', ''env:B'')] []) =
      Inr (VString (''h='' @ ''A'' @ ''.'' @ ''B''))"
    by (subst expand_refs_template [where f = "drop 4"], rule t, simp, simp, rule r, assumption)
      (simp add: expansion_def)
  moreover have "ExpandRefs (\<lambda>r. Inr (VString (Path r))) (render [(''h='', ''env:A''), ([], ''env:B'')] []) =
      Inr (VString ''B'')"
    by (subst expand_refs_template [where f = "drop 4"], rule t, simp, simp, rule r, assumption) simp
  ultimately show ?thesis by simp
qed

end
