(* ===== verification/Delegation.thy ===== *)
theory Delegation
  imports Errdefs "HOL-Library.Finite_Map"
begin

text \<open>
  The backend-neutral contract of \<open>core/delegation\<close>: modes, targets, requests, statuses and
  responses with their validation (\<open>delegation.go\<close>), the run attributes (\<open>attributes.go\<close>)
  and the unit an asynchronous backend stores (\<open>AsyncRequest\<close> and \<open>Work\<close> of \<open>service.go\<close>,
  \<open>StreamRef\<close> of \<open>stream.go\<close>). A Go string type with named constants is a datatype with one
  constructor per constant and one for every other string. A map loop that stops at the first bad
  entry walks the keys in sorted order here; \<open>validateAttributes_any_order\<close> shows that the
  outcome class does not depend on the order.
\<close>

type_synonym metadata = "(string, string) fmap"

subsection \<open>Modes and targets\<close>

datatype Mode = ModeSync | ModeAsync | UnknownMode string

definition Mode_Validate :: "Mode \<Rightarrow> err" where
  "Mode_Validate m =
     (case m of UnknownMode _ \<Rightarrow> Some (errf Validation ''delegation: unknown mode'') | _ \<Rightarrow> None)"

record Target =
  tID :: string
  Description :: string
  Modes :: "Mode list"
  tMetadata :: metadata

fun validate_modes :: "Mode list \<Rightarrow> Mode list \<Rightarrow> err" where
  "validate_modes seen [] = None"
| "validate_modes seen (m # ms) =
     (case Mode_Validate m of
        Some e \<Rightarrow> Some e
      | None \<Rightarrow> if List.member seen m then Some (errf Validation ''delegation: target repeats mode'')
                else validate_modes (m # seen) ms)"

definition Target_Validate :: "Target \<Rightarrow> err" where
  "Target_Validate t =
     (if trim_space (tID t) = [] then Some (errf Validation ''delegation: target id is required'')
      else validate_modes [] (Modes t))"

subsection \<open>Run attributes\<close>

definition AttrToolCallID :: string where
  "AttrToolCallID = ''tool.call_id''"

definition lineageOwnedAttributes :: "string list" where
  "lineageOwnedAttributes = [AttrToolCallID]"

definition mergeRunAttributes :: "metadata \<Rightarrow> metadata \<Rightarrow> metadata" where
  "mergeRunAttributes lineage declared = declared ++\<^sub>f lineage"

definition withoutLineageAttributes :: "metadata \<Rightarrow> metadata" where
  "withoutLineageAttributes attributes =
     foldl (\<lambda>m k. fmdrop k m) attributes lineageOwnedAttributes"

definition validate_attribute :: "string \<Rightarrow> string \<Rightarrow> err" where
  "validate_attribute key v =
     (if trim_space key = [] then Some (errf Validation ''delegation: attribute key must not be blank'')
      else if key \<noteq> trim_space key then
        Some (errf Validation ''delegation: attribute key has surrounding whitespace'')
      else if List.member lineageOwnedAttributes key then
        Some (errf Validation ''delegation: attribute is owned by the service and cannot be declared'')
      else if v \<noteq> trim_space v then
        Some (errf Validation ''delegation: attribute value has surrounding whitespace'')
      else None)"

definition validate_attributes_in :: "string list \<Rightarrow> metadata \<Rightarrow> err" where
  "validate_attributes_in ks attributes =
     first_some (map (\<lambda>k. case fmlookup attributes k of
                         None \<Rightarrow> None | Some v \<Rightarrow> validate_attribute k v) ks)"

definition validateAttributes :: "metadata \<Rightarrow> err" where
  "validateAttributes attributes =
     validate_attributes_in (sorted_list_of_fset (fmdom attributes)) attributes"

subsection \<open>Requests and responses\<close>

record Request =
  rMode :: Mode
  rTarget :: string
  Input :: string
  rMetadata :: metadata
  Attributes :: metadata
  IdempotencyKey :: string

definition Request_Validate :: "Request \<Rightarrow> err" where
  "Request_Validate r =
     (case Mode_Validate (rMode r) of
        Some e \<Rightarrow> Some e
      | None \<Rightarrow>
        if trim_space (rTarget r) = [] then Some (errf Validation ''delegation: request target is required'')
        else if trim_space (Input r) = [] then Some (errf Validation ''delegation: request input is required'')
        else (case validateAttributes (Attributes r) of
                Some e \<Rightarrow> Some e
              | None \<Rightarrow>
                if IdempotencyKey r \<noteq> [] \<and> trim_space (IdempotencyKey r) = [] then
                  Some (errf Validation ''delegation: request idempotency key must not be blank'')
                else None))"

datatype RStatus =
  StatusAccepted | StatusRunning | StatusSucceeded | StatusFailed | StatusCanceled
| UnknownStatus string

definition RStatus_Validate :: "RStatus \<Rightarrow> err" where
  "RStatus_Validate s =
     (case s of UnknownStatus _ \<Rightarrow> Some (errf Validation ''delegation: unknown status'') | _ \<Rightarrow> None)"

definition Terminal :: "RStatus \<Rightarrow> bool" where
  "Terminal s \<longleftrightarrow> (case s of StatusSucceeded \<Rightarrow> True | StatusFailed \<Rightarrow> True | StatusCanceled \<Rightarrow> True
                     | _ \<Rightarrow> False)"

record Response =
  pID :: string
  pStatus :: RStatus
  pOutput :: string
  pError :: string
  pMetadata :: metadata

definition Response_Validate :: "Response \<Rightarrow> err" where
  "Response_Validate r =
     (if trim_space (pID r) = [] then Some (errf Validation ''delegation: response id is required'')
      else case RStatus_Validate (pStatus r) of
        Some e \<Rightarrow> Some e
      | None \<Rightarrow>
        if \<not> Terminal (pStatus r) \<and> (pOutput r \<noteq> [] \<or> pError r \<noteq> []) then
          Some (errf Validation ''delegation: non-terminal response cannot carry output or error'')
        else (case pStatus r of
                StatusSucceeded \<Rightarrow>
                  if pError r \<noteq> [] then
                    Some (errf Validation ''delegation: succeeded response cannot carry an error'')
                  else None
              | StatusFailed \<Rightarrow>
                  if trim_space (pError r) = [] then
                    Some (errf Validation ''delegation: failed response requires an error'')
                  else None
              | StatusCanceled \<Rightarrow>
                  if pOutput r \<noteq> [] then
                    Some (errf Validation ''delegation: canceled response cannot carry output'')
                  else None
              | _ \<Rightarrow> None))"

definition ErrTargetNotFound :: go_error where
  "ErrTargetNotFound = Plain ''delegation: target not found''"

definition ErrRequestNotFound :: go_error where
  "ErrRequestNotFound = Plain ''delegation: request not found''"

definition ErrUnsupportedMode :: go_error where
  "ErrUnsupportedMode = Plain ''delegation: mode not supported''"

definition TargetNotFound :: "string \<Rightarrow> go_error" where
  "TargetNotFound i = Mark NotFound (Wrapf i ErrTargetNotFound)"

definition RequestNotFound :: "string \<Rightarrow> go_error" where
  "RequestNotFound i = Mark NotFound (Wrapf i ErrRequestNotFound)"

definition UnsupportedMode :: "string \<Rightarrow> go_error" where
  "UnsupportedMode m = Mark NotAvailable (Wrapf m ErrUnsupportedMode)"

subsection \<open>Asynchronous work\<close>

record StreamTarget =
  stKind :: string
  stID :: string

record StreamPolicySnapshot =
  Visibility :: string
  Authority :: string
  AckMode :: string
  MaxUnacked :: int
  QueueSize :: int
  DeliveryTimeout :: int

record StreamRef =
  srRef :: string
  srPolicy :: StreamPolicySnapshot
  srTarget :: "StreamTarget option"

record AsyncRequest =
  aRequest :: Request
  Caller :: string
  Depth :: int
  ParentRunID :: string
  CallID :: string
  aStream :: "StreamRef option"

record Work =
  wID :: string
  LeaseToken :: string
  wRequest :: AsyncRequest

definition RunIDMetadataKey :: string where
  "RunIDMetadataKey = ''delegation.run_id''"

subsection \<open>Lemmas\<close>

lemma Terminal_simps [simp]:
  "Terminal StatusSucceeded" "Terminal StatusFailed" "Terminal StatusCanceled"
  "\<not> Terminal StatusAccepted" "\<not> Terminal StatusRunning" "\<not> Terminal (UnknownStatus s)"
  by (simp_all add: Terminal_def)

lemma RStatus_Validate_iff: "RStatus_Validate s = None \<longleftrightarrow> (\<forall>u. s \<noteq> UnknownStatus u)"
  by (cases s) (simp_all add: RStatus_Validate_def)

lemma validate_attribute_class: "validate_attribute k v = Some e \<Longrightarrow> \<exists>m. e = errf Validation m"
  by (auto simp: validate_attribute_def split: if_splits)

lemma validate_attributes_in_class:
  "validate_attributes_in ks m = Some e \<Longrightarrow> \<exists>msg. e = errf Validation msg"
  by (drule first_some_SomeD [OF trans [OF validate_attributes_in_def [symmetric]]])
    (auto dest!: sym [of "Some e"] dest: validate_attribute_class split: option.splits)

lemma validate_attributes_in_None:
  "validate_attributes_in ks m = None \<longleftrightarrow>
    (\<forall>k \<in> set ks. \<forall>v. fmlookup m k = Some v \<longrightarrow> validate_attribute k v = None)"
  by (auto simp: validate_attributes_in_def split: option.splits)

lemma validateAttributes_any_order:
  assumes "set ks = fset (fmdom m)"
  shows "validate_attributes_in ks m = None \<longleftrightarrow> validateAttributes m = None"
    and "validate_attributes_in ks m = Some e \<Longrightarrow> \<exists>msg. e = errf Validation msg"
  using assms validate_attributes_in_class
  by (auto simp: validateAttributes_def validate_attributes_in_None sorted_list_of_fset_simps)

lemma mergeRunAttributes_lineage:
  "fmlookup (mergeRunAttributes lineage declared) k =
    (case fmlookup lineage k of Some v \<Rightarrow> Some v | None \<Rightarrow> fmlookup declared k)"
  by (simp add: mergeRunAttributes_def fmdom'I split: option.splits) (auto simp: fmlookup_dom_iff)

text \<open>An attribute map that passes validation carries no lineage key, so merging it under the
  lineage and stripping the lineage again gives it back.\<close>

lemma withoutLineage_validated:
  assumes "validateAttributes m = None"
  shows "withoutLineageAttributes m = m"
proof -
  have "fmlookup m AttrToolCallID = None"
  proof (rule ccontr)
    assume "fmlookup m AttrToolCallID \<noteq> None"
    then obtain v where v: "fmlookup m AttrToolCallID = Some v" by auto
    then have "AttrToolCallID |\<in>| fmdom m" by (rule fmdomI)
    then have "validate_attribute AttrToolCallID v = None"
      using assms v by (simp add: validateAttributes_def validate_attributes_in_None)
    then show False
      by (simp add: validate_attribute_def lineageOwnedAttributes_def split: if_splits)
  qed
  then show ?thesis
    by (intro fmap_ext) (auto simp: withoutLineageAttributes_def lineageOwnedAttributes_def)
qed

lemma Response_Validate_live:
  "trim_space (pID r) \<noteq> [] \<Longrightarrow> pStatus r = StatusAccepted \<or> pStatus r = StatusRunning \<Longrightarrow>
   pOutput r = [] \<Longrightarrow> pError r = [] \<Longrightarrow> Response_Validate r = None"
  by (auto simp: Response_Validate_def RStatus_Validate_def)

end
