(* ===== verification/Kanban_Board.thy ===== *)
theory Kanban_Board
  imports Delegation
begin

text \<open>
  The in-memory delegation backend of \<open>core/delegation/kanban\<close> (\<open>card.go\<close>, \<open>kanban.go\<close>,
  the subject helpers of \<open>events.go\<close>).

  Cards and retained operations are shared by reference in the source, and the code compares the
  references. Each kind has a store here, a list whose positions are the references: \<open>cards\<close> and
  \<open>index\<close> hold positions of \<open>cstore\<close>; \<open>idempotency\<close> and \<open>tombstones\<close> hold positions of
  \<open>rstore\<close>. \<open>workReady\<close> counts how often the wake-up channel was closed and replaced,
  \<open>canceled\<close> lists the lease tokens whose contexts were cancelled, and \<open>emitted\<close> the card
  snapshots handed to \<open>afterTransition\<close>.

  Every critical section of the mutex is one function with the time \<open>now\<close> at which it runs;
  \<open>time.Time\<close> is an \<open>int\<close>, the zero time \<open>None\<close>. The SHA-256 of the JSON form is the
  argument \<open>fp\<close>, which may fail; random identifiers are arguments, \<open>None\<close> when the random source
  fails. \<open>Submit\<close> has two critical sections with the validator between them, which interleave with
  other calls: the step relation \<open>kstep\<close> has one rule per critical section.
\<close>

subsection \<open>Cards\<close>

datatype Status =
  StatusPending | StatusClaimed | StatusSuspended | StatusDone | StatusCardFailed | StatusCardCanceled

definition IsTerminal :: "Status \<Rightarrow> bool" where
  "IsTerminal s \<longleftrightarrow> s = StatusDone \<or> s = StatusCardFailed \<or> s = StatusCardCanceled"

record Card =
  cID :: string
  Producer :: string
  Consumer :: string
  cStatus :: Status
  cTask :: "AsyncRequest option"
  cResult :: "Response option"
  RunID :: string
  ResumeRef :: string
  CreatedAt :: int
  UpdatedAt :: int
  cMeta :: metadata

definition Elapsed :: "Card option \<Rightarrow> int" where
  "Elapsed c = (case c of None \<Rightarrow> 0
                | Some c \<Rightarrow> if UpdatedAt c < CreatedAt c then 0 else UpdatedAt c - CreatedAt c)"

record Filter =
  fProducer :: string
  fConsumer :: string
  fStatus :: "Status option"
  fTarget :: string

definition Filter_matches :: "Filter \<Rightarrow> Card option \<Rightarrow> bool" where
  "Filter_matches f c =
     (case c of
        None \<Rightarrow> False
      | Some c \<Rightarrow>
        if fProducer f \<noteq> [] \<and> Producer c \<noteq> fProducer f then False
        else if fConsumer f \<noteq> [] \<and> Consumer c \<noteq> fConsumer f then False
        else if fStatus f \<noteq> None \<and> Some (cStatus c) \<noteq> fStatus f then False
        else fTarget f = [] \<or>
          (case cTask c of None \<Rightarrow> False | Some t \<Rightarrow> rTarget (aRequest t) = fTarget f))"

subsection \<open>The board\<close>

record retainedOperation =
  rid :: string
  rkey :: string
  fingerprint :: string
  response :: "Response option"
  expires :: "int option"

record Kanban =
  scopeID :: string
  maxPending :: int
  cardTTL :: int
  maxCards :: int
  idempotencyRetention :: int
  validator :: "(AsyncRequest \<Rightarrow> err) option"
  closed :: bool
  cstore :: "Card list"
  cards :: "nat list"
  index :: "(string, nat) fmap"
  rstore :: "retainedOperation list"
  idempotency :: "(string, nat) fmap"
  tombstones :: "(string, nat) fmap"
  statusCount :: "Status \<Rightarrow> int"
  workReady :: nat
  leases :: "(string, string) fmap"
  canceled :: "string list"
  emitted :: "Card list"

type_synonym fpfun = "AsyncRequest \<Rightarrow> go_error + string"

definition workSourceConsumer :: string where
  "workSourceConsumer = ''delegation-worker''"

definition New :: "string \<Rightarrow> int \<Rightarrow> int \<Rightarrow> int \<Rightarrow> int \<Rightarrow> (AsyncRequest \<Rightarrow> err) option \<Rightarrow> go_error + Kanban" where
  "New scope mp ttl mc ret vld =
     (if ret \<le> 0 then Inl (errf Validation ''delegation kanban: idempotency retention must be positive'')
      else Inr \<lparr>scopeID = scope, maxPending = mp, cardTTL = ttl, maxCards = mc,
        idempotencyRetention = ret, validator = vld, closed = False, cstore = [], cards = [],
        index = fmempty, rstore = [], idempotency = fmempty, tombstones = fmempty,
        statusCount = (\<lambda>_. 0), workReady = 0, leases = fmempty, canceled = [], emitted = []\<rparr>)"

definition card_at :: "Kanban \<Rightarrow> nat \<Rightarrow> Card" where
  "card_at b p = cstore b ! p"

definition set_card :: "nat \<Rightarrow> Card \<Rightarrow> Kanban \<Rightarrow> Kanban" where
  "set_card p c b = b\<lparr>cstore := (cstore b)[p := c]\<rparr>"

definition signalWorkLocked :: "Kanban \<Rightarrow> Kanban" where
  "signalWorkLocked b = b\<lparr>workReady := workReady b + 1\<rparr>"

definition takeLeaseLocked :: "string \<Rightarrow> Kanban \<Rightarrow> Kanban" where
  "takeLeaseLocked i b = b\<lparr>leases := fmdrop i (leases b),
     canceled := canceled b @ (case fmlookup (leases b) i of None \<Rightarrow> [] | Some tok \<Rightarrow> [tok])\<rparr>"

definition afterTransition :: "Card \<Rightarrow> Kanban \<Rightarrow> Kanban" where
  "afterTransition snapshot b = b\<lparr>emitted := emitted b @ [snapshot]\<rparr>"

subsection \<open>Retention and eviction\<close>

text \<open>The last three assignments of \<open>retainTerminalLocked\<close>, on the operation at position \<open>a\<close>.\<close>

definition settle :: "nat \<Rightarrow> Card \<Rightarrow> Response \<Rightarrow> int \<Rightarrow> Kanban \<Rightarrow> Kanban" where
  "settle a crd resp ex b =
     b\<lparr>rstore := (rstore b)[a := (rstore b ! a)\<lparr>response := Some (resp\<lparr>pID := cID crd\<rparr>), expires := Some ex\<rparr>],
       tombstones := fmupd (cID crd) a (tombstones b)\<rparr>"

definition retainTerminalLocked :: "fpfun \<Rightarrow> int \<Rightarrow> nat \<Rightarrow> Kanban \<Rightarrow> Kanban" where
  "retainTerminalLocked fp now p b =
     (let crd = card_at b p in
      case (cTask crd, cResult crd) of
        (Some task, Some resp) \<Rightarrow>
          (let key = IdempotencyKey (aRequest task);
               ex = UpdatedAt crd + idempotencyRetention b;
               retained = fmlookup (idempotency b) key
           in if \<not> now < ex then b
              else if key = [] \<or> retained = None \<or> rid (rstore b ! the retained) \<noteq> cID crd then
                (case fp task of
                   Inl _ \<Rightarrow> b
                 | Inr f \<Rightarrow>
                   (let a = length (rstore b);
                        b1 = b\<lparr>rstore := rstore b @ [\<lparr>rid = cID crd, rkey = key, fingerprint = f,
                               response = None, expires = None\<rparr>]\<rparr>;
                        b2 = (if key \<noteq> [] \<and> retained = None
                              then b1\<lparr>idempotency := fmupd key a (idempotency b1)\<rparr> else b1)
                    in settle a crd resp ex b2))
              else settle (the retained) crd resp ex b)
      | _ \<Rightarrow> b)"

definition removeCardLocked :: "fpfun \<Rightarrow> int \<Rightarrow> nat \<Rightarrow> Kanban \<Rightarrow> Kanban" where
  "removeCardLocked fp now p b =
     (let crd = card_at b p; b1 = b\<lparr>index := fmdrop (cID crd) (index b)\<rparr>
      in if \<not> IsTerminal (cStatus crd) \<or> cResult crd = None then b1
         else retainTerminalLocked fp now p b1)"

definition expired :: "int \<Rightarrow> retainedOperation \<Rightarrow> bool" where
  "expired now r \<longleftrightarrow> (case expires r of None \<Rightarrow> True | Some ex \<Rightarrow> \<not> now < ex)"

text \<open>One iteration of the loop over the tombstones, and the loop in some order of the keys. A zero
  expiry counts as past, as \<open>now.Before(zero)\<close> is false.\<close>

definition expire_one :: "int \<Rightarrow> string \<Rightarrow> Kanban \<Rightarrow> Kanban" where
  "expire_one now i b =
     (case fmlookup (tombstones b) i of
        None \<Rightarrow> b
      | Some a \<Rightarrow>
        if \<not> expired now (rstore b ! a) then b
        else let key = rkey (rstore b ! a); b1 = b\<lparr>tombstones := fmdrop i (tombstones b)\<rparr>
          in if key \<noteq> [] \<and> fmlookup (idempotency b1) key = Some a
             then b1\<lparr>idempotency := fmdrop key (idempotency b1)\<rparr> else b1)"

definition expireRetainedLocked :: "int \<Rightarrow> Kanban \<Rightarrow> Kanban" where
  "expireRetainedLocked now b =
     fold (expire_one now) (sorted_list_of_fset (fmdom (tombstones b))) b"

definition drop_card :: "fpfun \<Rightarrow> int \<Rightarrow> nat \<Rightarrow> Kanban \<Rightarrow> Kanban" where
  "drop_card fp now p b =
     (let b1 = removeCardLocked fp now p b; s = cStatus (card_at b p)
      in b1\<lparr>statusCount := (statusCount b1)(s := statusCount b1 s - 1)\<rparr>)"

fun evict_ttl :: "fpfun \<Rightarrow> int \<Rightarrow> nat list \<Rightarrow> Kanban \<Rightarrow> nat list \<times> Kanban" where
  "evict_ttl fp now [] b = ([], b)"
| "evict_ttl fp now (p # ps) b =
     (if IsTerminal (cStatus (card_at b p)) \<and> now - UpdatedAt (card_at b p) > cardTTL b
      then evict_ttl fp now ps (drop_card fp now p b)
      else let (kept, b') = evict_ttl fp now ps b in (p # kept, b'))"

fun evict_cap :: "fpfun \<Rightarrow> int \<Rightarrow> int \<Rightarrow> nat list \<Rightarrow> Kanban \<Rightarrow> nat list \<times> Kanban" where
  "evict_cap fp now excess [] b = ([], b)"
| "evict_cap fp now excess (p # ps) b =
     (if excess > 0 \<and> IsTerminal (cStatus (card_at b p))
      then evict_cap fp now (excess - 1) ps (drop_card fp now p b)
      else let (kept, b') = evict_cap fp now excess ps b in (p # kept, b'))"

definition evictLocked :: "fpfun \<Rightarrow> int \<Rightarrow> Kanban \<Rightarrow> Kanban" where
  "evictLocked fp now b =
     (let b1 = expireRetainedLocked now b;
          b2 = (if cardTTL b1 > 0
                then (let (kept, b') = evict_ttl fp now (cards b1) b1 in b'\<lparr>cards := kept\<rparr>) else b1)
      in if maxCards b2 \<le> 0 \<or> int (length (cards b2)) \<le> maxCards b2 then b2
         else (let excess = int (length (cards b2)) - maxCards b2;
                   (kept, b') = evict_cap fp now excess (cards b2) b2
               in b'\<lparr>cards := kept\<rparr>))"

subsection \<open>Submit and Status\<close>

definition idempotentSubmissionLocked ::
  "fpfun \<Rightarrow> int \<Rightarrow> AsyncRequest \<Rightarrow> Kanban \<Rightarrow> (go_error + string option) \<times> Kanban" where
  "idempotentSubmissionLocked fp now req b =
     (let key = IdempotencyKey (aRequest req) in
      if key = [] then (Inr None, b)
      else case fmlookup (idempotency b) key of
        None \<Rightarrow> (Inr None, b)
      | Some a \<Rightarrow>
        (let retained = rstore b ! a in
         if (case expires retained of None \<Rightarrow> False | Some ex \<Rightarrow> \<not> now < ex) then
           (Inr None, b\<lparr>idempotency := fmdrop key (idempotency b),
                        tombstones := fmdrop (rid retained) (tombstones b)\<rparr>)
         else case fp req of
           Inl e \<Rightarrow> (Inl (Wrapf ''delegation kanban: fingerprint request'' e), b)
         | Inr f \<Rightarrow>
             if fingerprint retained \<noteq> f then
               (Inl (errf Conflict ''delegation kanban: idempotency key was already used for a different request''), b)
             else (Inr (Some (rid retained)), b)))"

definition Submit_validate :: "AsyncRequest \<Rightarrow> err" where
  "Submit_validate req =
     (case Request_Validate (aRequest req) of
        Some e \<Rightarrow> Some e
      | None \<Rightarrow> if rMode (aRequest req) \<noteq> ModeAsync
                then Some (errf Validation ''delegation kanban: request mode must be async'') else None)"

text \<open>The first critical section: \<open>Inr (Some id)\<close> is a replay, \<open>Inr None\<close> goes on to the validator.\<close>

definition Submit_check :: "fpfun \<Rightarrow> int \<Rightarrow> AsyncRequest \<Rightarrow> Kanban \<Rightarrow> (go_error + string option) \<times> Kanban" where
  "Submit_check fp now req b =
     (if closed b then (Inl (errf NotAvailable ''delegation kanban: backend is closed''), b)
      else idempotentSubmissionLocked fp now req (evictLocked fp now b))"

definition new_card :: "string \<Rightarrow> int \<Rightarrow> AsyncRequest \<Rightarrow> Card" where
  "new_card i created req =
     \<lparr>cID = i, Producer = Caller req, Consumer = [], cStatus = StatusPending, cTask = Some req,
      cResult = None, RunID = [], ResumeRef = [], CreatedAt = created, UpdatedAt = created,
      cMeta = rMetadata (aRequest req)\<rparr>"

text \<open>The second critical section, with the card built at time \<open>created\<close>.\<close>

definition Submit_admit ::
  "fpfun \<Rightarrow> int \<Rightarrow> int \<Rightarrow> string \<Rightarrow> AsyncRequest \<Rightarrow> Kanban \<Rightarrow> (go_error + string) \<times> Kanban" where
  "Submit_admit fp now created i req b =
     (if closed b then (Inl (errf NotAvailable ''delegation kanban: backend is closed''), b)
      else case idempotentSubmissionLocked fp now req (evictLocked fp now b) of
        (Inl e, b1) \<Rightarrow> (Inl e, b1)
      | (Inr (Some i'), b1) \<Rightarrow> (Inr i', b1)
      | (Inr None, b1) \<Rightarrow>
        if maxPending b1 > 0 \<and> statusCount b1 StatusPending \<ge> maxPending b1 then
          (Inl (errf RateLimit ''delegation kanban: pending limit reached''), b1)
        else
          (let crd = new_card i created req;
               p = length (cstore b1);
               key = IdempotencyKey (aRequest req);
               b2 = b1\<lparr>cstore := cstore b1 @ [crd], cards := cards b1 @ [p],
                       index := fmupd i p (index b1)\<rparr>;
               b3 = (if key = [] then Inr b2
                     else case fp req of
                       Inl e \<Rightarrow> Inl e
                     | Inr f \<Rightarrow> Inr (b2\<lparr>rstore := rstore b2 @ [\<lparr>rid = i, rkey = key, fingerprint = f,
                                        response = None, expires = None\<rparr>],
                                        idempotency := fmupd key (length (rstore b2)) (idempotency b2)\<rparr>))
           in case b3 of
                Inl e \<Rightarrow> (Inl (Wrapf ''delegation kanban: fingerprint request'' e), b2)
              | Inr b3 \<Rightarrow>
                (let b4 = b3\<lparr>statusCount := (statusCount b3)(StatusPending := statusCount b3 StatusPending + 1)\<rparr>;
                     b5 = signalWorkLocked (evictLocked fp now b4)
                 in (Inr i, afterTransition crd b5))))"

definition Submit ::
  "fpfun \<Rightarrow> int \<Rightarrow> string option \<Rightarrow> AsyncRequest \<Rightarrow> Kanban \<Rightarrow> (go_error + string) \<times> Kanban" where
  "Submit fp now newid req b =
     (case Submit_validate req of
        Some e \<Rightarrow> (Inl e, b)
      | None \<Rightarrow>
        (case Submit_check fp now req b of
           (Inl e, b1) \<Rightarrow> (Inl e, b1)
         | (Inr (Some i), b1) \<Rightarrow> (Inr i, b1)
         | (Inr None, b1) \<Rightarrow>
           (case (case validator b1 of None \<Rightarrow> None | Some v \<Rightarrow> v req) of
              Some e \<Rightarrow> (Inl e, b1)
            | None \<Rightarrow>
              (case newid of
                 None \<Rightarrow> (Inl (Plain ''delegation kanban: generate card id''), b1)
               | Some i \<Rightarrow> Submit_admit fp now now i req b1))))"

definition responseForCard :: "Card \<Rightarrow> Response" where
  "responseForCard crd =
     (case cResult crd of
        Some r \<Rightarrow> r\<lparr>pID := cID crd\<rparr>
      | None \<Rightarrow>
        \<lparr>pID = cID crd,
         pStatus = (if cStatus crd = StatusClaimed then StatusRunning else StatusAccepted),
         pOutput = [], pError = [],
         pMetadata = (if RunID crd \<noteq> [] then fmupd RunIDMetadataKey (RunID crd) (cMeta crd)
                      else fmdrop RunIDMetadataKey (cMeta crd))\<rparr>)"

definition Board_Status :: "err \<Rightarrow> int \<Rightarrow> string \<Rightarrow> Kanban \<Rightarrow> go_error + Response" where
  "Board_Status ctxErr now i b =
     (if i = [] then Inl (errf Validation ''delegation kanban: delegation id is required'')
      else case ctxErr of
        Some e \<Rightarrow> Inl e
      | None \<Rightarrow>
        (case fmlookup (index b) i of
           Some p \<Rightarrow> Inr (responseForCard (card_at b p))
         | None \<Rightarrow>
           (case fmlookup (tombstones b) i of
              Some a \<Rightarrow>
                (case (expires (rstore b ! a), response (rstore b ! a)) of
                   (Some ex, Some r) \<Rightarrow> if now < ex then Inr r else Inl (RequestNotFound i)
                 | _ \<Rightarrow> Inl (RequestNotFound i))
            | None \<Rightarrow> Inl (RequestNotFound i))))"

subsection \<open>Transitions\<close>

definition finishTransitionLocked :: "fpfun \<Rightarrow> int \<Rightarrow> nat \<Rightarrow> Status \<Rightarrow> Kanban \<Rightarrow> Kanban" where
  "finishTransitionLocked fp now p from b =
     (let crd = (card_at b p)\<lparr>UpdatedAt := now\<rparr>;
          b1 = set_card p crd b;
          sc = (statusCount b1)(from := statusCount b1 from - 1);
          b2 = b1\<lparr>statusCount := sc(cStatus crd := sc (cStatus crd) + 1)\<rparr>
      in if IsTerminal (cStatus crd) \<and> cResult crd \<noteq> None
         then retainTerminalLocked fp now p b2 else b2)"

definition claimLocked :: "fpfun \<Rightarrow> int \<Rightarrow> nat \<Rightarrow> string \<Rightarrow> Kanban \<Rightarrow> Kanban" where
  "claimLocked fp now p consumer b =
     (let from = cStatus (card_at b p)
      in finishTransitionLocked fp now p from
           (set_card p ((card_at b p)\<lparr>cStatus := StatusClaimed, Consumer := consumer\<rparr>) b))"

datatype claim_outcome =
  Claimed Work
| Claim_failed go_error
| Claim_waits nat

text \<open>One turn of the loop of \<open>Claim\<close>: \<open>Claim_waits g\<close> blocks until the wake-up channel of
  generation \<open>g\<close> is closed. \<open>tok\<close> is the fresh lease token.\<close>

definition Claim :: "fpfun \<Rightarrow> int \<Rightarrow> string option \<Rightarrow> Kanban \<Rightarrow> claim_outcome \<times> Kanban" where
  "Claim fp now tok b =
     (if closed b then (Claim_failed (errf NotAvailable ''delegation kanban: backend is closed''), b)
      else case find (\<lambda>p. cStatus (card_at b p) = StatusPending) (cards b) of
        None \<Rightarrow> (Claim_waits (workReady b), b)
      | Some p \<Rightarrow>
        (case tok of
           None \<Rightarrow> (Claim_failed (Plain ''delegation kanban: generate lease token''), b)
         | Some t \<Rightarrow>
           (let b1 = claimLocked fp now p workSourceConsumer b;
                i = cID (card_at b1 p);
                b2 = b1\<lparr>leases := fmupd i t (leases b1)\<rparr>
            in case cTask (card_at b1 p) of
                 Some req \<Rightarrow> (Claimed \<lparr>wID = i, LeaseToken = t, wRequest = req\<rparr>,
                              afterTransition (card_at b1 p) b2)
               | None \<Rightarrow> (Claim_failed (Plain ''nil task''), afterTransition (card_at b1 p) b2))))"

definition complete_status :: "RStatus \<Rightarrow> Status \<Rightarrow> Status" where
  "complete_status r from =
     (case r of StatusSucceeded \<Rightarrow> StatusDone | StatusFailed \<Rightarrow> StatusCardFailed
      | StatusCanceled \<Rightarrow> StatusCardCanceled | _ \<Rightarrow> from)"

definition completed_card :: "Response \<Rightarrow> Card \<Rightarrow> Card" where
  "completed_card resp crd =
     (let runID = (case fmlookup (pMetadata resp) RunIDMetadataKey of None \<Rightarrow> [] | Some r \<Rightarrow> r)
      in crd\<lparr>cStatus := complete_status (pStatus resp) (cStatus crd),
              RunID := (if runID \<noteq> [] then runID else RunID crd), cResult := Some resp\<rparr>)"

definition Complete ::
  "fpfun \<Rightarrow> err \<Rightarrow> int \<Rightarrow> string \<Rightarrow> string \<Rightarrow> Response \<Rightarrow> Kanban \<Rightarrow> err \<times> Kanban" where
  "Complete fp ctxErr now i tok resp0 b =
     (if i = [] then (Some (errf Validation ''delegation kanban: delegation id is required''), b)
      else if tok = [] then (Some (errf Validation ''delegation kanban: lease token is required''), b)
      else case ctxErr of
        Some e \<Rightarrow> (Some e, b)
      | None \<Rightarrow>
        (case fmlookup (index b) i of
           None \<Rightarrow> (None, b)
         | Some p \<Rightarrow>
           if fmlookup (leases b) i \<noteq> Some tok then (None, b)
           else if cStatus (card_at b p) \<noteq> StatusClaimed then
             (Some (errf Conflict ''delegation kanban: cannot complete card''), b)
           else
             (let resp = resp0\<lparr>pID := i\<rparr> in
              case Response_Validate resp of
                Some e \<Rightarrow> (Some e, b)
              | None \<Rightarrow>
                if \<not> Terminal (pStatus resp) then
                  (Some (errf Validation ''delegation kanban: completion status is not terminal''), b)
                else
                  (let from = cStatus (card_at b p);
                       b1 = set_card p (completed_card resp (card_at b p)) b;
                       b2 = finishTransitionLocked fp now p from b1;
                       b3 = takeLeaseLocked i b2
                   in (None, afterTransition (card_at b2 p) b3)))))"

definition NoteRunID :: "int \<Rightarrow> string \<Rightarrow> string \<Rightarrow> Kanban \<Rightarrow> err \<times> Kanban" where
  "NoteRunID now i runID b =
     (if i = [] \<or> runID = [] then
        (Some (errf Validation ''delegation kanban: delegation id and run id are required''), b)
      else case fmlookup (index b) i of
        None \<Rightarrow> (None, b)
      | Some p \<Rightarrow>
        if cStatus (card_at b p) \<noteq> StatusClaimed \<or> RunID (card_at b p) = runID then (None, b)
        else (let c = (card_at b p)\<lparr>RunID := runID, UpdatedAt := now\<rparr>
              in (None, afterTransition c (set_card p c b))))"

definition ClaimCard :: "fpfun \<Rightarrow> int \<Rightarrow> string \<Rightarrow> string \<Rightarrow> Kanban \<Rightarrow> bool \<times> Kanban" where
  "ClaimCard fp now i consumer b =
     (case fmlookup (index b) i of
        None \<Rightarrow> (False, b)
      | Some p \<Rightarrow>
        if cStatus (card_at b p) \<noteq> StatusPending then (False, b)
        else (let b1 = claimLocked fp now p consumer b
              in (True, afterTransition (card_at b1 p) b1)))"

definition transition ::
  "fpfun \<Rightarrow> int \<Rightarrow> string \<Rightarrow> (Card \<Rightarrow> Card option) \<Rightarrow> Kanban \<Rightarrow> bool \<times> Kanban" where
  "transition fp now i mutate b =
     (case fmlookup (index b) i of
        None \<Rightarrow> (False, b)
      | Some p \<Rightarrow>
        (case mutate (card_at b p) of
           None \<Rightarrow> (False, b)
         | Some crd \<Rightarrow>
           (let from = cStatus (card_at b p);
                b1 = finishTransitionLocked fp now p from (set_card p crd b);
                b2 = (if from = StatusClaimed \<and> cStatus crd \<noteq> StatusClaimed
                      then takeLeaseLocked i b1 else b1);
                b3 = (if cStatus crd = StatusPending then signalWorkLocked b2 else b2)
            in (True, afterTransition (card_at b1 p) b3))))"

definition suspend_card :: "string \<Rightarrow> Card \<Rightarrow> Card option" where
  "suspend_card resumeRef crd =
     (if cStatus crd \<noteq> StatusClaimed then None
      else Some (crd\<lparr>cStatus := StatusSuspended, ResumeRef := resumeRef, Consumer := []\<rparr>))"

definition Suspend :: "fpfun \<Rightarrow> int \<Rightarrow> string \<Rightarrow> string \<Rightarrow> Kanban \<Rightarrow> bool \<times> Kanban" where
  "Suspend fp now i resumeRef b = transition fp now i (suspend_card resumeRef) b"

definition resume_card :: "Card \<Rightarrow> Card option" where
  "resume_card crd =
     (if cStatus crd \<noteq> StatusSuspended then None
      else Some (crd\<lparr>cStatus := StatusPending, RunID := []\<rparr>))"

definition Resume :: "fpfun \<Rightarrow> int \<Rightarrow> string \<Rightarrow> Kanban \<Rightarrow> (string \<times> bool) \<times> Kanban" where
  "Resume fp now i b =
     (let (ok, b') = transition fp now i resume_card b;
          ref = (case fmlookup (index b) i of
                   Some p \<Rightarrow> if ok then ResumeRef (card_at b p) else []
                 | None \<Rightarrow> [])
      in ((ref, ok), b'))"

definition cancel_card :: "string \<Rightarrow> string \<Rightarrow> Card \<Rightarrow> Card option" where
  "cancel_card i reason crd =
     (if IsTerminal (cStatus crd) then None
      else Some (crd\<lparr>cStatus := StatusCardCanceled,
        cResult := Some \<lparr>pID = i, pStatus = StatusCanceled, pOutput = [], pError = reason,
          pMetadata = (if RunID crd \<noteq> [] then fmupd RunIDMetadataKey (RunID crd) fmempty else fmempty)\<rparr>\<rparr>))"

definition Cancel :: "fpfun \<Rightarrow> int \<Rightarrow> string \<Rightarrow> string \<Rightarrow> Kanban \<Rightarrow> bool \<times> Kanban" where
  "Cancel fp now i reason b = transition fp now i (cancel_card i reason) b"

definition Close :: "Kanban \<Rightarrow> Kanban" where
  "Close b =
     (if closed b then b
      else b\<lparr>closed := True, leases := fmempty,
        canceled := canceled b @ map (\<lambda>i. the (fmlookup (leases b) i)) (sorted_list_of_fset (fmdom (leases b)))\<rparr>)"

subsection \<open>Views and the janitor\<close>

definition Board_Card :: "string \<Rightarrow> Kanban \<Rightarrow> Card option" where
  "Board_Card i b = map_option (card_at b) (fmlookup (index b) i)"

definition Query :: "Filter \<Rightarrow> Kanban \<Rightarrow> Card list" where
  "Query f b = filter (\<lambda>c. Filter_matches f (Some c)) (map (card_at b) (cards b))"

definition CountByStatus :: "Status \<Rightarrow> Kanban \<Rightarrow> int" where
  "CountByStatus s b = statusCount b s"

definition Len :: "Kanban \<Rightarrow> nat" where
  "Len b = length (cards b)"

text \<open>One tick of \<open>runJanitor\<close>, and the ticker's interval in nanoseconds.\<close>

definition janitor_tick :: "fpfun \<Rightarrow> int \<Rightarrow> Kanban \<Rightarrow> Kanban" where
  "janitor_tick fp now b = (if closed b then b else evictLocked fp now b)"

definition janitor_interval :: "Kanban \<Rightarrow> int" where
  "janitor_interval b =
     (let i1 = idempotencyRetention b div 2;
          i2 = (if cardTTL b > 0 \<and> cardTTL b div 2 < i1 then cardTTL b div 2 else i1);
          i3 = (if i2 > 60000000000 then 60000000000 else i2)
      in if i3 < 1000000 then 1000000 else i3)"

subsection \<open>Card events\<close>

definition cardSubjectPrefix :: string where
  "cardSubjectPrefix = ''delegation.kanban.card.''"

definition kindFor :: "Status \<Rightarrow> string" where
  "kindFor s =
     (case s of
        StatusPending \<Rightarrow> ''delegation.kanban.card.submitted''
      | StatusClaimed \<Rightarrow> ''delegation.kanban.card.claimed''
      | StatusSuspended \<Rightarrow> ''delegation.kanban.card.suspended''
      | StatusDone \<Rightarrow> ''delegation.kanban.card.done''
      | StatusCardFailed \<Rightarrow> ''delegation.kanban.card.failed''
      | StatusCardCanceled \<Rightarrow> ''delegation.kanban.card.canceled'')"

definition sanitiseID :: "string \<Rightarrow> string" where
  "sanitiseID i =
     (if i = [] then ''_''
      else map (\<lambda>c. if c = CHR ''.'' \<or> c = CHR ''*'' \<or> c = CHR ''>'' then CHR ''_'' else c) i)"

definition subjectFor :: "string \<Rightarrow> string \<Rightarrow> string" where
  "subjectFor kind i = cardSubjectPrefix @ sanitiseID i @ ''.'' @ drop (length cardSubjectPrefix) kind"

definition PatternCard :: "string \<Rightarrow> string" where
  "PatternCard i = cardSubjectPrefix @ sanitiseID i @ ''.>''"

definition PatternAll :: string where
  "PatternAll = cardSubjectPrefix @ ''>''"

record CardEvent =
  eCardID :: string
  eScopeID :: string
  eStatus :: Status
  eProducer :: string
  eConsumer :: string
  eRunID :: string
  eRequest :: "AsyncRequest option"
  eResponse :: "Response option"
  eResumeRef :: string
  eElapsedMs :: int
  eMeta :: metadata

text \<open>The subject and payload \<open>publish\<close> hands to the bus for one snapshot.\<close>

definition publish :: "Kanban \<Rightarrow> Card \<Rightarrow> string \<times> CardEvent" where
  "publish b snapshot =
     (subjectFor (kindFor (cStatus snapshot)) (cID snapshot),
      \<lparr>eCardID = cID snapshot, eScopeID = scopeID b, eStatus = cStatus snapshot,
       eProducer = Producer snapshot, eConsumer = Consumer snapshot, eRunID = RunID snapshot,
       eRequest = cTask snapshot, eResponse = cResult snapshot, eResumeRef = ResumeRef snapshot,
       eElapsedMs = Elapsed (Some snapshot) div 1000000, eMeta = cMeta snapshot\<rparr>)"

end
