(* ===== verification/Kanban_Safety.thy ===== *)
theory Kanban_Safety
  imports Kanban_Board
begin

text \<open>
  Invariants of the kanban board: the card list, the index, the counters and the leases agree in every
  reachable state (\<open>sinv\<close>), and the retained operations answer for the cards they belong to
  (\<open>rinv\<close>). Eviction runs inside several operations; the locale \<open>evict_law\<close> lifts a predicate
  that survives one expired tombstone and one dropped card to the whole of \<open>evictLocked\<close>, and is
  interpreted for each predicate used here. The step relation \<open>kstep\<close> has one rule per critical
  section and carries the clock, which never runs backwards.
\<close>

subsection \<open>Steps\<close>

definition fp_total :: "fpfun \<Rightarrow> bool" where
  "fp_total fp \<longleftrightarrow> (\<forall>q. \<exists>f. fp q = Inr f)"

definition fresh_id :: "string \<Rightarrow> Kanban \<Rightarrow> bool" where
  "fresh_id i b \<longleftrightarrow> trim_space i \<noteq> [] \<and> i \<notin> cID ` set (cstore b)"

inductive kstep :: "fpfun \<Rightarrow> int \<times> Kanban \<Rightarrow> int \<times> Kanban \<Rightarrow> bool" for fp :: fpfun where
  step_check: "t \<le> now \<Longrightarrow> Submit_check fp now req b = (r, b') \<Longrightarrow> kstep fp (t, b) (now, b')"
| step_admit: "t \<le> now \<Longrightarrow> created \<le> now \<Longrightarrow> fresh_id i b \<Longrightarrow>
    Submit_admit fp now created i req b = (r', b') \<Longrightarrow> kstep fp (t, b) (now, b')"
| step_claim: "t \<le> now \<Longrightarrow> Claim fp now tok b = (c, b') \<Longrightarrow> kstep fp (t, b) (now, b')"
| step_complete: "t \<le> now \<Longrightarrow> Complete fp e now i tk resp b = (e', b') \<Longrightarrow> kstep fp (t, b) (now, b')"
| step_note: "t \<le> now \<Longrightarrow> NoteRunID now i run b = (e', b') \<Longrightarrow> kstep fp (t, b) (now, b')"
| step_claim_card: "t \<le> now \<Longrightarrow> ClaimCard fp now i consumer b = (ok, b') \<Longrightarrow> kstep fp (t, b) (now, b')"
| step_suspend: "t \<le> now \<Longrightarrow> Suspend fp now i ref b = (ok, b') \<Longrightarrow> kstep fp (t, b) (now, b')"
| step_resume: "t \<le> now \<Longrightarrow> Resume fp now i b = (rs, b') \<Longrightarrow> kstep fp (t, b) (now, b')"
| step_cancel: "t \<le> now \<Longrightarrow> Cancel fp now i reason b = (ok, b') \<Longrightarrow> kstep fp (t, b) (now, b')"
| step_close: "t \<le> now \<Longrightarrow> kstep fp (t, b) (now, Close b)"
| step_janitor: "t \<le> now \<Longrightarrow> kstep fp (t, b) (now, janitor_tick fp now b)"

definition kinit :: "int \<times> Kanban \<Rightarrow> bool" where
  "kinit s \<longleftrightarrow> (\<exists>scope mp ttl mc ret vld. New scope mp ttl mc ret vld = Inr (snd s))"

subsection \<open>Invariants\<close>

definition ptrs_ok :: "Kanban \<Rightarrow> bool" where
  "ptrs_ok b \<longleftrightarrow> distinct (cards b) \<and> (\<forall>p \<in> set (cards b). p < length (cstore b)) \<and>
     distinct (map cID (cstore b))"

definition index_ok :: "Kanban \<Rightarrow> bool" where
  "index_ok b \<longleftrightarrow> (\<forall>i p. fmlookup (index b) i = Some p \<longleftrightarrow> p \<in> set (cards b) \<and> cID (card_at b p) = i)"

definition count_of :: "Kanban \<Rightarrow> Status \<Rightarrow> int" where
  "count_of b s = int (length (filter (\<lambda>p. cStatus (card_at b p) = s) (cards b)))"

definition count_ok :: "Kanban \<Rightarrow> bool" where
  "count_ok b \<longleftrightarrow> (\<forall>s. statusCount b s = count_of b s)"

definition lease_ok :: "Kanban \<Rightarrow> bool" where
  "lease_ok b \<longleftrightarrow> (\<forall>i t. fmlookup (leases b) i = Some t \<longrightarrow>
     (\<exists>p. fmlookup (index b) i = Some p \<and> cStatus (card_at b p) = StatusClaimed))"

definition card_ok :: "Card \<Rightarrow> bool" where
  "card_ok c \<longleftrightarrow> cTask c \<noteq> None \<and> trim_space (cID c) \<noteq> [] \<and>
     (IsTerminal (cStatus c) \<longleftrightarrow> cResult c \<noteq> None) \<and>
     (\<forall>r. cResult c = Some r \<longrightarrow> pID r = cID c \<and> Terminal (pStatus r) \<and> Response_Validate r = None)"

definition cards_ok :: "Kanban \<Rightarrow> bool" where
  "cards_ok b \<longleftrightarrow> (\<forall>p \<in> set (cards b). card_ok (card_at b p))"

definition sinv :: "Kanban \<Rightarrow> bool" where
  "sinv b \<longleftrightarrow> ptrs_ok b \<and> index_ok b \<and> count_ok b \<and> cards_ok b \<and> lease_ok b \<and> idempotencyRetention b > 0"

lemmas sinv_defs = sinv_def ptrs_ok_def index_ok_def count_ok_def count_of_def cards_ok_def lease_ok_def

definition ckey :: "Card \<Rightarrow> string" where
  "ckey c = (case cTask c of None \<Rightarrow> [] | Some t \<Rightarrow> IdempotencyKey (aRequest t))"

definition store_ok :: "Kanban \<Rightarrow> bool" where
  "store_ok b \<longleftrightarrow> (\<forall>a < length (rstore b). \<exists>c \<in> set (cstore b).
     cID c = rid (rstore b ! a) \<and> ckey c = rkey (rstore b ! a))"

definition idem_ok :: "Kanban \<Rightarrow> bool" where
  "idem_ok b \<longleftrightarrow> (\<forall>k a. fmlookup (idempotency b) k = Some a \<longrightarrow>
     a < length (rstore b) \<and> k \<noteq> [] \<and> rkey (rstore b ! a) = k)"

definition tomb_ok :: "Kanban \<Rightarrow> bool" where
  "tomb_ok b \<longleftrightarrow> (\<forall>i a. fmlookup (tombstones b) i = Some a \<longrightarrow>
     a < length (rstore b) \<and> rid (rstore b ! a) = i \<and> expires (rstore b ! a) \<noteq> None \<and>
     response (rstore b ! a) \<noteq> None \<and>
     (\<forall>k a'. fmlookup (idempotency b) k = Some a' \<and> rid (rstore b ! a') = i \<longrightarrow> a' = a))"

definition live_ok :: "fpfun \<Rightarrow> Kanban \<Rightarrow> bool" where
  "live_ok fp b \<longleftrightarrow> (\<forall>p \<in> set (cards b). \<not> IsTerminal (cStatus (card_at b p)) \<and> ckey (card_at b p) \<noteq> [] \<longrightarrow>
     (\<exists>a. fmlookup (idempotency b) (ckey (card_at b p)) = Some a \<and>
       rid (rstore b ! a) = cID (card_at b p) \<and> expires (rstore b ! a) = None \<and>
       fp (the (cTask (card_at b p))) = Inr (fingerprint (rstore b ! a))))"

definition rinv :: "fpfun \<Rightarrow> Kanban \<Rightarrow> bool" where
  "rinv fp b \<longleftrightarrow> store_ok b \<and> idem_ok b \<and> tomb_ok b \<and> live_ok fp b"

lemmas rinv_defs = rinv_def store_ok_def idem_ok_def tomb_ok_def live_ok_def

subsection \<open>Frames\<close>

lemma IsTerminal_simps [simp]:
  "IsTerminal StatusDone" "IsTerminal StatusCardFailed" "IsTerminal StatusCardCanceled"
  "\<not> IsTerminal StatusPending" "\<not> IsTerminal StatusClaimed" "\<not> IsTerminal StatusSuspended"
  by (simp_all add: IsTerminal_def)

lemma retain_eq:
  "retainTerminalLocked fp now p b =
    b\<lparr>rstore := rstore (retainTerminalLocked fp now p b),
      idempotency := idempotency (retainTerminalLocked fp now p b),
      tombstones := tombstones (retainTerminalLocked fp now p b)\<rparr>"
  by (simp add: retainTerminalLocked_def settle_def Let_def split: option.splits sum.splits)

lemma retain_frame [simp]:
  "cstore (retainTerminalLocked fp now p b) = cstore b"
  "cards (retainTerminalLocked fp now p b) = cards b"
  "index (retainTerminalLocked fp now p b) = index b"
  "statusCount (retainTerminalLocked fp now p b) = statusCount b"
  "leases (retainTerminalLocked fp now p b) = leases b"
  "canceled (retainTerminalLocked fp now p b) = canceled b"
  "closed (retainTerminalLocked fp now p b) = closed b"
  "workReady (retainTerminalLocked fp now p b) = workReady b"
  "cardTTL (retainTerminalLocked fp now p b) = cardTTL b"
  "maxCards (retainTerminalLocked fp now p b) = maxCards b"
  "idempotencyRetention (retainTerminalLocked fp now p b) = idempotencyRetention b"
  by (subst retain_eq, simp)+

lemma card_at_simps [simp]:
  "card_at (retainTerminalLocked fp now p b) q = card_at b q"
  "card_at (b\<lparr>cards := cs\<rparr>) q = card_at b q"
  "card_at (b\<lparr>index := ix\<rparr>) q = card_at b q"
  "card_at (b\<lparr>rstore := rs\<rparr>) q = card_at b q"
  "card_at (b\<lparr>idempotency := idm\<rparr>) q = card_at b q"
  "card_at (b\<lparr>tombstones := tm\<rparr>) q = card_at b q"
  "card_at (b\<lparr>statusCount := sc\<rparr>) q = card_at b q"
  "card_at (b\<lparr>workReady := w\<rparr>) q = card_at b q"
  "card_at (b\<lparr>leases := l\<rparr>) q = card_at b q"
  "card_at (b\<lparr>canceled := l'\<rparr>) q = card_at b q"
  "card_at (b\<lparr>emitted := em\<rparr>) q = card_at b q"
  "card_at (b\<lparr>closed := cl\<rparr>) q = card_at b q"
  by (simp_all add: card_at_def)

lemma expire_one_frame [simp]:
  "cstore (expire_one now i b) = cstore b" "cards (expire_one now i b) = cards b"
  "index (expire_one now i b) = index b" "statusCount (expire_one now i b) = statusCount b"
  "leases (expire_one now i b) = leases b" "canceled (expire_one now i b) = canceled b"
  "closed (expire_one now i b) = closed b" "workReady (expire_one now i b) = workReady b"
  "rstore (expire_one now i b) = rstore b" "maxCards (expire_one now i b) = maxCards b"
  "idempotencyRetention (expire_one now i b) = idempotencyRetention b"
  by (simp_all add: expire_one_def Let_def split: option.splits)

lemma drop_card_frame [simp]:
  "cstore (drop_card fp now p b) = cstore b" "cards (drop_card fp now p b) = cards b"
  "index (drop_card fp now p b) = fmdrop (cID (card_at b p)) (index b)"
  "statusCount (drop_card fp now p b) =
     (statusCount b)(cStatus (card_at b p) := statusCount b (cStatus (card_at b p)) - 1)"
  "leases (drop_card fp now p b) = leases b" "canceled (drop_card fp now p b) = canceled b"
  "closed (drop_card fp now p b) = closed b" "workReady (drop_card fp now p b) = workReady b"
  "maxCards (drop_card fp now p b) = maxCards b"
  "idempotencyRetention (drop_card fp now p b) = idempotencyRetention b"
  "card_at (drop_card fp now p b) q = card_at b q"
  by (simp_all add: drop_card_def removeCardLocked_def Let_def card_at_def)

subsection \<open>Eviction keeps what one expiry and one drop keep\<close>

locale evict_law =
  fixes fp :: fpfun and now :: int and P :: "Kanban \<Rightarrow> bool"
  assumes expire_keeps: "P b \<Longrightarrow> P (expire_one now i b)"
    and drop_keeps: "P (b\<lparr>cards := xs @ p # ys\<rparr>) \<Longrightarrow> IsTerminal (cStatus (card_at b p)) \<Longrightarrow>
      P ((drop_card fp now p b)\<lparr>cards := xs @ ys\<rparr>)"
begin

lemma expire_fold_keeps: "P b \<Longrightarrow> P (fold (expire_one now) is b)"
  by (induction "is" arbitrary: b) (simp_all add: expire_keeps)

lemma expireRetained_keeps: "P b \<Longrightarrow> P (expireRetainedLocked now b)"
  by (simp add: expireRetainedLocked_def expire_fold_keeps)

lemma evict_ttl_keeps:
  "evict_ttl fp now ps b = (kept, b') \<Longrightarrow> P (b\<lparr>cards := xs @ ps\<rparr>) \<Longrightarrow> P (b'\<lparr>cards := xs @ kept\<rparr>)"
proof (induction ps arbitrary: b xs kept)
  case Nil
  then show ?case by simp
next
  case (Cons p ps)
  show ?case
  proof (cases "IsTerminal (cStatus (card_at b p)) \<and> now - UpdatedAt (card_at b p) > cardTTL b")
    case True
    then have "P ((drop_card fp now p b)\<lparr>cards := xs @ ps\<rparr>)"
      using Cons.prems(2) by (intro drop_keeps) auto
    then show ?thesis using Cons.IH [of _ _ xs] Cons.prems(1) True by simp
  next
    case False
    then obtain k where "evict_ttl fp now ps b = (k, b')" "kept = p # k"
      using Cons.prems(1) by (auto split: prod.splits)
    then show ?thesis using Cons.IH [of b k "xs @ [p]"] Cons.prems(2) by simp
  qed
qed

lemma evict_cap_keeps:
  "evict_cap fp now e ps b = (kept, b') \<Longrightarrow> P (b\<lparr>cards := xs @ ps\<rparr>) \<Longrightarrow> P (b'\<lparr>cards := xs @ kept\<rparr>)"
proof (induction ps arbitrary: e b xs kept)
  case Nil
  then show ?case by simp
next
  case (Cons p ps)
  show ?case
  proof (cases "e > 0 \<and> IsTerminal (cStatus (card_at b p))")
    case True
    then have "P ((drop_card fp now p b)\<lparr>cards := xs @ ps\<rparr>)"
      using Cons.prems(2) by (intro drop_keeps) auto
    then show ?thesis using Cons.IH [of _ _ _ xs] Cons.prems(1) True by simp
  next
    case False
    then obtain k where "evict_cap fp now e ps b = (k, b')" "kept = p # k"
      using Cons.prems(1) by (auto split: prod.splits)
    then show ?thesis using Cons.IH [of e b k "xs @ [p]"] Cons.prems(2) by simp
  qed
qed

lemma evict_keeps: "P b \<Longrightarrow> P (evictLocked fp now b)"
proof -
  assume "P b"
  let ?b1 = "expireRetainedLocked now b"
  have b1: "P ?b1" using \<open>P b\<close> by (rule expireRetained_keeps)
  define b2 where "b2 = (if cardTTL ?b1 > 0
    then (let (kept, b') = evict_ttl fp now (cards ?b1) ?b1 in b'\<lparr>cards := kept\<rparr>) else ?b1)"
  have b2: "P b2"
    using b1 evict_ttl_keeps [of "cards ?b1" ?b1 _ _ "[]"] by (auto simp: b2_def split: prod.splits)
  have "evictLocked fp now b = (if maxCards b2 \<le> 0 \<or> int (length (cards b2)) \<le> maxCards b2 then b2
     else (let (kept, b') = evict_cap fp now (int (length (cards b2)) - maxCards b2) (cards b2) b2
           in b'\<lparr>cards := kept\<rparr>))"
    by (simp add: evictLocked_def b2_def Let_def)
  then show ?thesis
    using b2 evict_cap_keeps [of _ "cards b2" b2 _ _ "[]"] by (auto split: prod.splits)
qed

end

lemma id_inj:
  "ptrs_ok b \<Longrightarrow> p < length (cstore b) \<Longrightarrow> q < length (cstore b) \<Longrightarrow>
    cID (card_at b p) = cID (card_at b q) \<longleftrightarrow> p = q"
  unfolding ptrs_ok_def card_at_def
  by (metis length_map nth_eq_iff_index_eq nth_map)

lemma sinv_cong:
  assumes "cstore b' = cstore b" "cards b' = cards b" "index b' = index b"
    "statusCount b' = statusCount b" "leases b' = leases b"
    "idempotencyRetention b' = idempotencyRetention b"
  shows "sinv b' \<longleftrightarrow> sinv b"
proof -
  have "card_at b' = card_at b" using assms(1) by (simp add: card_at_def fun_eq_iff)
  then show ?thesis
    by (simp add: sinv_def ptrs_ok_def index_ok_def count_ok_def count_of_def cards_ok_def lease_ok_def assms)
qed

lemma sinv_expire: "sinv b \<Longrightarrow> sinv (expire_one now i b)"
  by (subst sinv_cong) simp_all

lemma sinv_drop:
  assumes "sinv (b\<lparr>cards := xs @ p # ys\<rparr>)" "IsTerminal (cStatus (card_at b p))"
  shows "sinv ((drop_card fp now p b)\<lparr>cards := xs @ ys\<rparr>)"
proof -
  let ?b = "b\<lparr>cards := xs @ p # ys\<rparr>" and ?b' = "(drop_card fp now p b)\<lparr>cards := xs @ ys\<rparr>"
  have P: "ptrs_ok ?b" and I: "index_ok ?b" and C: "count_ok ?b" and L: "lease_ok ?b"
    using assms by (simp_all add: sinv_def)
  have "cID (card_at b q) \<noteq> cID (card_at b p)" if "q \<in> set (xs @ ys)" for q
    using id_inj [OF P, of q p] P that by (auto simp: ptrs_ok_def)
  then have I': "index_ok ?b'"
    using I P by (auto simp: index_ok_def ptrs_ok_def)
  have "lease_ok ?b'"
    unfolding lease_ok_def
  proof (intro allI impI)
    fix i t
    assume "fmlookup (leases ?b') i = Some t"
    then obtain q where q: "fmlookup (index b) i = Some q" "cStatus (card_at b q) = StatusClaimed"
      using L by (auto simp: lease_ok_def)
    moreover have "cID (card_at b p) \<noteq> i"
    proof
      assume "cID (card_at b p) = i"
      then have "fmlookup (index b) i = Some p" using I by (auto simp: index_ok_def)
      then show False using q assms(2) by simp
    qed
    ultimately show "\<exists>q. fmlookup (index ?b') i = Some q \<and> cStatus (card_at ?b' q) = StatusClaimed"
      by simp
  qed
  moreover note I'
  moreover have "count_ok ?b'"
    using C by (auto simp: count_ok_def count_of_def)
  moreover have "ptrs_ok ?b'"
    using P by (auto simp: ptrs_ok_def)
  ultimately show ?thesis
    using assms(1) by (auto simp: sinv_def cards_ok_def)
qed

interpretation sinv_ev: evict_law fp now sinv for fp now
  by unfold_locales (rule sinv_expire sinv_drop; assumption)+

subsection \<open>Retention\<close>

lemma rinv_cong:
  assumes "cstore b' = cstore b" "cards b' = cards b" "rstore b' = rstore b"
    "idempotency b' = idempotency b" "tombstones b' = tombstones b"
  shows "rinv fp b' \<longleftrightarrow> rinv fp b"
proof -
  have "card_at b' = card_at b" using assms(1) by (simp add: card_at_def fun_eq_iff)
  then show ?thesis
    by (simp add: rinv_def store_ok_def idem_ok_def tomb_ok_def live_ok_def assms)
qed

lemma idemD:
  assumes "rinv fp b" "fmlookup (idempotency b) k = Some a"
  shows "a < length (rstore b)" "k \<noteq> []" "rkey (rstore b ! a) = k"
  using assms by (auto simp: rinv_def idem_ok_def)

lemma storeD:
  assumes "rinv fp b" "a < length (rstore b)"
  obtains c where "c \<in> set (cstore b)" "cID c = rid (rstore b ! a)" "ckey c = rkey (rstore b ! a)"
  using assms by (auto simp: rinv_def store_ok_def)

lemma tombD:
  assumes "rinv fp b" "fmlookup (tombstones b) i = Some a"
  shows "a < length (rstore b)" "rid (rstore b ! a) = i" "expires (rstore b ! a) \<noteq> None"
    "response (rstore b ! a) \<noteq> None"
    "fmlookup (idempotency b) k = Some a' \<Longrightarrow> rid (rstore b ! a') = i \<Longrightarrow> a' = a"
  using assms by (auto simp: rinv_def tomb_ok_def)

lemma settle_rinv:
  assumes R: "rinv fp b" and a: "a < length (rstore b)" "rid (rstore b ! a) = cID c"
    and u: "\<And>k a'. fmlookup (idempotency b) k = Some a' \<Longrightarrow> rid (rstore b ! a') = cID c \<Longrightarrow> a' = a"
    and n: "\<And>q. q \<in> set (cards b) \<Longrightarrow> \<not> IsTerminal (cStatus (card_at b q)) \<Longrightarrow> cID (card_at b q) \<noteq> cID c"
  shows "rinv fp (settle a c r ex b)"
proof -
  let ?b = "settle a c r ex b"
  have nth: "rid (rstore ?b ! x) = rid (rstore b ! x)" "rkey (rstore ?b ! x) = rkey (rstore b ! x)"
    "fingerprint (rstore ?b ! x) = fingerprint (rstore b ! x)" for x
    using a(1) by (cases "x = a"; simp add: settle_def nth_list_update)+
  have fr: "cstore ?b = cstore b" "cards ?b = cards b" "idempotency ?b = idempotency b"
    "length (rstore ?b) = length (rstore b)" "card_at ?b = card_at b"
    "tombstones ?b = fmupd (cID c) a (tombstones b)"
    by (simp_all add: settle_def card_at_def fun_eq_iff)
  have set_a: "response (rstore ?b ! a) \<noteq> None" "expires (rstore ?b ! a) \<noteq> None"
    using a(1) by (simp_all add: settle_def)
  have other: "rstore ?b ! x = rstore b ! x" if "x \<noteq> a" for x
    using that by (simp add: settle_def)
  have "store_ok ?b" "idem_ok ?b"
    using R by (simp_all add: rinv_def store_ok_def idem_ok_def nth fr)
  moreover have "tomb_ok ?b"
    unfolding tomb_ok_def
  proof (intro allI impI)
    fix i x
    assume x: "fmlookup (tombstones ?b) i = Some x"
    show "x < length (rstore ?b) \<and> rid (rstore ?b ! x) = i \<and> expires (rstore ?b ! x) \<noteq> None \<and>
        response (rstore ?b ! x) \<noteq> None \<and>
        (\<forall>k a'. fmlookup (idempotency ?b) k = Some a' \<and> rid (rstore ?b ! a') = i \<longrightarrow> a' = x)"
    proof (cases "i = cID c")
      case True
      then have "x = a" using x by (simp add: fr)
      then show ?thesis using True a set_a u by (auto simp: fr nth)
    next
      case False
      then have t: "fmlookup (tombstones b) i = Some x" using x by (simp add: fr)
      then have "x \<noteq> a" using R a(2) False by (auto simp: rinv_def tomb_ok_def)
      then show ?thesis using t R other [of x] by (auto simp: rinv_def tomb_ok_def fr nth)
    qed
  qed
  moreover have "live_ok fp ?b"
    unfolding live_ok_def
  proof (intro ballI impI)
    fix q
    assume q: "q \<in> set (cards ?b)"
      and l: "\<not> IsTerminal (cStatus (card_at ?b q)) \<and> ckey (card_at ?b q) \<noteq> []"
    then obtain x where x: "fmlookup (idempotency b) (ckey (card_at b q)) = Some x"
      "rid (rstore b ! x) = cID (card_at b q)" "expires (rstore b ! x) = None"
      "fp (the (cTask (card_at b q))) = Inr (fingerprint (rstore b ! x))"
      using R by (auto simp: rinv_def live_ok_def fr)
    have "x \<noteq> a" using x(2) a(2) n [of q] q l by (auto simp: fr)
    then show "\<exists>a. fmlookup (idempotency ?b) (ckey (card_at ?b q)) = Some a \<and>
        rid (rstore ?b ! a) = cID (card_at ?b q) \<and> expires (rstore ?b ! a) = None \<and>
        fp (the (cTask (card_at ?b q))) = Inr (fingerprint (rstore ?b ! a))"
      using x other [of x] by (auto simp: fr)
  qed
  ultimately show ?thesis by (simp add: rinv_def)
qed

text \<open>A new operation record, entered under its key when the key is free.\<close>

definition alloc :: "retainedOperation \<Rightarrow> bool \<Rightarrow> Kanban \<Rightarrow> Kanban" where
  "alloc op keyed b = b\<lparr>rstore := rstore b @ [op],
     idempotency := (if keyed then fmupd (rkey op) (length (rstore b)) (idempotency b) else idempotency b)\<rparr>"

lemma alloc_frame [simp]:
  "cstore (alloc op k b) = cstore b" "cards (alloc op k b) = cards b" "index (alloc op k b) = index b"
  "statusCount (alloc op k b) = statusCount b" "leases (alloc op k b) = leases b"
  "tombstones (alloc op k b) = tombstones b" "card_at (alloc op k b) q = card_at b q"
  "idempotencyRetention (alloc op k b) = idempotencyRetention b"
  by (simp_all add: alloc_def card_at_def)

lemma alloc_rinv:
  assumes R: "rinv fp b" and c: "c \<in> set (cstore b)" "cID c = rid op" "ckey c = rkey op"
    and k: "keyed \<Longrightarrow> rkey op \<noteq> [] \<and> fmlookup (idempotency b) (rkey op) = None"
    and t: "keyed \<Longrightarrow> fmlookup (tombstones b) (rid op) = None"
  shows "rinv fp (alloc op keyed b)"
proof -
  have "store_ok (alloc op keyed b)"
    using R c by (auto simp: rinv_def store_ok_def alloc_def nth_append less_Suc_eq)
  moreover have "idem_ok (alloc op keyed b)"
    using R k by (auto simp: rinv_def idem_ok_def alloc_def nth_append less_Suc_eq)
  moreover have "tomb_ok (alloc op keyed b)"
    unfolding tomb_ok_def
  proof (intro allI impI, unfold alloc_frame)
    fix i a
    assume a: "fmlookup (tombstones b) i = Some a"
    note D = tombD [OF R a]
    have U: "a' = a" if "fmlookup (idempotency (alloc op keyed b)) k' = Some a'"
        "rid (rstore (alloc op keyed b) ! a') = i" for k' a'
    proof (cases "keyed \<and> k' = rkey op")
      case True
      then show ?thesis using that t a by (simp add: alloc_def nth_append)
    next
      case False
      then have *: "fmlookup (idempotency b) k' = Some a'"
        using that(1) by (auto simp: alloc_def split: if_splits)
      then show ?thesis using that(2) D(5) [OF *] idemD(1) [OF R *] by (simp add: alloc_def nth_append)
    qed
    have "rstore (alloc op keyed b) ! a = rstore b ! a" "a < length (rstore (alloc op keyed b))"
      using D(1) by (simp_all add: alloc_def nth_append)
    then show "a < length (rstore (alloc op keyed b)) \<and> rid (rstore (alloc op keyed b) ! a) = i \<and>
        expires (rstore (alloc op keyed b) ! a) \<noteq> None \<and> response (rstore (alloc op keyed b) ! a) \<noteq> None \<and>
        (\<forall>k' a'. fmlookup (idempotency (alloc op keyed b)) k' = Some a' \<and>
          rid (rstore (alloc op keyed b) ! a') = i \<longrightarrow> a' = a)"
      using D(2-4) U by auto
  qed
  moreover have "live_ok fp (alloc op keyed b)"
    unfolding live_ok_def
  proof (intro ballI impI)
    let ?b = "alloc op keyed b"
    fix q
    assume q: "q \<in> set (cards ?b)" "\<not> IsTerminal (cStatus (card_at ?b q)) \<and> ckey (card_at ?b q) \<noteq> []"
    then obtain x where x: "fmlookup (idempotency b) (ckey (card_at b q)) = Some x"
      "rid (rstore b ! x) = cID (card_at b q)" "expires (rstore b ! x) = None"
      "fp (the (cTask (card_at b q))) = Inr (fingerprint (rstore b ! x))"
      using R by (auto simp: rinv_def live_ok_def)
    moreover have "x < length (rstore b)" using R x(1) by (simp add: rinv_def idem_ok_def)
    moreover have "fmlookup (idempotency ?b) (ckey (card_at b q)) = Some x"
      using x(1) k by (auto simp: alloc_def)
    ultimately show "\<exists>a. fmlookup (idempotency ?b) (ckey (card_at ?b q)) = Some a \<and>
        rid (rstore ?b ! a) = cID (card_at ?b q) \<and> expires (rstore ?b ! a) = None \<and>
        fp (the (cTask (card_at ?b q))) = Inr (fingerprint (rstore ?b ! a))"
      by (auto simp: alloc_def nth_append)
  qed
  ultimately show ?thesis by (simp add: rinv_def)
qed

lemma rinv_forget_tomb: "rinv fp b \<Longrightarrow> rinv fp (b\<lparr>tombstones := fmdrop i (tombstones b)\<rparr>)"
  by (simp add: rinv_def store_ok_def idem_ok_def live_ok_def) (auto simp: tomb_ok_def)

lemma settle_drop:
  "settle a c r ex b = settle a c r ex (b\<lparr>tombstones := fmdrop (cID c) (tombstones b)\<rparr>)"
proof -
  have "fmupd i a (fmdrop i m) = fmupd i a m" for i :: string and m
    by (rule fmap_ext) simp
  then show ?thesis by (simp add: settle_def)
qed

lemma retain_rinv:
  assumes R: "rinv fp b" and P: "ptrs_ok b" and p: "p < length (cstore b)"
    and T: "IsTerminal (cStatus (card_at b p))"
  shows "rinv fp (retainTerminalLocked fp now p b)"
proof -
  let ?c = "card_at b p"
  have c: "?c \<in> set (cstore b)" using p by (simp add: card_at_def)
  have n: "cID (card_at b q) \<noteq> cID ?c" if "q \<in> set (cards b)" "\<not> IsTerminal (cStatus (card_at b q))" for q
    using id_inj [OF P, of q p] P p T that by (auto simp: ptrs_ok_def)
  have key: "k = ckey ?c" if "fmlookup (idempotency b) k = Some a" "rid (rstore b ! a) = cID ?c" for k a
  proof -
    obtain c' where c': "c' \<in> set (cstore b)" "cID c' = rid (rstore b ! a)" "ckey c' = rkey (rstore b ! a)"
      by (rule storeD [OF R idemD(1) [OF R \<open>fmlookup (idempotency b) k = Some a\<close>]])
    then have "c' = ?c"
      using P c that by (auto simp: ptrs_ok_def distinct_map dest: inj_onD)
    then show ?thesis using idemD(3) [OF R that(1)] c' by simp
  qed
  have settled: "rinv fp (settle a ?c r ex b)"
    if "fmlookup (idempotency b) (ckey ?c) = Some a" "rid (rstore b ! a) = cID ?c" for a r ex
  proof (rule settle_rinv [OF R idemD(1) [OF R that(1)] that(2)])
    fix k a'
    assume "fmlookup (idempotency b) k = Some a'" "rid (rstore b ! a') = cID ?c"
    then show "a' = a" using key [of k a'] that by simp
  qed (rule n)
  have fresh: "rinv fp (settle (length (rstore b)) ?c r ex (alloc op keyed b))"
    if o: "rid op = cID ?c" "rkey op = ckey ?c"
      and k: "keyed \<Longrightarrow> ckey ?c \<noteq> [] \<and> fmlookup (idempotency b) (ckey ?c) = None"
      and m: "\<not> keyed \<Longrightarrow> \<forall>a. fmlookup (idempotency b) (ckey ?c) = Some a \<longrightarrow> rid (rstore b ! a) \<noteq> cID ?c"
    for op keyed r ex
  proof -
    let ?d = "b\<lparr>tombstones := fmdrop (cID ?c) (tombstones b)\<rparr>"
    have D: "rinv fp (alloc op keyed ?d)"
      using o k c by (intro alloc_rinv [OF rinv_forget_tomb [OF R], of ?c]) auto
    have lt: "a < length (rstore b)" if "fmlookup (idempotency b) k' = Some a" for a k'
      using idemD(1) [OF R that] .
    have "rinv fp (settle (length (rstore b)) ?c r ex (alloc op keyed ?d))"
    proof (rule settle_rinv [OF D])
      fix k' a'
      assume "fmlookup (idempotency (alloc op keyed ?d)) k' = Some a'"
        "rid (rstore (alloc op keyed ?d) ! a') = cID ?c"
      then show "a' = length (rstore b)"
        using key [of k' a'] k m lt [of k' a'] o
        by (cases keyed) (auto simp: alloc_def nth_append split: if_splits)
    qed (use o n in \<open>auto simp: alloc_def\<close>)
    moreover have "alloc op keyed ?d =
        (alloc op keyed b)\<lparr>tombstones := fmdrop (cID ?c) (tombstones (alloc op keyed b))\<rparr>"
      by (simp add: alloc_def)
    ultimately show ?thesis using settle_drop [of _ ?c _ _ "alloc op keyed b"] by simp
  qed
  have "fmlookup (idempotency b) [] = None"
    using idemD(2) [OF R, of "[]"] by (cases "fmlookup (idempotency b) []") auto
  then show ?thesis
    using R settled fresh [where keyed = True] fresh [where keyed = False]
    unfolding retainTerminalLocked_def Let_def alloc_def
    by (auto simp: ckey_def split: option.splits sum.splits)
qed

lemma rinv_expire:
  assumes R: "rinv fp b"
  shows "rinv fp (expire_one now i b)"
proof (cases "fmlookup (tombstones b) i")
  case None
  then show ?thesis using R by (simp add: expire_one_def)
next
  case (Some a)
  let ?k = "rkey (rstore b ! a)"
  let ?b1 = "b\<lparr>tombstones := fmdrop i (tombstones b)\<rparr>"
  let ?b2 = "?b1\<lparr>idempotency := fmdrop ?k (idempotency b)\<rparr>"
  have R1: "rinv fp ?b1" by (rule rinv_forget_tomb [OF R])
  have "rinv fp ?b2" if k: "fmlookup (idempotency b) ?k = Some a"
  proof -
    have "live_ok fp ?b2"
      unfolding live_ok_def
    proof (intro ballI impI)
      fix q
      assume q: "q \<in> set (cards ?b2)"
        "\<not> IsTerminal (cStatus (card_at ?b2 q)) \<and> ckey (card_at ?b2 q) \<noteq> []"
      then obtain x where x: "fmlookup (idempotency b) (ckey (card_at b q)) = Some x"
        "rid (rstore b ! x) = cID (card_at b q)" "expires (rstore b ! x) = None"
        "fp (the (cTask (card_at b q))) = Inr (fingerprint (rstore b ! x))"
        using R by (auto simp: rinv_def live_ok_def)
      have "x \<noteq> a" using x(3) tombD(3) [OF R Some] by auto
      then have "ckey (card_at b q) \<noteq> ?k" using x(1) k by auto
      then show "\<exists>a. fmlookup (idempotency ?b2) (ckey (card_at ?b2 q)) = Some a \<and>
          rid (rstore ?b2 ! a) = cID (card_at ?b2 q) \<and> expires (rstore ?b2 ! a) = None \<and>
          fp (the (cTask (card_at ?b2 q))) = Inr (fingerprint (rstore ?b2 ! a))"
        using x by auto
    qed
    moreover have "tomb_ok ?b2"
      using R1 by (auto simp: rinv_def tomb_ok_def split: if_splits)
    ultimately show ?thesis
      using R1 by (auto simp: rinv_def store_ok_def idem_ok_def split: if_splits)
  qed
  then show ?thesis
    using R R1 Some by (auto simp: expire_one_def Let_def)
qed

definition kinv :: "fpfun \<Rightarrow> Kanban \<Rightarrow> bool" where
  "kinv fp b \<longleftrightarrow> sinv b \<and> rinv fp b"

lemma retain_ignores_cards:
  "rstore (retainTerminalLocked fp now p (b\<lparr>cards := cs\<rparr>)) = rstore (retainTerminalLocked fp now p b)"
  "idempotency (retainTerminalLocked fp now p (b\<lparr>cards := cs\<rparr>)) = idempotency (retainTerminalLocked fp now p b)"
  "tombstones (retainTerminalLocked fp now p (b\<lparr>cards := cs\<rparr>)) = tombstones (retainTerminalLocked fp now p b)"
  by (auto simp: retainTerminalLocked_def settle_def Let_def split: option.splits sum.splits)

lemma rinv_fewer_cards:
  assumes "rinv fp b" "set cs \<subseteq> set (cards b)"
  shows "rinv fp (b\<lparr>index := ix, cards := cs\<rparr>)"
proof -
  have "store_ok (b\<lparr>index := ix, cards := cs\<rparr>) = store_ok b"
    "idem_ok (b\<lparr>index := ix, cards := cs\<rparr>) = idem_ok b"
    "tomb_ok (b\<lparr>index := ix, cards := cs\<rparr>) = tomb_ok b"
    by (simp_all add: store_ok_def idem_ok_def tomb_ok_def)
  moreover have "live_ok fp (b\<lparr>index := ix, cards := cs\<rparr>)"
    using assms unfolding rinv_def live_ok_def by auto
  ultimately show ?thesis using assms(1) by (simp add: rinv_def)
qed

lemma rinv_drop:
  assumes S: "sinv (b\<lparr>cards := xs @ p # ys\<rparr>)" and R: "rinv fp (b\<lparr>cards := xs @ p # ys\<rparr>)"
    and T: "IsTerminal (cStatus (card_at b p))"
  shows "rinv fp ((drop_card fp now p b)\<lparr>cards := xs @ ys\<rparr>)"
proof -
  let ?b = "b\<lparr>index := fmdrop (cID (card_at b p)) (index b), cards := xs @ ys\<rparr>"
  have R1: "rinv fp ?b"
  proof -
    have "set (xs @ ys) \<subseteq> set (cards (b\<lparr>cards := xs @ p # ys\<rparr>))" by auto
    from rinv_fewer_cards [OF R this, of "fmdrop (cID (card_at b p)) (index b)"] show ?thesis by simp
  qed
  have P: "ptrs_ok ?b" "p < length (cstore b)"
    using S unfolding sinv_def ptrs_ok_def by simp_all
  have R2: "rinv fp (retainTerminalLocked fp now p ?b)"
    by (rule retain_rinv [OF R1 P(1)]) (use P(2) T in simp_all)
  define r where "r = (if cResult (card_at b p) = None then ?b else retainTerminalLocked fp now p ?b)"
  have "rinv fp r" using R1 R2 by (simp add: r_def)
  moreover have "rinv fp ((drop_card fp now p b)\<lparr>cards := xs @ ys\<rparr>) \<longleftrightarrow> rinv fp r"
    using T by (intro rinv_cong)
      (simp_all add: r_def drop_card_def removeCardLocked_def Let_def retain_ignores_cards)
  ultimately show ?thesis by simp
qed

interpretation kinv_ev: evict_law fp now "kinv fp" for fp now
  by unfold_locales (auto simp: kinv_def intro: sinv_expire rinv_expire sinv_drop rinv_drop)

subsection \<open>Transitions\<close>

lemma card_at_set_card [simp]:
  "p < length (cstore b) \<Longrightarrow> card_at (set_card p c b) q = (if q = p then c else card_at b q)"
  by (simp add: card_at_def set_card_def nth_list_update)

lemma set_card_frame [simp]:
  "cards (set_card p c b) = cards b" "index (set_card p c b) = index b"
  "statusCount (set_card p c b) = statusCount b" "leases (set_card p c b) = leases b"
  "rstore (set_card p c b) = rstore b" "idempotency (set_card p c b) = idempotency b"
  "tombstones (set_card p c b) = tombstones b" "length (cstore (set_card p c b)) = length (cstore b)"
  "idempotencyRetention (set_card p c b) = idempotencyRetention b"
  "workReady (set_card p c b) = workReady b" "canceled (set_card p c b) = canceled b"
  "closed (set_card p c b) = closed b"
  by (simp_all add: set_card_def)

definition same_card :: "Card \<Rightarrow> Card \<Rightarrow> bool" where
  "same_card c c' \<longleftrightarrow> cID c' = cID c \<and> cTask c' = cTask c"

lemma set_card_rinv:
  assumes R: "rinv fp b" and p: "p < length (cstore b)" and s: "same_card (card_at b p) c"
    and t: "IsTerminal (cStatus (card_at b p)) \<Longrightarrow> IsTerminal (cStatus c)"
  shows "rinv fp (set_card p c b)"
proof -
  have k: "cID c = cID (card_at b p)" "ckey c = ckey (card_at b p)" "cTask c = cTask (card_at b p)"
    using s by (simp_all add: same_card_def ckey_def)
  have "\<exists>c' \<in> set (cstore (set_card p c b)). cID c' = cID d \<and> ckey c' = ckey d"
    if d: "d \<in> set (cstore b)" for d
  proof -
    obtain q where q: "q < length (cstore b)" "cstore b ! q = d" using d by (auto simp: in_set_conv_nth)
    then have "card_at (set_card p c b) q \<in> set (cstore (set_card p c b))"
      by (simp add: card_at_def)
    moreover have "cID (card_at (set_card p c b) q) = cID d" "ckey (card_at (set_card p c b) q) = ckey d"
      using p q k by (cases "q = p"; simp add: card_at_def set_card_def)+
    ultimately show ?thesis by blast
  qed
  then have "store_ok (set_card p c b)"
    using R by (fastforce simp: rinv_def store_ok_def)
  moreover have "live_ok fp (set_card p c b)"
    using R p k t by (auto simp: rinv_def live_ok_def)
  moreover have "idem_ok (set_card p c b)" "tomb_ok (set_card p c b)"
    using R by (auto simp: rinv_def idem_ok_def tomb_ok_def)
  ultimately show ?thesis by (simp add: rinv_def)
qed

lemma finish_frame [simp]:
  assumes "p < length (cstore b)"
  shows "cards (finishTransitionLocked fp now p from b) = cards b"
    "index (finishTransitionLocked fp now p from b) = index b"
    "leases (finishTransitionLocked fp now p from b) = leases b"
    "canceled (finishTransitionLocked fp now p from b) = canceled b"
    "workReady (finishTransitionLocked fp now p from b) = workReady b"
    "closed (finishTransitionLocked fp now p from b) = closed b"
    "idempotencyRetention (finishTransitionLocked fp now p from b) = idempotencyRetention b"
    "cstore (finishTransitionLocked fp now p from b) = (cstore b)[p := (card_at b p)\<lparr>UpdatedAt := now\<rparr>]"
    "card_at (finishTransitionLocked fp now p from b) q =
       (if q = p then (card_at b p)\<lparr>UpdatedAt := now\<rparr> else card_at b q)"
    "statusCount (finishTransitionLocked fp now p from b) =
       (let sc = (statusCount b)(from := statusCount b from - 1)
        in sc(cStatus (card_at b p) := sc (cStatus (card_at b p)) + 1))"
  using assms
  by (simp_all add: finishTransitionLocked_def Let_def set_card_def card_at_def nth_list_update)

lemma finish_rinv:
  assumes R: "rinv fp b" and P: "ptrs_ok b" and p: "p \<in> set (cards b)"
  shows "rinv fp (finishTransitionLocked fp now p from b)"
proof -
  let ?c = "(card_at b p)\<lparr>UpdatedAt := now\<rparr>"
  let ?b = "\<lambda>sc. (set_card p ?c b)\<lparr>statusCount := sc\<rparr>"
  have l: "p < length (cstore b)" using P p by (simp add: ptrs_ok_def)
  have "rinv fp (set_card p ?c b)"
    using l by (intro set_card_rinv [OF R]) (simp_all add: same_card_def)
  then have R1: "rinv fp (?b sc)" for sc
    by (subst rinv_cong [where b = "set_card p ?c b"]) simp_all
  have "map cID (cstore (?b sc)) = map cID (cstore b)" for sc
    using l by (simp add: set_card_def card_at_def map_update list_update_same_conv)
  then have P1: "ptrs_ok (?b sc)" for sc
    using P by (simp add: ptrs_ok_def)
  have "rinv fp (retainTerminalLocked fp now p (?b sc))" if "IsTerminal (cStatus (card_at b p))" for sc
    using l that by (intro retain_rinv [OF R1 P1]) simp_all
  then show ?thesis
    using R1 by (simp add: finishTransitionLocked_def Let_def)
qed

lemma count_update:
  assumes "distinct ps" "p \<in> set ps" and g: "\<And>q. q \<noteq> p \<Longrightarrow> g q = f q"
  shows "int (length (filter (\<lambda>q. g q = s) ps)) =
    int (length (filter (\<lambda>q. f q = s) ps)) - (if f p = s then 1 else 0) + (if g p = s then 1 else 0)"
  using assms(1,2)
proof (induction ps)
  case Nil
  then show ?case by simp
next
  case (Cons q ps)
  show ?case
  proof (cases "p = q")
    case True
    then have "filter (\<lambda>r. g r = s) ps = filter (\<lambda>r. f r = s) ps"
      using Cons.prems by (intro filter_cong refl) (metis distinct.simps(2) g)
    then show ?thesis using True by simp
  next
    case False
    then show ?thesis using Cons g [of q] by auto
  qed
qed

lemma card_ok_UpdatedAt [simp]: "card_ok (c\<lparr>UpdatedAt := now\<rparr>) = card_ok c"
  by (simp add: card_ok_def)

lemma finish_sinv:
  assumes S: "sinv b" and p: "p \<in> set (cards b)" and c: "same_card (card_at b p) c" "card_ok c"
    and ls: "\<And>i t. fmlookup ls i = Some t \<Longrightarrow>
      (if i = cID c then cStatus c = StatusClaimed else fmlookup (leases b) i = Some t)"
  shows "sinv ((finishTransitionLocked fp now p (cStatus (card_at b p)) (set_card p c b))\<lparr>leases := ls\<rparr>)"
    (is "sinv (?f\<lparr>leases := ls\<rparr>)")
proof -
  let ?b = "?f\<lparr>leases := ls\<rparr>"
  have P: "ptrs_ok b" and I: "index_ok b" and C: "count_ok b" and K: "cards_ok b" and L: "lease_ok b"
    using S by (simp_all add: sinv_def)
  have l: "p < length (cstore b)" using P p by (simp add: ptrs_ok_def)
  have idc: "cID c = cID (card_at b p)" using c(1) by (simp add: same_card_def)
  have at: "card_at ?b q = (if q = p then c\<lparr>UpdatedAt := now\<rparr> else card_at b q)" for q
    using l by simp
  have fr: "cards ?b = cards b" "index ?b = index b" "leases ?b = ls"
    using l by simp_all
  have st: "cstore ?b = (cstore b)[p := c\<lparr>UpdatedAt := now\<rparr>]"
    using l by (simp add: set_card_def card_at_def)
  have "map cID (cstore ?b) = map cID (cstore b)"
    using l idc by (simp only: st) (simp add: map_update list_update_same_conv card_at_def)
  then have "ptrs_ok ?b"
    using P unfolding ptrs_ok_def fr st length_list_update by metis
  moreover have "cID (card_at ?b q) = cID (card_at b q)" for q
    unfolding at using idc by simp
  then have "index_ok ?b" using I unfolding index_ok_def fr by simp
  moreover have "cards_ok ?b" using K c(2) unfolding cards_ok_def fr at by simp
  moreover have "count_ok ?b"
    unfolding count_ok_def count_of_def fr at
  proof
    fix s
    have "statusCount b s = int (length (filter (\<lambda>q. cStatus (card_at b q) = s) (cards b)))"
      using C by (simp add: count_ok_def count_of_def)
    then show "statusCount ?b s = int (length (filter (\<lambda>q. cStatus (if q = p then c\<lparr>UpdatedAt := now\<rparr>
        else card_at b q) = s) (cards b)))"
      using count_update [of "cards b" p "\<lambda>q. cStatus (if q = p then c\<lparr>UpdatedAt := now\<rparr> else card_at b q)"
          "\<lambda>q. cStatus (card_at b q)" s] P p l
      by (auto simp: ptrs_ok_def Let_def)
  qed
  moreover have "lease_ok ?b"
    unfolding lease_ok_def fr at
  proof (intro allI impI)
    fix i t
    assume t: "fmlookup ls i = Some t"
    show "\<exists>q. fmlookup (index b) i = Some q \<and>
        cStatus (if q = p then c\<lparr>UpdatedAt := now\<rparr> else card_at b q) = StatusClaimed"
    proof (cases "i = cID c")
      case True
      then show ?thesis using ls [OF t] I p idc by (intro exI [of _ p]) (simp add: index_ok_def)
    next
      case False
      then obtain q where "fmlookup (index b) i = Some q" "cStatus (card_at b q) = StatusClaimed"
        using ls [OF t] L by (auto simp: lease_ok_def)
      moreover from this have "q \<noteq> p" using I False idc by (auto simp: index_ok_def)
      ultimately show ?thesis by auto
    qed
  qed
  moreover have "idempotencyRetention ?b > 0" using S l by (simp add: sinv_def)
  ultimately show ?thesis by (simp add: sinv_def)
qed

lemma kinv_cong:
  assumes "cstore b' = cstore b" "cards b' = cards b" "index b' = index b"
    "statusCount b' = statusCount b" "leases b' = leases b"
    "idempotencyRetention b' = idempotencyRetention b" "rstore b' = rstore b"
    "idempotency b' = idempotency b" "tombstones b' = tombstones b"
  shows "kinv fp b' \<longleftrightarrow> kinv fp b"
  using assms by (simp add: kinv_def sinv_cong [of b' b] rinv_cong [of b' b])

lemma finish_kinv:
  assumes K: "kinv fp b" and p: "p \<in> set (cards b)" and c: "same_card (card_at b p) c" "card_ok c"
    and n: "\<not> IsTerminal (cStatus (card_at b p))"
    and ls: "\<And>i t. fmlookup ls i = Some t \<Longrightarrow>
      (if i = cID c then cStatus c = StatusClaimed else fmlookup (leases b) i = Some t)"
  shows "kinv fp ((finishTransitionLocked fp now p (cStatus (card_at b p)) (set_card p c b))\<lparr>leases := ls\<rparr>)"
proof -
  have S: "sinv b" and R: "rinv fp b" and l: "p < length (cstore b)"
    using K p by (simp_all add: kinv_def sinv_def ptrs_ok_def)
  have "map cID (cstore (set_card p c b)) = map cID (cstore b)"
    using c(1) l by (simp add: same_card_def set_card_def card_at_def map_update list_update_same_conv)
  then have "ptrs_ok (set_card p c b)"
    using S by (simp add: sinv_def ptrs_ok_def)
  moreover have "rinv fp (set_card p c b)"
    using n by (intro set_card_rinv [OF R l c(1)]) simp
  ultimately have "rinv fp (finishTransitionLocked fp now p (cStatus (card_at b p)) (set_card p c b))"
    using p by (intro finish_rinv) simp_all
  then have "rinv fp ((finishTransitionLocked fp now p (cStatus (card_at b p)) (set_card p c b))\<lparr>leases := ls\<rparr>)"
    by (subst rinv_cong [where b = "finishTransitionLocked fp now p (cStatus (card_at b p)) (set_card p c b)"]) simp_all
  then show ?thesis
    using finish_sinv [where fp = fp and now = now, OF S p c ls] by (simp add: kinv_def)
qed

subsection \<open>Every critical section keeps the invariant\<close>

lemma indexD:
  assumes "kinv fp b" "fmlookup (index b) i = Some p"
  shows "p \<in> set (cards b)" "cID (card_at b p) = i" "card_ok (card_at b p)" "p < length (cstore b)"
  using assms by (auto simp: kinv_def sinv_def index_ok_def cards_ok_def ptrs_ok_def)

lemma lease_pending:
  assumes "kinv fp b" "p \<in> set (cards b)" "cStatus (card_at b p) \<noteq> StatusClaimed"
  shows "fmlookup (leases b) (cID (card_at b p)) = None"
proof (rule ccontr)
  assume "fmlookup (leases b) (cID (card_at b p)) \<noteq> None"
  then obtain q where "fmlookup (index b) (cID (card_at b p)) = Some q" "cStatus (card_at b q) = StatusClaimed"
    using assms(1) by (auto simp: kinv_def sinv_def lease_ok_def)
  moreover have "fmlookup (index b) (cID (card_at b p)) = Some p"
    using assms by (simp add: kinv_def sinv_def index_ok_def)
  ultimately show False using assms(3) by simp
qed

lemma claimed_card_ok:
  "card_ok c \<Longrightarrow> \<not> IsTerminal (cStatus c) \<Longrightarrow>
    card_ok (c\<lparr>cStatus := StatusClaimed, Consumer := w\<rparr>)"
  by (simp add: card_ok_def)

lemma claim_kinv:
  assumes K: "kinv fp b" and p: "p \<in> set (cards b)" and s: "cStatus (card_at b p) = StatusPending"
    and ls: "ls = leases b \<or> (\<exists>t. ls = fmupd (cID (card_at b p)) t (leases b))"
  shows "kinv fp ((claimLocked fp now p w b)\<lparr>leases := ls\<rparr>)"
  unfolding claimLocked_def Let_def
proof (rule finish_kinv [OF K p])
  show "card_ok ((card_at b p)\<lparr>cStatus := StatusClaimed, Consumer := w\<rparr>)"
    using K p s by (intro claimed_card_ok) (simp_all add: kinv_def sinv_def cards_ok_def)
qed (use s ls in \<open>auto simp: same_card_def split: if_splits\<close>)

lemma claimLocked_at:
  assumes "p < length (cstore b)"
  shows "card_at (claimLocked fp now p w b) p =
      (card_at b p)\<lparr>cStatus := StatusClaimed, Consumer := w, UpdatedAt := now\<rparr>"
    "leases (claimLocked fp now p w b) = leases b"
  using assms by (simp_all add: claimLocked_def Let_def)

lemma Claim_kinv [step_inv]:
  assumes K: "kinv fp b" and c: "Claim fp now tok b = (r, b')"
  shows "kinv fp b'"
proof (cases "closed b \<or> tok = None \<or> find (\<lambda>p. cStatus (card_at b p) = StatusPending) (cards b) = None")
  case True
  then show ?thesis using K c by (auto simp: Claim_def split: option.splits if_splits)
next
  case False
  then obtain p t where f: "\<not> closed b" "tok = Some t"
    "find (\<lambda>p. cStatus (card_at b p) = StatusPending) (cards b) = Some p" by auto
  then have p: "p \<in> set (cards b)" "cStatus (card_at b p) = StatusPending"
    by (auto simp: find_Some_iff)
  then have l: "p < length (cstore b)" using K by (simp add: kinv_def sinv_def ptrs_ok_def)
  let ?b = "(claimLocked fp now p workSourceConsumer b)\<lparr>leases := fmupd (cID (card_at b p)) t (leases b)\<rparr>"
  have "kinv fp ?b" using K p by (intro claim_kinv) auto
  moreover have "\<exists>x. b' = ?b\<lparr>emitted := x\<rparr>"
    using c f l by (auto simp: Claim_def Let_def claimLocked_at afterTransition_def split: option.splits)
  then obtain x where "b' = ?b\<lparr>emitted := x\<rparr>" ..
  ultimately show ?thesis
    using kinv_cong [of "?b\<lparr>emitted := x\<rparr>" ?b fp] by simp
qed

lemma completed_card_ok:
  assumes "card_ok c" "Response_Validate resp = None" "Terminal (pStatus resp)" "pID resp = cID c"
  shows "card_ok (completed_card resp c)"
  using assms by (cases "pStatus resp") (auto simp: card_ok_def completed_card_def complete_status_def Let_def)

lemma Complete_kinv [step_inv]:
  assumes K: "kinv fp b" and c: "Complete fp e now i tok resp b = (r, b')"
  shows "kinv fp b'"
proof (cases "b' = b")
  case True
  then show ?thesis using K by simp
next
  case False
  let ?resp = "resp\<lparr>pID := i\<rparr>"
  from False c obtain p where p: "fmlookup (index b) i = Some p" "cStatus (card_at b p) = StatusClaimed"
    "Response_Validate ?resp = None" "Terminal (pStatus resp)"
    and b': "b' = afterTransition (card_at (finishTransitionLocked fp now p StatusClaimed
        (set_card p (completed_card ?resp (card_at b p)) b)) p)
      (takeLeaseLocked i (finishTransitionLocked fp now p StatusClaimed
        (set_card p (completed_card ?resp (card_at b p)) b)))"
    by (auto simp: Complete_def Let_def split: if_splits option.splits)
  note D = indexD [OF K p(1)]
  let ?f = "finishTransitionLocked fp now p StatusClaimed (set_card p (completed_card ?resp (card_at b p)) b)"
  have "kinv fp (?f\<lparr>leases := fmdrop i (leases b)\<rparr>)"
    unfolding p(2) [symmetric]
    by (rule finish_kinv [OF K D(1) _ completed_card_ok [OF D(3) p(3)]])
      (use p D in \<open>auto simp: same_card_def completed_card_def Let_def split: if_splits\<close>)
  then show ?thesis
    unfolding b'
    by (subst kinv_cong [where b = "?f\<lparr>leases := fmdrop i (leases b)\<rparr>"])
      (use D(4) in \<open>simp_all add: afterTransition_def takeLeaseLocked_def\<close>)
qed

lemma transition_kinv:
  assumes K: "kinv fp b" and c: "transition fp now i mutate b = (ok, b')"
    and m: "\<And>c c'. card_ok c \<Longrightarrow> cID c = i \<Longrightarrow> mutate c = Some c' \<Longrightarrow>
      same_card c c' \<and> card_ok c' \<and> \<not> IsTerminal (cStatus c) \<and> cStatus c' \<noteq> StatusClaimed"
  shows "kinv fp b'"
proof (cases "b' = b")
  case True
  then show ?thesis using K by simp
next
  case False
  with c obtain p d where p: "fmlookup (index b) i = Some p" and d: "mutate (card_at b p) = Some d"
    by (auto simp: transition_def split: option.splits)
  note D = indexD [OF K p]
  note M = m [OF D(3) D(2) d]
  let ?f = "finishTransitionLocked fp now p (cStatus (card_at b p)) (set_card p d b)"
  let ?g = "?f\<lparr>leases := fmdrop i (leases b)\<rparr>"
  have g: "kinv fp ?g"
    by (rule finish_kinv [OF K D(1)]) (use M D in \<open>auto simp: same_card_def split: if_splits\<close>)
  have drop: "fmdrop i (leases b) = leases b" if "cStatus (card_at b p) \<noteq> StatusClaimed"
    using lease_pending [OF K D(1) that] D(2) by (intro fmap_ext) auto
  have "kinv fp b' \<longleftrightarrow> kinv fp ?g"
    using c p d D(4) M drop
    by (intro kinv_cong)
      (auto simp: transition_def Let_def afterTransition_def takeLeaseLocked_def signalWorkLocked_def
        split: if_splits)
  with g show ?thesis by simp
qed

lemma Suspend_kinv [step_inv]: "kinv fp b \<Longrightarrow> Suspend fp now i ref b = (ok, b') \<Longrightarrow> kinv fp b'"
  unfolding Suspend_def
  by (erule transition_kinv) (auto simp: suspend_card_def same_card_def card_ok_def split: if_splits)

lemma Resume_kinv [step_inv]: "kinv fp b \<Longrightarrow> Resume fp now i b = (rs, b') \<Longrightarrow> kinv fp b'"
  unfolding Resume_def
  by (cases "transition fp now i resume_card b", clarsimp simp: Let_def, erule transition_kinv, assumption)
    (auto simp: resume_card_def same_card_def card_ok_def split: if_splits)

lemma cancel_card_ok:
  "card_ok c \<Longrightarrow> cID c = i \<Longrightarrow> cancel_card i reason c = Some c' \<Longrightarrow> card_ok c'"
  by (auto simp: cancel_card_def card_ok_def Response_Validate_def RStatus_Validate_def split: if_splits)

lemma Cancel_kinv [step_inv]: "kinv fp b \<Longrightarrow> Cancel fp now i reason b = (ok, b') \<Longrightarrow> kinv fp b'"
  unfolding Cancel_def
  by (erule transition_kinv, assumption)
    (auto dest: cancel_card_ok simp: cancel_card_def same_card_def split: if_splits)

lemma ClaimCard_kinv [step_inv]:
  assumes K: "kinv fp b" and c: "ClaimCard fp now i w b = (ok, b')"
  shows "kinv fp b'"
proof (cases "b' = b")
  case True
  then show ?thesis using K by simp
next
  case False
  with c obtain p where p: "fmlookup (index b) i = Some p" "cStatus (card_at b p) = StatusPending"
    and b': "b' = afterTransition (card_at (claimLocked fp now p w b) p) (claimLocked fp now p w b)"
    by (auto simp: ClaimCard_def Let_def split: option.splits if_splits)
  note D = indexD [OF K p(1)]
  let ?g = "(claimLocked fp now p w b)\<lparr>leases := leases b\<rparr>"
  have "kinv fp ?g" using claim_kinv [OF K D(1) p(2)] by blast
  moreover have "kinv fp b' \<longleftrightarrow> kinv fp ?g"
    unfolding b' using D(4) by (intro kinv_cong) (simp_all add: afterTransition_def claimLocked_at)
  ultimately show ?thesis by simp
qed

text \<open>\<open>NoteRunID\<close> writes a card in place without a transition: the same as a transition from the
  claimed status to itself.\<close>

lemma NoteRunID_kinv [step_inv]:
  assumes K: "kinv fp b" and c: "NoteRunID now i run b = (e, b')"
  shows "kinv fp b'"
proof (cases "b' = b")
  case True
  then show ?thesis using K by simp
next
  case False
  let ?c = "\<lambda>p. (card_at b p)\<lparr>RunID := run, UpdatedAt := now\<rparr>"
  from False c obtain p where p: "fmlookup (index b) i = Some p" "cStatus (card_at b p) = StatusClaimed"
    and b': "b' = afterTransition (?c p) (set_card p (?c p) b)"
    by (auto simp: NoteRunID_def Let_def split: option.splits if_splits)
  note D = indexD [OF K p(1)]
  let ?f = "(finishTransitionLocked fp now p (cStatus (card_at b p)) (set_card p (?c p) b))\<lparr>leases := leases b\<rparr>"
  have "kinv fp ?f"
    by (rule finish_kinv [OF K D(1)]) (use p(2) D in \<open>auto simp: same_card_def card_ok_def split: if_splits\<close>)
  moreover have "kinv fp b' \<longleftrightarrow> kinv fp ?f"
    unfolding b' using D(4) p(2)
    by (intro kinv_cong)
      (simp_all add: afterTransition_def finishTransitionLocked_def Let_def set_card_def card_at_def fun_eq_iff)
  ultimately show ?thesis by simp
qed

lemma Close_kinv [step_inv]: "kinv fp b \<Longrightarrow> kinv fp (Close b)"
proof (cases "closed b")
  case False
  assume K: "kinv fp b"
  have "sinv (Close b)"
    using K False by (auto simp: kinv_def Close_def sinv_def ptrs_ok_def index_ok_def count_ok_def
        count_of_def cards_ok_def lease_ok_def)
  moreover have "rinv fp (Close b) \<longleftrightarrow> rinv fp b"
    by (intro rinv_cong) (simp_all add: Close_def)
  ultimately show ?thesis using K by (simp add: kinv_def)
qed (simp add: Close_def)

lemma janitor_kinv [step_inv]: "kinv fp b \<Longrightarrow> kinv fp (janitor_tick fp now b)"
  by (simp add: janitor_tick_def kinv_ev.evict_keeps)

interpretation cstore_ev: evict_law fp now "\<lambda>b. cstore b = cs" for fp now cs
  by unfold_locales simp_all

lemma evict_cstore [simp]: "cstore (evictLocked fp now b) = cstore b"
  by (rule cstore_ev.evict_keeps) simp

lemma idempotent_forget:
  assumes R: "rinv fp b" and a: "fmlookup (idempotency b) k = Some a" "expires (rstore b ! a) \<noteq> None"
  shows "rinv fp (b\<lparr>idempotency := fmdrop k (idempotency b), tombstones := fmdrop i (tombstones b)\<rparr>)"
    (is "rinv fp ?b2")
proof -
  have R1: "rinv fp (b\<lparr>tombstones := fmdrop i (tombstones b)\<rparr>)" by (rule rinv_forget_tomb [OF R])
  have "live_ok fp ?b2"
    unfolding live_ok_def
  proof (intro ballI impI)
    fix q
    assume q: "q \<in> set (cards ?b2)"
      "\<not> IsTerminal (cStatus (card_at ?b2 q)) \<and> ckey (card_at ?b2 q) \<noteq> []"
    then obtain x where x: "fmlookup (idempotency b) (ckey (card_at b q)) = Some x"
      "rid (rstore b ! x) = cID (card_at b q)" "expires (rstore b ! x) = None"
      "fp (the (cTask (card_at b q))) = Inr (fingerprint (rstore b ! x))"
      using R by (auto simp: rinv_def live_ok_def)
    have "ckey (card_at b q) \<noteq> k" using x(1,3) a by auto
    then show "\<exists>a. fmlookup (idempotency ?b2) (ckey (card_at ?b2 q)) = Some a \<and>
        rid (rstore ?b2 ! a) = cID (card_at ?b2 q) \<and> expires (rstore ?b2 ! a) = None \<and>
        fp (the (cTask (card_at ?b2 q))) = Inr (fingerprint (rstore ?b2 ! a))"
      using x by auto
  qed
  moreover have "tomb_ok ?b2"
    using R1 by (auto simp: rinv_def tomb_ok_def split: if_splits)
  ultimately show ?thesis
    using R1 by (auto simp: rinv_def store_ok_def idem_ok_def split: if_splits)
qed

lemma idempotent_kinv:
  assumes K: "kinv fp b" and c: "idempotentSubmissionLocked fp now req b = (r, b')"
  shows "kinv fp b'" "cstore b' = cstore b"
    "r = Inr None \<Longrightarrow> IdempotencyKey (aRequest req) = [] \<or>
      fmlookup (idempotency b') (IdempotencyKey (aRequest req)) = None"
proof -
  let ?k = "IdempotencyKey (aRequest req)"
  have F: "kinv fp (b\<lparr>idempotency := fmdrop ?k (idempotency b), tombstones := fmdrop i (tombstones b)\<rparr>)"
    if "fmlookup (idempotency b) ?k = Some a" "expires (rstore b ! a) \<noteq> None" for a i
  proof -
    have "sinv (b\<lparr>idempotency := fmdrop ?k (idempotency b), tombstones := fmdrop i (tombstones b)\<rparr>) \<longleftrightarrow> sinv b"
      by (intro sinv_cong) simp_all
    then show ?thesis using K idempotent_forget [OF _ that] by (simp add: kinv_def)
  qed
  show "kinv fp b'" "cstore b' = cstore b"
    using c K F by (auto simp: idempotentSubmissionLocked_def Let_def split: if_splits option.splits sum.splits)
  show "?k = [] \<or> fmlookup (idempotency b') ?k = None" if "r = Inr None"
    using c that by (auto simp: idempotentSubmissionLocked_def Let_def split: if_splits option.splits sum.splits)
qed

lemma Submit_check_kinv [step_inv]:
  "kinv fp b \<Longrightarrow> Submit_check fp now req b = (r, b') \<Longrightarrow> kinv fp b'"
  by (auto simp: Submit_check_def dest: idempotent_kinv(1) [rotated] kinv_ev.evict_keeps split: if_splits)

text \<open>The board with a new card in place and counted, and its operation record allocated.\<close>

definition admitted :: "string \<Rightarrow> int \<Rightarrow> AsyncRequest \<Rightarrow> retainedOperation option \<Rightarrow> Kanban \<Rightarrow> Kanban" where
  "admitted i created req op b =
     (let b1 = b\<lparr>cstore := cstore b @ [new_card i created req],
                 cards := cards b @ [length (cstore b)], index := fmupd i (length (cstore b)) (index b)\<rparr>;
          b2 = (case op of None \<Rightarrow> b1 | Some op \<Rightarrow> alloc op True b1)
      in b2\<lparr>statusCount := (statusCount b)(StatusPending := statusCount b StatusPending + 1)\<rparr>)"

lemma admitted_frame [simp]:
  "cstore (admitted i created req op b) = cstore b @ [new_card i created req]"
  "cards (admitted i created req op b) = cards b @ [length (cstore b)]"
  "index (admitted i created req op b) = fmupd i (length (cstore b)) (index b)"
  "statusCount (admitted i created req op b) = (statusCount b)(StatusPending := statusCount b StatusPending + 1)"
  "leases (admitted i created req op b) = leases b"
  "idempotencyRetention (admitted i created req op b) = idempotencyRetention b"
  "tombstones (admitted i created req op b) = tombstones b"
  by (simp_all add: admitted_def Let_def split: option.splits)

lemma admitted_sinv:
  assumes S: "sinv b" and f: "fresh_id i b"
  shows "sinv (admitted i created req op b)" (is "sinv ?b")
proof -
  let ?n = "length (cstore b)"
  have P: "ptrs_ok b" and I: "index_ok b" and C: "count_ok b" and K: "cards_ok b" and L: "lease_ok b"
    using S by (simp_all add: sinv_def)
  have at: "card_at ?b q = card_at b q" if "q < ?n" for q
    using that by (simp add: card_at_def nth_append)
  have new: "card_at ?b ?n = new_card i created req" by (simp add: card_at_def)
  have lt: "q < ?n" if "q \<in> set (cards b)" for q using P that by (simp add: ptrs_ok_def)
  have ne: "cID (card_at b q) \<noteq> i" if "q < ?n" for q
    using f that by (auto simp: fresh_id_def card_at_def)
  have "ptrs_ok ?b"
    using P f lt by (auto simp: ptrs_ok_def fresh_id_def new_card_def less_Suc_eq)
  moreover have "index_ok ?b"
    using I lt ne at new by (fastforce simp: index_ok_def new_card_def)
  moreover have "count_ok ?b"
  proof -
    have "filter (\<lambda>q. cStatus (card_at ?b q) = s) (cards b) = filter (\<lambda>q. cStatus (card_at b q) = s) (cards b)" for s
      using at lt by (intro filter_cong refl) auto
    then show ?thesis using C new by (auto simp: count_ok_def count_of_def new_card_def)
  qed
  moreover have "cards_ok ?b"
    using K at lt new f by (auto simp: cards_ok_def card_ok_def new_card_def fresh_id_def)
  moreover have "lease_ok ?b"
    unfolding lease_ok_def
  proof (intro allI impI)
    fix j t
    assume "fmlookup (leases ?b) j = Some t"
    then obtain q where q: "fmlookup (index b) j = Some q" "cStatus (card_at b q) = StatusClaimed"
      using L by (auto simp: lease_ok_def)
    then have "q < ?n" "cID (card_at b q) = j" using I lt by (auto simp: index_ok_def)
    then show "\<exists>q. fmlookup (index ?b) j = Some q \<and> cStatus (card_at ?b q) = StatusClaimed"
      using q ne [of q] at [of q] by auto
  qed
  ultimately show ?thesis using S by (simp add: sinv_def)
qed

end
