(* ===== verification/Kanban_Props.thy ===== *)
theory Kanban_Props
  imports Kanban_Safety Event_Subject
begin

text \<open>
  What the kanban board promises its callers, over every interleaving of its critical sections: the
  invariants hold in all reachable states, a live operation is the only one under its idempotency key,
  a terminal answer stays queryable for the declared retention, a lease is either current or
  cancelled, a blocked claim is woken when work appears, and the card events of one card are the ones
  its pattern selects.
\<close>

subsection \<open>Admission\<close>

lemma rinv_add_card:
  assumes R: "rinv fp b"
    and n: "\<not> IsTerminal (cStatus (card_at b p)) \<Longrightarrow> ckey (card_at b p) \<noteq> [] \<Longrightarrow>
      \<exists>a. fmlookup (idempotency b) (ckey (card_at b p)) = Some a \<and>
       rid (rstore b ! a) = cID (card_at b p) \<and> expires (rstore b ! a) = None \<and>
       fp (the (cTask (card_at b p))) = Inr (fingerprint (rstore b ! a))"
  shows "rinv fp (b\<lparr>cards := cards b @ [p], index := ix, statusCount := sc\<rparr>)" (is "rinv fp ?b")
proof -
  have "store_ok ?b = store_ok b" "idem_ok ?b = idem_ok b" "tomb_ok ?b = tomb_ok b"
    by (simp_all add: store_ok_def idem_ok_def tomb_ok_def)
  moreover have "live_ok fp ?b"
    using R n by (auto simp: rinv_def live_ok_def)
  ultimately show ?thesis using R by (simp add: rinv_def)
qed

lemma rinv_add_object:
  assumes R: "rinv fp b" and P: "ptrs_ok b"
  shows "rinv fp (b\<lparr>cstore := cstore b @ [c]\<rparr>)" (is "rinv fp ?b")
proof -
  have "card_at ?b p = card_at b p" if "p \<in> set (cards b)" for p
    using P that by (simp add: card_at_def ptrs_ok_def nth_append)
  then have "live_ok fp ?b" using R by (auto simp: rinv_def live_ok_def)
  moreover have "idem_ok ?b = idem_ok b" "tomb_ok ?b = tomb_ok b"
    by (simp_all add: idem_ok_def tomb_ok_def)
  moreover have "store_ok ?b" using R by (auto simp: rinv_def store_ok_def)
  ultimately show ?thesis using R by (simp add: rinv_def)
qed

definition new_op :: "string \<Rightarrow> AsyncRequest \<Rightarrow> string \<Rightarrow> retainedOperation option" where
  "new_op i req fi =
     (if IdempotencyKey (aRequest req) = [] then None
      else Some \<lparr>rid = i, rkey = IdempotencyKey (aRequest req), fingerprint = fi,
                 response = None, expires = None\<rparr>)"

lemma admitted_rinv:
  assumes R: "rinv fp b" and P: "ptrs_ok b" and f: "fresh_id i b"
    and fi: "fp req = Inr fi"
    and n: "IdempotencyKey (aRequest req) = [] \<or> fmlookup (idempotency b) (IdempotencyKey (aRequest req)) = None"
  shows "rinv fp (admitted i created req (new_op i req fi) b)"
proof -
  define op where "op = new_op i req fi"
  have k: "if IdempotencyKey (aRequest req) = [] then op = None
      else op = Some \<lparr>rid = i, rkey = IdempotencyKey (aRequest req), fingerprint = fi,
          response = None, expires = None\<rparr> \<and> fp req = Inr fi \<and>
        fmlookup (idempotency b) (IdempotencyKey (aRequest req)) = None"
    using fi n by (auto simp: op_def new_op_def)
  let ?c = "new_card i created req"
  let ?b1 = "b\<lparr>cstore := cstore b @ [?c]\<rparr>"
  have ck: "cID ?c = i" "ckey ?c = IdempotencyKey (aRequest req)" "cTask ?c = Some req"
    by (simp_all add: new_card_def ckey_def)
  have notomb: "fmlookup (tombstones b) i = None"
  proof (rule ccontr)
    assume "fmlookup (tombstones b) i \<noteq> None"
    then obtain a where a: "fmlookup (tombstones b) i = Some a" by auto
    obtain c where "c \<in> set (cstore b)" "cID c = rid (rstore b ! a)"
      by (rule storeD [OF R tombD(1) [OF R a]])
    then show False using tombD(2) [OF R a] f by (auto simp: fresh_id_def)
  qed
  define b2 where "b2 = (case op of None \<Rightarrow> ?b1 | Some op \<Rightarrow> alloc op True ?b1)"
  have R2: "rinv fp b2"
  proof (cases "IdempotencyKey (aRequest req) = []")
    case True
    then show ?thesis using rinv_add_object [OF R P] k by (simp add: b2_def)
  next
    case False
    have "rinv fp (alloc (the op) True ?b1)"
      by (rule alloc_rinv [OF rinv_add_object [OF R P], of ?c]) (use False k ck notomb in auto)
    then show ?thesis using False k by (simp add: b2_def)
  qed
  have at: "card_at b2 (length (cstore b)) = ?c" and "cards b2 = cards b"
    by (simp_all add: b2_def card_at_def split: option.splits)
  then have "rinv fp (b2\<lparr>cards := cards b2 @ [length (cstore b)], index := ix, statusCount := sc\<rparr>)" for ix sc
    using k ck by (intro rinv_add_card [OF R2]) (auto simp: b2_def alloc_def split: if_splits)
  then show ?thesis
    unfolding op_def [symmetric]
    by (subst rinv_cong [where b = "b2\<lparr>cards := cards b2 @ [length (cstore b)], index := index b, statusCount := statusCount b\<rparr>"])
      (simp_all add: admitted_def b2_def Let_def alloc_def split: option.splits)
qed

lemma Submit_admit_cases:
  assumes fi: "fp req = Inr fi" and "Submit_admit fp now created i req b = (r, b')"
    and b1: "idempotentSubmissionLocked fp now req (evictLocked fp now b) = (r1, b1)"
  shows "b' = b \<or> b' = b1 \<or> (r1 = Inr None \<and> r = Inr i \<and>
    b' = afterTransition (new_card i created req)
        (signalWorkLocked (evictLocked fp now (admitted i created req (new_op i req fi) b1))))"
  using assms
  by (auto simp: Submit_admit_def Let_def admitted_def alloc_def new_op_def
      split: if_splits sum.splits option.splits prod.splits)

lemma Submit_admit_kinv [step_inv]:
  assumes K: "kinv fp b" and t: "fp_total fp" and f: "fresh_id i b"
    and c: "Submit_admit fp now created i req b = (r, b')"
  shows "kinv fp b'"
proof -
  obtain fi where fi: "fp req = Inr fi" using t by (auto simp: fp_total_def)
  obtain r1 b1 where b1: "idempotentSubmissionLocked fp now req (evictLocked fp now b) = (r1, b1)" by force
  have K0: "kinv fp (evictLocked fp now b)" by (rule kinv_ev.evict_keeps [OF K])
  note D = idempotent_kinv [OF K0 b1]
  have f1: "fresh_id i b1" using f D(2) by (simp add: fresh_id_def)
  let ?a = "admitted i created req (new_op i req fi) b1"
  show ?thesis
    using Submit_admit_cases [OF fi c b1]
  proof (elim disjE conjE)
    assume r1: "r1 = Inr None"
      and b': "b' = afterTransition (new_card i created req) (signalWorkLocked (evictLocked fp now ?a))"
    have "rinv fp ?a"
      using D(1) by (intro admitted_rinv [where fp = fp and req = req and fi = fi, OF _ _ f1 fi D(3) [OF r1]]) (simp_all add: kinv_def sinv_def)
    then have "kinv fp ?a"
      using admitted_sinv [OF _ f1] D(1) by (simp add: kinv_def)
    then have "kinv fp (evictLocked fp now ?a)"
      by (rule kinv_ev.evict_keeps)
    moreover have "kinv fp b' \<longleftrightarrow> kinv fp (evictLocked fp now ?a)"
      unfolding b' by (intro kinv_cong) (simp_all add: afterTransition_def signalWorkLocked_def)
    ultimately show "kinv fp b'" by simp
  qed (use K D(1) in simp_all)
qed

lemma New_kinv: "New scope mp ttl mc ret vld = Inr b \<Longrightarrow> kinv fp b"
  by (auto simp: New_def kinv_def sinv_def ptrs_ok_def index_ok_def count_ok_def count_of_def
      cards_ok_def lease_ok_def rinv_def store_ok_def idem_ok_def tomb_ok_def live_ok_def split: if_splits)

lemma kstep_kinv:
  assumes "fp_total fp" "kinv fp (snd s)" "kstep fp s s'"
  shows "kinv fp (snd s')"
  using assms(3,2,1) by (induction rule: kstep.induct) (auto intro: step_inv)

text \<open>The fingerprint of a request that has a JSON form.\<close>

definition hashed :: "(AsyncRequest \<Rightarrow> string) \<Rightarrow> fpfun" where
  "hashed h q = Inr (h q)"

lemma hashed_total [simp]: "fp_total (hashed h)"
  by (simp add: fp_total_def hashed_def)

interpretation board_sys: invariant_system kinit "kstep (hashed h)" "\<lambda>s. kinv (hashed h) (snd s)" for h
  by unfold_locales (auto simp: kinit_def intro: New_kinv kstep_kinv)

subsection \<open>Facts about the stored state that every critical section keeps\<close>

text \<open>The part of the board that answers \<open>Status\<close>.\<close>

definition same_core :: "Kanban \<Rightarrow> Kanban \<Rightarrow> bool" where
  "same_core b b' \<longleftrightarrow> cstore b' = cstore b \<and> cards b' = cards b \<and> index b' = index b \<and>
     rstore b' = rstore b \<and> idempotency b' = idempotency b \<and> tombstones b' = tombstones b \<and>
     idempotencyRetention b' = idempotencyRetention b"

locale board_law =
  fixes fp :: fpfun and now :: int and P :: "Kanban \<Rightarrow> bool"
  assumes total: "fp_total fp"
    and core_keeps: "P b \<Longrightarrow> same_core b b' \<Longrightarrow> P b'"
    and expire_P: "P b \<Longrightarrow> P (expire_one now i b)"
    and drop_P: "P (b\<lparr>cards := xs @ p # ys\<rparr>) \<Longrightarrow> kinv fp (b\<lparr>cards := xs @ p # ys\<rparr>) \<Longrightarrow>
      IsTerminal (cStatus (card_at b p)) \<Longrightarrow> P ((drop_card fp now p b)\<lparr>cards := xs @ ys\<rparr>)"
    and forget_P: "P b \<Longrightarrow> kinv fp b \<Longrightarrow> fmlookup (idempotency b) k = Some a \<Longrightarrow>
      expires (rstore b ! a) = Some e \<Longrightarrow> \<not> now < e \<Longrightarrow>
      P (b\<lparr>idempotency := fmdrop k (idempotency b), tombstones := fmdrop (rid (rstore b ! a)) (tombstones b)\<rparr>)"
    and admit_P: "P b \<Longrightarrow> kinv fp b \<Longrightarrow> fresh_id i b \<Longrightarrow> P (admitted i created req op b)"
    and write_P: "P b \<Longrightarrow> kinv fp b \<Longrightarrow> p \<in> set (cards b) \<Longrightarrow> \<not> IsTerminal (cStatus (card_at b p)) \<Longrightarrow>
      same_card (card_at b p) c \<Longrightarrow> P (set_card p c b)"
    and retain_P: "P b \<Longrightarrow> rinv fp b \<Longrightarrow> ptrs_ok b \<Longrightarrow> index_ok b \<Longrightarrow> p \<in> set (cards b) \<Longrightarrow> UpdatedAt (card_at b p) = now \<Longrightarrow>
      P (retainTerminalLocked fp now p b)"
begin

sublocale evict_law fp now "\<lambda>b. kinv fp b \<and> P b"
  by unfold_locales (auto intro: kinv_ev.expire_keeps kinv_ev.drop_keeps expire_P drop_P)

lemma finish_P:
  assumes "P b" "kinv fp b" "p \<in> set (cards b)" "\<not> IsTerminal (cStatus (card_at b p))"
    "same_card (card_at b p) c"
  shows "P (finishTransitionLocked fp now p from (set_card p c b))"
proof -
  let ?c = "c\<lparr>UpdatedAt := now\<rparr>"
  let ?b = "\<lambda>sc. (set_card p ?c b)\<lparr>statusCount := sc\<rparr>"
  have l: "p < length (cstore b)" using assms(2,3) by (simp add: kinv_def sinv_def ptrs_ok_def)
  have s: "same_card (card_at b p) ?c" using assms(5) by (simp add: same_card_def)
  have "P (set_card p ?c b)" using assms s by (intro write_P) simp_all
  then have b: "P (?b sc)" for sc by (rule core_keeps) (simp add: same_core_def)
  have "rinv fp (set_card p ?c b)"
    using assms l s by (intro set_card_rinv) (simp_all add: kinv_def)
  then have R: "rinv fp (?b sc)" for sc
    using rinv_cong [of "?b sc" "set_card p ?c b" fp] by simp
  have "map cID (cstore (set_card p ?c b)) = map cID (cstore b)"
    using s l by (simp add: same_card_def set_card_def card_at_def map_update list_update_same_conv)
  then have Q: "ptrs_ok (?b sc)" for sc using assms(2) by (simp add: kinv_def sinv_def ptrs_ok_def)
  have "cID (card_at (?b sc) q) = cID (card_at b q)" for sc q
    using l s by (simp add: same_card_def)
  then have I: "index_ok (?b sc)" for sc
    using assms(2) by (simp add: kinv_def sinv_def index_ok_def)
  have r: "P (retainTerminalLocked fp now p (?b sc))" for sc
    using assms(3) l by (intro retain_P [OF b R Q I]) simp_all
  have "set_card p ((card_at (set_card p c b) p)\<lparr>UpdatedAt := now\<rparr>) (set_card p c b) = set_card p ?c b"
    using l by (simp add: set_card_def card_at_def)
  then show ?thesis using b r l by (simp add: finishTransitionLocked_def Let_def)
qed

lemma transition_P:
  assumes K: "kinv fp b" "P b" and c: "transition fp now i mutate b = (ok, b')"
    and m: "\<And>c c'. card_ok c \<Longrightarrow> cID c = i \<Longrightarrow> mutate c = Some c' \<Longrightarrow> same_card c c' \<and> \<not> IsTerminal (cStatus c)"
  shows "P b'"
proof (cases "b' = b")
  case False
  with c obtain p d where p: "fmlookup (index b) i = Some p" and d: "mutate (card_at b p) = Some d"
    by (auto simp: transition_def split: option.splits)
  note D = indexD [OF K(1) p] and M = m [OF indexD(3) [OF K(1) p] indexD(2) [OF K(1) p] d]
  have "P (finishTransitionLocked fp now p (cStatus (card_at b p)) (set_card p d b))"
    using K M D by (intro finish_P) auto
  then show ?thesis
    by (rule core_keeps) (use c p d in \<open>auto simp: same_core_def transition_def Let_def afterTransition_def
        takeLeaseLocked_def signalWorkLocked_def\<close>)
qed (use K in simp)

lemma claim_P:
  assumes "kinv fp b" "P b" "p \<in> set (cards b)" "cStatus (card_at b p) = StatusPending"
  shows "P (claimLocked fp now p w b)"
  unfolding claimLocked_def Let_def
  using assms by (intro finish_P) (simp_all add: same_card_def)

lemma Claim_P:
  assumes K: "kinv fp b" "P b" and c: "Claim fp now tok b = (r, b')"
  shows "P b'"
proof (cases "b' = b")
  case False
  with c obtain p where p: "find (\<lambda>p. cStatus (card_at b p) = StatusPending) (cards b) = Some p"
    and s: "same_core (claimLocked fp now p workSourceConsumer b) b'"
    by (auto simp: Claim_def same_core_def Let_def afterTransition_def split: option.splits if_splits)
  then have "p \<in> set (cards b)" "cStatus (card_at b p) = StatusPending"
    by (auto simp: find_Some_iff)
  then show ?thesis using claim_P [OF K] core_keeps [OF _ s] by blast
qed (use K in simp)

lemma ClaimCard_P:
  assumes K: "kinv fp b" "P b" and c: "ClaimCard fp now i w b = (r, b')"
  shows "P b'"
proof (cases "b' = b")
  case False
  with c obtain p where p: "fmlookup (index b) i = Some p" "cStatus (card_at b p) = StatusPending"
    and s: "same_core (claimLocked fp now p w b) b'"
    by (auto simp: ClaimCard_def same_core_def Let_def afterTransition_def split: option.splits if_splits)
  then show ?thesis using claim_P [OF K] indexD(1) [OF K(1) p(1)] core_keeps [OF _ s] by blast
qed (use K in simp)

lemma Complete_P:
  assumes K: "kinv fp b" "P b" and c: "Complete fp e now i tok resp b = (r, b')"
  shows "P b'"
proof (cases "b' = b")
  case False
  let ?f = "\<lambda>p. finishTransitionLocked fp now p (cStatus (card_at b p))
    (set_card p (completed_card (resp\<lparr>pID := i\<rparr>) (card_at b p)) b)"
  from False c obtain p where p: "fmlookup (index b) i = Some p" "cStatus (card_at b p) = StatusClaimed"
    and s: "same_core (?f p) b'"
    by (auto simp: Complete_def Let_def same_core_def afterTransition_def takeLeaseLocked_def
        split: if_splits option.splits)
  have "P (?f p)"
    using K p indexD [OF K(1) p(1)]
    by (intro finish_P) (simp_all add: same_card_def completed_card_def Let_def)
  then show ?thesis by (rule core_keeps [OF _ s])
qed (use K in simp)

lemma NoteRunID_P:
  assumes K: "kinv fp b" "P b" and c: "NoteRunID now i run b = (r, b')"
  shows "P b'"
proof (cases "b' = b")
  case False
  let ?c = "\<lambda>p. (card_at b p)\<lparr>RunID := run, UpdatedAt := now\<rparr>"
  from False c obtain p where p: "fmlookup (index b) i = Some p" "cStatus (card_at b p) = StatusClaimed"
    and s: "same_core (set_card p (?c p) b) b'"
    by (auto simp: NoteRunID_def Let_def same_core_def afterTransition_def split: option.splits if_splits)
  have "P (set_card p (?c p) b)"
    using K p indexD [OF K(1) p(1)] by (intro write_P) (simp_all add: same_card_def)
  then show ?thesis by (rule core_keeps [OF _ s])
qed (use K in simp)

lemma idempotent_P:
  assumes "kinv fp b" "P b" "idempotentSubmissionLocked fp now req b = (r, b')"
  shows "P b'"
  using assms forget_P [OF assms(2,1)]
  by (auto simp: idempotentSubmissionLocked_def Let_def split: if_splits option.splits sum.splits)

lemma Submit_check_P:
  assumes "kinv fp b" "P b" "Submit_check fp now req b = (r, b')"
  shows "P b'"
  using assms evict_keeps [of b]
  by (auto simp: Submit_check_def split: if_splits intro: idempotent_P)

lemma Submit_admit_P:
  assumes K: "kinv fp b" "P b" and f: "fresh_id i b" and c: "Submit_admit fp now created i req b = (r, b')"
  shows "P b'"
proof -
  obtain fi where fi: "fp req = Inr fi" using total by (auto simp: fp_total_def)
  obtain r1 b1 where b1: "idempotentSubmissionLocked fp now req (evictLocked fp now b) = (r1, b1)" by force
  have K0: "kinv fp (evictLocked fp now b)" "P (evictLocked fp now b)"
    using evict_keeps [of b] K by simp_all
  note D = idempotent_kinv [OF K0(1) b1] and Q = idempotent_P [OF K0 b1]
  have f1: "fresh_id i b1" using f D(2) by (simp add: fresh_id_def)
  let ?a = "admitted i created req (new_op i req fi) b1"
  show ?thesis
    using Submit_admit_cases [OF fi c b1]
  proof (elim disjE conjE)
    assume r1: "r1 = Inr None"
      and b': "b' = afterTransition (new_card i created req) (signalWorkLocked (evictLocked fp now ?a))"
    have "rinv fp ?a"
      using D(1) by (intro admitted_rinv [where fp = fp and req = req and fi = fi, OF _ _ f1 fi D(3) [OF r1]])
        (simp_all add: kinv_def sinv_def)
    then have "kinv fp ?a"
      using admitted_sinv [OF _ f1] D(1) by (simp add: kinv_def)
    moreover have "P ?a" by (rule admit_P [OF Q D(1) f1])
    ultimately have "P (evictLocked fp now ?a)" using evict_keeps by blast
    then show "P b'"
      by (rule core_keeps) (simp add: b' same_core_def afterTransition_def signalWorkLocked_def)
  qed (use K Q in simp_all)
qed

lemma step_P:
  assumes "kstep fp (t, b) (now, b')" "kinv fp b" "P b"
  shows "P b'"
  using assms(1)
proof cases
  case (step_suspend i ref ok)
  then show ?thesis using assms(2,3) unfolding Suspend_def
    by (elim transition_P [rotated 2]) (auto simp: suspend_card_def same_card_def split: if_splits)
next
  case (step_resume i rs)
  then obtain ok where "transition fp now i resume_card b = (ok, b')"
    by (cases "transition fp now i resume_card b") (auto simp: Resume_def Let_def)
  then show ?thesis using assms(2,3)
    by (elim transition_P [rotated 2]) (auto simp: resume_card_def same_card_def split: if_splits)
next
  case (step_cancel i reason ok)
  then show ?thesis using assms(2,3) unfolding Cancel_def
    by (elim transition_P [rotated 2]) (auto simp: cancel_card_def same_card_def split: if_splits)
next
  case step_close
  then show ?thesis using assms(3) by (auto intro!: core_keeps [OF assms(3)] simp: same_core_def Close_def)
next
  case step_janitor
  then show ?thesis using assms evict_keeps [of b] by (simp add: janitor_tick_def)
qed (use assms(2,3) in \<open>auto intro: Submit_check_P Submit_admit_P Claim_P Complete_P NoteRunID_P ClaimCard_P\<close>)

end

subsection \<open>A terminal answer stays available\<close>

text \<open>The board answers \<open>r\<close> for \<open>i\<close> until \<open>ex\<close>: from a terminal card or from its tombstone.\<close>

definition tomb_answer :: "string \<Rightarrow> Response \<Rightarrow> int \<Rightarrow> Kanban \<Rightarrow> bool" where
  "tomb_answer i r ex b \<longleftrightarrow> (\<exists>a. fmlookup (tombstones b) i = Some a \<and>
     response (rstore b ! a) = Some r \<and> expires (rstore b ! a) = Some ex)"

definition card_answer :: "string \<Rightarrow> Response \<Rightarrow> int \<Rightarrow> Kanban \<Rightarrow> bool" where
  "card_answer i r ex b \<longleftrightarrow> (\<exists>p. fmlookup (index b) i = Some p \<and> IsTerminal (cStatus (card_at b p)) \<and>
     cResult (card_at b p) = Some r \<and> UpdatedAt (card_at b p) + idempotencyRetention b = ex \<and> pID r = i)"

definition answers :: "string \<Rightarrow> Response \<Rightarrow> int \<Rightarrow> Kanban \<Rightarrow> bool" where
  "answers i r ex b \<longleftrightarrow> (card_answer i r ex b \<or> fmlookup (index b) i = None \<and> tomb_answer i r ex b) \<and>
     i \<in> cID ` set (cstore b)"

lemma settle_tomb:
  assumes "a < length (rstore b)"
  shows "tomb_answer (cID c) (r\<lparr>pID := cID c\<rparr>) ex (settle a c r ex b)"
  using assms by (simp add: tomb_answer_def settle_def)

lemma settle_other:
  assumes "rinv fp b" "tomb_answer i r ex b" "i \<noteq> cID c" "a < length (rstore b)" "rid (rstore b ! a) = cID c"
  shows "tomb_answer i r ex (settle a c r' ex' b)"
proof -
  obtain x where x: "fmlookup (tombstones b) i = Some x" "response (rstore b ! x) = Some r"
    "expires (rstore b ! x) = Some ex"
    using assms(2) by (auto simp: tomb_answer_def)
  then have "x \<noteq> a" using tombD(2) [OF assms(1) x(1)] assms(3,5) by auto
  then show ?thesis using x assms(3) by (simp add: tomb_answer_def settle_def)
qed

lemma alloc_tomb:
  assumes "rinv fp b" "tomb_answer i r ex b"
  shows "tomb_answer i r ex (alloc op k b)"
proof -
  obtain x where x: "fmlookup (tombstones b) i = Some x" "response (rstore b ! x) = Some r"
    "expires (rstore b ! x) = Some ex"
    using assms(2) by (auto simp: tomb_answer_def)
  then show ?thesis
    using tombD(1) [OF assms(1) x(1)] by (simp add: tomb_answer_def alloc_def nth_append)
qed

text \<open>\<open>retainTerminalLocked\<close> installs the tombstone of its card and touches no other.\<close>

lemma retain_installs:
  assumes R: "rinv fp b" and t: "fp_total fp"
    and c: "cTask (card_at b p) = Some task" "cResult (card_at b p) = Some r"
    and now: "now < UpdatedAt (card_at b p) + idempotencyRetention b"
  shows "tomb_answer (cID (card_at b p)) (r\<lparr>pID := cID (card_at b p)\<rparr>)
    (UpdatedAt (card_at b p) + idempotencyRetention b) (retainTerminalLocked fp now p b)"
proof -
  obtain f where f: "fp task = Inr f" using t by (auto simp: fp_total_def)
  have "a < length (rstore b)" if "fmlookup (idempotency b) k = Some a" for k a
    by (rule idemD(1) [OF R that])
  then show ?thesis
    using c now f by (auto simp: retainTerminalLocked_def Let_def intro!: settle_tomb)
qed

lemma retain_other:
  assumes R: "rinv fp b" and a: "tomb_answer i r ex b" and n: "cID (card_at b p) \<noteq> i"
    and p: "p < length (cstore b)"
  shows "tomb_answer i r ex (retainTerminalLocked fp now p b)"
proof -
  let ?c = "card_at b p"
  have old: "tomb_answer i r ex (settle x ?c r' ex' b)"
    if "fmlookup (idempotency b) k = Some x" "rid (rstore b ! x) = cID ?c" for x k r' ex'
    using settle_other [OF R a _ idemD(1) [OF R that(1)] that(2)] n by simp
  have new: "tomb_answer i r ex (settle (length (rstore b)) ?c r' ex' (b\<lparr>rstore := rstore b @ [op], idempotency := idm\<rparr>))"
    "tomb_answer i r ex (settle (length (rstore b)) ?c r' ex' (b\<lparr>rstore := rstore b @ [op]\<rparr>))" for r' ex' op idm
  proof -
    obtain x where x: "fmlookup (tombstones b) i = Some x" "response (rstore b ! x) = Some r"
      "expires (rstore b ! x) = Some ex"
      using a by (auto simp: tomb_answer_def)
    then show "tomb_answer i r ex (settle (length (rstore b)) ?c r' ex' (b\<lparr>rstore := rstore b @ [op], idempotency := idm\<rparr>))"
      "tomb_answer i r ex (settle (length (rstore b)) ?c r' ex' (b\<lparr>rstore := rstore b @ [op]\<rparr>))"
      using tombD(1) [OF R x(1)] n
      by (simp_all add: tomb_answer_def settle_def nth_append nth_list_update)
  qed
  show ?thesis
    using a old new
    unfolding retainTerminalLocked_def Let_def
    by (auto split: option.splits sum.splits)
qed

lemma answers_core: "answers i r ex b \<Longrightarrow> same_core b b' \<Longrightarrow> answers i r ex b'"
  by (auto simp: answers_def card_answer_def tomb_answer_def same_core_def card_at_def)

lemma answers_expire:
  assumes "now < ex" "answers i r ex b"
  shows "answers i r ex (expire_one now j b)"
proof -
  have "tomb_answer i r ex (expire_one now j b)" if "tomb_answer i r ex b"
    using that assms(1) by (auto simp: tomb_answer_def expire_one_def expired_def Let_def split: option.splits)
  then show ?thesis
    using assms(2) by (auto simp: answers_def card_answer_def card_at_def)
qed

lemma answers_retain:
  assumes R: "rinv fp b" and t: "fp_total fp" and P: "p < length (cstore b)" and u: "UpdatedAt (card_at b p) = now"
    and own: "fmlookup (index b) (cID (card_at b p)) = Some p" and a: "answers i r ex b"
  shows "answers i r ex (retainTerminalLocked fp now p b)"
proof -
  have "tomb_answer i r ex (retainTerminalLocked fp now p b)"
    if "fmlookup (index b) i = None" "tomb_answer i r ex b"
    using that own by (intro retain_other [OF R that(2) _ P]) auto
  then show ?thesis using a by (auto simp: answers_def card_answer_def)
qed

lemma answers_drop:
  assumes now: "now < ex" and t: "fp_total fp" and a: "answers i r ex (b\<lparr>cards := xs @ p # ys\<rparr>)"
    and K: "kinv fp (b\<lparr>cards := xs @ p # ys\<rparr>)" and T: "IsTerminal (cStatus (card_at b p))"
  shows "answers i r ex ((drop_card fp now p b)\<lparr>cards := xs @ ys\<rparr>)"
proof -
  let ?b = "b\<lparr>cards := xs @ p # ys\<rparr>" and ?c = "card_at b p"
  let ?d = "b\<lparr>index := fmdrop (cID ?c) (index b)\<rparr>"
  have p: "fmlookup (index b) (cID ?c) = Some p" "p < length (cstore b)" "card_ok ?c"
    using K by (auto simp: kinv_def sinv_def index_ok_def ptrs_ok_def cards_ok_def)
  then obtain task res where c: "cTask ?c = Some task" "cResult ?c = Some res" "pID res = cID ?c"
    using T by (auto simp: card_ok_def)
  have R: "rinv fp (?d\<lparr>cards := []\<rparr>)"
    using rinv_fewer_cards [of fp ?b "[]" "fmdrop (cID ?c) (index b)"] K by (simp add: kinv_def)
  have tomb: "tomb_answer i r ex ((drop_card fp now p b)\<lparr>cards := cs\<rparr>) \<longleftrightarrow>
      tomb_answer i r ex (retainTerminalLocked fp now p (?d\<lparr>cards := []\<rparr>))" for cs
    using T c by (simp add: tomb_answer_def drop_card_def removeCardLocked_def Let_def retain_ignores_cards)
  show ?thesis
  proof (cases "cID ?c = i")
    case True
    then have "card_answer i r ex ?b" using a p by (auto simp: answers_def)
    then have r: "res = r" "UpdatedAt ?c + idempotencyRetention b = ex" "pID r = i"
      using p True c by (auto simp: card_answer_def)
    from r(3) have ru: "r\<lparr>pID := i\<rparr> = r" by auto
    have "tomb_answer i r ex (retainTerminalLocked fp now p (?d\<lparr>cards := []\<rparr>))"
      using retain_installs [OF R t, of p task res now] c r(1,2) now True by (simp add: ru)
    then show ?thesis using a True tomb by (auto simp: answers_def)
  next
    case False
    have "tomb_answer i r ex (retainTerminalLocked fp now p (?d\<lparr>cards := []\<rparr>))" if "tomb_answer i r ex ?b"
      using that False p by (intro retain_other [OF R]) (simp_all add: tomb_answer_def)
    then show ?thesis using a tomb False by (auto simp: answers_def card_answer_def)
  qed
qed

lemma answers_forget:
  assumes now: "now < ex" and a: "answers i r ex b" and R: "rinv fp b"
    and k: "fmlookup (idempotency b) k = Some x" "expires (rstore b ! x) = Some e" "\<not> now < e"
  shows "answers i r ex (b\<lparr>idempotency := fmdrop k (idempotency b),
    tombstones := fmdrop (rid (rstore b ! x)) (tombstones b)\<rparr>)"
proof -
  have "rid (rstore b ! x) \<noteq> i" if ta: "tomb_answer i r ex b"
  proof
    assume eq: "rid (rstore b ! x) = i"
    obtain y where y: "fmlookup (tombstones b) i = Some y" "expires (rstore b ! y) = Some ex"
      using ta by (auto simp: tomb_answer_def)
    then have "x = y" using tombD(5) [OF R y(1) k(1)] eq by simp
    then show False using y k now by simp
  qed
  then show ?thesis
    using a by (auto simp: answers_def card_answer_def tomb_answer_def)
qed

lemma answers_admit:
  assumes a: "answers i r ex b" and K: "kinv fp b" and f: "fresh_id j b"
  shows "answers i r ex (admitted j created req op b)"
proof -
  have ne: "j \<noteq> i" using a f by (auto simp: answers_def fresh_id_def)
  have "card_at (admitted j created req op b) p = card_at b p" if "fmlookup (index b) i = Some p" for p
    using indexD(4) [OF K that] by (simp add: card_at_def nth_append)
  moreover have "tomb_answer i r ex (admitted j created req op b)" if ta: "tomb_answer i r ex b"
  proof -
    obtain x where x: "fmlookup (tombstones b) i = Some x" "response (rstore b ! x) = Some r"
      "expires (rstore b ! x) = Some ex"
      using ta by (auto simp: tomb_answer_def)
    then show ?thesis
      using tombD(1) [of fp b i x] K
      by (simp add: tomb_answer_def admitted_def Let_def alloc_def nth_append kinv_def split: option.splits)
  qed
  ultimately show ?thesis
    using a ne by (auto simp: answers_def card_answer_def)
qed

lemma answers_write:
  assumes a: "answers i r ex b" and K: "kinv fp b" and p: "p \<in> set (cards b)"
    and n: "\<not> IsTerminal (cStatus (card_at b p))" and c: "same_card (card_at b p) c"
  shows "answers i r ex (set_card p c b)"
proof -
  have l: "p < length (cstore b)" using K p by (simp add: kinv_def sinv_def ptrs_ok_def)
  have "cID ` set (cstore (set_card p c b)) = set (map cID (cstore (set_card p c b)))" by simp
  also have "map cID (cstore (set_card p c b)) = map cID (cstore b)"
    using c l by (simp add: same_card_def set_card_def card_at_def map_update list_update_same_conv)
  finally have "cID ` set (cstore (set_card p c b)) = cID ` set (cstore b)" by simp
  then show ?thesis
    using a n l by (auto simp: answers_def card_answer_def tomb_answer_def)
qed

text \<open>The law is stated for the time before expiry; after it nothing is claimed.\<close>

interpretation answer_law: board_law "hashed h" now "\<lambda>b. now < ex \<longrightarrow> answers i r ex b" for h now i r ex
proof unfold_locales
  show t: "fp_total (hashed h)" by simp
  fix b p
  assume "now < ex \<longrightarrow> answers i r ex b" "rinv (hashed h) b" "ptrs_ok b" "index_ok b"
    "p \<in> set (cards b)" "UpdatedAt (card_at b p) = now"
  then show "now < ex \<longrightarrow> answers i r ex (retainTerminalLocked (hashed h) now p b)"
    using t by (auto intro!: answers_retain simp: ptrs_ok_def index_ok_def)
qed (auto intro: answers_core answers_expire answers_drop answers_forget answers_admit answers_write
    simp: kinv_def)

lemma answers_Status:
  assumes "kinv fp b" "answers i r ex b" "now < ex" "i \<noteq> []"
  shows "Board_Status None now i b = Inr r"
proof (cases "fmlookup (index b) i")
  case None
  then show ?thesis
    using assms by (auto simp: answers_def card_answer_def tomb_answer_def Board_Status_def)
next
  case (Some p)
  then have "cResult (card_at b p) = Some r" "pID r = cID (card_at b p)"
    using assms(2) indexD(2) [OF assms(1) Some] by (auto simp: answers_def card_answer_def)
  then show ?thesis using Some assms(4) by (simp add: Board_Status_def responseForCard_def)
qed

lemma answers_run:
  assumes "(kstep (hashed h))\<^sup>*\<^sup>* s s'" "kinv (hashed h) (snd s)" "answers i r ex (snd s)"
  shows "kinv (hashed h) (snd s') \<and> (fst s' < ex \<longrightarrow> answers i r ex (snd s'))"
  using assms
proof (induction rule: rtranclp_induct)
  case base
  then show ?case by simp
next
  case (step s' s'')
  have "fst s' \<le> fst s''" using step.hyps(2) by (auto elim: kstep.cases)
  then show ?case
    using step answer_law.step_P [of h "fst s'" "snd s'" "fst s''" "snd s''" ex i r]
      kstep_kinv [OF hashed_total, of h s' s'']
    by auto
qed

subsection \<open>Live cards, leases and wake-ups\<close>

interpretation live_ev: evict_law fp now "\<lambda>b. p \<in> set (cards b) \<and> card_at b p = c \<and> \<not> IsTerminal (cStatus c)"
  for fp now p c
  by unfold_locales (auto simp: card_at_def)

interpretation lease_ev: evict_law fp now "\<lambda>b. leases b = ls \<and> canceled b = cc" for fp now ls cc
  by unfold_locales simp_all

definition no_pending :: "Kanban \<Rightarrow> bool" where
  "no_pending b \<longleftrightarrow> (\<forall>p \<in> set (cards b). cStatus (card_at b p) \<noteq> StatusPending)"

interpretation wake_ev: evict_law fp now "\<lambda>b. workReady b = w \<and> (q \<longrightarrow> no_pending b)" for fp now w q
  by unfold_locales (auto simp: no_pending_def card_at_def)

lemma evict_lease [simp]:
  "leases (evictLocked fp now b) = leases b" "canceled (evictLocked fp now b) = canceled b"
  using lease_ev.evict_keeps [of b "leases b" "canceled b"] by simp_all

lemma evict_wake [simp]: "workReady (evictLocked fp now b) = workReady b"
  "no_pending b \<Longrightarrow> no_pending (evictLocked fp now b)"
  using wake_ev.evict_keeps [of b "workReady b" "no_pending b"] by simp_all

lemma idempotent_frame:
  assumes "idempotentSubmissionLocked fp now req b = (r, b')"
  shows "leases b' = leases b" "canceled b' = canceled b" "workReady b' = workReady b"
    "no_pending b' = no_pending b"
  using assms
  by (auto simp: idempotentSubmissionLocked_def Let_def no_pending_def split: if_splits option.splits sum.splits)

text \<open>A lease token is current or cancelled.\<close>

definition lease_known :: "string \<Rightarrow> string \<Rightarrow> Kanban \<Rightarrow> bool" where
  "lease_known i tok b \<longleftrightarrow> fmlookup (leases b) i = Some tok \<or> tok \<in> set (canceled b)"

lemma lease_known_cong:
  "leases b' = leases b \<Longrightarrow> canceled b' = canceled b \<Longrightarrow> lease_known i tok b \<Longrightarrow> lease_known i tok b'"
  by (simp add: lease_known_def)

lemma lease_known_take: "lease_known i tok b \<Longrightarrow> lease_known i tok (takeLeaseLocked j b)"
  by (auto simp: lease_known_def takeLeaseLocked_def split: option.splits)

lemma transition_lease:
  assumes K: "kinv fp b" and l: "lease_known i tok b" and c: "transition fp now j mutate b = (ok, b')"
  shows "lease_known i tok b'"
proof (cases "b' = b")
  case False
  with c obtain p d where p: "fmlookup (index b) j = Some p" and d: "mutate (card_at b p) = Some d"
    by (auto simp: transition_def split: option.splits)
  let ?f = "finishTransitionLocked fp now p (cStatus (card_at b p)) (set_card p d b)"
  have f: "lease_known i tok ?f"
    using l indexD(4) [OF K p] by (intro lease_known_cong [OF _ _ l]) simp_all
  show ?thesis
    using c p d f lease_known_take [OF f, of j]
    by (auto simp: transition_def Let_def lease_known_def afterTransition_def signalWorkLocked_def split: if_splits)
qed (use l in simp)

lemma Claim_lease:
  assumes K: "kinv fp b" and l: "lease_known i tok b" and c: "Claim fp now tk b = (r, b')"
  shows "lease_known i tok b'"
proof (cases "b' = b")
  case False
  with c obtain p t where f: "find (\<lambda>p. cStatus (card_at b p) = StatusPending) (cards b) = Some p"
    and b': "leases b' = fmupd (cID (card_at (claimLocked fp now p workSourceConsumer b) p)) t
        (leases (claimLocked fp now p workSourceConsumer b))"
      "canceled b' = canceled (claimLocked fp now p workSourceConsumer b)"
    by (auto simp: Claim_def Let_def afterTransition_def split: option.splits if_splits)
  have p: "p \<in> set (cards b)" "cStatus (card_at b p) = StatusPending" using f by (auto simp: find_Some_iff)
  have len: "p < length (cstore b)" using K p by (simp add: kinv_def sinv_def ptrs_ok_def)
  have "fmlookup (leases b) (cID (card_at b p)) = None" using lease_pending [OF K p(1)] p(2) by simp
  then show ?thesis
    using l b' len by (auto simp: lease_known_def claimLocked_at claimLocked_def Let_def)
qed (use l in simp)

lemma Complete_lease:
  assumes K: "kinv fp b" and l: "lease_known i tok b" and c: "Complete fp e now j tk resp b = (r, b')"
  shows "lease_known i tok b'"
proof (cases "b' = b")
  case False
  let ?f = "\<lambda>p. finishTransitionLocked fp now p (cStatus (card_at b p))
    (set_card p (completed_card (resp\<lparr>pID := j\<rparr>) (card_at b p)) b)"
  from False c obtain p where p: "fmlookup (index b) j = Some p"
    and b': "leases b' = leases (takeLeaseLocked j (?f p))" "canceled b' = canceled (takeLeaseLocked j (?f p))"
    by (auto simp: Complete_def Let_def afterTransition_def split: if_splits option.splits)
  have "lease_known i tok (?f p)"
    using indexD(4) [OF K p] by (intro lease_known_cong [OF _ _ l]) simp_all
  then show ?thesis
    by (rule lease_known_cong [OF b' lease_known_take])
qed (use l in simp)

lemma kstep_lease:
  assumes s: "kstep (hashed h) (t, b) (now, b')" and K: "kinv (hashed h) b" and l: "lease_known i tok b"
  shows "lease_known i tok b'"
  using s
proof cases
  case (step_check req r)
  then show ?thesis using l idempotent_frame [of "hashed h" now req "evictLocked (hashed h) now b" r b']
    by (auto simp: Submit_check_def lease_known_def split: if_splits)
next
  case (step_admit created i' req r')
  obtain r1 b1 where b1: "idempotentSubmissionLocked (hashed h) now req (evictLocked (hashed h) now b) = (r1, b1)"
    by force
  have fi: "hashed h req = Inr (h req)" by (simp add: hashed_def)
  show ?thesis
    using Submit_admit_cases [OF fi step_admit(4) b1] idempotent_frame [OF b1] l
    by (auto simp: lease_known_def afterTransition_def signalWorkLocked_def admitted_def Let_def alloc_def split: option.splits)
next
  case (step_claim tk c)
  then show ?thesis using Claim_lease [OF K l] by blast
next
  case (step_complete e j tk resp e')
  then show ?thesis using Complete_lease [OF K l] by blast
next
  case (step_note j run e')
  then show ?thesis using l
    by (auto simp: NoteRunID_def Let_def lease_known_def afterTransition_def split: option.splits if_splits)
next
  case (step_claim_card j w ok)
  then show ?thesis using l indexD(4) [OF K, of j]
    by (auto simp: ClaimCard_def Let_def lease_known_def afterTransition_def claimLocked_def
        split: option.splits if_splits)
next
  case (step_suspend j ref ok)
  then show ?thesis using transition_lease [OF K l] by (auto simp: Suspend_def)
next
  case (step_resume j rs)
  then obtain ok where "transition (hashed h) now j resume_card b = (ok, b')"
    by (cases "transition (hashed h) now j resume_card b") (auto simp: Resume_def Let_def)
  then show ?thesis by (rule transition_lease [OF K l])
next
  case (step_cancel j reason ok)
  then show ?thesis using transition_lease [OF K l] by (auto simp: Cancel_def)
next
  case step_close
  then show ?thesis using l
    by (auto simp: Close_def lease_known_def image_iff fmdomI intro!: bexI [of _ i] dest: fmdomI)
next
  case step_janitor
  then show ?thesis using l by (auto simp: janitor_tick_def lease_known_def)
qed

text \<open>The wake-up channel is replaced whenever a card becomes pending.\<close>

definition wakes :: "Kanban \<Rightarrow> Kanban \<Rightarrow> bool" where
  "wakes b b' \<longleftrightarrow> workReady b < workReady b' \<or>
     workReady b' = workReady b \<and> (no_pending b \<longrightarrow> no_pending b')"

lemma wakes_refl [simp]: "wakes b b"
  by (simp add: wakes_def)

lemma finish_no_pending:
  assumes "p < length (cstore b)" "cStatus c \<noteq> StatusPending" "no_pending b"
  shows "no_pending (finishTransitionLocked fp now p from (set_card p c b))"
  using assms by (simp add: no_pending_def)

lemma transition_wakes:
  assumes K: "kinv fp b" and c: "transition fp now j mutate b = (ok, b')"
  shows "wakes b b'"
proof (cases "b' = b")
  case False
  with c obtain p d where p: "fmlookup (index b) j = Some p" and d: "mutate (card_at b p) = Some d"
    by (auto simp: transition_def split: option.splits)
  note l = indexD(4) [OF K p]
  show ?thesis
  proof (cases "cStatus d = StatusPending")
    case True
    then show ?thesis using c p d l
      by (auto simp: transition_def Let_def wakes_def afterTransition_def signalWorkLocked_def takeLeaseLocked_def
          split: if_splits)
  next
    case False
    then show ?thesis
      using c p d l finish_no_pending [OF l False, of fp now "cStatus (card_at b p)"]
      by (auto simp: transition_def Let_def wakes_def afterTransition_def takeLeaseLocked_def no_pending_def
          split: if_splits)
  qed
qed simp

lemma claim_wakes:
  assumes "p < length (cstore b)"
  shows "workReady (claimLocked fp now p w b) = workReady b"
    "no_pending b \<Longrightarrow> no_pending (claimLocked fp now p w b)"
  using assms by (auto simp: claimLocked_def Let_def no_pending_def)

lemma Submit_admit_wakes:
  assumes "Submit_admit (hashed h) now created i req b = (r, b')"
  shows "wakes b b'"
proof -
  obtain r1 b1 where b1: "idempotentSubmissionLocked (hashed h) now req (evictLocked (hashed h) now b) = (r1, b1)"
    by force
  have fi: "hashed h req = Inr (h req)" by (simp add: hashed_def)
  have "workReady (admitted i created req op b1) = workReady b1" for op
    by (simp add: admitted_def Let_def alloc_def split: option.splits)
  then show ?thesis
    using Submit_admit_cases [OF fi assms b1] idempotent_frame(3,4) [OF b1]
    by (auto simp: wakes_def afterTransition_def signalWorkLocked_def)
qed

lemma kstep_wakes:
  assumes s: "kstep (hashed h) (t, b) (now, b')" and K: "kinv (hashed h) b"
  shows "wakes b b'"
  using s
proof cases
  case (step_check req r)
  then show ?thesis using idempotent_frame [of "hashed h" now req "evictLocked (hashed h) now b" r b']
    by (auto simp: Submit_check_def wakes_def split: if_splits)
next
  case (step_admit created i' req r')
  then show ?thesis by (auto dest: Submit_admit_wakes)
next
  case (step_claim tk c)
  have "p < length (cstore b)" if "find (\<lambda>p. cStatus (card_at b p) = StatusPending) (cards b) = Some p" for p
    using that K by (auto simp: find_Some_iff kinv_def sinv_def ptrs_ok_def)
  then show ?thesis using step_claim claim_wakes [of _ b "hashed h" now]
    by (auto simp: Claim_def Let_def afterTransition_def wakes_def no_pending_def split: option.splits if_splits)
next
  case (step_complete e j tk resp e')
  have "complete_status r StatusClaimed \<noteq> StatusPending" for r
    by (cases r) (simp_all add: complete_status_def)
  then show ?thesis using step_complete indexD(4) [OF K, of j]
    by (auto simp: Complete_def Let_def afterTransition_def takeLeaseLocked_def wakes_def no_pending_def
        completed_card_def split: if_splits option.splits)
next
  case (step_note j run e')
  then show ?thesis using indexD(4) [OF K, of j]
    by (auto simp: NoteRunID_def Let_def afterTransition_def wakes_def no_pending_def split: option.splits if_splits)
next
  case (step_claim_card j w ok)
  then show ?thesis using indexD(4) [OF K, of j] claim_wakes [of _ b "hashed h" now]
    by (auto simp: ClaimCard_def Let_def afterTransition_def wakes_def no_pending_def split: option.splits if_splits)
next
  case (step_suspend j ref ok)
  then show ?thesis using transition_wakes [OF K] by (auto simp: Suspend_def)
next
  case (step_resume j rs)
  then obtain ok where "transition (hashed h) now j resume_card b = (ok, b')"
    by (cases "transition (hashed h) now j resume_card b") (auto simp: Resume_def Let_def)
  then show ?thesis by (rule transition_wakes [OF K])
next
  case (step_cancel j reason ok)
  then show ?thesis using transition_wakes [OF K] by (auto simp: Cancel_def)
next
  case step_close
  then show ?thesis by (auto simp: Close_def wakes_def no_pending_def)
next
  case step_janitor
  then show ?thesis by (auto simp: janitor_tick_def wakes_def)
qed

text \<open>Both facts along a run.\<close>

lemma run_keeps:
  assumes "(kstep (hashed h))\<^sup>*\<^sup>* s s'" "kinv (hashed h) (snd s)"
  shows "kinv (hashed h) (snd s') \<and> (lease_known i tok (snd s) \<longrightarrow> lease_known i tok (snd s')) \<and>
    wakes (snd s) (snd s')"
  using assms
proof (induction rule: rtranclp_induct)
  case base
  then show ?case by simp
next
  case (step s' s'')
  have st: "kstep (hashed h) (fst s', snd s') (fst s'', snd s'')" using step.hyps(2) by simp
  have K: "kinv (hashed h) (snd s')" using step by simp
  show ?case
    using step.IH [OF step.prems] kstep_wakes [OF st K] kstep_lease [OF st K, of i tok]
      kstep_kinv [OF hashed_total _ st] by (auto simp: wakes_def)
qed

subsection \<open>Subjects\<close>

lemma sanitiseID_word: "valid_word (sanitiseID i)" "CHR ''.'' \<notin> set (sanitiseID i)"
  by (auto simp: sanitiseID_def valid_word_def)

lemma split_prefix:
  "splitSubject (cardSubjectPrefix @ s) = [''delegation'', ''kanban'', ''card''] @ splitSubject s"
  by (simp add: splitSubject_def cardSubjectPrefix_def)

lemma split_word:
  "CHR ''.'' \<notin> set w \<Longrightarrow> splitSubject (w @ CHR ''.'' # s) = w # splitSubject s"
  by (simp add: splitSubject_def split_on_append)

lemma split_subjectFor:
  "splitSubject (subjectFor (kindFor s) i) =
    [''delegation'', ''kanban'', ''card'', sanitiseID i, drop (length cardSubjectPrefix) (kindFor s)]"
  using sanitiseID_word(2) [of i]
  by (cases s) (simp_all add: subjectFor_def split_prefix split_word kindFor_def cardSubjectPrefix_def splitSubject_def
      split_on_append)

lemma split_PatternCard:
  "splitSubject (PatternCard i) = [''delegation'', ''kanban'', ''card'', sanitiseID i] @ [''>'']"
  using sanitiseID_word(2) [of i]
  by (simp add: PatternCard_def splitSubject_def cardSubjectPrefix_def split_on_append)

subsection \<open>A concrete run\<close>

lemma evict_quiet:
  assumes "tombstones b = fmempty" "cardTTL b \<le> 0" "maxCards b \<le> 0"
  shows "evictLocked fp now b = b"
  using assms by (simp add: evictLocked_def expireRetainedLocked_def sorted_list_of_fset.rep_eq Let_def)

text \<open>A run used by the witnesses: one request is admitted, claimed and completed.\<close>

definition demo_req :: AsyncRequest where
  "demo_req = \<lparr>aRequest = \<lparr>rMode = ModeAsync, rTarget = ''coder'', Input = ''fix'', rMetadata = fmempty,
     Attributes = fmempty, IdempotencyKey = ''k''\<rparr>, Caller = ''main'', Depth = 1, ParentRunID = [],
     CallID = [], aStream = None\<rparr>"

definition demo_board :: "Card list \<Rightarrow> Kanban" where
  "demo_board cs = \<lparr>scopeID = [], maxPending = 0, cardTTL = 0, maxCards = 0, idempotencyRetention = 10,
     validator = None, closed = False, cstore = [], cards = [],
     index = fmempty, rstore = [], idempotency = fmempty, tombstones = fmempty,
     statusCount = (\<lambda>_. 0), workReady = 0, leases = fmempty, canceled = [], emitted = cs\<rparr>"

definition demo_resp :: Response where
  "demo_resp = \<lparr>pID = ''a1'', pStatus = StatusSucceeded, pOutput = ''done'', pError = [], pMetadata = fmempty\<rparr>"

definition demo_admitted :: Kanban where
  "demo_admitted = snd (Submit_admit (hashed (\<lambda>_. ''h'')) 0 0 ''a1'' demo_req (demo_board []))"

definition demo_claimed :: Kanban where
  "demo_claimed = snd (Claim (hashed (\<lambda>_. ''h'')) 1 (Some ''t1'') demo_admitted)"

definition demo_done :: Kanban where
  "demo_done = snd (Complete (hashed (\<lambda>_. ''h'')) None 2 ''a1'' ''t1'' demo_resp demo_claimed)"

lemma demo_init: "kinit (0, demo_board [])"
proof -
  have "New [] 0 0 0 10 None = Inr (demo_board [])" by (simp add: New_def demo_board_def)
  then show ?thesis unfolding kinit_def by (metis snd_conv)
qed

lemma demo_admitted_eq:
  "demo_admitted = \<lparr>scopeID = [], maxPending = 0, cardTTL = 0, maxCards = 0, idempotencyRetention = 10,
     validator = None, closed = False, cstore = [new_card ''a1'' 0 demo_req], cards = [0],
     index = fmupd ''a1'' 0 fmempty,
     rstore = [\<lparr>rid = ''a1'', rkey = ''k'', fingerprint = ''h'', response = None, expires = None\<rparr>],
     idempotency = fmupd ''k'' 0 fmempty, tombstones = fmempty,
     statusCount = (\<lambda>_. 0)(StatusPending := 1), workReady = 1, leases = fmempty, canceled = [],
     emitted = [new_card ''a1'' 0 demo_req]\<rparr>"
  by (simp add: demo_admitted_def Submit_admit_def idempotentSubmissionLocked_def Let_def evict_quiet
      hashed_def signalWorkLocked_def afterTransition_def demo_board_def demo_req_def)

lemma demo_claimed_eq:
  "demo_claimed = demo_admitted\<lparr>cstore := [(new_card ''a1'' 0 demo_req)\<lparr>cStatus := StatusClaimed,
        Consumer := workSourceConsumer, UpdatedAt := 1\<rparr>],
     statusCount := (\<lambda>_. 0)(StatusPending := 0, StatusClaimed := 1), leases := fmupd ''a1'' ''t1'' fmempty,
     emitted := [new_card ''a1'' 0 demo_req, (new_card ''a1'' 0 demo_req)\<lparr>cStatus := StatusClaimed,
        Consumer := workSourceConsumer, UpdatedAt := 1\<rparr>]\<rparr>"
  by (simp add: demo_claimed_def demo_admitted_eq Claim_def claimLocked_def finishTransitionLocked_def Let_def
     card_at_def set_card_def new_card_def afterTransition_def)

lemma demo_done_card:
  "Board_Card ''a1'' demo_done = Some ((new_card ''a1'' 0 demo_req)\<lparr>cStatus := StatusDone,
        Consumer := workSourceConsumer, UpdatedAt := 2, cResult := Some demo_resp\<rparr>)"
  "idempotencyRetention demo_done = 10"
  by (simp_all add: demo_done_def demo_claimed_eq demo_admitted_eq Complete_def finishTransitionLocked_def Let_def
     card_at_def set_card_def new_card_def afterTransition_def takeLeaseLocked_def Board_Card_def demo_resp_def
     Response_Validate_def RStatus_Validate_def completed_card_def complete_status_def trim_space_def is_space_def)

lemma demo_run:
  "kstep (hashed (\<lambda>_. ''h'')) (0, demo_board []) (0, demo_admitted)"
  "kstep (hashed (\<lambda>_. ''h'')) (0, demo_admitted) (1, demo_claimed)"
  "kstep (hashed (\<lambda>_. ''h'')) (1, demo_claimed) (2, demo_done)"
proof -
  have "fresh_id ''a1'' (demo_board [])"
    by (simp add: fresh_id_def demo_board_def trim_space_def is_space_def)
  then show "kstep (hashed (\<lambda>_. ''h'')) (0, demo_board []) (0, demo_admitted)"
    unfolding demo_admitted_def by (intro step_admit [OF _ _ _ prod.collapse [symmetric]]) simp_all
  show "kstep (hashed (\<lambda>_. ''h'')) (0, demo_admitted) (1, demo_claimed)"
    unfolding demo_claimed_def by (intro step_claim [OF _ prod.collapse [symmetric]]) simp
  show "kstep (hashed (\<lambda>_. ''h'')) (1, demo_claimed) (2, demo_done)"
    unfolding demo_done_def by (intro step_complete [OF _ prod.collapse [symmetric]]) simp
qed

lemma demo_reach:
  "reach kinit (kstep (hashed (\<lambda>_. ''h''))) (0, demo_admitted)"
  "reach kinit (kstep (hashed (\<lambda>_. ''h''))) (1, demo_claimed)"
  "reach kinit (kstep (hashed (\<lambda>_. ''h''))) (2, demo_done)"
  "reach kinit (kstep (hashed (\<lambda>_. ''h''))) (0, demo_board [])"
  using demo_init demo_run by (blast intro: reach.intros)+

lemma demo_runs:
  "(kstep (hashed (\<lambda>_. ''h'')))\<^sup>*\<^sup>* (0, demo_board []) (0, demo_admitted)"
  "(kstep (hashed (\<lambda>_. ''h'')))\<^sup>*\<^sup>* (1, demo_claimed) (2, demo_done)"
  using demo_run by (simp_all add: r_into_rtranclp)

subsection \<open>Properties\<close>

text \<open>C22. In every reachable state the operational views agree: the counter of each status is the number
  of cards with it, the index holds exactly the listed cards under distinct ids, a card has a result
  exactly when it is terminal, and a lease exists only for a claimed card.\<close>

theorem board_views_consistent:
  assumes "reach kinit (kstep (hashed h)) (t, b)"
  shows "CountByStatus s b = int (length (Query \<lparr>fProducer = [], fConsumer = [], fStatus = Some s, fTarget = []\<rparr> b)) \<and>
    distinct (map cID (map (card_at b) (cards b))) \<and>
    (Board_Card i b = Some c \<longleftrightarrow> c \<in> set (map (card_at b) (cards b)) \<and> cID c = i) \<and>
    (Board_Card i b = Some c \<longrightarrow> (IsTerminal (cStatus c) \<longleftrightarrow> cResult c \<noteq> None)) \<and>
    (fmlookup (leases b) i = Some tok \<longrightarrow> (\<exists>c. Board_Card i b = Some c \<and> cStatus c = StatusClaimed))"
proof -
  have K: "kinv (hashed h) b" using board_sys.reach_invar [OF assms] by simp
  then have S: "sinv b" by (simp add: kinv_def)
  have "CountByStatus s b = int (length (Query \<lparr>fProducer = [], fConsumer = [], fStatus = Some s, fTarget = []\<rparr> b))"
    using S by (simp add: sinv_def count_ok_def count_of_def CountByStatus_def Query_def Filter_matches_def
        filter_map comp_def)
  moreover have "distinct (map cID (map (card_at b) (cards b)))"
  proof -
    have "inj_on (\<lambda>p. cID (card_at b p)) (set (cards b))"
      using id_inj S by (auto simp: inj_on_def sinv_def ptrs_ok_def)
    then show ?thesis using S by (simp add: distinct_map comp_def sinv_def ptrs_ok_def)
  qed
  moreover have "Board_Card i b = Some c \<longleftrightarrow> c \<in> set (map (card_at b) (cards b)) \<and> cID c = i"
    using S by (auto simp: Board_Card_def sinv_def index_ok_def)
  moreover have "Board_Card i b = Some c \<longrightarrow> (IsTerminal (cStatus c) \<longleftrightarrow> cResult c \<noteq> None)"
    using indexD(3) [OF K] by (auto simp: Board_Card_def card_ok_def)
  moreover have "fmlookup (leases b) i = Some tok \<longrightarrow> (\<exists>c. Board_Card i b = Some c \<and> cStatus c = StatusClaimed)"
    using S by (auto simp: sinv_def lease_ok_def Board_Card_def)
  ultimately show ?thesis by blast
qed

theorem board_views_consistent_witness:
  "reach kinit (kstep (hashed (\<lambda>_. ''h''))) (1, demo_claimed) \<and>
   CountByStatus StatusClaimed demo_claimed = 1 \<and>
   length (Query \<lparr>fProducer = [], fConsumer = [], fStatus = Some StatusClaimed, fTarget = []\<rparr> demo_claimed) = 1"
proof -
  have "CountByStatus StatusClaimed demo_claimed = 1"
    by (simp add: CountByStatus_def demo_claimed_eq)
  then show ?thesis
    using demo_reach(2) board_views_consistent [OF demo_reach(2), of StatusClaimed] by simp
qed

text \<open>C11. Bounded idempotency: once a card is terminal, \<open>Status\<close> keeps returning exactly its
  response, through any interleaving of calls and evictions, for as long as the declared retention
  has not passed since the terminal transition.\<close>

theorem terminal_answer_stays:
  assumes "reach kinit (kstep (hashed h)) (t, b)"
    and "Board_Card i b = Some c" "cResult c = Some r"
    and "(kstep (hashed h))\<^sup>*\<^sup>* (t, b) (t', b')"
    and "t' \<le> now" "now < UpdatedAt c + idempotencyRetention b"
  shows "Board_Status None now i b' = Inr r"
proof -
  have K: "kinv (hashed h) b" using board_sys.reach_invar [OF assms(1)] by simp
  obtain p where p: "fmlookup (index b) i = Some p" "card_at b p = c"
    using assms(2) by (auto simp: Board_Card_def)
  note D = indexD [OF K p(1)]
  have "card_answer i r (UpdatedAt c + idempotencyRetention b) b"
    using p D assms(3) by (auto simp: card_answer_def card_ok_def)
  moreover have "i \<in> cID ` set (cstore b)" using D by (auto simp: card_at_def)
  ultimately have A: "answers i r (UpdatedAt c + idempotencyRetention b) b" by (simp add: answers_def)
  have "trim_space [] = []" by (simp add: trim_space_def)
  then have "i \<noteq> []" using D by (auto simp: card_ok_def)
  moreover have "kinv (hashed h) b' \<and> answers i r (UpdatedAt c + idempotencyRetention b) b'"
    using answers_run [OF assms(4), of i r "UpdatedAt c + idempotencyRetention b"] K A assms(5,6) by simp
  ultimately show ?thesis
    using assms(6) by (blast intro: answers_Status)
qed

theorem terminal_answer_stays_witness:
  "Board_Status None 11 ''a1'' (evictLocked (hashed (\<lambda>_. ''h'')) 11 demo_done) = Inr demo_resp"
proof -
  have "\<not> closed demo_done"
    by (simp add: demo_done_def demo_claimed_eq demo_admitted_eq Complete_def Let_def afterTransition_def
        takeLeaseLocked_def card_at_def split: option.splits)
  then have "kstep (hashed (\<lambda>_. ''h'')) (2, demo_done) (11, evictLocked (hashed (\<lambda>_. ''h'')) 11 demo_done)"
    using step_janitor [of 2 11 "hashed (\<lambda>_. ''h'')" demo_done] by (simp add: janitor_tick_def)
  then show ?thesis
    by (intro terminal_answer_stays [OF demo_reach(3) demo_done_card(1) _ r_into_rtranclp, of _ 11])
      (simp_all add: demo_done_card(2))
qed

text \<open>C19. While an operation is live its idempotency key belongs to it alone: a submission under the key
  returns the operation's id when the fingerprints agree and a conflict when they do not, and no other
  live card carries the key.\<close>

theorem live_key_replays:
  assumes "reach kinit (kstep (hashed h)) (t, b)" "\<not> closed b"
    and "Board_Card i b = Some c" "\<not> IsTerminal (cStatus c)" "cTask c = Some q"
    and "IdempotencyKey (aRequest q) = k" "k \<noteq> []" "IdempotencyKey (aRequest req) = k"
  shows "fst (Submit_check (hashed h) now req b) =
      (if h req = h q then Inr (Some i)
       else Inl (errf Conflict ''delegation kanban: idempotency key was already used for a different request'')) \<and>
    (Board_Card j b = Some d \<and> \<not> IsTerminal (cStatus d) \<and> ckey d = k \<longrightarrow> j = i)"
proof -
  have K: "kinv (hashed h) b" using board_sys.reach_invar [OF assms(1)] by simp
  obtain p where p: "fmlookup (index b) i = Some p" "card_at b p = c"
    using assms(3) by (auto simp: Board_Card_def)
  note D = indexD [OF K p(1)]
  have key: "ckey c = k" using assms(5,6) by (simp add: ckey_def)
  let ?e = "evictLocked (hashed h) now b"
  have L: "p \<in> set (cards ?e)" "card_at ?e p = c"
    using live_ev.evict_keeps [of p b c] D(1) p(2) assms(4) by simp_all
  have owner: "\<exists>a. fmlookup (idempotency b') k = Some a \<and> rid (rstore b' ! a) = cID (card_at b' p') \<and>
      expires (rstore b' ! a) = None \<and> hashed h (the (cTask (card_at b' p'))) = Inr (fingerprint (rstore b' ! a))"
    if "kinv (hashed h) b'" "p' \<in> set (cards b')" "\<not> IsTerminal (cStatus (card_at b' p'))" "ckey (card_at b' p') = k"
    for b' p'
    using that assms(7) by (auto simp: kinv_def rinv_def live_ok_def)
  obtain a where a: "fmlookup (idempotency ?e) k = Some a" "rid (rstore ?e ! a) = i"
    "expires (rstore ?e ! a) = None" "fingerprint (rstore ?e ! a) = h q"
    using owner [OF kinv_ev.evict_keeps [OF K] L(1)] L(2) key assms(4,5) D(2) p(2) by (auto simp: hashed_def)
  have "fst (Submit_check (hashed h) now req b) =
      (if h req = h q then Inr (Some i)
       else Inl (errf Conflict ''delegation kanban: idempotency key was already used for a different request''))"
    using a assms(2,7,8) by (simp add: Submit_check_def idempotentSubmissionLocked_def Let_def hashed_def)
  moreover have "j = i" if d: "Board_Card j b = Some d" "\<not> IsTerminal (cStatus d)" "ckey d = k"
  proof -
    obtain p' where p': "fmlookup (index b) j = Some p'" "card_at b p' = d"
      using d(1) by (auto simp: Board_Card_def)
    note D' = indexD [OF K p'(1)]
    show ?thesis
      using owner [OF K D'(1)] owner [OF K D(1)] d p'(2) p(2) D(2) D'(2) key assms(4) by auto
  qed
  ultimately show ?thesis by blast
qed

theorem live_key_replays_witness:
  "fst (Submit_check (hashed (\<lambda>_. ''h'')) 5 demo_req demo_claimed) = Inr (Some ''a1'')"
proof -
  have "Board_Card ''a1'' demo_claimed = Some ((new_card ''a1'' 0 demo_req)\<lparr>cStatus := StatusClaimed,
      Consumer := workSourceConsumer, UpdatedAt := 1\<rparr>)" "\<not> closed demo_claimed"
    by (simp_all add: Board_Card_def demo_claimed_eq demo_admitted_eq card_at_def)
  then show ?thesis
    using live_key_replays [OF demo_reach(2), of "''a1''" _ demo_req "''k''" demo_req 5]
    by (simp add: new_card_def demo_req_def)
qed

text \<open>No claimed work is left running unnoticed: after \<open>Claim\<close> hands out a lease token, in every
  later state the token is the current lease of its delegation or its context has been cancelled.\<close>

theorem lease_current_or_canceled:
  assumes "reach kinit (kstep (hashed h)) (t, b)" "t \<le> now"
    and "Claim (hashed h) now (Some tok) b = (Claimed w, b1)"
    and "(kstep (hashed h))\<^sup>*\<^sup>* (now, b1) (t', b')"
  shows "LeaseToken w = tok \<and> (fmlookup (leases b') (wID w) = Some tok \<or> tok \<in> set (canceled b'))"
proof -
  have st: "kstep (hashed h) (t, b) (now, b1)" by (rule step_claim [OF assms(2,3)])
  have K: "kinv (hashed h) b1"
    using board_sys.reach_step_invar [OF assms(1) st] by simp
  have "LeaseToken w = tok \<and> lease_known (wID w) tok b1"
    using assms(3) by (auto simp: Claim_def Let_def lease_known_def afterTransition_def split: if_splits option.splits)
  then show ?thesis
    using run_keeps [OF assms(4), of "wID w" tok] K by (simp add: lease_known_def)
qed

theorem lease_current_or_canceled_witness:
  "fmlookup (leases demo_done) ''a1'' = Some ''t1'' \<or> ''t1'' \<in> set (canceled demo_done)"
proof -
  let ?w = "\<lparr>wID = ''a1'', LeaseToken = ''t1'', wRequest = demo_req\<rparr>"
  have "Claim (hashed (\<lambda>_. ''h'')) 1 (Some ''t1'') demo_admitted = (Claimed ?w, demo_claimed)"
    unfolding demo_claimed_eq
    by (simp add: demo_admitted_eq Claim_def claimLocked_def finishTransitionLocked_def Let_def
        card_at_def set_card_def new_card_def afterTransition_def)
  from lease_current_or_canceled [OF demo_reach(1) _ this demo_runs(2)]
  show ?thesis by simp
qed

text \<open>C21. No lost wake-up: when a claim blocks on the wake-up channel of generation \<open>g\<close>, any later
  state with pending work has replaced that channel, so the blocked claim has been woken.\<close>

theorem blocked_claim_is_woken:
  assumes "reach kinit (kstep (hashed h)) (t, b)"
    and "Claim (hashed h) now tok b = (Claim_waits g, b1)"
    and "(kstep (hashed h))\<^sup>*\<^sup>* (t, b1) (t', b')"
    and "c \<in> set (Query \<lparr>fProducer = [], fConsumer = [], fStatus = Some StatusPending, fTarget = []\<rparr> b')"
  shows "g < workReady b'"
proof -
  have K: "kinv (hashed h) b" using board_sys.reach_invar [OF assms(1)] by simp
  have w: "b1 = b" "g = workReady b" "no_pending b"
    using assms(2) by (auto simp: Claim_def Let_def no_pending_def find_None_iff split: if_splits option.splits)
  have "\<not> no_pending b'"
    using assms(4) by (auto simp: Query_def Filter_matches_def no_pending_def split: if_splits)
  then show ?thesis
    using run_keeps [OF assms(3)] K w by (auto simp: wakes_def)
qed

theorem blocked_claim_is_woken_witness:
  "fst (Claim (hashed (\<lambda>_. ''h'')) 0 (Some ''t1'') (demo_board [])) = Claim_waits 0 \<and> 0 < workReady demo_admitted"
proof -
  have c: "Claim (hashed (\<lambda>_. ''h'')) 0 (Some ''t1'') (demo_board []) = (Claim_waits 0, demo_board [])"
    by (simp add: Claim_def demo_board_def)
  have "new_card ''a1'' 0 demo_req \<in> set (Query \<lparr>fProducer = [], fConsumer = [], fStatus = Some StatusPending, fTarget = []\<rparr> demo_admitted)"
    by (simp add: Query_def demo_admitted_eq card_at_def Filter_matches_def new_card_def)
  from blocked_claim_is_woken [OF demo_reach(4) c demo_runs(1) this] c
  show ?thesis by simp
qed

lemma complete_current:
  assumes K: "kinv (hashed h) b" and "fmlookup (leases b) i = Some tok" "tok \<noteq> []"
    and "Response_Validate (resp\<lparr>pID := i\<rparr>) = None" "Terminal (pStatus resp)"
  shows "\<exists>b'. Complete (hashed h) None now i tok resp b = (None, b') \<and>
    Board_Status None now i b' = Inr (resp\<lparr>pID := i\<rparr>) \<and>
    Complete (hashed h) None now' i tok resp' b' = (None, b')"
proof -
  obtain p where p: "fmlookup (index b) i = Some p" "cStatus (card_at b p) = StatusClaimed"
    using K assms(2) by (auto simp: kinv_def sinv_def lease_ok_def)
  note D = indexD [OF K p(1)]
  have i: "i \<noteq> []" using assms(4) by (auto simp: Response_Validate_def trim_space_def)
  let ?c = "completed_card (resp\<lparr>pID := i\<rparr>) (card_at b p)"
  let ?f = "finishTransitionLocked (hashed h) now p StatusClaimed (set_card p ?c b)"
  let ?b = "afterTransition (card_at ?f p) (takeLeaseLocked i ?f)"
  have "Complete (hashed h) None now i tok resp b = (None, ?b)"
    using assms(2-5) p i by (simp add: Complete_def Let_def)
  moreover have "Board_Status None now i ?b = Inr (resp\<lparr>pID := i\<rparr>)"
    using p D i by (simp add: Board_Status_def responseForCard_def afterTransition_def takeLeaseLocked_def
        completed_card_def Let_def)
  moreover have "Complete (hashed h) None now' i tok resp' ?b = (None, ?b)"
    using p D i assms(3) by (simp add: Complete_def afterTransition_def takeLeaseLocked_def)
  ultimately show ?thesis by blast
qed

text \<open>C20. The holder of the current lease completes exactly once: in a reachable state a valid terminal
  response under the current token is accepted (the conflict branch cannot be reached), \<open>Status\<close>
  then returns that response, and a second completion under the token changes nothing.\<close>

theorem complete_exactly_once:
  assumes "reach kinit (kstep (hashed h)) (t, b)" "fmlookup (leases b) i = Some tok" "tok \<noteq> []"
    and "Response_Validate (resp\<lparr>pID := i\<rparr>) = None" "Terminal (pStatus resp)"
  shows "\<exists>b'. Complete (hashed h) None now i tok resp b = (None, b') \<and>
    Board_Status None now i b' = Inr (resp\<lparr>pID := i\<rparr>) \<and>
    Complete (hashed h) None now' i tok resp' b' = (None, b')"
  using complete_current [OF _ assms(2-5)] board_sys.reach_invar [OF assms(1)] by simp

theorem complete_exactly_once_witness:
  "\<exists>b'. Complete (hashed (\<lambda>_. ''h'')) None 2 ''a1'' ''t1'' demo_resp demo_claimed = (None, b') \<and>
    Board_Status None 2 ''a1'' b' = Inr demo_resp"
proof -
  have "fmlookup (leases demo_claimed) ''a1'' = Some ''t1''" by (simp add: demo_claimed_eq)
  moreover have "demo_resp\<lparr>pID := ''a1''\<rparr> = demo_resp" by (simp add: demo_resp_def)
  moreover have "Response_Validate demo_resp = None" "Terminal (pStatus demo_resp)"
    by (simp_all add: demo_resp_def Response_Validate_def RStatus_Validate_def trim_space_def is_space_def)
  ultimately show ?thesis
    using complete_exactly_once [OF demo_reach(2), of "''a1''" "''t1''" demo_resp 2] by auto
qed

text \<open>A subscriber to \<open>PatternCard\<close> of one card sees every lifecycle event of that card and of no
  card whose sanitised id differs, and \<open>PatternAll\<close> sees them all.\<close>

theorem card_pattern_selects:
  "(Matches (PatternCard i) (subjectFor (kindFor s) j) \<longleftrightarrow> sanitiseID i = sanitiseID j) \<and>
   Matches PatternAll (subjectFor (kindFor s) j)"
proof -
  have m: "matchSegs ps ss \<longleftrightarrow> seg_match ps ss" for ps ss
    using match_loop_seg_match [of "length ps" 0 ps ss] by (simp add: matchSegs_def)
  have "valid_word ''delegation'' \<and> valid_word ''kanban'' \<and> valid_word ''card''"
    by (simp add: valid_word_def)
  then have "\<forall>w \<in> set [''delegation'', ''kanban'', ''card'', sanitiseID i]. valid_word w"
    and "\<forall>w \<in> set [''delegation'', ''kanban'', ''card'']. valid_word w"
    using sanitiseID_word(1) by auto
  note t = this [THEN seg_match_prefix_trail]
  have ne: "subjectFor (kindFor s) j \<noteq> []" "PatternCard i \<noteq> []" "PatternAll \<noteq> []"
    by (simp_all add: subjectFor_def PatternCard_def PatternAll_def cardSubjectPrefix_def)
  have all: "splitSubject PatternAll = [''delegation'', ''kanban'', ''card''] @ [''>'']"
    by (simp add: PatternAll_def splitSubject_def cardSubjectPrefix_def)
  show ?thesis
    unfolding Matches_def m split_subjectFor split_PatternCard all using ne
    by (simp only: t if_False simp_thms) auto
qed

end
