(* ===== verification/Graph_Parallel.thy ===== *)
theory Graph_Parallel
  imports Agent_Board
begin

text \<open>
  Parallel waves of \<open>core/graph/parallel.go\<close>: the configuration, the two built-in merge strategies with
  the loops over a branch's delta, and the fork controller through which one branch cancels another.

  A Go map is walked in an unspecified order: \<open>ord\<close> gives, for the key set of a map, the list in which
  its keys are visited, and the results are stated for every \<open>ord\<close> that lists a key set without
  repetition. A board is used through its interface only, the locale \<open>merge_target\<close>, interpreted on
  \<open>Agent_Board\<close>. The controller's mutex makes each of its methods one atomic step of \<open>fork_step\<close>.
\<close>

subsection \<open>Configuration\<close>

datatype MergeStrategy = NoStrategy | FirstWriteWins | LastWriteWins | UnknownStrategy string

record BranchResult =
  bNodeID :: string
  bDelta :: "BoardDelta option"
  bSnapshot :: "BoardSnapshot option"
  bErr :: err
  bCancelled :: bool

type_synonym keyorder = "string fset \<Rightarrow> string list"
type_synonym MergeFunc = "BoardSnapshot \<Rightarrow> BranchResult list \<Rightarrow> Board \<Rightarrow> err \<times> Board"

record ParallelConfig =
  Enabled :: bool
  BranchTimeout :: int
  MaxConcurrency :: int
  MaxBranches :: int
  pcStrategy :: MergeStrategy
  pcMerge :: "MergeFunc option"

definition ParallelConfig_validate :: "ParallelConfig \<Rightarrow> err" where
  "ParallelConfig_validate c =
     (if \<not> Enabled c then None
      else if BranchTimeout c < 0 then Some (errf Validation ''graph: parallel branch timeout must be >= 0'')
      else if MaxConcurrency c < 0 then Some (errf Validation ''graph: parallel max concurrency must be >= 0'')
      else if MaxBranches c < 0 then Some (errf Validation ''graph: parallel max branches must be >= 0'')
      else if pcMerge c = None then
        (case pcStrategy c of
           UnknownStrategy _ \<Rightarrow> Some (errf Validation ''graph: unknown merge strategy'')
         | _ \<Rightarrow> None)
      else None)"

definition parallelLimit :: "int \<Rightarrow> nat \<Rightarrow> int" where
  "parallelLimit maxConcurrency waveSize =
     (if maxConcurrency > 0 \<and> maxConcurrency < int waveSize then maxConcurrency else int waveSize)"

subsection \<open>Merging\<close>

text \<open>One iteration of the loop of \<open>mergeBranchVars\<close> and the loop; the second component is the set
  \<open>claimed\<close>.\<close>

definition merge_key :: "BoardSnapshot \<Rightarrow> BoardDelta \<Rightarrow> string \<Rightarrow> Board \<times> string list \<Rightarrow> Board \<times> string list" where
  "merge_key preFork d key s =
     (case s of (board, claimed) \<Rightarrow>
        (case fmlookup (dvars d) key of
           None \<Rightarrow> (board, claimed)
         | Some v \<Rightarrow>
             if List.member claimed key then (board, claimed)
             else if fmlookup (sVars preFork) key = Some v then (board, claimed)
             else (SetVar key v board, key # claimed)))"

definition mergeBranchVars ::
  "keyorder \<Rightarrow> BoardSnapshot \<Rightarrow> BranchResult \<Rightarrow> Board \<times> string list \<Rightarrow> Board \<times> string list" where
  "mergeBranchVars ord preFork res s =
     (if bErr res \<noteq> None then s
      else case bDelta res of
        None \<Rightarrow> s
      | Some d \<Rightarrow> fold (merge_key preFork d) (ord (fmdom (dvars d))) s)"

definition append_all :: "(Message \<Rightarrow> bool) \<Rightarrow> BoardDelta \<Rightarrow> string \<Rightarrow> Board \<Rightarrow> Board" where
  "append_all includeMessage d ch board =
     fold (\<lambda>msg b. if includeMessage msg then AppendChannelMessage ch msg b else b)
       (elems (fmchan (appends d) ch)) board"

definition mergeChannelMessages ::
  "keyorder \<Rightarrow> (BranchResult \<Rightarrow> bool) \<Rightarrow> (Message \<Rightarrow> bool) \<Rightarrow> BranchResult list \<Rightarrow> Board \<Rightarrow> Board" where
  "mergeChannelMessages ord includeResult includeMessage results board =
     fold (\<lambda>res b.
        if \<not> includeResult res then b
        else case bDelta res of
          None \<Rightarrow> b
        | Some d \<Rightarrow> fold (append_all includeMessage d) (ord (fmdom (appends d))) b)
       results board"

definition mergeAppendedMessages :: "keyorder \<Rightarrow> BranchResult list \<Rightarrow> Board \<Rightarrow> Board" where
  "mergeAppendedMessages ord results board =
     mergeChannelMessages ord (\<lambda>res. bErr res = None) (\<lambda>_. True) results board"

definition mergeInterruptedAssistantMessages :: "keyorder \<Rightarrow> BranchResult list \<Rightarrow> Board \<Rightarrow> Board" where
  "mergeInterruptedAssistantMessages ord results board =
     mergeChannelMessages ord (\<lambda>res. Is Interrupted (bErr res)) (\<lambda>m. mrole m = RoleAssistant) results board"

definition firstWriteWinsMerge :: "keyorder \<Rightarrow> MergeFunc" where
  "firstWriteWinsMerge ord preFork results board =
     (None, mergeAppendedMessages ord results
              (fst (fold (mergeBranchVars ord preFork) results (board, []))))"

definition lastWriteWinsMerge :: "keyorder \<Rightarrow> MergeFunc" where
  "lastWriteWinsMerge ord preFork results board =
     (None, mergeAppendedMessages ord results
              (fst (fold (mergeBranchVars ord preFork) (rev results) (board, []))))"

definition mergeFunc :: "keyorder \<Rightarrow> ParallelConfig \<Rightarrow> MergeFunc" where
  "mergeFunc ord c =
     (case pcMerge c of
        Some m \<Rightarrow> m
      | None \<Rightarrow> if pcStrategy c = LastWriteWins then lastWriteWinsMerge ord else firstWriteWinsMerge ord)"

definition cancelledBranches :: "BranchResult list \<Rightarrow> string list" where
  "cancelledBranches results = map bNodeID (filter bCancelled results)"

subsection \<open>The fork controller\<close>

text \<open>\<open>cancels\<close> records the branch contexts that were cancelled, with the cause.\<close>

record forkController =
  members :: "string fset"
  running :: "string fset"
  marks :: "(string, string) fmap"
  finished :: "string fset"
  cancels :: "(string \<times> string) list"

definition newForkController :: "string list \<Rightarrow> forkController" where
  "newForkController ms = \<lparr>members = fset_of_list ms, running = {||}, marks = fmempty,
     finished = {||}, cancels = []\<rparr>"

definition cancelFrom :: "string \<Rightarrow> string \<Rightarrow> string \<Rightarrow> forkController \<Rightarrow> bool \<times> forkController" where
  "cancelFrom callerID nodeID reason0 c =
     (let reason = (if reason0 = [] then ''cancelled by parallel.cancelNode'' else reason0) in
      if nodeID |\<notin>| members c then (False, c)
      else if nodeID |\<in>| finished c then (False, c)
      else if callerID |\<in>| finished c then (False, c)
      else if fmlookup (marks c) callerID \<noteq> None then (False, c)
      else
        (let c1 = (if fmlookup (marks c) nodeID = None
                   then c\<lparr>marks := fmupd nodeID reason (marks c)\<rparr> else c);
             c2 = (if nodeID |\<in>| running c1
                   then c1\<lparr>cancels := cancels c1 @ [(nodeID, the (fmlookup (marks c1) nodeID))]\<rparr> else c1)
         in (True, c2)))"

definition fork_start :: "string \<Rightarrow> forkController \<Rightarrow> string option \<times> forkController" where
  "fork_start nodeID c =
     (case fmlookup (marks c) nodeID of
        Some reason \<Rightarrow> (Some reason, c)
      | None \<Rightarrow> (None, c\<lparr>running := finsert nodeID (running c)\<rparr>))"

definition fork_finish :: "string \<Rightarrow> forkController \<Rightarrow> forkController" where
  "fork_finish nodeID c = c\<lparr>running := running c |-| {|nodeID|}, finished := finsert nodeID (finished c)\<rparr>"

definition cancelledReason :: "string \<Rightarrow> forkController \<Rightarrow> string option" where
  "cancelledReason nodeID c = fmlookup (marks c) nodeID"

text \<open>Each branch goroutine starts once and finishes once; \<open>selfc\<close> says whether a branch may cancel
  itself.\<close>

inductive fork_step :: "bool \<Rightarrow> string list \<Rightarrow> forkController \<Rightarrow> forkController \<Rightarrow> bool"
  for selfc :: bool and wave :: "string list" where
  do_start: "i \<in> set wave \<Longrightarrow> i |\<notin>| running c \<Longrightarrow> i |\<notin>| finished c \<Longrightarrow> fork_start i c = (r, c') \<Longrightarrow>
    fork_step selfc wave c c'"
| do_finish: "i |\<in>| running c \<Longrightarrow> fork_step selfc wave c (fork_finish i c)"
| do_cancel: "i \<in> set wave \<Longrightarrow> i \<noteq> j \<or> selfc \<Longrightarrow> cancelFrom i j reason c = (ok, c') \<Longrightarrow>
    fork_step selfc wave c c'"

definition fork_init :: "string list \<Rightarrow> forkController \<Rightarrow> bool" where
  "fork_init wave c \<longleftrightarrow> c = newForkController wave"

definition causes_ok :: "forkController \<Rightarrow> bool" where
  "causes_ok c \<longleftrightarrow> (\<forall>x \<in> set (cancels c). fmlookup (marks c) (fst x) = Some (snd x))"

definition fork_inv :: "string list \<Rightarrow> forkController \<Rightarrow> bool" where
  "fork_inv wave c \<longleftrightarrow>
     members c = fset_of_list wave \<and>
     (\<forall>i r. fmlookup (marks c) i = Some r \<longrightarrow> i \<in> set wave \<and> (i |\<in>| running c \<longrightarrow> (i, r) \<in> set (cancels c))) \<and>
     (\<forall>i. i |\<in>| running c \<longrightarrow> i \<in> set wave \<and> i |\<notin>| finished c) \<and>
     causes_ok c"

definition survivor :: "string list \<Rightarrow> forkController \<Rightarrow> bool" where
  "survivor wave c \<longleftrightarrow> (\<exists>i \<in> set wave. fmlookup (marks c) i = None)"

subsection \<open>Lemmas on the controller\<close>

lemma causes_ok_frame [simp]:
  "causes_ok (c\<lparr>running := r\<rparr>) = causes_ok c" "causes_ok (c\<lparr>finished := f\<rparr>) = causes_ok c"
  by (simp_all add: causes_ok_def)

lemma causes_ok_mark: "causes_ok c \<Longrightarrow> fmlookup (marks c) j = None \<Longrightarrow> causes_ok (c\<lparr>marks := fmupd j r (marks c)\<rparr>)"
  by (force simp: causes_ok_def)

lemma causes_ok_cancel:
  "causes_ok c \<Longrightarrow> fmlookup (marks c) j = Some r \<Longrightarrow> causes_ok (c\<lparr>cancels := cancels c @ [(j, r)]\<rparr>)"
  by (simp add: causes_ok_def)

text \<open>\<open>cancelFrom\<close> in two parts: who may cancel whom, and what a granted cancellation writes.\<close>

definition refuses :: "string \<Rightarrow> string \<Rightarrow> forkController \<Rightarrow> bool" where
  "refuses i j c \<longleftrightarrow> j |\<notin>| members c \<or> j |\<in>| finished c \<or> i |\<in>| finished c \<or> fmlookup (marks c) i \<noteq> None"

definition mark_branch :: "string \<Rightarrow> string \<Rightarrow> forkController \<Rightarrow> forkController" where
  "mark_branch j r c = (if fmlookup (marks c) j = None then c\<lparr>marks := fmupd j r (marks c)\<rparr> else c)"

definition stop_branch :: "string \<Rightarrow> forkController \<Rightarrow> forkController" where
  "stop_branch j c = (if j |\<in>| running c
     then c\<lparr>cancels := cancels c @ [(j, the (fmlookup (marks c) j))]\<rparr> else c)"

lemma cancelFrom_parts:
  "cancelFrom i j reason c =
    (if refuses i j c then (False, c)
     else (True, stop_branch j (mark_branch j
       (if reason = [] then ''cancelled by parallel.cancelNode'' else reason) c)))"
  by (simp add: cancelFrom_def refuses_def mark_branch_def stop_branch_def Let_def)

lemma mark_branch_marks:
  "fmlookup (marks (mark_branch j r c)) i =
    (if i = j \<and> fmlookup (marks c) j = None then Some r else fmlookup (marks c) i)"
  "running (mark_branch j r c) = running c" "finished (mark_branch j r c) = finished c"
  "members (mark_branch j r c) = members c" "cancels (mark_branch j r c) = cancels c"
  by (simp_all add: mark_branch_def)

lemma stop_branch_frame [simp]:
  "marks (stop_branch j c) = marks c" "running (stop_branch j c) = running c"
  "finished (stop_branch j c) = finished c" "members (stop_branch j c) = members c"
  "cancels (stop_branch j c) = cancels c @ (if j |\<in>| running c then [(j, the (fmlookup (marks c) j))] else [])"
  by (simp_all add: stop_branch_def)

lemma fork_inv_start:
  assumes "fork_inv wave c" "i \<in> set wave" "i |\<notin>| finished c" "fork_start i c = (r, c')"
  shows "fork_inv wave c'"
  using assms by (auto simp: fork_start_def fork_inv_def split: option.splits)

lemma fork_inv_finish: "fork_inv wave c \<Longrightarrow> fork_inv wave (fork_finish i c)"
  by (auto simp: fork_finish_def fork_inv_def causes_ok_def)

lemma fork_inv_cancel:
  assumes I: "fork_inv wave c" and c: "cancelFrom i j reason c = (ok, c')"
  shows "fork_inv wave c'"
proof (cases "refuses i j c")
  case True
  then show ?thesis using I c by (simp add: cancelFrom_parts)
next
  case False
  then obtain r where c': "c' = stop_branch j (mark_branch j r c)"
    using c by (auto simp: cancelFrom_parts)
  let ?m = "mark_branch j r c"
  have j: "j \<in> set wave" using False I by (simp add: refuses_def fork_inv_def fset_of_list_elem)
  have "causes_ok ?m"
    using I by (auto simp: fork_inv_def mark_branch_def intro: causes_ok_mark)
  moreover obtain rj where rj: "fmlookup (marks ?m) j = Some rj"
    by (cases "fmlookup (marks c) j") (auto simp: mark_branch_marks)
  ultimately have ok: "causes_ok c'"
    unfolding c' stop_branch_def by (auto intro: causes_ok_cancel)
  have "(k, rk) \<in> set (cancels c')" if "fmlookup (marks c') k = Some rk" "k |\<in>| running c'" for k rk
    using that I rj by (cases "k = j") (auto simp: c' mark_branch_marks fork_inv_def)
  moreover have "k \<in> set wave" if "fmlookup (marks c') k = Some rk" for k rk
    using that I j by (cases "k = j") (auto simp: c' mark_branch_marks fork_inv_def)
  ultimately show ?thesis
    using I ok by (auto simp: fork_inv_def c' mark_branch_marks)
qed

lemma survivor_cancel:
  assumes "survivor wave c" "i \<in> set wave" "i \<noteq> j" "cancelFrom i j reason c = (ok, c')"
  shows "survivor wave c'"
proof (cases "refuses i j c")
  case True
  then show ?thesis using assms by (simp add: cancelFrom_parts)
next
  case False
  then have "fmlookup (marks c') i = None"
    using assms(3,4) by (auto simp: cancelFrom_parts mark_branch_marks refuses_def)
  then show ?thesis using assms(2) by (auto simp: survivor_def)
qed

interpretation fork_sys: invariant_system "fork_init wave" "fork_step selfc wave" "fork_inv wave" for wave selfc
proof unfold_locales
  fix c c'
  assume i: "fork_inv wave c" and s: "fork_step selfc wave c c'"
  from s show "fork_inv wave c'"
    using i by cases (auto intro: fork_inv_start fork_inv_finish fork_inv_cancel)
qed (auto simp: fork_init_def newForkController_def fork_inv_def causes_ok_def)

interpretation survivor_sys: invariant_system "\<lambda>c. wave \<noteq> [] \<and> fork_init wave c" "fork_step False wave" "survivor wave"
  for wave
proof unfold_locales
  fix c
  assume "wave \<noteq> [] \<and> fork_init wave c"
  then show "survivor wave c" by (auto simp: survivor_def fork_init_def newForkController_def neq_Nil_conv)
next
  fix c c'
  assume i: "survivor wave c" and s: "fork_step False wave c c'"
  from s show "survivor wave c'"
  proof cases
    case (do_start i r)
    then show ?thesis using i by (auto simp: fork_start_def survivor_def split: option.splits)
  next
    case (do_finish i)
    then show ?thesis using i by (simp add: fork_finish_def survivor_def)
  next
    case (do_cancel i j reason ok)
    then show ?thesis using i by (auto intro: survivor_cancel)
  qed
qed

subsection \<open>Merging through the board interface\<close>

text \<open>What merging needs of a board: vars that can be set and channels that can be appended to.\<close>

locale merge_target =
  fixes set_var :: "string \<Rightarrow> val \<Rightarrow> 'b \<Rightarrow> 'b"
    and get_var :: "'b \<Rightarrow> string \<Rightarrow> val option"
    and add_msg :: "string \<Rightarrow> Message \<Rightarrow> 'b \<Rightarrow> 'b"
    and msgs :: "'b \<Rightarrow> string \<Rightarrow> Message list"
  assumes get_set: "get_var (set_var k v b) k' = (if k' = k then Some v else get_var b k')"
    and get_add: "get_var (add_msg c m b) k = get_var b k"
    and msgs_set: "msgs (set_var k v b) c = msgs b c"
    and msgs_add: "msgs (add_msg c m b) c' = (if c' = c then msgs b c @ [m] else msgs b c')"
begin

definition put :: "(string \<Rightarrow> val option) \<Rightarrow> string \<Rightarrow> 'b \<times> string list \<Rightarrow> 'b \<times> string list" where
  "put chg k s = (case chg k of
     None \<Rightarrow> s | Some v \<Rightarrow> if k \<in> set (snd s) then s else (set_var k v (fst s), k # snd s))"

lemma put_fields:
  "get_var (fst (put chg k s)) k' =
    (if k' = k \<and> k \<notin> set (snd s) \<and> chg k \<noteq> None then chg k else get_var (fst s) k')"
  "set (snd (put chg k s)) = set (snd s) \<union> {k'. k' = k \<and> chg k \<noteq> None}"
  "msgs (fst (put chg k s)) c = msgs (fst s) c"
  by (auto simp: put_def get_set msgs_set split: option.splits)

lemma fold_put:
  assumes "distinct ks"
  shows "get_var (fst (fold (put chg) ks s)) k' =
      (if k' \<in> set ks \<and> k' \<notin> set (snd s) \<and> chg k' \<noteq> None then chg k' else get_var (fst s) k') \<and>
    set (snd (fold (put chg) ks s)) = set (snd s) \<union> {k. k \<in> set ks \<and> chg k \<noteq> None} \<and>
    msgs (fst (fold (put chg) ks s)) c = msgs (fst s) c"
  using assms
proof (induction ks arbitrary: s)
  case Nil
  then show ?case by simp
next
  case (Cons k ks)
  have "get_var (fst (fold (put chg) ks (put chg k s))) k' =
      (if k' \<in> set ks \<and> k' \<notin> set (snd (put chg k s)) \<and> chg k' \<noteq> None then chg k' else get_var (fst (put chg k s)) k')"
    "set (snd (fold (put chg) ks (put chg k s))) = set (snd (put chg k s)) \<union> {k. k \<in> set ks \<and> chg k \<noteq> None}"
    "msgs (fst (fold (put chg) ks (put chg k s))) c = msgs (fst (put chg k s)) c"
    using Cons by simp_all
  then show ?case using Cons.prems by (auto simp: put_fields)
qed

text \<open>A list of branches, each with its changes and its key order.\<close>

lemma fold_branches:
  assumes "\<And>chg ks. (chg, ks) \<in> set bs \<Longrightarrow> distinct ks \<and> {k. chg k \<noteq> None} \<subseteq> set ks"
  shows "get_var (fst (fold (\<lambda>(chg, ks). fold (put chg) ks) bs s)) k =
      (if k \<in> set (snd s) then get_var (fst s) k
       else case first_some (map (\<lambda>(chg, ks). chg k) bs) of Some v \<Rightarrow> Some v | None \<Rightarrow> get_var (fst s) k) \<and>
    msgs (fst (fold (\<lambda>(chg, ks). fold (put chg) ks) bs s)) c = msgs (fst s) c"
  using assms
proof (induction bs arbitrary: s)
  case Nil
  then show ?case by simp
next
  case (Cons b bs)
  obtain chg ks where b: "b = (chg, ks)" by force
  have d: "distinct ks" "{k. chg k \<noteq> None} \<subseteq> set ks" using Cons.prems [of chg ks] b by auto
  note f = fold_put [OF d(1), of chg s k c]
  have IH: "get_var (fst (fold (\<lambda>(chg, ks). fold (put chg) ks) bs s')) k =
      (if k \<in> set (snd s') then get_var (fst s') k
       else case first_some (map (\<lambda>(chg, ks). chg k) bs) of Some v \<Rightarrow> Some v | None \<Rightarrow> get_var (fst s') k) \<and>
    msgs (fst (fold (\<lambda>(chg, ks). fold (put chg) ks) bs s')) c = msgs (fst s') c" for s'
    by (rule Cons.IH) (use Cons.prems in auto)
  show ?case
    using f d(2) IH [of "fold (put chg) ks s"] 
    by (cases "chg k"; cases "first_some (map (\<lambda>(chg, ks). chg k) bs)") (auto simp: b simp del: first_some_None)
qed

lemma fold_add:
  "get_var (fold (add_msg c) ms b) k = get_var b k \<and>
   msgs (fold (add_msg c) ms b) c' = msgs b c' @ (if c' = c then ms else [])"
  by (induction ms arbitrary: b) (auto simp: get_add msgs_add)

lemma fold_channels:
  assumes "distinct cs"
  shows "get_var (fold (\<lambda>c. fold (add_msg c) (f c)) cs b) k = get_var b k \<and>
    msgs (fold (\<lambda>c. fold (add_msg c) (f c)) cs b) c' = msgs b c' @ (if c' \<in> set cs then f c' else [])"
  using assms by (induction cs arbitrary: b) (auto simp: fold_add)

lemma fold_contributions:
  assumes "\<And>f cs. (f, cs) \<in> set bs \<Longrightarrow> distinct cs"
  shows "get_var (fold (\<lambda>(f, cs). fold (\<lambda>c. fold (add_msg c) (f c)) cs) bs b) k = get_var b k \<and>
    msgs (fold (\<lambda>(f, cs). fold (\<lambda>c. fold (add_msg c) (f c)) cs) bs b) c =
      msgs b c @ concat (map (\<lambda>(f, cs). if c \<in> set cs then f c else []) bs)"
  using assms
proof (induction bs arbitrary: b)
  case Nil
  then show ?case by simp
next
  case (Cons x bs)
  obtain f cs where x: "x = (f, cs)" by force
  have "distinct cs" using Cons.prems [of f cs] x by simp
  moreover have "\<And>f cs. (f, cs) \<in> set bs \<Longrightarrow> distinct cs" using Cons.prems by auto
  ultimately show ?case using Cons.IH [of "fold (\<lambda>c. fold (add_msg c) (f c)) cs b"] fold_channels [of cs f b k]
      fold_channels [of cs f b _ c] by (auto simp: x)
qed

end

interpretation board_target: merge_target SetVar Var AppendChannelMessage "\<lambda>b c. elems (chan b c)"
  by unfold_locales
    (auto simp: SetVar_def Var_def noteVarWriteLocked_def AppendChannelMessage_def AppendChannelMessages_def chan_def)

subsection \<open>What a merge computes\<close>

text \<open>The var changes and the channel additions one branch contributes; a failed branch and one without
  a delta contribute nothing.\<close>

definition contributes :: "BranchResult \<Rightarrow> BoardDelta option" where
  "contributes res = (if bErr res \<noteq> None then None else bDelta res)"

definition var_change :: "BoardSnapshot \<Rightarrow> BranchResult \<Rightarrow> string \<Rightarrow> val option" where
  "var_change preFork res k =
     (case contributes res of
        None \<Rightarrow> None
      | Some d \<Rightarrow> (case fmlookup (dvars d) k of
                    None \<Rightarrow> None
                  | Some v \<Rightarrow> if fmlookup (sVars preFork) k = Some v then None else Some v))"

definition chan_added :: "BranchResult \<Rightarrow> string \<Rightarrow> Message list" where
  "chan_added res c = (case contributes res of None \<Rightarrow> [] | Some d \<Rightarrow> elems (fmchan (appends d) c))"

definition key_order :: "keyorder \<Rightarrow> bool" where
  "key_order ord \<longleftrightarrow> (\<forall>K. set (ord K) = fset K \<and> distinct (ord K))"

lemma sorted_key_order: "key_order sorted_keys"
  by (simp add: key_order_def sorted_keys_def sorted_list_of_fset.rep_eq)

definition var_branch :: "keyorder \<Rightarrow> BoardSnapshot \<Rightarrow> BranchResult \<Rightarrow> (string \<Rightarrow> val option) \<times> string list" where
  "var_branch ord preFork res = (var_change preFork res,
     case contributes res of None \<Rightarrow> [] | Some d \<Rightarrow> ord (fmdom (dvars d)))"

lemma mergeBranchVars_eq:
  "mergeBranchVars ord preFork res = (\<lambda>(chg, ks). fold (board_target.put chg) ks) (var_branch ord preFork res)"
proof -
  have "merge_key preFork d = board_target.put (var_change preFork res)" if "contributes res = Some d" for d
    using that
    by (intro ext) (auto simp: merge_key_def board_target.put_def var_change_def
        split: option.splits prod.splits)
  then show ?thesis
    by (intro ext) (auto simp: mergeBranchVars_def var_branch_def contributes_def split: option.splits)
qed

lemma fold_mergeBranchVars:
  "fold (mergeBranchVars ord preFork) results s =
    fold (\<lambda>(chg, ks). fold (board_target.put chg) ks) (map (var_branch ord preFork) results) s"
  by (induction results arbitrary: s) (simp_all add: mergeBranchVars_eq)

lemma var_branch_ok:
  assumes "key_order ord" "(chg, ks) \<in> set (map (var_branch ord preFork) results)"
  shows "distinct ks \<and> {k. chg k \<noteq> None} \<subseteq> set ks"
  using assms by (auto simp: var_branch_def key_order_def var_change_def fmdomI split: option.splits if_splits)

lemma fold_vars_spec:
  assumes "key_order ord"
  shows "Var (fst (fold (mergeBranchVars ord preFork) results (b, []))) k =
      (case first_some (map (\<lambda>res. var_change preFork res k) results) of Some v \<Rightarrow> Some v | None \<Rightarrow> Var b k) \<and>
    elems (chan (fst (fold (mergeBranchVars ord preFork) results (b, []))) c) = elems (chan b c)"
proof -
  let ?bs = "map (var_branch ord preFork) results"
  have m: "map (\<lambda>(chg, ks). chg k) ?bs = map (\<lambda>res. var_change preFork res k) results"
    by (simp add: var_branch_def)
  have "distinct ks \<and> {k. chg k \<noteq> None} \<subseteq> set ks" if "(chg, ks) \<in> set ?bs" for chg ks
    by (rule var_branch_ok [OF assms that])
  note B = board_target.fold_branches [where bs = ?bs and s = "(b, [])" and k = k and c = c, OF this]
  show ?thesis
    using B [unfolded m fst_conv snd_conv] unfolding fold_mergeBranchVars by simp
qed

lemma fold_append_all:
  "append_all p d = (\<lambda>ch. fold (AppendChannelMessage ch) (filter p (elems (fmchan (appends d) ch))))"
proof -
  have "fold (\<lambda>msg b. if p msg then AppendChannelMessage ch msg b else b) ms b =
      fold (AppendChannelMessage ch) (filter p ms) b" for ch ms b
    by (induction ms arbitrary: b) simp_all
  then show ?thesis by (simp add: append_all_def fun_eq_iff)
qed

definition chan_branch ::
  "keyorder \<Rightarrow> (BranchResult \<Rightarrow> bool) \<Rightarrow> (Message \<Rightarrow> bool) \<Rightarrow> BranchResult \<Rightarrow> (string \<Rightarrow> Message list) \<times> string list" where
  "chan_branch ord inc p res =
     (case (if inc res then bDelta res else None) of
        None \<Rightarrow> (\<lambda>_. [], [])
      | Some d \<Rightarrow> (\<lambda>c. filter p (elems (fmchan (appends d) c)), ord (fmdom (appends d))))"

lemma mergeChannelMessages_eq:
  "mergeChannelMessages ord inc p results b =
    fold (\<lambda>(f, cs). fold (\<lambda>c. fold (AppendChannelMessage c) (f c)) cs) (map (chan_branch ord inc p) results) b"
  unfolding mergeChannelMessages_def
  by (induction results arbitrary: b)
    (auto simp: chan_branch_def fold_append_all split: option.splits)

lemma merge_channels_spec:
  assumes "key_order ord"
  shows "Var (mergeChannelMessages ord inc p results b) k = Var b k"
    "elems (chan (mergeChannelMessages ord inc p results b) c) = elems (chan b c) @
      concat (map (\<lambda>res. if inc res then (case bDelta res of None \<Rightarrow> []
        | Some d \<Rightarrow> filter p (elems (fmchan (appends d) c))) else []) results)"
proof -
  have d: "distinct cs" if "(f, cs) \<in> set (map (chan_branch ord inc p) results)" for f cs
    using that assms by (auto simp: chan_branch_def key_order_def split: option.splits)
  have e: "(case chan_branch ord inc p res of (f, cs) \<Rightarrow> if c \<in> set cs then f c else []) =
      (if inc res then (case bDelta res of None \<Rightarrow> [] | Some d \<Rightarrow> filter p (elems (fmchan (appends d) c))) else [])" for res
    using assms by (auto simp: chan_branch_def key_order_def fmchan_def fmlookup_dom_iff split: option.splits)
  show "Var (mergeChannelMessages ord inc p results b) k = Var b k"
    "elems (chan (mergeChannelMessages ord inc p results b) c) = elems (chan b c) @
      concat (map (\<lambda>res. if inc res then (case bDelta res of None \<Rightarrow> []
        | Some d \<Rightarrow> filter p (elems (fmchan (appends d) c))) else []) results)"
    using board_target.fold_contributions [where bs = "map (chan_branch ord inc p) results" and b = b and k = k and c = c,
        OF d]
    by (simp_all add: mergeChannelMessages_eq e comp_def)
qed

subsection \<open>Properties\<close>

text \<open>C33. The merge of a parallel wave is deterministic: in whatever order the maps are walked, a var ends
  with the value of the first (last-write-wins: the last) branch in wave order that changed it relative
  to the pre-fork state, and keeps its value when no branch did; every channel ends with the branches'
  additions appended in wave order. Failed branches contribute nothing.\<close>

theorem merge_deterministic:
  assumes "key_order ord"
  shows "let b1 = snd (firstWriteWinsMerge ord preFork results b);
             b2 = snd (lastWriteWinsMerge ord preFork results b);
             changes = map (\<lambda>res. var_change preFork res k) results
    in Var b1 k = (case first_some changes of Some v \<Rightarrow> Some v | None \<Rightarrow> Var b k) \<and>
       Var b2 k = (case first_some (rev changes) of Some v \<Rightarrow> Some v | None \<Rightarrow> Var b k) \<and>
       elems (chan b1 c) = elems (chan b c) @ concat (map (\<lambda>res. chan_added res c) results) \<and>
       elems (chan b2 c) = elems (chan b c) @ concat (map (\<lambda>res. chan_added res c) results)"
proof -
  have added: "(\<lambda>res. chan_added res c) = (\<lambda>res. if bErr res = None then (case bDelta res of None \<Rightarrow> []
      | Some d \<Rightarrow> filter (\<lambda>_. True) (elems (fmchan (appends d) c))) else [])"
    by (auto simp: chan_added_def contributes_def fun_eq_iff split: option.splits)
  show ?thesis
    unfolding Let_def firstWriteWinsMerge_def lastWriteWinsMerge_def mergeAppendedMessages_def snd_conv
      merge_channels_spec [OF assms] added rev_map
    using fold_vars_spec [OF assms, of preFork results b k c]
      fold_vars_spec [OF assms, of preFork "rev results" b k c] by simp
qed

theorem merge_deterministic_witness:
  "key_order sorted_keys \<and>
   Var (snd (firstWriteWinsMerge sorted_keys (Snapshot NewBoard)
     [\<lparr>bNodeID = ''a'', bDelta = Some \<lparr>dvars = fmupd ''x'' (VInt 1) fmempty, removed = [], appends = fmempty,
         replaced = fmempty\<rparr>, bSnapshot = None, bErr = None, bCancelled = False\<rparr>,
      \<lparr>bNodeID = ''b'', bDelta = Some \<lparr>dvars = fmupd ''x'' (VInt 2) fmempty, removed = [], appends = fmempty,
         replaced = fmempty\<rparr>, bSnapshot = None, bErr = None, bCancelled = False\<rparr>] NewBoard)) ''x'' = Some (VInt 1)"
  using sorted_key_order
    merge_deterministic [OF sorted_key_order, of "Snapshot NewBoard"
     "[\<lparr>bNodeID = ''a'', bDelta = Some \<lparr>dvars = fmupd ''x'' (VInt 1) fmempty, removed = [], appends = fmempty,
         replaced = fmempty\<rparr>, bSnapshot = None, bErr = None, bCancelled = False\<rparr>,
      \<lparr>bNodeID = ''b'', bDelta = Some \<lparr>dvars = fmupd ''x'' (VInt 2) fmempty, removed = [], appends = fmempty,
         replaced = fmempty\<rparr>, bSnapshot = None, bErr = None, bCancelled = False\<rparr>]" NewBoard "''x''"]
  by (simp add: Let_def var_change_def contributes_def Snapshot_def NewBoard_def)

text \<open>Branch cancellation is contained: in every reachable state of a wave's controller, a cancelled
  branch that is still running has had its context cancelled with the recorded reason and with no
  other, and a cancelled or finished branch can cancel nobody.\<close>

theorem cancellation_contained:
  assumes "reach (fork_init wave) (fork_step selfc wave) c"
  shows "(cancelledReason i c = Some r \<and> i |\<in>| running c \<longrightarrow>
      (i, r) \<in> set (cancels c) \<and> (\<forall>r'. (i, r') \<in> set (cancels c) \<longrightarrow> r' = r)) \<and>
    (cancelledReason i c \<noteq> None \<or> i |\<in>| finished c \<longrightarrow> cancelFrom i j reason c = (False, c))"
proof -
  have I: "fork_inv wave c" by (rule fork_sys.reach_invar [OF assms])
  have "r' = r" if "fmlookup (marks c) i = Some r" "(i, r') \<in> set (cancels c)" for r'
    using I that by (fastforce simp: fork_inv_def causes_ok_def)
  then show ?thesis
    using I by (auto simp: cancelledReason_def fork_inv_def cancelFrom_parts refuses_def)
qed

theorem cancellation_contained_witness:
  "let c = snd (cancelFrom ''a'' ''b'' ''enough'' (snd (fork_start ''b'' (newForkController [''a'', ''b''])))) in
    (''b'', ''enough'') \<in> set (cancels c) \<and> cancelFrom ''b'' ''a'' [] c = (False, c)"
proof -
  let ?n = "newForkController [''a'', ''b'']"
  let ?m = "snd (fork_start ''b'' ?n)"
  let ?c = "snd (cancelFrom ''a'' ''b'' ''enough'' ?m)"
  have "fork_step False [''a'', ''b''] ?n ?m"
    by (rule do_start [where i = "''b''" and c = ?n and r = "fst (fork_start ''b'' ?n)"])
      (simp_all add: newForkController_def)
  moreover have "fork_step False [''a'', ''b''] ?m ?c"
    by (rule do_cancel [where i = "''a''" and j = "''b''" and reason = "''enough''" and c = ?m and
        ok = "fst (cancelFrom ''a'' ''b'' ''enough'' ?m)"]) simp_all
  ultimately have r: "reach (fork_init [''a'', ''b'']) (fork_step False [''a'', ''b'']) ?c"
    by (meson fork_init_def reach.intros)
  have "cancelledReason ''b'' ?c = Some ''enough''" "''b'' |\<in>| running ?c"
    by (simp_all add: cancelledReason_def cancelFrom_def fork_start_def newForkController_def Let_def)
  then show ?thesis
    using cancellation_contained [OF r, of "''b''" "''enough''" "''a''" "[]"] by (simp add: Let_def)
qed

text \<open>Branches cannot cancel one another to extinction: as long as no branch cancels itself, at every
  moment some branch of the wave is not cancelled.\<close>

theorem wave_keeps_a_survivor:
  assumes "reach (fork_init wave) (fork_step False wave) c" "wave \<noteq> []"
  shows "\<exists>i \<in> set wave. cancelledReason i c = None"
proof -
  have "reach (\<lambda>c. wave \<noteq> [] \<and> fork_init wave c) (fork_step False wave) c"
    using assms by (induction rule: reach.induct) (auto intro: reach.intros)
  then have "survivor wave c" by (rule survivor_sys.reach_invar)
  then show ?thesis by (simp add: survivor_def cancelledReason_def)
qed

theorem wave_keeps_a_survivor_witness:
  "\<exists>i \<in> set [''a'', ''b'']. cancelledReason i (newForkController [''a'', ''b'']) = None"
  by (rule wave_keeps_a_survivor [OF reach_init]) (simp_all add: fork_init_def)

end
