(* ===== verification/Agent_Checkpoint.thy ===== *)
theory Agent_Checkpoint
  imports Agent_Board
begin

text \<open>
  Durable run state: the record of \<open>core/agent/checkpoint.go\<close>, its incremental continuation and the
  boundary envelope of \<open>checkpoint_journal.go\<close>, the writer of \<open>checkpoint_writer.go\<close> that chooses
  between a base record and a delta, the capability record of \<open>checkpoint_target.go\<close>, and the
  SQLite store of \<open>backends/checkpoint/sqlite/checkpoint.go\<close> that replays a chain on \<open>Load\<close>.

  A writer acts on a store state \<open>'s\<close> through the functions it was built with. A \<open>data\<close> column holds
  the JSON text of a record and is modelled by the record that decoding it gives: \<open>omitempty\<close> turns
  an empty step list into the nil slice (\<open>wire\<close>), everything else is kept, board vars being JSON
  values. Every database call may fail: the state carries the errors the driver will report, one per
  call, and a failing call leaves the tables as they were (statements and transactions are atomic).
  Payload validity (\<open>json.Valid\<close>) is the parameter \<open>jv\<close>. Times are integers, the zero time is 0.
\<close>

subsection \<open>Records\<close>

record Checkpoint =
  cpExecID :: string
  cpSteps :: "string slice"
  cpIteration :: int
  cpBoard :: "BoardSnapshot option"
  cpPayload :: string
  cpAttributes :: "(string, string) fmap"
  cpTimestamp :: int
  cpOriginalStartedAt :: int
  cpSpecVersion :: string

definition Checkpoint_Validate :: "(string \<Rightarrow> bool) \<Rightarrow> Checkpoint \<Rightarrow> err" where
  "Checkpoint_Validate jv cp =
     (if cpExecID cp = [] then mark_as Validation (Some (Plain ''agent checkpoint: exec_id is required''))
      else if cpBoard cp = None then mark_as Validation (Some (Plain ''agent checkpoint: board is required''))
      else if cpPayload cp \<noteq> [] \<and> \<not> jv (cpPayload cp) then
        mark_as Validation (Some (Plain ''agent checkpoint: payload is not valid JSON''))
      else None)"

record CheckpointDelta =
  cdExecID :: string
  cdSteps :: "string slice"
  cdIteration :: int
  cdBoard :: "BoardDelta option"
  cdPayload :: string
  cdAttributes :: "(string, string) fmap"
  cdTimestamp :: int
  cdOriginalStartedAt :: int
  cdSpecVersion :: string

definition CheckpointDelta_Validate :: "(string \<Rightarrow> bool) \<Rightarrow> CheckpointDelta \<Rightarrow> err" where
  "CheckpointDelta_Validate jv d =
     (if cdExecID d = [] then
        mark_as Validation (Some (Plain ''agent checkpoint delta: exec_id is required''))
      else if cdBoard d = None then
        mark_as Validation (Some (Plain ''agent checkpoint delta: board delta is required''))
      else if cdPayload d \<noteq> [] \<and> \<not> jv (cdPayload d) then
        mark_as Validation (Some (Plain ''agent checkpoint delta: payload is not valid JSON''))
      else None)"

definition CheckpointDelta_ApplyTo :: "CheckpointDelta \<Rightarrow> Checkpoint \<Rightarrow> Checkpoint" where
  "CheckpointDelta_ApplyTo d cp =
     (let snap = (case cpBoard cp of None \<Rightarrow> \<lparr>sVars = fmempty, sChannels = fmempty\<rparr> | Some s \<Rightarrow> s)
      in cp\<lparr>cpBoard := Some (case cdBoard d of None \<Rightarrow> snap | Some bd \<Rightarrow> ApplyToSnapshot bd snap),
            cpSteps := (if cdSteps d \<noteq> Nil_slice then cdSteps d else cpSteps cp),
            cpIteration := (if cdIteration d \<noteq> 0 then cdIteration d else cpIteration cp),
            cpPayload := (if cdPayload d \<noteq> [] then cdPayload d else cpPayload cp),
            cpAttributes := (if cdAttributes d \<noteq> fmempty then cdAttributes d else cpAttributes cp),
            cpTimestamp := (if cdTimestamp d \<noteq> 0 then cdTimestamp d else cpTimestamp cp),
            cpOriginalStartedAt :=
              (if cdOriginalStartedAt d \<noteq> 0 then cdOriginalStartedAt d else cpOriginalStartedAt cp),
            cpSpecVersion := (if cdSpecVersion d \<noteq> [] then cdSpecVersion d else cpSpecVersion cp)\<rparr>)"

record CheckpointMeta =
  mtSteps :: "string slice"
  mtIteration :: int
  mtPayload :: string
  mtAttributes :: "(string, string) fmap"
  mtTimestamp :: int
  mtOriginalStartedAt :: int
  mtSpecVersion :: string

definition meta_record :: "CheckpointMeta \<Rightarrow> string \<Rightarrow> BoardSnapshot option \<Rightarrow> Checkpoint" where
  "meta_record m execID board =
     \<lparr>cpExecID = execID, cpSteps = mtSteps m, cpIteration = mtIteration m, cpBoard = board,
      cpPayload = mtPayload m, cpAttributes = mtAttributes m, cpTimestamp = mtTimestamp m,
      cpOriginalStartedAt = mtOriginalStartedAt m, cpSpecVersion = mtSpecVersion m\<rparr>"

definition Meta_Checkpoint :: "CheckpointMeta \<Rightarrow> string \<Rightarrow> Board \<Rightarrow> Checkpoint" where
  "Meta_Checkpoint m execID board = meta_record m execID (Some (Snapshot board))"

definition Meta_Delta :: "CheckpointMeta \<Rightarrow> string \<Rightarrow> BoardDelta \<Rightarrow> CheckpointDelta" where
  "Meta_Delta m execID writes =
     \<lparr>cdExecID = execID, cdSteps = mtSteps m, cdIteration = mtIteration m, cdBoard = Some writes,
      cdPayload = mtPayload m, cdAttributes = mtAttributes m, cdTimestamp = mtTimestamp m,
      cdOriginalStartedAt = mtOriginalStartedAt m, cdSpecVersion = mtSpecVersion m\<rparr>"

definition ErrNeedsBase :: go_error where
  "ErrNeedsBase = Plain ''agent: checkpoint journal requires a base record''"

subsection \<open>The writer\<close>

record 's CheckpointCapabilities =
  capEnabled :: bool
  capJournal :: "(CheckpointDelta \<Rightarrow> 's \<Rightarrow> err \<times> 's) option"

record 's CheckpointWriter =
  wexecID :: string
  wcaps :: "'s CheckpointCapabilities"
  wwriteBase :: "(Checkpoint \<Rightarrow> 's \<Rightarrow> err \<times> 's) option"
  wmark :: BoardMark
  hasBase :: bool
  wappends :: int
  window :: int

definition DefaultCheckpointCompaction :: int where
  "DefaultCheckpointCompaction = 32"

definition no_caps :: "'s CheckpointCapabilities" where
  "no_caps = \<lparr>capEnabled = False, capJournal = None\<rparr>"

text \<open>The declared capability of a host, \<open>None\<close> when neither it nor a wrapped host declares one.\<close>

definition CheckpointCapabilitiesFromHost :: "'s CheckpointCapabilities option \<Rightarrow> 's CheckpointCapabilities" where
  "CheckpointCapabilitiesFromHost target =
     (case target of
        None \<Rightarrow> \<lparr>capEnabled = True, capJournal = None\<rparr>
      | Some caps \<Rightarrow> if \<not> capEnabled caps then no_caps else caps)"

definition CheckpointCapabilitiesForStore ::
  "(CheckpointDelta \<Rightarrow> 's \<Rightarrow> err \<times> 's) option \<Rightarrow> 's CheckpointCapabilities" where
  "CheckpointCapabilitiesForStore journal = \<lparr>capEnabled = True, capJournal = journal\<rparr>"

definition blank_writer :: "string \<Rightarrow> 's CheckpointWriter" where
  "blank_writer execID =
     \<lparr>wexecID = execID, wcaps = no_caps, wwriteBase = None,
      wmark = \<lparr>mseq = 0, mchannels = fmempty\<rparr>, hasBase = False, wappends = 0,
      window = DefaultCheckpointCompaction\<rparr>"

text \<open>\<open>NewCheckpointWriter\<close>: a host is its declared capability and its \<open>Checkpoint\<close> method;
  \<open>NewCheckpointWriterForStore\<close>: a store is its journal, when it has one, and its \<open>Save\<close>.\<close>

definition NewCheckpointWriter ::
  "('s CheckpointCapabilities option \<times> (Checkpoint \<Rightarrow> 's \<Rightarrow> err \<times> 's)) option \<Rightarrow> string \<Rightarrow> 's CheckpointWriter" where
  "NewCheckpointWriter host execID =
     (case (if execID = [] then None else host) of
        None \<Rightarrow> blank_writer execID
      | Some (target, ckpt) \<Rightarrow>
          (blank_writer execID)\<lparr>wcaps := CheckpointCapabilitiesFromHost target, wwriteBase := Some ckpt\<rparr>)"

definition NewCheckpointWriterForStore ::
  "((CheckpointDelta \<Rightarrow> 's \<Rightarrow> err \<times> 's) option \<times> (Checkpoint \<Rightarrow> 's \<Rightarrow> err \<times> 's)) option \<Rightarrow> string \<Rightarrow>
    's CheckpointWriter" where
  "NewCheckpointWriterForStore store execID =
     (case (if execID = [] then None else store) of
        None \<Rightarrow> blank_writer execID
      | Some (journal, sv) \<Rightarrow>
          (blank_writer execID)\<lparr>wcaps := CheckpointCapabilitiesForStore journal, wwriteBase := Some sv\<rparr>)"

definition Writer_Enabled :: "'s CheckpointWriter \<Rightarrow> bool" where
  "Writer_Enabled w \<longleftrightarrow> capEnabled (wcaps w) \<and> wwriteBase w \<noteq> None"

definition WithCompactionWindow :: "int \<Rightarrow> 's CheckpointWriter \<Rightarrow> 's CheckpointWriter" where
  "WithCompactionWindow every w = (if every > 0 then w\<lparr>window := every\<rparr> else w)"

text \<open>The full record at the end of \<open>Stamp\<close> and \<open>StampSnapshot\<close>; \<open>mk\<close> is the new mark, when the
  state came from a live board.\<close>

definition stamp_base ::
  "Checkpoint \<Rightarrow> BoardMark option \<Rightarrow> 's CheckpointWriter \<Rightarrow> 's \<Rightarrow> err \<times> 's CheckpointWriter \<times> 's" where
  "stamp_base cp mk w s =
     (case wwriteBase w of
        None \<Rightarrow> (None, w, s)
      | Some wb \<Rightarrow>
        (case wb cp s of
           (Some e, s') \<Rightarrow> (Some e, w, s')
         | (None, s') \<Rightarrow>
             (None, w\<lparr>wmark := (case mk of None \<Rightarrow> wmark w | Some m \<Rightarrow> m), hasBase := True, wappends := 0\<rparr>, s')))"

definition Stamp ::
  "CheckpointMeta \<Rightarrow> Board option \<Rightarrow> 's CheckpointWriter \<Rightarrow> 's \<Rightarrow> err \<times> 's CheckpointWriter \<times> 's" where
  "Stamp meta board w s =
     (case (if Writer_Enabled w then board else None) of
        None \<Rightarrow> (None, w, s)
      | Some b \<Rightarrow>
        (let base = stamp_base (Meta_Checkpoint meta (wexecID w) b) (Some (Board_Mark b)) w in
         case (if hasBase w \<and> wappends w < window w then capJournal (wcaps w) else None) of
           None \<Rightarrow> base s
         | Some app \<Rightarrow>
             (let (writes, nxt) = SinceMark b (wmark w) in
              case app (Meta_Delta meta (wexecID w) writes) s of
                (None, s') \<Rightarrow> (None, w\<lparr>wmark := nxt, wappends := wappends w + 1\<rparr>, s')
              | (Some e, s') \<Rightarrow> if errors_Is e ErrNeedsBase then base s' else (Some e, w, s'))))"

definition StampSnapshot ::
  "CheckpointMeta \<Rightarrow> BoardSnapshot option \<Rightarrow> BoardSnapshot option \<Rightarrow> 's CheckpointWriter \<Rightarrow> 's \<Rightarrow>
    err \<times> 's CheckpointWriter \<times> 's" where
  "StampSnapshot meta base nxt w s =
     (case (if Writer_Enabled w then nxt else None) of
        None \<Rightarrow> (None, w, s)
      | Some n \<Rightarrow>
        (let full = stamp_base (meta_record meta (wexecID w) (Some n)) None w in
         case (if hasBase w \<and> wappends w < window w then capJournal (wcaps w) else None, base) of
           (Some app, Some b) \<Rightarrow>
             (case app (Meta_Delta meta (wexecID w) (SnapshotDelta b n)) s of
                (None, s') \<Rightarrow> (None, w\<lparr>wappends := wappends w + 1\<rparr>, s')
              | (Some e, s') \<Rightarrow> if errors_Is e ErrNeedsBase then full s' else (Some e, w, s'))
         | _ \<Rightarrow> full s))"

subsection \<open>The SQLite store\<close>

text \<open>\<open>agent_checkpoints\<close> as \<open>exec_id \<mapsto> (data, revision)\<close>, \<open>agent_checkpoint_deltas\<close> as the rows of
  an exec id with their sequence numbers, and the driver errors still to come.\<close>

record sqlite_db =
  base_rows :: "string \<Rightarrow> (Checkpoint \<times> nat) option"
  delta_rows :: "string \<Rightarrow> (nat \<times> CheckpointDelta) list"
  db_faults :: "err list"
  maxDeltas :: int

definition wire_steps :: "string slice \<Rightarrow> string slice" where
  "wire_steps s = (if slen s = 0 then Nil_slice else s)"

definition wire :: "Checkpoint \<Rightarrow> Checkpoint" where
  "wire cp = cp\<lparr>cpSteps := wire_steps (cpSteps cp)\<rparr>"

definition wire_delta :: "CheckpointDelta \<Rightarrow> CheckpointDelta" where
  "wire_delta d = d\<lparr>cdSteps := wire_steps (cdSteps d)\<rparr>"

definition next_fault :: "sqlite_db \<Rightarrow> err \<times> sqlite_db" where
  "next_fault db =
     (case db_faults db of [] \<Rightarrow> (None, db) | f # fs \<Rightarrow> (f, db\<lparr>db_faults := fs\<rparr>))"

definition WriteBase :: "(string \<Rightarrow> bool) \<Rightarrow> Checkpoint \<Rightarrow> sqlite_db \<Rightarrow> err \<times> sqlite_db" where
  "WriteBase jv cp db =
     (case Checkpoint_Validate jv cp of
        Some e \<Rightarrow> (Some e, db)
      | None \<Rightarrow>
        (case next_fault db of
           (Some e, db') \<Rightarrow> (Some (Wrapf ''sqlite checkpoint: save'' e), db')
         | (None, db') \<Rightarrow>
             (let i = cpExecID cp;
                  revision = (case base_rows db' i of None \<Rightarrow> 1 | Some (c, r) \<Rightarrow> r + 1)
              in (None, db'\<lparr>base_rows := (base_rows db')(i := Some (wire cp, revision)),
                            delta_rows := (delta_rows db')(i := [])\<rparr>))))"

definition Save :: "(string \<Rightarrow> bool) \<Rightarrow> Checkpoint \<Rightarrow> sqlite_db \<Rightarrow> err \<times> sqlite_db" where
  "Save jv cp db = WriteBase jv cp db"

definition sqlite_Append :: "(string \<Rightarrow> bool) \<Rightarrow> CheckpointDelta \<Rightarrow> sqlite_db \<Rightarrow> err \<times> sqlite_db" where
  "sqlite_Append jv d db =
     (case CheckpointDelta_Validate jv d of
        Some e \<Rightarrow> (Some e, db)
      | None \<Rightarrow>
        (case next_fault db of
           (Some e, db') \<Rightarrow> (Some (Wrapf ''sqlite checkpoint: append'' e), db')
         | (None, db') \<Rightarrow>
             (let i = cdExecID d; rows = delta_rows db' i;
                  seq = fold max (map fst rows) 0 + 1
              in if base_rows db' i \<noteq> None \<and> (maxDeltas db' \<le> 0 \<or> int (length rows) < maxDeltas db')
                 then (None, db'\<lparr>delta_rows := (delta_rows db')(i := rows @ [(seq, wire_delta d)])\<rparr>)
                 else (Some (Wrapf ''sqlite checkpoint: append: no base record, or the chain is at its cap''
                         ErrNeedsBase), db'))))"

fun replay_rows :: "(string \<Rightarrow> bool) \<Rightarrow> nat \<Rightarrow> (nat \<times> CheckpointDelta) list \<Rightarrow> Checkpoint \<Rightarrow> go_error + Checkpoint" where
  "replay_rows jv want [] cp = Inr cp"
| "replay_rows jv want ((seq, d) # rows) cp =
     (if seq \<noteq> want then Inl (errf NotAvailable ''sqlite checkpoint: load: delta chain is broken'')
      else case CheckpointDelta_Validate jv d of
        Some e \<Rightarrow> Inl (Wrapf ''sqlite checkpoint: corrupt delta'' e)
      | None \<Rightarrow> replay_rows jv (want + 1) rows (CheckpointDelta_ApplyTo d cp))"

definition replayDeltas :: "(string \<Rightarrow> bool) \<Rightarrow> sqlite_db \<Rightarrow> Checkpoint \<Rightarrow> go_error + Checkpoint" where
  "replayDeltas jv db cp = replay_rows jv 1 (sort_key fst (delta_rows db (cpExecID cp))) cp"

text \<open>\<open>Load\<close>; \<open>flt\<close> is the error the database reports for the read, if any.\<close>

definition Load :: "(string \<Rightarrow> bool) \<Rightarrow> err \<Rightarrow> sqlite_db \<Rightarrow> string \<Rightarrow> go_error + Checkpoint option" where
  "Load jv flt db execID =
     (if trim_space execID = [] then
        Inl (Mark Validation (Plain ''sqlite checkpoint: exec_id is required''))
      else case flt of
        Some e \<Rightarrow> Inl (Wrapf ''sqlite checkpoint: load'' e)
      | None \<Rightarrow>
        (case base_rows db execID of
           None \<Rightarrow> Inr None
         | Some (cp, revision) \<Rightarrow>
           (case Checkpoint_Validate jv cp of
              Some e \<Rightarrow> Inl (Wrapf ''sqlite checkpoint: corrupt'' e)
            | None \<Rightarrow>
              (case replayDeltas jv db cp of
                 Inl e \<Rightarrow> Inl e
               | Inr cp' \<Rightarrow> Inr (Some cp')))))"

definition sqlite_Delete :: "string \<Rightarrow> sqlite_db \<Rightarrow> err \<times> sqlite_db" where
  "sqlite_Delete execID db =
     (if trim_space execID = [] then
        (Some (Mark Validation (Plain ''sqlite checkpoint: exec_id is required'')), db)
      else case next_fault db of
        (Some e, db') \<Rightarrow> (Some (Wrapf ''sqlite checkpoint: delete'' e), db')
      | (None, db') \<Rightarrow>
          (None, db'\<lparr>delta_rows := (delta_rows db')(execID := []),
                     base_rows := (base_rows db')(execID := None)\<rparr>))"

subsection \<open>A run of a writer\<close>

text \<open>What happens between a board, its writer and the store: board calls, boundaries, and the deletion
  of the record by its owner. The last component is the specification's view of what is durable: the
  meta and the board of the last accepted boundary.\<close>

datatype ckpt_event = Write board_op | Boundary CheckpointMeta | DeleteRecord

type_synonym 's ckpt_state = "Board \<times> 's CheckpointWriter \<times> 's \<times> (CheckpointMeta \<times> Board) option"

fun ckpt_step :: "(string \<Rightarrow> 's \<Rightarrow> err \<times> 's) \<Rightarrow> ckpt_event \<Rightarrow> 's ckpt_state \<Rightarrow> 's ckpt_state" where
  "ckpt_step del (Write op) (b, w, s, a) = (board_step op b, w, s, a)"
| "ckpt_step del (Boundary m) (b, w, s, a) =
     (case Stamp m (Some b) w s of (r, w', s') \<Rightarrow> (b, w', s', if r = None then Some (m, b) else a))"
| "ckpt_step del DeleteRecord (b, w, s, a) =
     (case del (wexecID w) s of (r, s') \<Rightarrow> (b, w, s', if r = None then None else a))"

text \<open>The events a run may contain: restores bring back the channels the mark has seen, and every
  boundary names its position, its counter and the specification it belongs to.\<close>

definition anchored :: "CheckpointMeta \<Rightarrow> bool" where
  "anchored m \<longleftrightarrow> slen (mtSteps m) \<noteq> 0 \<and> mtIteration m \<noteq> 0 \<and> mtSpecVersion m \<noteq> []"

fun ckpt_allowed :: "ckpt_event \<Rightarrow> 's ckpt_state \<Rightarrow> bool" where
  "ckpt_allowed (Write op) (b, w, s, a) \<longleftrightarrow> keeps_channels (wmark w) op"
| "ckpt_allowed (Boundary m) st \<longleftrightarrow> anchored m"
| "ckpt_allowed DeleteRecord st \<longleftrightarrow> True"

inductive ckpt_run :: "(string \<Rightarrow> 's \<Rightarrow> err \<times> 's) \<Rightarrow> 's ckpt_state \<Rightarrow> 's ckpt_state \<Rightarrow> bool"
  for del :: "string \<Rightarrow> 's \<Rightarrow> err \<times> 's" where
  ckpt_refl: "ckpt_run del st st"
| ckpt_next: "ckpt_run del st st' \<Longrightarrow> ckpt_allowed e st' \<Longrightarrow> ckpt_run del st (ckpt_step del e st')"

definition same_state :: "BoardSnapshot \<Rightarrow> Board \<Rightarrow> bool" where
  "same_state snap b \<longleftrightarrow> sVars snap = vars b \<and> (\<forall>c. elems (fmchan (sChannels snap) c) = elems (chan b c))"

text \<open>The record a load must return for what is durable.\<close>

definition represents :: "string \<Rightarrow> CheckpointMeta \<times> Board \<Rightarrow> Checkpoint \<Rightarrow> bool" where
  "represents i a cp \<longleftrightarrow> cpExecID cp = i \<and> cpSteps cp = mtSteps (fst a) \<and> cpIteration cp = mtIteration (fst a) \<and>
     cpSpecVersion cp = mtSpecVersion (fst a) \<and> (\<exists>snap. cpBoard cp = Some snap \<and> same_state snap (snd a))"

definition durable_is :: "string \<Rightarrow> (CheckpointMeta \<times> Board) option \<Rightarrow> go_error + Checkpoint option \<Rightarrow> bool" where
  "durable_is i a loaded \<longleftrightarrow>
     (case a of None \<Rightarrow> loaded = Inr None | Some x \<Rightarrow> \<exists>cp. loaded = Inr (Some cp) \<and> represents i x cp)"

lemma same_state_replay:
  assumes "same_state snap b0" "tracks b0 b"
  shows "same_state (ApplyToSnapshot (Since b (Board_Mark b0)) snap) b"
  using assms(1) tracks_replay_vars [OF assms(2)] tracks_replay_chan [OF assms(2)]
  by (simp add: same_state_def ApplyToSnapshot_def elems_apply_channels chan_fmchan cong: option.case_cong)

subsection \<open>The contract of a store\<close>

text \<open>What \<open>CheckpointStore\<close> promises: an accepted \<open>Save\<close> is what \<open>Load\<close> returns, a refused one
  changes nothing, and other records are untouched. \<open>CheckpointJournal\<close> adds that an accepted append
  extends the record by the delta. \<open>addressable\<close> are the exec ids the store can be asked for.\<close>

locale checkpoint_store =
  fixes sv :: "Checkpoint \<Rightarrow> 's \<Rightarrow> err \<times> 's"
    and del :: "string \<Rightarrow> 's \<Rightarrow> err \<times> 's"
    and ld :: "'s \<Rightarrow> string \<Rightarrow> go_error + Checkpoint option"
    and ok :: "'s \<Rightarrow> bool"
    and addressable :: "string \<Rightarrow> bool"
  assumes save_ok: "ok s \<Longrightarrow> sv cp s = (r, s') \<Longrightarrow> ok s'"
    and save_load: "ok s \<Longrightarrow> addressable (cpExecID cp) \<Longrightarrow> sv cp s = (None, s') \<Longrightarrow>
      ld s' (cpExecID cp) = Inr (Some (wire cp))"
    and save_refused: "ok s \<Longrightarrow> sv cp s = (Some e, s') \<Longrightarrow> ld s' i = ld s i"
    and save_other: "ok s \<Longrightarrow> sv cp s = (r, s') \<Longrightarrow> i \<noteq> cpExecID cp \<Longrightarrow> ld s' i = ld s i"
    and delete_ok: "ok s \<Longrightarrow> del i s = (r, s') \<Longrightarrow> ok s'"
    and delete_load: "ok s \<Longrightarrow> addressable i \<Longrightarrow> del i s = (None, s') \<Longrightarrow> ld s' i = Inr None"
    and delete_refused: "ok s \<Longrightarrow> del i s = (Some e, s') \<Longrightarrow> ld s' j = ld s j"

locale checkpoint_journal = checkpoint_store sv del ld ok addressable
  for sv :: "Checkpoint \<Rightarrow> 's \<Rightarrow> err \<times> 's" and del and ld and ok and addressable +
  fixes app :: "CheckpointDelta \<Rightarrow> 's \<Rightarrow> err \<times> 's"
  assumes append_ok: "ok s \<Longrightarrow> app d s = (r, s') \<Longrightarrow> ok s'"
    and append_load: "ok s \<Longrightarrow> addressable (cdExecID d) \<Longrightarrow> app d s = (None, s') \<Longrightarrow>
      \<exists>cp. ld s (cdExecID d) = Inr (Some cp) \<and>
        ld s' (cdExecID d) = Inr (Some (CheckpointDelta_ApplyTo (wire_delta d) cp))"
    and append_refused: "ok s \<Longrightarrow> app d s = (Some e, s') \<Longrightarrow> ld s' i = ld s i"
begin

text \<open>A writer wired to the store, with the journal or without it.\<close>

definition wired :: "'s CheckpointWriter \<Rightarrow> bool" where
  "wired w \<longleftrightarrow> addressable (wexecID w) \<and> wwriteBase w = Some sv \<and> capEnabled (wcaps w) \<and>
     (capJournal (wcaps w) = None \<or> capJournal (wcaps w) = Some app)"

definition cinv :: "'s ckpt_state \<Rightarrow> bool" where
  "cinv st = (case st of (b, w, s, a) \<Rightarrow> ok s \<and> wired w \<and> durable_is (wexecID w) a (ld s (wexecID w)) \<and>
     (\<forall>m b0. hasBase w \<longrightarrow> a = Some (m, b0) \<longrightarrow> wmark w = Board_Mark b0 \<and> tracks b0 b))"

lemma wired_Enabled: "wired w \<Longrightarrow> Writer_Enabled w"
  by (simp add: wired_def Writer_Enabled_def)

lemma cinv_base:
  assumes "cinv (b, w, s, a)" "ok s'" "ld s' (wexecID w) = ld s (wexecID w)" "anchored m"
    and st: "stamp_base (Meta_Checkpoint m (wexecID w) b) (Some (Board_Mark b)) w s' = (r, w', s'')"
  shows "cinv (b, w', s'', if r = None then Some (m, b) else a)"
proof -
  from assms(1) have wi: "wired w" and d: "durable_is (wexecID w) a (ld s (wexecID w))"
    and mk: "\<And>m b0. hasBase w \<Longrightarrow> a = Some (m, b0) \<Longrightarrow> wmark w = Board_Mark b0 \<and> tracks b0 b"
    by (auto simp: cinv_def)
  let ?cp = "Meta_Checkpoint m (wexecID w) b"
  have id: "cpExecID ?cp = wexecID w" by (simp add: Meta_Checkpoint_def meta_record_def)
  from st wi obtain r0 where sv: "sv ?cp s' = (r0, s'')" and r: "r = r0"
    and w': "w' = (if r0 = None then w\<lparr>wmark := Board_Mark b, hasBase := True, wappends := 0\<rparr> else w)"
    by (auto simp: stamp_base_def wired_def split: prod.splits option.splits)
  show ?thesis
  proof (cases r0)
    case None
    have "ld s'' (wexecID w) = Inr (Some (wire ?cp))"
      using save_load [OF assms(2), of ?cp] sv None wi id by (simp add: wired_def)
    then show ?thesis
      using save_ok [OF assms(2) sv] None wi assms(4) id
      by (auto simp: cinv_def r w' wired_def durable_is_def represents_def wire_def wire_steps_def anchored_def
          Meta_Checkpoint_def meta_record_def same_state_def Snapshot_def chan_fmchan)
  next
    case (Some e)
    then show ?thesis
      using save_ok [OF assms(2) sv] save_refused [OF assms(2), of ?cp e s''] sv assms(3) d wi mk
      by (simp add: cinv_def r w')
  qed
qed

lemma cinv_delta:
  assumes inv: "cinv (b, w, s, a)" and hb: "hasBase w" and m: "anchored m"
    and ap: "app (Meta_Delta m (wexecID w) (Since b (wmark w))) s = (None, s')"
  shows "cinv (b, w\<lparr>wmark := Board_Mark b, wappends := k\<rparr>, s', Some (m, b))"
proof -
  from inv have o: "ok s" and wi: "wired w" and d: "durable_is (wexecID w) a (ld s (wexecID w))"
    and mk: "\<And>m b0. a = Some (m, b0) \<Longrightarrow> wmark w = Board_Mark b0 \<and> tracks b0 b"
    using hb by (auto simp: cinv_def)
  let ?d = "Meta_Delta m (wexecID w) (Since b (wmark w))"
  have id: "cdExecID ?d = wexecID w" by (simp add: Meta_Delta_def)
  obtain cp where cp: "ld s (wexecID w) = Inr (Some cp)"
    and cp': "ld s' (wexecID w) = Inr (Some (CheckpointDelta_ApplyTo (wire_delta ?d) cp))"
    using append_load [OF o _ ap] wi id by (auto simp: wired_def)
  obtain m0 b0 where a: "a = Some (m0, b0)" and rep: "represents (wexecID w) (m0, b0) cp"
    using d cp by (auto simp: durable_is_def split: option.splits)
  obtain snap where snap: "cpBoard cp = Some snap" "same_state snap b0"
    using rep by (auto simp: represents_def)
  have "wmark w = Board_Mark b0" and t: "tracks b0 b" using mk [OF a] by simp_all
  then have "same_state (ApplyToSnapshot (Since b (wmark w)) snap) b"
    using same_state_replay [OF snap(2) t] by simp
  then show ?thesis
    using append_ok [OF o ap] wi cp' rep snap(1) m
    by (auto simp: cinv_def wired_def durable_is_def represents_def CheckpointDelta_ApplyTo_def wire_delta_def
        wire_steps_def Meta_Delta_def anchored_def Let_def)
qed

lemma cinv_step:
  assumes inv: "cinv (b, w, s, a)" and al: "ckpt_allowed e (b, w, s, a)"
  shows "cinv (ckpt_step del e (b, w, s, a))"
proof (cases e)
  case (Write op)
  with inv al show ?thesis by (auto simp: cinv_def intro: tracks_step)
next
  case DeleteRecord
  obtain r s' where ds: "del (wexecID w) s = (r, s')" by fastforce
  with inv DeleteRecord show ?thesis
    using delete_ok [of s "wexecID w" r s'] delete_load [of s "wexecID w" s']
      delete_refused [of s "wexecID w" _ s' "wexecID w"]
    by (cases r) (simp_all add: cinv_def wired_def, simp add: durable_is_def)
next
  case (Boundary m)
  then have m: "anchored m" using al by simp
  have o: "ok s" and wi: "wired w" using inv by (auto simp: cinv_def)
  obtain r w' s' where st: "Stamp m (Some b) w s = (r, w', s')" by (metis prod_cases3)
  have "cinv (b, w', s', if r = None then Some (m, b) else a)"
  proof (cases "hasBase w \<and> wappends w < window w \<and> capJournal (wcaps w) = Some app")
    case False
    then have "stamp_base (Meta_Checkpoint m (wexecID w) b) (Some (Board_Mark b)) w s = (r, w', s')"
      using st wi wired_Enabled [OF wi] by (auto simp: Stamp_def wired_def Let_def split: if_splits)
    then show ?thesis using cinv_base [OF inv o refl m] by blast
  next
    case True
    let ?d = "Meta_Delta m (wexecID w) (Since b (wmark w))"
    obtain ra sa where ap: "app ?d s = (ra, sa)" by fastforce
    show ?thesis
    proof (cases ra)
      case None
      then have "r = None" "w' = w\<lparr>wmark := Board_Mark b, wappends := wappends w + 1\<rparr>" "s' = sa"
        using st True ap wired_Enabled [OF wi] by (auto simp: Stamp_def SinceMark_def Let_def)
      then show ?thesis using cinv_delta [OF inv _ m] True ap None by simp
    next
      case (Some x)
      have keep: "ld sa (wexecID w) = ld s (wexecID w)" using append_refused [OF o] ap Some by blast
      show ?thesis
      proof (cases "errors_Is x ErrNeedsBase")
        case True
        then have "stamp_base (Meta_Checkpoint m (wexecID w) b) (Some (Board_Mark b)) w sa = (r, w', s')"
          using st \<open>hasBase w \<and> _\<close> ap Some wired_Enabled [OF wi] by (auto simp: Stamp_def SinceMark_def Let_def)
        then show ?thesis using cinv_base [OF inv append_ok [OF o ap] keep m] by blast
      next
        case False
        then have "r = Some x" "w' = w" "s' = sa"
          using st \<open>hasBase w \<and> _\<close> ap Some wired_Enabled [OF wi] by (auto simp: Stamp_def SinceMark_def Let_def)
        then show ?thesis using inv keep append_ok [OF o ap] by (simp add: cinv_def)
      qed
    qed
  qed
  then show ?thesis using Boundary st by simp
qed

lemma cinv_run: "ckpt_run del st st' \<Longrightarrow> cinv st \<Longrightarrow> cinv st'"
proof (induction rule: ckpt_run.induct)
  case (ckpt_next st st' e)
  then show ?case using cinv_step by (cases st') blast
qed

lemma run_durable:
  assumes "ckpt_run del (b, w, s, a) (b', w', s', a')" "ok s" "wired w" "\<not> hasBase w"
    "durable_is (wexecID w) a (ld s (wexecID w))"
  shows "durable_is (wexecID w') a' (ld s' (wexecID w'))"
proof -
  have "cinv (b, w, s, a)" using assms(2-5) by (simp add: cinv_def)
  from cinv_run [OF assms(1) this] show ?thesis by (simp add: cinv_def)
qed

end

subsection \<open>The SQLite store keeps the contract\<close>

text \<open>The tables of a store that only its own methods write: a base names its own id, and the deltas of
  an id are numbered from 1 without gaps.\<close>

definition numbered :: "(nat \<times> 'd) list \<Rightarrow> bool" where
  "numbered rows \<longleftrightarrow> map fst rows = [1 ..< Suc (length rows)]"

definition db_ok :: "(string \<Rightarrow> bool) \<Rightarrow> sqlite_db \<Rightarrow> bool" where
  "db_ok jv db \<longleftrightarrow> (\<forall>i.
     numbered (delta_rows db i) \<and>
     (\<forall>d \<in> set (map snd (delta_rows db i)). CheckpointDelta_Validate jv d = None) \<and>
     (case base_rows db i of None \<Rightarrow> True | Some (cp, r) \<Rightarrow> cpExecID cp = i \<and> Checkpoint_Validate jv cp = None))"

definition empty_db :: "err list \<Rightarrow> int \<Rightarrow> sqlite_db" where
  "empty_db faults cap = \<lparr>base_rows = (\<lambda>_. None), delta_rows = (\<lambda>_. []), db_faults = faults, maxDeltas = cap\<rparr>"

lemma numbered_Nil [simp]: "numbered []"
  by (simp add: numbered_def)

lemma fold_max_upt: "fold max [1 ..< Suc n] 0 = (n::nat)"
  by (induction n) auto

lemma numbered_snoc: "numbered rows \<Longrightarrow> numbered (rows @ [(fold max (map fst rows) 0 + 1, d)])"
  using fold_max_upt [of "length rows"] upt_Suc [of 1 "Suc (length rows)"]
  by (simp add: numbered_def del: upt_Suc)

lemma next_fault_rows:
  "next_fault db = (r, db') \<Longrightarrow> base_rows db' = base_rows db \<and> delta_rows db' = delta_rows db \<and> maxDeltas db' = maxDeltas db"
  by (auto simp: next_fault_def split: list.splits)

lemma db_ok_cong: "base_rows db' = base_rows db \<Longrightarrow> delta_rows db' = delta_rows db \<Longrightarrow> db_ok jv db' = db_ok jv db"
  by (simp add: db_ok_def)

lemma Load_cong:
  "base_rows db' i = base_rows db i \<Longrightarrow>
   (\<And>cp r. base_rows db i = Some (cp, r) \<Longrightarrow> delta_rows db' (cpExecID cp) = delta_rows db (cpExecID cp)) \<Longrightarrow>
   Load jv f db' i = Load jv f db i"
  by (auto simp: Load_def replayDeltas_def split: option.splits)

lemma replay_numbered:
  "map fst rows = [want ..< want + length rows] \<Longrightarrow> (\<forall>d \<in> set (map snd rows). CheckpointDelta_Validate jv d = None) \<Longrightarrow>
    replay_rows jv want rows cp = Inr (fold CheckpointDelta_ApplyTo (map snd rows) cp)"
proof (induction rows arbitrary: want cp)
  case (Cons x rows)
  obtain q d where x: "x = (q, d)" by fastforce
  have "q = want" "map fst rows = [Suc want ..< Suc want + length rows]"
    using Cons.prems(1) by (simp_all add: x upt_conv_Cons del: upt_Suc)
  then show ?case using Cons.IH [of "Suc want"] Cons.prems(2) by (simp add: x)
qed simp

text \<open>What a load of a well-numbered store returns: the base with its deltas applied in order.\<close>

lemma Load_db_ok:
  assumes "db_ok jv db" "trim_space i \<noteq> []"
  shows "Load jv None db i = Inr (map_option (\<lambda>(cp, r). fold CheckpointDelta_ApplyTo (map snd (delta_rows db i)) cp)
    (base_rows db i))"
proof (cases "base_rows db i")
  case None
  then show ?thesis using assms(2) by (simp add: Load_def)
next
  case (Some x)
  obtain cp r where x: "x = (cp, r)" by fastforce
  have ok: "numbered (delta_rows db i)"
    "\<forall>d \<in> set (map snd (delta_rows db i)). CheckpointDelta_Validate jv d = None"
    "cpExecID cp = i" "Checkpoint_Validate jv cp = None"
    using assms(1) Some x by (auto simp: db_ok_def split: option.splits)
  have "sort_key fst (delta_rows db i) = delta_rows db i"
    using ok(1) by (intro sort_key_id_if_sorted) (simp add: numbered_def del: upt_Suc)
  then have "replayDeltas jv db cp = Inr (fold CheckpointDelta_ApplyTo (map snd (delta_rows db i)) cp)"
    using replay_numbered [OF _ ok(2), of 1 cp] ok(1,3) by (simp add: replayDeltas_def numbered_def del: upt_Suc)
  then show ?thesis using Some x ok(4) assms(2) by (simp add: Load_def)
qed

lemma ApplyTo_valid:
  "CheckpointDelta_Validate jv d = None \<Longrightarrow> Checkpoint_Validate jv cp = None \<Longrightarrow>
    Checkpoint_Validate jv (CheckpointDelta_ApplyTo d cp) = None"
  by (auto simp: CheckpointDelta_Validate_def Checkpoint_Validate_def CheckpointDelta_ApplyTo_def Let_def mark_as_def
      markOrNil_def split: if_splits)

lemma fold_ApplyTo_valid:
  "\<forall>d \<in> set ds. CheckpointDelta_Validate jv d = None \<Longrightarrow> Checkpoint_Validate jv cp = None \<Longrightarrow>
    Checkpoint_Validate jv (fold CheckpointDelta_ApplyTo ds cp) = None"
  by (induction ds arbitrary: cp) (simp_all add: ApplyTo_valid)

text \<open>What a load returns is a valid record, also after a replay.\<close>

lemma Load_valid:
  assumes "db_ok jv db" "trim_space i \<noteq> []" "Load jv None db i = Inr (Some cp)"
  shows "Checkpoint_Validate jv cp = None"
proof -
  obtain c r where c: "base_rows db i = Some (c, r)" "cp = fold CheckpointDelta_ApplyTo (map snd (delta_rows db i)) c"
    using assms(3) Load_db_ok [OF assms(1,2)] by (cases "base_rows db i") auto
  have "Checkpoint_Validate jv c = None" "\<forall>d \<in> set (map snd (delta_rows db i)). CheckpointDelta_Validate jv d = None"
    using assms(1) [unfolded db_ok_def, rule_format, of i] c(1) by simp_all
  then show ?thesis unfolding c(2) by (intro fold_ApplyTo_valid)
qed

lemma Validate_wire [simp]:
  "Checkpoint_Validate jv (wire cp) = Checkpoint_Validate jv cp"
  "CheckpointDelta_Validate jv (wire_delta d) = CheckpointDelta_Validate jv d"
  "cpExecID (wire cp) = cpExecID cp"
  by (simp_all add: Checkpoint_Validate_def CheckpointDelta_Validate_def wire_def wire_delta_def)

lemma Save_cases:
  assumes "Save jv cp db = (r, db')"
  obtains (refused) e where "r = Some e" "base_rows db' = base_rows db" "delta_rows db' = delta_rows db"
  | (stored) rv where "r = None" "Checkpoint_Validate jv cp = None"
      "base_rows db' = (base_rows db)(cpExecID cp := Some (wire cp, rv))"
      "delta_rows db' = (delta_rows db)(cpExecID cp := [])"
proof (cases "Checkpoint_Validate jv cp")
  case None
  then show thesis using assms next_fault_rows [of db] refused stored
    by (auto simp: Save_def WriteBase_def Let_def split: option.splits prod.splits)
next
  case (Some e)
  with assms have "r = Some e" "db' = db" by (simp_all add: Save_def WriteBase_def)
  then show thesis by (intro refused) simp_all
qed

lemma Append_cases:
  assumes "sqlite_Append jv d db = (r, db')"
  obtains (refused) e where "r = Some e" "base_rows db' = base_rows db" "delta_rows db' = delta_rows db"
  | (stored) "r = None" "CheckpointDelta_Validate jv d = None" "base_rows db (cdExecID d) \<noteq> None"
      "base_rows db' = base_rows db"
      "delta_rows db' = (delta_rows db)(cdExecID d :=
        delta_rows db (cdExecID d) @ [(fold max (map fst (delta_rows db (cdExecID d))) 0 + 1, wire_delta d)])"
proof (cases "CheckpointDelta_Validate jv d")
  case None
  then show thesis using assms next_fault_rows [of db] refused stored
    by (auto simp: sqlite_Append_def Let_def split: option.splits prod.splits if_splits)
next
  case (Some e)
  with assms have "r = Some e" "db' = db" by (simp_all add: sqlite_Append_def)
  then show thesis by (intro refused) simp_all
qed

lemma Delete_cases:
  assumes "sqlite_Delete i db = (r, db')"
  obtains (refused) e where "r = Some e" "base_rows db' = base_rows db" "delta_rows db' = delta_rows db"
  | (gone) "r = None" "base_rows db' = (base_rows db)(i := None)" "delta_rows db' = (delta_rows db)(i := [])"
  using assms next_fault_rows [of db]
  by (auto simp: sqlite_Delete_def split: option.splits prod.splits if_splits)

lemma Save_db_ok: "db_ok jv db \<Longrightarrow> Save jv cp db = (r, db') \<Longrightarrow> db_ok jv db'"
  by (erule Save_cases) (auto simp: db_ok_def)

lemma Delete_db_ok: "db_ok jv db \<Longrightarrow> sqlite_Delete i db = (r, db') \<Longrightarrow> db_ok jv db'"
  by (erule Delete_cases) (auto simp: db_ok_def)

lemma Append_db_ok:
  assumes "db_ok jv db" "sqlite_Append jv d db = (r, db')"
  shows "db_ok jv db'"
  using assms(2)
proof (cases rule: Append_cases)
  case refused
  then show ?thesis using assms(1) db_ok_cong by blast
next
  case stored
  have "numbered (delta_rows db' i)" for i
    using assms(1) stored by (simp add: db_ok_def numbered_snoc [simplified])
  then show ?thesis using assms(1) stored by (simp add: db_ok_def)
qed

lemma refused_Load:
  "Save jv cp db = (Some e, db') \<Longrightarrow> Load jv f db' i = Load jv f db i"
  "sqlite_Append jv d db = (Some e, db') \<Longrightarrow> Load jv f db' i = Load jv f db i"
  "sqlite_Delete j db = (Some e, db') \<Longrightarrow> Load jv f db' i = Load jv f db i"
  by (rule Load_cong; auto elim: Save_cases Append_cases Delete_cases)+

lemma Delete_Load: "trim_space i \<noteq> [] \<Longrightarrow> sqlite_Delete i db = (None, db') \<Longrightarrow> Load jv None db' i = Inr None"
  by (erule Delete_cases) (auto simp: Load_def)

interpretation sq: checkpoint_journal "Save jv" sqlite_Delete "Load jv None" "db_ok jv" "\<lambda>i. trim_space i \<noteq> []"
  "sqlite_Append jv" for jv
proof unfold_locales
  fix s cp s'
  assume ok: "db_ok jv s" and ad: "trim_space (cpExecID cp) \<noteq> []" and sv: "Save jv cp s = (None, s')"
  from Save_db_ok [OF ok sv] ad sv show "Load jv None s' (cpExecID cp) = Inr (Some (wire cp))"
    by (auto simp: Load_db_ok elim: Save_cases)
next
  fix s cp r s' i
  assume ok: "db_ok jv s" and "Save jv cp s = (r, s')" "i \<noteq> cpExecID cp"
  moreover have "cpExecID c = i" if "base_rows s i = Some (c, v)" for c v
    using ok that by (auto simp: db_ok_def split: option.splits)
  ultimately show "Load jv None s' i = Load jv None s i"
    by (intro Load_cong) (auto elim!: Save_cases)
next
  fix s d s'
  assume ok: "db_ok jv s" and ad: "trim_space (cdExecID d) \<noteq> []" and ap: "sqlite_Append jv d s = (None, s')"
  from Append_db_ok [OF ok ap] ok ad ap
  show "\<exists>cp. Load jv None s (cdExecID d) = Inr (Some cp) \<and>
      Load jv None s' (cdExecID d) = Inr (Some (CheckpointDelta_ApplyTo (wire_delta d) cp))"
    by (auto simp: Load_db_ok elim!: Append_cases)
qed (auto intro: Save_db_ok Append_db_ok Delete_db_ok refused_Load Delete_Load)

subsection \<open>What a writer keeps\<close>

lemma stamp_base_keeps:
  "stamp_base cp mk w s = (r, w', s') \<Longrightarrow>
    wexecID w' = wexecID w \<and> wcaps w' = wcaps w \<and> wwriteBase w' = wwriteBase w \<and> window w' = window w"
  by (auto simp: stamp_base_def split: option.splits prod.splits)

lemma Stamp_keeps:
  "Stamp m b w s = (r, w', s') \<Longrightarrow>
    wexecID w' = wexecID w \<and> wcaps w' = wcaps w \<and> wwriteBase w' = wwriteBase w \<and> window w' = window w"
  by (auto simp: Stamp_def Let_def split: option.splits prod.splits if_splits dest!: stamp_base_keeps)

lemma ckpt_run_keeps:
  "ckpt_run del st st' \<Longrightarrow> (case (st, st') of ((b, w, s, a), (b', w', s', a')) \<Rightarrow>
     wexecID w' = wexecID w \<and> wcaps w' = wcaps w \<and> wwriteBase w' = wwriteBase w \<and> window w' = window w)"
proof (induction rule: ckpt_run.induct)
  case (ckpt_next st st' e)
  then show ?case
    by (cases st; cases st'; cases e) (auto split: prod.splits dest!: Stamp_keeps)
qed auto

text \<open>The chain a load has to replay never outgrows the writer's window.\<close>

definition chain_bounded :: "sqlite_db ckpt_state \<Rightarrow> bool" where
  "chain_bounded st = (case st of (b, w, s, a) \<Rightarrow> hasBase w \<longrightarrow>
     int (length (delta_rows s (wexecID w))) \<le> wappends w \<and> wappends w \<le> window w)"

definition sqlite_writer :: "(string \<Rightarrow> bool) \<Rightarrow> sqlite_db CheckpointWriter \<Rightarrow> bool" where
  "sqlite_writer jv w \<longleftrightarrow> wwriteBase w = Some (Save jv) \<and> capEnabled (wcaps w) \<and> 0 < window w \<and>
     (capJournal (wcaps w) = None \<or> capJournal (wcaps w) = Some (sqlite_Append jv))"

lemma base_bounded:
  assumes "chain_bounded (b, w, s, a)" "sqlite_writer jv w" "cpExecID cp = wexecID w"
    "delta_rows s0 = delta_rows s" "stamp_base cp mk w s0 = (r, w', s')"
  shows "chain_bounded (b, w', s', a')"
proof -
  obtain r0 where sv: "Save jv cp s0 = (r0, s')"
    and w': "w' = (if r0 = None then w\<lparr>wmark := (case mk of None \<Rightarrow> wmark w | Some m \<Rightarrow> m), hasBase := True,
        wappends := 0\<rparr> else w)"
    using assms(2,5) by (auto simp: stamp_base_def sqlite_writer_def split: prod.splits option.splits)
  from sv show ?thesis
    by (cases rule: Save_cases) (use assms w' in \<open>auto simp: chain_bounded_def sqlite_writer_def\<close>)
qed

lemma Stamp_bounded:
  assumes inv: "chain_bounded (b, w, s, a)" and w: "sqlite_writer jv w" and st: "Stamp m (Some b) w s = (r, w', s')"
  shows "chain_bounded (b, w', s', a')"
proof -
  have en: "Writer_Enabled w" using w by (simp add: sqlite_writer_def Writer_Enabled_def)
  let ?cp = "Meta_Checkpoint m (wexecID w) b"
  have id: "cpExecID ?cp = wexecID w" by (simp add: Meta_Checkpoint_def meta_record_def)
  show ?thesis
  proof (cases "hasBase w \<and> wappends w < window w \<and> capJournal (wcaps w) = Some (sqlite_Append jv)")
    case False
    then have "stamp_base ?cp (Some (Board_Mark b)) w s = (r, w', s')"
      using st w en by (auto simp: Stamp_def sqlite_writer_def Let_def split: if_splits)
    then show ?thesis using base_bounded [OF inv w id refl] by blast
  next
    case True
    obtain ra sa where ap: "sqlite_Append jv (Meta_Delta m (wexecID w) (Since b (wmark w))) s = (ra, sa)" by fastforce
    from ap show ?thesis
    proof (cases rule: Append_cases)
      case (refused e)
      then show ?thesis
        using st True ap en inv base_bounded [OF inv w id, of sa "Some (Board_Mark b)" r w' s' a']
        by (cases "errors_Is e ErrNeedsBase") (auto simp: Stamp_def SinceMark_def Let_def chain_bounded_def)
    next
      case stored
      then show ?thesis using st True ap en inv
        by (auto simp: Stamp_def SinceMark_def Let_def chain_bounded_def Meta_Delta_def)
    qed
  qed
qed

lemma run_bounded:
  "ckpt_run sqlite_Delete st st' \<Longrightarrow> sqlite_writer jv (fst (snd st)) \<Longrightarrow> chain_bounded st \<Longrightarrow> chain_bounded st'"
proof (induction rule: ckpt_run.induct)
  case (ckpt_next st st' e)
  obtain b w s a where st': "st' = (b, w, s, a)" by (metis prod_cases4)
  have w: "sqlite_writer jv w"
    using ckpt_run_keeps [OF ckpt_next.hyps(1)] ckpt_next.prems(1) st' by (auto simp: sqlite_writer_def split: prod.splits)
  have inv: "chain_bounded (b, w, s, a)" using ckpt_next st' by blast
  show ?case
  proof (cases e)
    case (Write op)
    then show ?thesis using inv st' by (simp add: chain_bounded_def)
  next
    case (Boundary m)
    then show ?thesis using Stamp_bounded [OF inv w] st' by (auto split: prod.splits)
  next
    case DeleteRecord
    obtain r s' where d: "sqlite_Delete (wexecID w) s = (r, s')" by fastforce
    then show ?thesis using inv st' DeleteRecord
      by (auto simp: chain_bounded_def elim!: Delete_cases)
  qed
qed

lemma run_db_ok:
  assumes "ckpt_run sqlite_Delete st st'" "sqlite_writer jv (fst (snd st))" "db_ok jv (fst (snd (snd st)))"
  shows "db_ok jv (fst (snd (snd st')))"
  using assms
proof (induction rule: ckpt_run.induct)
  case (ckpt_next st st' e)
  obtain b w s a where st': "st' = (b, w, s, a)" by (metis prod_cases4)
  have w: "wwriteBase w = Some (Save jv)" "capJournal (wcaps w) = None \<or> capJournal (wcaps w) = Some (sqlite_Append jv)"
    using ckpt_run_keeps [OF ckpt_next.hyps(1)] ckpt_next.prems(1) st' by (auto simp: sqlite_writer_def split: prod.splits)
  have ok: "db_ok jv s" using ckpt_next st' by simp
  have base: "db_ok jv s2" if "stamp_base cp mk w s1 = (r, w', s2)" "db_ok jv s1" for cp mk s1 r w' s2
    using that w(1) by (auto simp: stamp_base_def split: prod.splits option.splits dest: Save_db_ok)
  have stamp: "db_ok jv s'" if "Stamp m (Some b) w s = (r, w', s')" for m r w' s'
    using that w(2) ok
    by (auto simp: Stamp_def Let_def split: prod.splits option.splits if_splits dest: base Append_db_ok)
  show ?case
    using ok stamp by (cases e) (auto simp: st' split: prod.splits dest: Delete_db_ok)
qed

subsection \<open>A concrete run\<close>

text \<open>Three boundaries with a failing database in the middle: a base, a refused delta, an accepted one.\<close>

definition ckpt_demo_meta :: "string \<Rightarrow> int \<Rightarrow> CheckpointMeta" where
  "ckpt_demo_meta node n = \<lparr>mtSteps = Slice [node], mtIteration = n, mtPayload = [], mtAttributes = fmempty,
     mtTimestamp = 1, mtOriginalStartedAt = 1, mtSpecVersion = ''v1''\<rparr>"

definition ckpt_demo :: "sqlite_db ckpt_state" where
  "ckpt_demo = (NewBoard,
     WithCompactionWindow 4 (NewCheckpointWriterForStore (Some (Some (sqlite_Append (\<lambda>_. True)), Save (\<lambda>_. True))) ''r''),
     empty_db [None, Some (Plain ''busy''), None] 0, None)"

definition ckpt_demo_events :: "ckpt_event list" where
  "ckpt_demo_events = [Boundary (ckpt_demo_meta ''a'' 1), Write (OpSetVar ''x'' (VInt 7)), Boundary (ckpt_demo_meta ''b'' 2),
     Boundary (ckpt_demo_meta ''c'' 3)]"

lemma ckpt_run_fold:
  "\<forall>e \<in> set es. case e of Boundary m \<Rightarrow> anchored m | Write op \<Rightarrow> \<forall>m. keeps_channels m op | DeleteRecord \<Rightarrow> True \<Longrightarrow>
    ckpt_run del st st' \<Longrightarrow> ckpt_run del st (fold (ckpt_step del) es st')"
proof (induction es arbitrary: st')
  case (Cons e es)
  have "ckpt_allowed e st'" using Cons.prems(1) by (cases e; cases st') auto
  with Cons.prems(2) have "ckpt_run del st (ckpt_step del e st')" by (rule ckpt_run.ckpt_next)
  with Cons.IH Cons.prems(1) show ?case by simp
qed simp

lemma ckpt_demo_run: "ckpt_run sqlite_Delete ckpt_demo (fold (ckpt_step sqlite_Delete) ckpt_demo_events ckpt_demo)"
  by (rule ckpt_run_fold) (auto simp: ckpt_demo_events_def ckpt_demo_meta_def anchored_def intro: ckpt_refl)

text \<open>How a boundary ends on the SQLite store: the first one writes a base, a later one appends, and a
  database failure changes nothing but the failures to come.\<close>

lemma boundary_base:
  assumes "sqlite_writer jv w" "\<not> hasBase w" "db_faults s = None # fs" "wexecID w \<noteq> []" "mtPayload m = []"
  shows "\<exists>s'. Stamp m (Some b) w s = (None, w\<lparr>wmark := Board_Mark b, hasBase := True, wappends := 0\<rparr>, s') \<and>
    db_faults s' = fs \<and> base_rows s' (wexecID w) \<noteq> None \<and> delta_rows s' (wexecID w) = [] \<and> maxDeltas s' = maxDeltas s"
  using assms by (simp add: Stamp_def stamp_base_def sqlite_writer_def Writer_Enabled_def Save_def WriteBase_def
      Checkpoint_Validate_def Meta_Checkpoint_def meta_record_def next_fault_def Let_def)

lemma boundary_delta:
  assumes "sqlite_writer jv w" "hasBase w" "wappends w < window w" "capJournal (wcaps w) = Some (sqlite_Append jv)"
    "db_faults s = f # fs" "wexecID w \<noteq> []" "mtPayload m = []" "base_rows s (wexecID w) \<noteq> None" "maxDeltas s \<le> 0"
    "\<forall>e. f = Some e \<longrightarrow> \<not> errors_Is (Wrapf ''sqlite checkpoint: append'' e) ErrNeedsBase"
  shows "\<exists>w' s'. Stamp m (Some b) w s = (map_option (Wrapf ''sqlite checkpoint: append'') f, w', s') \<and>
    hasBase w' \<and> wappends w' = wappends w + (if f = None then 1 else 0) \<and>
    db_faults s' = fs \<and> base_rows s' (wexecID w) \<noteq> None \<and> maxDeltas s' = maxDeltas s \<and>
    length (delta_rows s' (wexecID w)) = length (delta_rows s (wexecID w)) + (if f = None then 1 else 0)"
  using assms by (cases f) (auto simp: Stamp_def sqlite_writer_def Writer_Enabled_def sqlite_Append_def
      CheckpointDelta_Validate_def Meta_Delta_def SinceMark_def next_fault_def Let_def)

lemma ckpt_demo_final:
  "\<exists>w db. fold (ckpt_step sqlite_Delete) ckpt_demo_events ckpt_demo =
     (SetVar ''x'' (VInt 7) NewBoard, w, db, Some (ckpt_demo_meta ''c'' 3, SetVar ''x'' (VInt 7) NewBoard)) \<and>
     hasBase w \<and> length (delta_rows db ''r'') = 1"
proof -
  let ?jv = "\<lambda>_::string. True" and ?b = "SetVar ''x'' (VInt 7) NewBoard"
  let ?w = "WithCompactionWindow 4 (NewCheckpointWriterForStore (Some (Some (sqlite_Append ?jv), Save ?jv)) ''r'')"
  let ?db = "empty_db [None, Some (Plain ''busy''), None] 0"
  have w: "sqlite_writer ?jv ?w" "\<not> hasBase ?w" "wexecID ?w = ''r''" "window ?w = 4"
    "capJournal (wcaps ?w) = Some (sqlite_Append ?jv)"
    by (simp_all add: WithCompactionWindow_def NewCheckpointWriterForStore_def blank_writer_def
        CheckpointCapabilitiesForStore_def sqlite_writer_def)
  have db: "db_faults ?db = [None, Some (Plain ''busy''), None]" "maxDeltas ?db = 0" by (simp_all add: empty_db_def)
  have pl: "mtPayload (ckpt_demo_meta n k) = []" for n k by (simp add: ckpt_demo_meta_def)
  obtain w1 s1 where 1: "Stamp (ckpt_demo_meta ''a'' 1) (Some NewBoard) ?w ?db = (None, w1, s1)"
    "w1 = ?w\<lparr>wmark := Board_Mark NewBoard, hasBase := True, wappends := 0\<rparr>"
    "db_faults s1 = [Some (Plain ''busy''), None]" "base_rows s1 ''r'' \<noteq> None" "delta_rows s1 ''r'' = []" "maxDeltas s1 = 0"
    using boundary_base [OF w(1,2) db(1) _ pl, of "''a''" 1 NewBoard] w(3) db(2) by auto
  have w1: "sqlite_writer ?jv w1" "hasBase w1" "wappends w1 < window w1" "capJournal (wcaps w1) = Some (sqlite_Append ?jv)"
    "wexecID w1 = ''r''"
    using w by (simp_all add: 1 sqlite_writer_def)
  obtain e w2 s2 where 2: "Stamp (ckpt_demo_meta ''b'' 2) (Some ?b) w1 s1 = (Some e, w2, s2)" "hasBase w2" "wappends w2 = 0"
    "db_faults s2 = [None]" "base_rows s2 ''r'' \<noteq> None" "maxDeltas s2 = 0" "delta_rows s2 ''r'' = []"
    using boundary_delta [OF w1(1-4) 1(3) _ pl, of "''b''" 2 ?b] w1(5) 1
    by (auto simp: errors_Is_def ErrNeedsBase_def or_else_def)
  note k2 = Stamp_keeps [OF 2(1)]
  have w2: "sqlite_writer ?jv w2" "wappends w2 < window w2" "capJournal (wcaps w2) = Some (sqlite_Append ?jv)" "wexecID w2 = ''r''"
    using k2 w1 2(3) w(4) 1(2) by (auto simp: sqlite_writer_def)
  obtain w3 s3 where 3: "Stamp (ckpt_demo_meta ''c'' 3) (Some ?b) w2 s2 = (None, w3, s3)" "hasBase w3"
    "length (delta_rows s3 ''r'') = 1"
    using boundary_delta [OF w2(1) 2(2) w2(2,3) 2(4) _ pl, of "''c''" 3 ?b] w2(4) 2 by auto
  show ?thesis
    using 1(1) 2(1) 3 by (simp add: ckpt_demo_events_def ckpt_demo_def)
qed

lemma ckpt_demo_db: "db_ok jv (empty_db f c)" "durable_is i None (Load jv None (empty_db f c) ''r'')"
  by (simp_all add: db_ok_def empty_db_def durable_is_def Load_def trim_space_def is_space_def)

subsection \<open>Properties\<close>



text \<open>Resuming is bounded: in every run of a writer on the SQLite store, the chain a load replays on
  top of the base is at most the writer's compaction window, which is positive.\<close>

theorem replay_bounded_by_window:
  assumes "trim_space i \<noteq> []" "journal = None \<or> journal = Some (sqlite_Append jv)"
    and "ckpt_run sqlite_Delete
      (b, WithCompactionWindow k (NewCheckpointWriterForStore (Some (journal, Save jv)) i), db, a) (b', w', db', a')"
    and "hasBase w'"
  shows "int (length (delta_rows db' i)) \<le> (if 0 < k then k else DefaultCheckpointCompaction)"
proof -
  let ?w = "WithCompactionWindow k (NewCheckpointWriterForStore (Some (journal, Save jv)) i)"
  have i: "i \<noteq> []" using assms(1) by (auto simp: trim_space_def)
  have w: "sqlite_writer jv ?w" "\<not> hasBase ?w" "wexecID ?w = i"
    "window ?w = (if 0 < k then k else DefaultCheckpointCompaction)"
    using assms(2) i by (auto simp: WithCompactionWindow_def NewCheckpointWriterForStore_def blank_writer_def
        CheckpointCapabilitiesForStore_def sqlite_writer_def DefaultCheckpointCompaction_def)
  have "chain_bounded (b, ?w, db, a)" using w by (simp add: chain_bounded_def)
  from run_bounded [OF assms(3) _ this, of jv] w ckpt_run_keeps [OF assms(3)] assms(4) show ?thesis
    by (auto simp: chain_bounded_def)
qed

theorem replay_bounded_by_window_witness:
  "\<exists>b w db a. ckpt_run sqlite_Delete ckpt_demo (b, w, db, a) \<and> length (delta_rows db ''r'') = 1 \<and>
     int (length (delta_rows db ''r'')) \<le> 4"
proof -
  obtain w db where r: "ckpt_run sqlite_Delete ckpt_demo
      (SetVar ''x'' (VInt 7) NewBoard, w, db, Some (ckpt_demo_meta ''c'' 3, SetVar ''x'' (VInt 7) NewBoard))"
    and hb: "hasBase w" "length (delta_rows db ''r'') = 1"
    using ckpt_demo_run ckpt_demo_final by metis
  have "trim_space ''r'' \<noteq> []" by (simp add: trim_space_def is_space_def)
  from replay_bounded_by_window [OF this disjI2 [OF refl] r [unfolded ckpt_demo_def] hb(1)]
  have "int (length (delta_rows db ''r'')) \<le> 4" by simp
  with r hb(2) show ?thesis by blast
qed

end
