(* ===== verification/Graph_Definition.thy ===== *)
theory Graph_Definition
  imports Graph_Parallel Resource_Reference Agent_Checkpoint
begin

text \<open>
  From a graph definition to an executable graph: \<open>core/graph/definition.go\<close>, \<open>condition.go\<close>,
  \<open>options.go\<close>, \<open>node.go\<close>, \<open>registry.go\<close>, \<open>resolve.go\<close>, \<open>resume.go\<close> and \<open>Build\<close> of \<open>graph.go\<close>.

  A raw JSON message is its text; \<open>encoding/json\<close> is the record \<open>jsonlib\<close> (\<open>jparse\<close> gives the
  decoded value or \<open>None\<close>, \<open>jprint\<close> the encoding) and \<open>expr-lang\<close> the record \<open>exprlib\<close>: whether an
  expression compiles to a boolean program, and what running it in an environment returns. A compiled
  program is represented by its source. Node handlers are arguments of the registry: they act on the
  board and on the surrounding world \<open>'w\<close> (context, host, network), which the engine only passes on.
  The type-erasing closures and the reflection over a config struct enter as the record \<open>erasedType\<close>.
\<close>

subsection \<open>Definitions\<close>

definition END :: string where
  "END = ''__end__''"

definition VarInterruptedNode :: string where
  "VarInterruptedNode = ''__interrupted_node''"

definition VarToolCalls :: string where
  "VarToolCalls = ''__tool_calls''"

definition VarIterations :: string where
  "VarIterations = ''__iterations''"

record NodeDefinition =
  nID :: string
  nType :: string
  nConfig :: string
  SkipCondition :: string

record EdgeDefinition =
  edFrom :: string
  edTo :: string
  edCondition :: string

record GraphDefinition =
  gdName :: string
  gdVersion :: string
  gdEntry :: string
  gdNodes :: "NodeDefinition list"
  gdEdges :: "EdgeDefinition list"

text \<open>The node loop of \<open>Validate\<close>; \<open>seen\<close> is \<open>nodeIDs\<close>.\<close>

fun validate_nodes :: "string list \<Rightarrow> NodeDefinition list \<Rightarrow> go_error + string list" where
  "validate_nodes seen [] = Inr seen"
| "validate_nodes seen (n # ns) =
     (if nID n = [] then Inl (errf Validation ''node ID is required'')
      else if List.member seen (nID n) then Inl (errf Validation ''duplicate node ID'')
      else if nType n = [] then Inl (errf Validation ''node: type is required'')
      else validate_nodes (nID n # seen) ns)"

definition validate_edge :: "string list \<Rightarrow> EdgeDefinition \<Rightarrow> err" where
  "validate_edge nodeIDs e =
     (if \<not> List.member nodeIDs (edFrom e) then Some (errf Validation ''edge from unknown node'')
      else if edTo e \<noteq> END \<and> \<not> List.member nodeIDs (edTo e) then Some (errf Validation ''edge to unknown node'')
      else None)"

definition GraphDefinition_Validate :: "GraphDefinition \<Rightarrow> err" where
  "GraphDefinition_Validate d =
     (if gdName d = [] then Some (errf Validation ''graph name is required'')
      else if gdEntry d = [] then Some (errf Validation ''graph entry node is required'')
      else if length (gdNodes d) = 0 then Some (errf Validation ''graph must have at least one node'')
      else case validate_nodes [] (gdNodes d) of
        Inl e \<Rightarrow> Some e
      | Inr nodeIDs \<Rightarrow>
          if \<not> List.member nodeIDs (gdEntry d) then Some (errf Validation ''entry node not found in nodes'')
          else first_some (map (validate_edge nodeIDs) (gdEdges d)))"

subsection \<open>Conditions\<close>

record exprlib =
  expr_Compile :: "string \<Rightarrow> err"
  expr_Run :: "string \<Rightarrow> (string, val) fmap \<Rightarrow> go_error + val"

definition compileCondition :: "exprlib \<Rightarrow> string \<Rightarrow> go_error + string" where
  "compileCondition ex raw =
     (case expr_Compile ex raw of
        Some e \<Rightarrow> Inl (errf_w Validation ''invalid condition expression'' e)
      | None \<Rightarrow> Inr raw)"

definition condition_evaluate :: "exprlib \<Rightarrow> string \<Rightarrow> (string, val) fmap \<Rightarrow> go_error + bool" where
  "condition_evaluate ex raw env =
     (case expr_Run ex raw env of
        Inl e \<Rightarrow> Inl (errf_w Validation ''condition evaluation failed'' e)
      | Inr (VBool b) \<Rightarrow> Inr b
      | Inr _ \<Rightarrow> Inl (errf Validation ''condition did not evaluate to a boolean''))"

definition condition_Evaluate :: "exprlib \<Rightarrow> string \<Rightarrow> Board \<Rightarrow> go_error + bool" where
  "condition_Evaluate ex raw board = condition_evaluate ex raw (vars board)"

definition conditionEnv :: "Board \<Rightarrow> int \<Rightarrow> (string, val) fmap" where
  "conditionEnv board iterations = fmupd VarIterations (VInt iterations) (vars board)"

subsection \<open>Roles\<close>

datatype RoleKind = RoleVar | RoleMessages | UnknownRoleKind string

record IORole =
  roKind :: RoleKind
  roName :: string
  ConfigKey :: string
  roRequired :: bool

record Meta =
  Reads :: "IORole list"
  Writes :: "IORole list"

record resolvedRole =
  rrKind :: RoleKind
  rrKey :: string
  rrRequired :: bool

record jsonlib =
  jparse :: "string \<Rightarrow> val option"
  jprint :: "val \<Rightarrow> string option"

text \<open>\<open>json.Unmarshal\<close> into \<open>map[string]json.RawMessage\<close>: \<open>None\<close> when the text is not an object.
  \<open>null\<close> leaves the map nil.\<close>

definition json_fields :: "jsonlib \<Rightarrow> string \<Rightarrow> (string, val) fmap option" where
  "json_fields js raw =
     (case jparse js raw of Some (VMap m) \<Rightarrow> Some m | Some VNil \<Rightarrow> Some fmempty | _ \<Rightarrow> None)"

text \<open>The key a config field supplies: \<open>Inr None\<close> when an optional field is absent. A JSON \<open>null\<close>
  leaves the Go string as it was, which is the role's static name.\<close>

definition role_config_key :: "jsonlib \<Rightarrow> IORole \<Rightarrow> string \<Rightarrow> go_error + string option" where
  "role_config_key js r raw =
     (case (if raw = [] then Some fmempty else json_fields js raw) of
        None \<Rightarrow> Inl (errf Validation ''node type: config is not a JSON object'')
      | Some flds \<Rightarrow>
        (case fmlookup flds (ConfigKey r) of
           None \<Rightarrow> if roRequired r
                    then Inl (errf Validation ''node type: required role key field missing from config'')
                    else Inr None
         | Some v \<Rightarrow>
           (case (case v of VString s \<Rightarrow> Some s | VNil \<Rightarrow> Some (roName r) | _ \<Rightarrow> None) of
              None \<Rightarrow> Inl (errf Validation ''node type: role key field must be a string'')
            | Some key \<Rightarrow>
                if ContainsBoardRef (VString key)
                then Inl (errf Validation ''node type: role key field must be a constant'')
                else Inr (Some key))))"

definition role_resolve :: "jsonlib \<Rightarrow> IORole \<Rightarrow> string \<Rightarrow> go_error + resolvedRole option" where
  "role_resolve js r raw =
     (case (if ConfigKey r \<noteq> [] then role_config_key js r raw else Inr (Some (roName r))) of
        Inl e \<Rightarrow> Inl e
      | Inr None \<Rightarrow> Inr None
      | Inr (Some key0) \<Rightarrow>
          (let key = (if roKind r = RoleMessages \<and> key0 = [] then MainChannel else key0) in
           if roKind r = RoleVar \<and> key = []
           then Inl (errf Validation ''node type: var role resolves to an empty key'')
           else Inr (Some \<lparr>rrKind = roKind r, rrKey = key, rrRequired = roRequired r\<rparr>)))"

subsection \<open>The registry\<close>

record ExecutionContext =
  ecNodeID :: string
  ecNodeType :: string
  ecGraphID :: string

type_synonym 'w handler = "ExecutionContext \<Rightarrow> Board \<Rightarrow> val \<Rightarrow> 'w \<Rightarrow> err \<times> Board \<times> 'w"
type_synonym 'w fallback_handler = "ExecutionContext \<Rightarrow> Board \<Rightarrow> string \<Rightarrow> string \<Rightarrow> 'w \<Rightarrow> err \<times> Board \<times> 'w"

record 'w erasedType =
  emeta :: Meta
  configFields :: "string fset option"
  validateNode :: "(string \<Rightarrow> string \<Rightarrow> err) option"
  edecode :: "string \<Rightarrow> go_error + val"
  einvoke :: "'w handler"

record 'w Registry =
  rtypes :: "string \<Rightarrow> 'w erasedType option"
  rfallback :: "'w fallback_handler option"

definition NewRegistry :: "'w Registry" where
  "NewRegistry = \<lparr>rtypes = (\<lambda>_. None), rfallback = None\<rparr>"

definition validate_role :: "'w erasedType \<Rightarrow> IORole \<Rightarrow> err" where
  "validate_role et role =
     (case roKind role of
        UnknownRoleKind _ \<Rightarrow> Some (errf Validation ''graph: node type: unknown role kind'')
      | _ \<Rightarrow>
        if (roName role = []) = (ConfigKey role = []) then
          Some (errf Validation ''graph: node type: role must set exactly one of Name/ConfigKey'')
        else case configFields et of
          None \<Rightarrow> None
        | Some fs \<Rightarrow>
            if ConfigKey role \<noteq> [] \<and> ConfigKey role |\<notin>| fs
            then Some (errf Validation ''graph: node type: role ConfigKey is not a field of the config struct'')
            else None)"

definition erasedType_validate :: "'w erasedType \<Rightarrow> err" where
  "erasedType_validate et = first_some (map (validate_role et) (Reads (emeta et) @ Writes (emeta et)))"

text \<open>\<open>RegisterType\<close>; \<open>hasHandler\<close> is whether the node type carries a handler.\<close>

definition RegisterType :: "string \<Rightarrow> bool \<Rightarrow> 'w erasedType \<Rightarrow> 'w Registry \<Rightarrow> go_error + 'w Registry" where
  "RegisterType typeName hasHandler et r =
     (if typeName = [] then Inl (errf Validation ''graph: node type name is required'')
      else if \<not> hasHandler then Inl (errf Validation ''graph: node type: handler is required'')
      else if rtypes r typeName \<noteq> None then Inl (errf Conflict ''graph: node type already registered'')
      else case erasedType_validate et of
        Some e \<Rightarrow> Inl e
      | None \<Rightarrow> Inr (r\<lparr>rtypes := (rtypes r)(typeName := Some et)\<rparr>))"

definition RegisterFallback :: "'w fallback_handler \<Rightarrow> 'w Registry \<Rightarrow> 'w Registry" where
  "RegisterFallback fn r = r\<lparr>rfallback := Some fn\<rparr>"

subsection \<open>Building\<close>

record buildOptions =
  maxIterations :: int
  btimeout :: int
  runEndPublishTimeout :: int
  bparallel :: ParallelConfig
  maxNodeRetries :: int
  checkpointCompaction :: int

definition buildOptions_validate :: "buildOptions \<Rightarrow> err" where
  "buildOptions_validate o1 =
     (if maxIterations o1 < 0 then Some (errf Validation ''graph: max iterations must be >= 0'')
      else if btimeout o1 < 0 then Some (errf Validation ''graph: timeout must be >= 0'')
      else if runEndPublishTimeout o1 \<le> 0 then Some (errf Validation ''graph: run-end publish timeout must be > 0'')
      else if maxNodeRetries o1 < 0 then Some (errf Validation ''graph: max node retries must be >= 0'')
      else if checkpointCompaction o1 < 0 then
        Some (errf Validation ''graph: checkpoint compaction must be >= 0'')
      else ParallelConfig_validate (bparallel o1))"

definition defaultBuildOptions :: buildOptions where
  "defaultBuildOptions = \<lparr>maxIterations = 100, btimeout = 0, runEndPublishTimeout = 5000000000,
     bparallel = \<lparr>Enabled = False, BranchTimeout = 0, MaxConcurrency = 0, MaxBranches = 0,
       pcStrategy = NoStrategy, pcMerge = None\<rparr>, maxNodeRetries = 0, checkpointCompaction = 0\<rparr>"

datatype 'w behaviour =
  Registered "string \<Rightarrow> go_error + val" "'w handler"
| Fallback "'w fallback_handler"

record 'w nodeSlot =
  slotDef :: NodeDefinition
  behave :: "'w behaviour"
  skipCondition :: "string option"
  reads :: "resolvedRole list"
  writes :: "resolvedRole list"

record Edge =
  eFrom :: string
  eTo :: string
  eCondition :: "string option"

record 'w Graph =
  gname :: string
  specVersion :: string
  gentry :: string
  gnodes :: "string \<Rightarrow> 'w nodeSlot option"
  gorder :: "string list"
  gedges :: "string \<Rightarrow> Edge list"
  goptions :: buildOptions

definition checkConfigFields :: "jsonlib \<Rightarrow> NodeDefinition \<Rightarrow> 'w erasedType \<Rightarrow> err" where
  "checkConfigFields js nd et =
     (case configFields et of
        None \<Rightarrow> None
      | Some known \<Rightarrow>
        if nConfig nd = [] then None
        else case json_fields js (nConfig nd) of
          None \<Rightarrow> Some (errf Validation ''graph: node: config is not a JSON object'')
        | Some flds \<Rightarrow>
            if fmdom flds |\<subseteq>| known then None
            else Some (errf Validation ''graph: node: unknown config field''))"

fun resolve_roles :: "jsonlib \<Rightarrow> string \<Rightarrow> IORole list \<Rightarrow> go_error + resolvedRole list" where
  "resolve_roles js raw [] = Inr []"
| "resolve_roles js raw (r # rs) =
     (case role_resolve js r raw of
        Inl e \<Rightarrow> Inl e
      | Inr rr \<Rightarrow> (case resolve_roles js raw rs of
                    Inl e \<Rightarrow> Inl e
                  | Inr rrs \<Rightarrow> Inr ((case rr of None \<Rightarrow> [] | Some x \<Rightarrow> [x]) @ rrs)))"

definition compile_opt :: "exprlib \<Rightarrow> string \<Rightarrow> go_error + string option" where
  "compile_opt ex raw =
     (if raw = [] then Inr None
      else case compileCondition ex raw of Inl e \<Rightarrow> Inl e | Inr c \<Rightarrow> Inr (Some c))"

definition buildNodeSlot :: "jsonlib \<Rightarrow> exprlib \<Rightarrow> NodeDefinition \<Rightarrow> 'w Registry \<Rightarrow> go_error + 'w nodeSlot" where
  "buildNodeSlot js ex nd reg =
     (case (case rtypes reg (nType nd) of
              None \<Rightarrow>
                (case rfallback reg of
                   None \<Rightarrow> Inl (errf NotFound ''graph: node: unregistered type'')
                 | Some fb \<Rightarrow> Inr (Fallback fb, [], []))
            | Some et \<Rightarrow>
                (case checkConfigFields js nd et of
                   Some e \<Rightarrow> Inl e
                 | None \<Rightarrow>
                   (case (case validateNode et of None \<Rightarrow> None | Some v \<Rightarrow> v (nID nd) (nConfig nd)) of
                      Some e \<Rightarrow> Inl e
                    | None \<Rightarrow>
                      (case resolve_roles js (nConfig nd) (Reads (emeta et)) of
                         Inl e \<Rightarrow> Inl e
                       | Inr rs \<Rightarrow>
                         (case resolve_roles js (nConfig nd) (Writes (emeta et)) of
                            Inl e \<Rightarrow> Inl e
                          | Inr ws \<Rightarrow> Inr (Registered (edecode et) (einvoke et), rs, ws)))))) of
        Inl e \<Rightarrow> Inl e
      | Inr (bh, rs, ws) \<Rightarrow>
        (case compile_opt ex (SkipCondition nd) of
           Inl e \<Rightarrow> Inl e
         | Inr skip \<Rightarrow> Inr \<lparr>slotDef = nd, behave = bh, skipCondition = skip, reads = rs, writes = ws\<rparr>))"

definition add_node :: "jsonlib \<Rightarrow> exprlib \<Rightarrow> 'w Registry \<Rightarrow> NodeDefinition \<Rightarrow> 'w Graph \<Rightarrow> go_error + 'w Graph" where
  "add_node js ex reg nd g =
     (case buildNodeSlot js ex nd reg of
        Inl e \<Rightarrow> Inl e
      | Inr slot \<Rightarrow> Inr (g\<lparr>gnodes := (gnodes g)(nID nd := Some slot), gorder := gorder g @ [nID nd]\<rparr>))"

definition add_edge :: "exprlib \<Rightarrow> EdgeDefinition \<Rightarrow> 'w Graph \<Rightarrow> go_error + 'w Graph" where
  "add_edge ex ed g =
     (case compile_opt ex (edCondition ed) of
        Inl e \<Rightarrow> Inl e
      | Inr c \<Rightarrow> Inr (g\<lparr>gedges := (gedges g)(edFrom ed :=
          gedges g (edFrom ed) @ [\<lparr>eFrom = edFrom ed, eTo = edTo ed, eCondition = c\<rparr>])\<rparr>))"

definition Build ::
  "jsonlib \<Rightarrow> exprlib \<Rightarrow> GraphDefinition option \<Rightarrow> 'w Registry option \<Rightarrow> buildOptions \<Rightarrow> go_error + 'w Graph" where
  "Build js ex def reg opts =
     (case def of
        None \<Rightarrow> Inl (errf Validation ''graph: definition is required'')
      | Some d \<Rightarrow>
        (case GraphDefinition_Validate d of
           Some e \<Rightarrow> Inl e
         | None \<Rightarrow>
           (case reg of
              None \<Rightarrow> Inl (errf Validation ''graph: registry is required'')
            | Some r \<Rightarrow>
              (case buildOptions_validate opts of
                 Some e \<Rightarrow> Inl e
               | None \<Rightarrow>
                 (let g0 = \<lparr>gname = gdName d,
                            specVersion = (if gdVersion d \<noteq> [] then gdVersion d else gdName d),
                            gentry = gdEntry d, gnodes = (\<lambda>_. None), gorder = [], gedges = (\<lambda>_. []),
                            goptions = opts\<rparr>
                  in case fold_err (add_node js ex r) (gdNodes d) g0 of
                       Inl e \<Rightarrow> Inl e
                     | Inr g1 \<Rightarrow> fold_err (add_edge ex) (gdEdges d) g1)))))"

text \<open>\<open>resolveConfig\<close>: the references of a raw config resolved against the board, re-encoded.
  \<open>rstr\<close> is the board's \<open>ResolveString\<close>.\<close>

definition resolveConfig :: "jsonlib \<Rightarrow> (Board \<Rightarrow> string \<Rightarrow> go_error + val) \<Rightarrow> string \<Rightarrow> Board \<Rightarrow> go_error + string" where
  "resolveConfig js rstr raw board =
     (if raw = [] \<or> \<not> contains_str raw BoardRefMarker then Inr raw
      else case jparse js raw of
        None \<Rightarrow> Inl (errf Validation ''node config is not valid JSON'')
      | Some v \<Rightarrow>
        (case Board_Resolve (rstr board) v of
           Inl e \<Rightarrow> Inl (errf_w Validation ''node config'' e)
         | Inr resolved \<Rightarrow>
           (case jprint js resolved of
              None \<Rightarrow> Inl (errf Internal ''failed to re-encode resolved node config'')
            | Some out \<Rightarrow> Inr out)))"

subsection \<open>Resuming\<close>

definition CanResume :: "'w Graph \<Rightarrow> Checkpoint \<Rightarrow> err" where
  "CanResume g cp =
     (if cpSpecVersion cp \<noteq> [] \<and> cpSpecVersion cp \<noteq> specVersion g then
        Some (errf NotAvailable ''graph: checkpoint spec version does not match current graph spec'')
      else if slen (cpSteps cp) = 0 then Some (errf Validation ''graph: checkpoint has no position marker'')
      else if list_ex (\<lambda>i. gnodes g i = None) (elems (cpSteps cp)) then
        Some (errf Validation ''graph: checkpoint node not found'')
      else if cpBoard cp = None then Some (errf Validation ''graph: checkpoint carries no board state'')
      else if maxIterations (goptions g) > 0 \<and> cpIteration cp > maxIterations (goptions g) then
        Some (errf Validation ''graph: checkpoint iteration exceeds max iterations'')
      else None)"

record Stats =
  stNodes :: nat
  stEdges :: nat
  stNodeTypes :: nat
  stMaxIterations :: int
  stParallelEnabled :: bool

definition Graph_Stats :: "'w Graph \<Rightarrow> Stats" where
  "Graph_Stats g =
     \<lparr>stNodes = length (gorder g),
      stEdges = sum_list (map (\<lambda>i. length (gedges g i)) (gorder g)),
      stNodeTypes = length (remdups (map (\<lambda>i. nType (slotDef (the (gnodes g i)))) (gorder g))),
      stMaxIterations = maxIterations (goptions g),
      stParallelEnabled = Enabled (bparallel (goptions g))\<rparr>"

subsection \<open>Lemmas on validation\<close>

lemma validate_nodes_Inr:
  "validate_nodes seen ns = Inr ids \<Longrightarrow>
    ids = rev (map nID ns) @ seen \<and> (distinct seen \<longrightarrow> distinct ids) \<and> [] \<notin> set (map nID ns) \<and>
    (\<forall>n \<in> set ns. nType n \<noteq> [])"
  by (induction seen ns rule: validate_nodes.induct) (auto simp: disjoint_iff split: if_splits)

lemma validate_nodes_Inl: "validate_nodes seen ns = Inl e \<Longrightarrow> \<exists>m. e = errf Validation m"
  by (induction seen ns rule: validate_nodes.induct) (auto split: if_splits)

definition well_formed :: "GraphDefinition \<Rightarrow> bool" where
  "well_formed d \<longleftrightarrow> gdName d \<noteq> [] \<and> gdEntry d \<in> nID ` set (gdNodes d) \<and>
     distinct (map nID (gdNodes d)) \<and> (\<forall>n \<in> set (gdNodes d). nID n \<noteq> [] \<and> nType n \<noteq> []) \<and>
     (\<forall>e \<in> set (gdEdges d). edFrom e \<in> nID ` set (gdNodes d) \<and>
        (edTo e = END \<or> edTo e \<in> nID ` set (gdNodes d)))"

lemma validate_edge_None:
  "validate_edge ids e = None \<longleftrightarrow> edFrom e \<in> set ids \<and> (edTo e = END \<or> edTo e \<in> set ids)"
  by (simp add: validate_edge_def)

lemma validate_nodes_total:
  assumes "distinct (rev (map nID ns) @ seen)" "\<forall>n \<in> set ns. nID n \<noteq> [] \<and> nType n \<noteq> []"
  shows "validate_nodes seen ns = Inr (rev (map nID ns) @ seen)"
  using assms by (induction seen ns rule: validate_nodes.induct) auto

lemma Validate_iff: "GraphDefinition_Validate d = None \<longleftrightarrow> well_formed d"
proof
  assume v: "GraphDefinition_Validate d = None"
  then obtain ids where ids: "validate_nodes [] (gdNodes d) = Inr ids"
    and r: "gdName d \<noteq> []" "gdEntry d \<in> set ids" "\<forall>e \<in> set (gdEdges d). validate_edge ids e = None"
    by (auto simp: GraphDefinition_Validate_def split: if_splits sum.splits)
  note n = validate_nodes_Inr [OF ids]
  have s: "set ids = nID ` set (gdNodes d)" using n by simp
  have "distinct (map nID (gdNodes d))" using n by (auto simp: distinct_rev)
  moreover have "\<forall>k \<in> set (gdNodes d). nID k \<noteq> [] \<and> nType k \<noteq> []"
    using n by (metis image_eqI list.set_map)
  ultimately show "well_formed d"
    using r s by (auto simp: well_formed_def validate_edge_None)
next
  assume w: "well_formed d"
  then have "validate_nodes [] (gdNodes d) = Inr (rev (map nID (gdNodes d)))"
    using validate_nodes_total [of "gdNodes d" "[]"] by (simp add: well_formed_def distinct_rev)
  moreover have "gdEntry d \<noteq> []" "gdNodes d \<noteq> []" using w by (auto simp: well_formed_def)
  ultimately show "GraphDefinition_Validate d = None"
    using w by (auto simp: GraphDefinition_Validate_def well_formed_def validate_edge_None)
qed

lemma Validate_class: "GraphDefinition_Validate d = Some e \<Longrightarrow> \<exists>m. e = errf Validation m"
  by (auto simp: GraphDefinition_Validate_def validate_edge_def dest!: validate_nodes_Inl first_some_SomeD
      split: if_splits sum.splits)

subsection \<open>Lemmas on building\<close>

lemma role_resolve_key:
  assumes "role_resolve js r raw = Inr (Some rr)" "roKind r = RoleVar \<or> roKind r = RoleMessages"
  shows "rrKey rr \<noteq> [] \<and> rrKind rr = roKind r \<and> rrRequired rr = roRequired r"
  using assms by (auto simp: role_resolve_def Let_def MainChannel_def split: sum.splits option.splits if_splits)

lemma resolve_roles_from:
  "resolve_roles js raw rs = Inr rrs \<Longrightarrow> rr \<in> set rrs \<Longrightarrow> \<exists>r \<in> set rs. role_resolve js r raw = Inr (Some rr)"
  by (induction rs arbitrary: rrs) (auto split: sum.splits option.splits)

lemma add_nodes_spec:
  assumes "fold_err (add_node js ex reg) ns g = Inr g'" "distinct (map nID ns)"
  shows "gorder g' = gorder g @ map nID ns \<and> gedges g' = gedges g \<and> gname g' = gname g \<and>
    gentry g' = gentry g \<and> specVersion g' = specVersion g \<and> goptions g' = goptions g \<and>
    (\<forall>nd \<in> set ns. \<exists>slot. buildNodeSlot js ex nd reg = Inr slot \<and> gnodes g' (nID nd) = Some slot) \<and>
    (\<forall>i. i \<notin> nID ` set ns \<longrightarrow> gnodes g' i = gnodes g i)"
  using assms
proof (induction ns arbitrary: g)
  case Nil
  then show ?case by simp
next
  case (Cons nd ns)
  from Cons.prems(1) obtain slot where slot: "buildNodeSlot js ex nd reg = Inr slot"
    and g': "fold_err (add_node js ex reg) ns
      (g\<lparr>gnodes := (gnodes g)(nID nd := Some slot), gorder := gorder g @ [nID nd]\<rparr>) = Inr g'"
    by (auto simp: add_node_def [of js ex reg nd g] split: sum.splits)
  show ?case
    using Cons.IH [OF g'] Cons.prems(2) slot by auto
qed

definition compiled :: "EdgeDefinition \<Rightarrow> Edge" where
  "compiled ed = \<lparr>eFrom = edFrom ed, eTo = edTo ed,
     eCondition = (if edCondition ed = [] then None else Some (edCondition ed))\<rparr>"

lemma compile_opt_Inr: "compile_opt ex raw = Inr c \<Longrightarrow> c = (if raw = [] then None else Some raw)"
  by (auto simp: compile_opt_def compileCondition_def split: if_splits option.splits)

lemma compile_opt_Inl: "compile_opt ex raw = Inl e \<Longrightarrow> \<exists>m e'. e = errf_w Validation m e'"
  by (auto simp: compile_opt_def compileCondition_def split: if_splits option.splits)

lemma add_edges_spec:
  assumes "fold_err (add_edge ex) es g = Inr g'"
  shows "gorder g' = gorder g \<and> gnodes g' = gnodes g \<and> gname g' = gname g \<and> gentry g' = gentry g \<and>
    specVersion g' = specVersion g \<and> goptions g' = goptions g \<and>
    (\<forall>i. gedges g' i = gedges g i @ map compiled (filter (\<lambda>e. edFrom e = i) es))"
  using assms
proof (induction es arbitrary: g)
  case Nil
  then show ?case by simp
next
  case (Cons ed es)
  from Cons.prems(1) obtain c where c: "compile_opt ex (edCondition ed) = Inr c"
    and g': "fold_err (add_edge ex) es (g\<lparr>gedges := (gedges g)(edFrom ed :=
        gedges g (edFrom ed) @ [\<lparr>eFrom = edFrom ed, eTo = edTo ed, eCondition = c\<rparr>])\<rparr>) = Inr g'"
    by (auto simp: add_edge_def [of ex ed g] split: sum.splits)
  have "\<lparr>eFrom = edFrom ed, eTo = edTo ed, eCondition = c\<rparr> = compiled ed"
    using compile_opt_Inr [OF c] by (simp add: compiled_def)
  then show ?case using Cons.IH [OF g'] by auto
qed

lemma buildNodeSlot_Inr:
  assumes "buildNodeSlot js ex nd reg = Inr slot"
  shows "slotDef slot = nd \<and> skipCondition slot = (if SkipCondition nd = [] then None else Some (SkipCondition nd)) \<and>
    (case rtypes reg (nType nd) of
       None \<Rightarrow> rfallback reg \<noteq> None \<and> behave slot = Fallback (the (rfallback reg)) \<and> reads slot = [] \<and> writes slot = []
     | Some et \<Rightarrow> behave slot = Registered (edecode et) (einvoke et) \<and>
         resolve_roles js (nConfig nd) (Reads (emeta et)) = Inr (reads slot) \<and>
         resolve_roles js (nConfig nd) (Writes (emeta et)) = Inr (writes slot))"
  using assms compile_opt_Inr [of ex "SkipCondition nd"]
  by (auto simp: buildNodeSlot_def split: option.splits sum.splits)

text \<open>The types of a registry built by \<open>RegisterType\<close> have well-formed roles.\<close>

definition registry_ok :: "'w Registry \<Rightarrow> bool" where
  "registry_ok reg \<longleftrightarrow> (\<forall>t et. rtypes reg t = Some et \<longrightarrow> erasedType_validate et = None)"

lemma RegisterType_ok: "registry_ok r \<Longrightarrow> RegisterType t hasHandler et r = Inr r' \<Longrightarrow> registry_ok r'"
  by (auto simp: RegisterType_def registry_ok_def split: if_splits option.splits)

lemma registered_role_kind:
  assumes "registry_ok reg" "rtypes reg t = Some et" "r \<in> set (Reads (emeta et) @ Writes (emeta et))"
  shows "roKind r = RoleVar \<or> roKind r = RoleMessages"
proof -
  have "validate_role et r = None"
    using assms by (auto simp: registry_ok_def erasedType_validate_def)
  then show ?thesis by (auto simp: validate_role_def split: RoleKind.splits)
qed

lemma slot_roles_ok:
  assumes "buildNodeSlot js ex nd reg = Inr slot" "registry_ok reg" "rr \<in> set (reads slot @ writes slot)"
  shows "rrKey rr \<noteq> [] \<and> (rrKind rr = RoleVar \<or> rrKind rr = RoleMessages)"
proof -
  obtain et where et: "rtypes reg (nType nd) = Some et"
    and rw: "resolve_roles js (nConfig nd) (Reads (emeta et)) = Inr (reads slot)"
      "resolve_roles js (nConfig nd) (Writes (emeta et)) = Inr (writes slot)"
    using buildNodeSlot_Inr [OF assms(1)] assms(3) by (auto split: option.splits)
  obtain r where r: "r \<in> set (Reads (emeta et) @ Writes (emeta et))" "role_resolve js r (nConfig nd) = Inr (Some rr)"
    using resolve_roles_from [OF rw(1), of rr] resolve_roles_from [OF rw(2), of rr] assms(3) by auto
  note k = registered_role_kind [OF assms(2) et r(1)]
  show ?thesis using role_resolve_key [OF r(2) k] k by auto
qed

text \<open>A successful build split into its node and edge loops.\<close>

lemma Build_Inr:
  assumes "Build js ex def reg opts = Inr g"
  obtains d r g1 where "def = Some d" "reg = Some r" "well_formed d" "buildOptions_validate opts = None"
    "fold_err (add_node js ex r) (gdNodes d)
       \<lparr>gname = gdName d, specVersion = (if gdVersion d \<noteq> [] then gdVersion d else gdName d),
        gentry = gdEntry d, gnodes = (\<lambda>_. None), gorder = [], gedges = (\<lambda>_. []), goptions = opts\<rparr> = Inr g1"
    "fold_err (add_edge ex) (gdEdges d) g1 = Inr g"
  using assms by (auto simp: Build_def Let_def Validate_iff [symmetric] split: option.splits sum.splits)

definition graph_ok :: "'w Graph \<Rightarrow> bool" where
  "graph_ok g \<longleftrightarrow> distinct (gorder g) \<and> gentry g \<in> set (gorder g) \<and>
     (\<forall>i. gnodes g i \<noteq> None \<longleftrightarrow> i \<in> set (gorder g)) \<and>
     (\<forall>i slot. gnodes g i = Some slot \<longrightarrow> nID (slotDef slot) = i) \<and>
     (\<forall>i e. e \<in> set (gedges g i) \<longrightarrow> eFrom e = i \<and> i \<in> set (gorder g) \<and>
        (eTo e = END \<or> eTo e \<in> set (gorder g)))"

lemma Build_facts:
  assumes "Build js ex (Some d) (Some r) opts = Inr g"
  shows "gorder g = map nID (gdNodes d)" "gentry g = gdEntry d" "goptions g = opts" "well_formed d"
    "specVersion g = (if gdVersion d \<noteq> [] then gdVersion d else gdName d)" "buildOptions_validate opts = None"
    "gedges g i = map compiled (filter (\<lambda>e. edFrom e = i) (gdEdges d))"
    "nd \<in> set (gdNodes d) \<Longrightarrow> \<exists>slot. buildNodeSlot js ex nd r = Inr slot \<and> gnodes g (nID nd) = Some slot"
    "j \<notin> nID ` set (gdNodes d) \<Longrightarrow> gnodes g j = None"
proof -
  obtain g1 where w: "well_formed d" and op: "buildOptions_validate opts = None"
    and n: "fold_err (add_node js ex r) (gdNodes d)
       \<lparr>gname = gdName d, specVersion = (if gdVersion d \<noteq> [] then gdVersion d else gdName d),
        gentry = gdEntry d, gnodes = (\<lambda>_. None), gorder = [], gedges = (\<lambda>_. []), goptions = opts\<rparr> = Inr g1"
    and e: "fold_err (add_edge ex) (gdEdges d) g1 = Inr g"
    using assms by (auto elim: Build_Inr)
  have dis: "distinct (map nID (gdNodes d))" using w by (simp add: well_formed_def)
  note N = add_nodes_spec [OF n dis] and E = add_edges_spec [OF e]
  show "gorder g = map nID (gdNodes d)" "gentry g = gdEntry d" "goptions g = opts" "well_formed d"
    "specVersion g = (if gdVersion d \<noteq> [] then gdVersion d else gdName d)" "buildOptions_validate opts = None"
    "gedges g i = map compiled (filter (\<lambda>e. edFrom e = i) (gdEdges d))"
    "nd \<in> set (gdNodes d) \<Longrightarrow> \<exists>slot. buildNodeSlot js ex nd r = Inr slot \<and> gnodes g (nID nd) = Some slot"
    "j \<notin> nID ` set (gdNodes d) \<Longrightarrow> gnodes g j = None"
    using N E w op by simp_all
qed

lemma Build_graph_ok:
  assumes "Build js ex (Some d) (Some r) opts = Inr g"
  shows "graph_ok g"
proof -
  note F = Build_facts [OF assms]
  have w: "distinct (map nID (gdNodes d))" "gdEntry d \<in> nID ` set (gdNodes d)"
    "\<forall>e \<in> set (gdEdges d). edFrom e \<in> nID ` set (gdNodes d) \<and> (edTo e = END \<or> edTo e \<in> nID ` set (gdNodes d))"
    using F(4) by (simp_all add: well_formed_def)
  have nodes: "gnodes g i \<noteq> None \<longleftrightarrow> i \<in> set (gorder g)" for i
    using F(8) F(9) [of i] F(1) by (cases "i \<in> nID ` set (gdNodes d)") auto
  have slot: "nID (slotDef s) = i" if s: "gnodes g i = Some s" for i s
  proof -
    obtain nd where nd: "nd \<in> set (gdNodes d)" "nID nd = i"
      using F(9) [of i] s by (cases "i \<in> nID ` set (gdNodes d)") auto
    then have "buildNodeSlot js ex nd r = Inr s" using F(8) [of nd] s by auto
    from buildNodeSlot_Inr [OF this] nd show ?thesis by simp
  qed
  have edges: "eFrom e = i \<and> i \<in> set (gorder g) \<and> (eTo e = END \<or> eTo e \<in> set (gorder g))"
    if "e \<in> set (gedges g i)" for i e
    using that w(3) unfolding F(7) [of i] F(1) by (auto simp: compiled_def)
  show ?thesis
    unfolding graph_ok_def using w nodes slot edges F(1,2) by auto
qed

lemma role_resolve_class: "role_resolve js r raw = Inl e \<Longrightarrow> \<exists>m. e = errf Validation m"
  by (auto simp: role_resolve_def role_config_key_def Let_def split: sum.splits option.splits if_splits)

lemma resolve_roles_class: "resolve_roles js raw rs = Inl e \<Longrightarrow> \<exists>m. e = errf Validation m"
  by (induction rs) (auto dest: role_resolve_class split: sum.splits)

lemma checkConfigFields_class: "checkConfigFields js nd et = Some e \<Longrightarrow> \<exists>m. e = errf Validation m"
  by (auto simp: checkConfigFields_def split: option.splits if_splits)

text \<open>The errors a node may fail the build with: a validation error, an unregistered type, or what the
  type's own check returned.\<close>

definition node_error :: "'w Registry \<Rightarrow> NodeDefinition \<Rightarrow> go_error \<Rightarrow> bool" where
  "node_error reg nd e \<longleftrightarrow> Is Validation (Some e) \<or>
     (rtypes reg (nType nd) = None \<and> rfallback reg = None \<and> Is NotFound (Some e)) \<or>
     (\<exists>et v. rtypes reg (nType nd) = Some et \<and> validateNode et = Some v \<and> v (nID nd) (nConfig nd) = Some e)"

lemma buildNodeSlot_Inl:
  assumes "buildNodeSlot js ex nd reg = Inl e"
  shows "node_error reg nd e"
  using assms
  by (auto simp: buildNodeSlot_def node_error_def err_simps split: option.splits sum.splits
      dest!: checkConfigFields_class resolve_roles_class compile_opt_Inl)

lemma fold_err_Inl:
  "fold_err f xs s = Inl e \<Longrightarrow> \<exists>x \<in> set xs. \<exists>s'. f x s' = Inl e"
  by (induction xs arbitrary: s) (auto split: sum.splits)

lemma options_class: "buildOptions_validate opts = Some e \<Longrightarrow> \<exists>m. e = errf Validation m"
  by (auto simp: buildOptions_validate_def ParallelConfig_validate_def split: if_splits MergeStrategy.splits)

subsection \<open>Properties\<close>

text \<open>C36. A graph that builds is sound: its nodes are the defined ones in definition order without
  duplicates, the entry is one of them, every edge starts at its node and leads to a node or to
  \<open>END\<close> in definition order, every statically resolved role has a board key, and unregistered types
  only get through when the registry has a fallback.\<close>

theorem build_sound:
  assumes "Build js ex (Some d) (Some reg) opts = Inr g" "registry_ok reg"
  shows "graph_ok g \<and> gorder g = map nID (gdNodes d) \<and> gentry g = gdEntry d \<and>
    gedges g i = map compiled (filter (\<lambda>e. edFrom e = i) (gdEdges d)) \<and>
    (gnodes g i = Some slot \<longrightarrow> slotDef slot \<in> set (gdNodes d) \<and>
      (rtypes reg (nType (slotDef slot)) = None \<longrightarrow> rfallback reg \<noteq> None) \<and>
      (\<forall>rr \<in> set (reads slot @ writes slot). rrKey rr \<noteq> [] \<and> (rrKind rr = RoleVar \<or> rrKind rr = RoleMessages)))"
proof -
  note F = Build_facts [OF assms(1)]
  have "slotDef slot \<in> set (gdNodes d) \<and> (rtypes reg (nType (slotDef slot)) = None \<longrightarrow> rfallback reg \<noteq> None) \<and>
      (\<forall>rr \<in> set (reads slot @ writes slot). rrKey rr \<noteq> [] \<and> (rrKind rr = RoleVar \<or> rrKind rr = RoleMessages))"
    if s: "gnodes g i = Some slot"
  proof -
    obtain nd where nd: "nd \<in> set (gdNodes d)" "nID nd = i"
      using F(9) [of i] s by (cases "i \<in> nID ` set (gdNodes d)") auto
    then have b: "buildNodeSlot js ex nd reg = Inr slot" using F(8) [of nd] s by auto
    show ?thesis
      using buildNodeSlot_Inr [OF b] nd slot_roles_ok [OF b assms(2)] by (auto split: option.splits)
  qed
  then show ?thesis using Build_graph_ok [OF assms(1)] F by blast
qed

theorem build_sound_witness:
  "let d = \<lparr>gdName = ''g'', gdVersion = [], gdEntry = ''a'',
        gdNodes = [\<lparr>nID = ''a'', nType = ''t'', nConfig = [], SkipCondition = []\<rparr>],
        gdEdges = [\<lparr>edFrom = ''a'', edTo = END, edCondition = []\<rparr>]\<rparr>;
      js = \<lparr>jparse = (\<lambda>_. None), jprint = (\<lambda>_. None)\<rparr>;
      ex = \<lparr>expr_Compile = (\<lambda>_. None), expr_Run = (\<lambda>_ _. Inr (VBool True))\<rparr>;
      reg = \<lparr>rtypes = (\<lambda>_. None), rfallback = Some (\<lambda>ec b t raw w. (None, b, w))\<rparr> :: unit Registry;
      g = (case Build js ex (Some d) (Some reg) defaultBuildOptions of Inr g \<Rightarrow> g) in
    graph_ok g \<and> gorder g = [''a''] \<and> length (gedges g ''a'') = 1"
proof -
  let ?d = "\<lparr>gdName = ''g'', gdVersion = [], gdEntry = ''a'',
        gdNodes = [\<lparr>nID = ''a'', nType = ''t'', nConfig = [], SkipCondition = []\<rparr>],
        gdEdges = [\<lparr>edFrom = ''a'', edTo = END, edCondition = []\<rparr>]\<rparr>"
  let ?js = "\<lparr>jparse = (\<lambda>_. None), jprint = (\<lambda>_. None)\<rparr>"
  let ?ex = "\<lparr>expr_Compile = (\<lambda>_. None), expr_Run = (\<lambda>_ _. Inr (VBool True))\<rparr>"
  let ?reg = "\<lparr>rtypes = (\<lambda>_. None), rfallback = Some (\<lambda>ec b t raw w. (None, b, w))\<rparr> :: unit Registry"
  obtain g where g: "Build ?js ?ex (Some ?d) (Some ?reg) defaultBuildOptions = Inr g"
    by (simp add: Build_def GraphDefinition_Validate_def validate_edge_def Let_def add_node_def add_edge_def
        buildNodeSlot_def compile_opt_def buildOptions_validate_def defaultBuildOptions_def
        ParallelConfig_validate_def)
  have "registry_ok ?reg" by (simp add: registry_ok_def)
  from build_sound [OF g this, of "''a''"] show ?thesis
    unfolding Let_def g by simp
qed

text \<open>A failing build reports why: apart from what a node type's own config check returns, the error
  is a validation error, or a not-found error for a type that is neither registered nor covered by a
  fallback.\<close>

theorem build_errors_classified:
  assumes "Build js ex (Some d) (Some reg) opts = Inl e"
  shows "Is Validation (Some e) \<or> (\<exists>nd \<in> set (gdNodes d). node_error reg nd e)"
proof -
  have n: "\<exists>nd \<in> set ns. node_error reg nd e" if "fold_err (add_node js ex reg) ns g = Inl e" for ns g
    using fold_err_Inl [OF that] by (fastforce simp: add_node_def intro: buildNodeSlot_Inl split: sum.split_asm)
  have ed: "Is Validation (Some e)" if "fold_err (add_edge ex) es g = Inl e" for es g
    using fold_err_Inl [OF that] by (fastforce simp: add_edge_def err_simps dest: compile_opt_Inl split: sum.split_asm)
  show ?thesis
    using assms n ed by (auto simp: Build_def Let_def err_simps dest!: Validate_class options_class split: option.splits sum.splits)
qed

theorem build_errors_classified_witness:
  "\<exists>e. Build \<lparr>jparse = (\<lambda>_. None), jprint = (\<lambda>_. None)\<rparr>
      \<lparr>expr_Compile = (\<lambda>_. None), expr_Run = (\<lambda>_ _. Inr (VBool True))\<rparr>
      (Some \<lparr>gdName = ''g'', gdVersion = [], gdEntry = ''a'',
        gdNodes = [\<lparr>nID = ''a'', nType = ''t'', nConfig = [], SkipCondition = []\<rparr>], gdEdges = []\<rparr>)
      (Some (NewRegistry :: unit Registry)) defaultBuildOptions = Inl e \<and>
    (Is Validation (Some e) \<or> Is NotFound (Some e))"
proof -
  let ?nd = "\<lparr>nID = ''a'', nType = ''t'', nConfig = [], SkipCondition = []\<rparr>"
  let ?d = "\<lparr>gdName = ''g'', gdVersion = [], gdEntry = ''a'', gdNodes = [?nd], gdEdges = []\<rparr>"
  let ?js = "\<lparr>jparse = (\<lambda>_. None), jprint = (\<lambda>_. None)\<rparr>"
  let ?ex = "\<lparr>expr_Compile = (\<lambda>_. None), expr_Run = (\<lambda>_ _. Inr (VBool True))\<rparr>"
  have b: "Build ?js ?ex (Some ?d) (Some (NewRegistry :: unit Registry)) defaultBuildOptions =
      Inl (errf NotFound ''graph: node: unregistered type'')"
    by (simp add: Build_def GraphDefinition_Validate_def Let_def add_node_def NewRegistry_def
        buildNodeSlot_def buildOptions_validate_def defaultBuildOptions_def ParallelConfig_validate_def)
  from build_errors_classified [OF b] b show ?thesis
    by (auto simp: node_error_def NewRegistry_def)
qed

end
