(* ===== verification/Graph_Execute.thy ===== *)
theory Graph_Execute
  imports Graph_Definition "HOL-Library.Monad_Syntax"
begin

text \<open>
  The graph engine, \<open>core/graph/execute.go\<close>: node invocation with skip conditions, role checks and
  retries, sequential and parallel waves, routing, checkpoint stamping and the wave loop of \<open>Execute\<close>.

  The run's surroundings are the record \<open>env\<close> of arguments over a host state \<open>'h\<close>: what the contexts
  report when they are looked at (\<open>observe\<close>, the pair of \<open>ctx.Err()\<close> and \<open>context.Cause(ctx)\<close>), the
  interrupt channel, the publisher, the clock, the retry timer, the checkpoint side of the host, and
  the order in which the scheduler lets the branches of a wave proceed. A look at a done context is
  used for the rest of the statement, since \<open>Err\<close> and \<open>Cause\<close> no longer change then. Handlers act
  on the board and on the \<open>world\<close>: the host state, the fork controller of the current wave and the
  list of events handed to \<open>Publish\<close> so far. Telemetry is left out, and a panicking handler is
  outside the model.

  A branch goroutine takes three atomic steps: acquire a slot and register (\<open>BQueued\<close>), run the node
  on its private board (\<open>BStarted\<close>), and settle its result (\<open>BInvoked\<close>). Any schedule of these steps
  is possible; once the given schedule is used up the remaining branches run on, as \<open>wg.Wait\<close> waits
  for all of them.
\<close>

subsection \<open>Surroundings\<close>

datatype ctxid = RunCtx | BranchCtx string

datatype pub =
  RunStart
| RunEnd err
| StepStarted string
| StepCompleted string
| StepSkipped string
| StepError string go_error
| ParallelFork string "string list"
| ParallelJoin string "string list" "string list"
| BranchAccept string string
| BranchCancel string string string
| HandlerEvent string

record Interrupt =
  intrCause :: string
  intrDetail :: string

record 'h world =
  wfork :: forkController
  wpub :: "pub list"
  whost :: 'h

record 'h env =
  observe :: "ctxid \<Rightarrow> 'h \<Rightarrow> (err \<times> err) \<times> 'h"
  interrupts :: "'h \<Rightarrow> Interrupt option \<times> 'h"
  hPublish :: "pub \<Rightarrow> 'h \<Rightarrow> err \<times> 'h"
  waitForRetry :: "ctxid \<Rightarrow> int \<Rightarrow> 'h \<Rightarrow> 'h"
  now :: "'h \<Rightarrow> int \<times> 'h"
  schedule :: "'h \<Rightarrow> nat list \<times> 'h"
  ckptHost :: "('h CheckpointCapabilities option \<times> (Checkpoint \<Rightarrow> 'h \<Rightarrow> err \<times> 'h)) option"
  startNodeFromContext :: "string option"
  resumeStartedAt :: "int option"
  mapOrder :: keyorder
  ejson :: jsonlib
  eexpr :: exprlib
  eresolve :: "Board \<Rightarrow> string \<Rightarrow> go_error + val"

record Run =
  rRunID :: string
  rAgentID :: string
  rAttributes :: "(string, string) fmap"
  ResumeFrom :: "Checkpoint option"

definition publish_ev :: "'h env \<Rightarrow> pub \<Rightarrow> 'h world \<Rightarrow> err \<times> 'h world" where
  "publish_ev env p w =
     (case hPublish env p (whost w) of (e, h) \<Rightarrow> (e, w\<lparr>wpub := wpub w @ [p], whost := h\<rparr>))"

text \<open>A best-effort publish: the error is only counted.\<close>

definition emit :: "'h env \<Rightarrow> pub \<Rightarrow> 'h world \<Rightarrow> 'h world" where
  "emit env p w = snd (publish_ev env p w)"

definition look :: "'h env \<Rightarrow> ctxid \<Rightarrow> 'h world \<Rightarrow> (err \<times> err) \<times> 'h world" where
  "look env c w = (case observe env c (whost w) of (o1, h) \<Rightarrow> (o1, w\<lparr>whost := h\<rparr>))"

definition pollInterrupt :: "'h env \<Rightarrow> 'h world \<Rightarrow> Interrupt option \<times> 'h world" where
  "pollInterrupt env w = (case interrupts env (whost w) of (i, h) \<Rightarrow> (i, w\<lparr>whost := h\<rparr>))"

definition interruptedErr_Error :: "Interrupt \<Rightarrow> string" where
  "interruptedErr_Error intr =
     (if intrCause intr = [] \<and> intrDetail intr = [] then ''engine: interrupted''
      else if intrCause intr = [] then ''engine: interrupted: '' @ intrDetail intr
      else if intrDetail intr = [] then ''engine: interrupted ('' @ intrCause intr @ '')''
      else ''engine: interrupted ('' @ intrCause intr @ ''): '' @ intrDetail intr)"

definition Interrupted_err :: "Interrupt \<Rightarrow> go_error" where
  "Interrupted_err intr = Mark Interrupted (Plain (interruptedErr_Error intr))"

definition classifyContextError :: "err \<times> err \<Rightarrow> err" where
  "classifyContextError o1 =
     (case o1 of (cerr, cause) \<Rightarrow>
        if Is Interrupted cause then cause
        else case cerr of
          None \<Rightarrow> None
        | Some e \<Rightarrow>
            if errors_Is e DeadlineExceeded then Some (errf Timeout ''execution timed out'')
            else if errors_Is e Canceled then Some (errf Aborted ''execution aborted'')
            else None)"

definition isRetryable :: "go_error \<Rightarrow> bool" where
  "isRetryable e \<longleftrightarrow> \<not> Is Interrupted (Some e) \<and> \<not> Is Aborted (Some e) \<and>
     \<not> Is BudgetExceeded (Some e) \<and> \<not> Is Validation (Some e)"

text \<open>\<open>dedupIDs\<close> keeps the first occurrence of each id.\<close>

fun dedup_from :: "string list \<Rightarrow> string list \<Rightarrow> string list" where
  "dedup_from seen [] = []"
| "dedup_from seen (x # xs) =
     (if List.member seen x then dedup_from seen xs else x # dedup_from (x # seen) xs)"

definition dedupIDs :: "string list \<Rightarrow> string list" where
  "dedupIDs ids = dedup_from [] ids"

subsection \<open>Nodes\<close>

definition channelLengths :: "Board \<Rightarrow> resolvedRole list \<Rightarrow> (string, nat) fmap" where
  "channelLengths board roles =
     fold (\<lambda>r m. if rrKind r = RoleMessages then fmupd (rrKey r) (ChannelLen board (rrKey r)) m else m)
       roles fmempty"

definition check_read :: "Board \<Rightarrow> resolvedRole \<Rightarrow> err" where
  "check_read board r =
     (case rrKind r of
        RoleVar \<Rightarrow>
          if Var board (rrKey r) = None \<and> rrRequired r
          then Some (errf Validation ''graph: node: required variable missing on board'') else None
      | RoleMessages \<Rightarrow>
          if rrRequired r \<and> ChannelLen board (rrKey r) = 0
          then Some (errf Validation ''graph: node: required channel is empty'') else None
      | _ \<Rightarrow> None)"

definition validateReads :: "Board \<Rightarrow> 'w nodeSlot \<Rightarrow> err" where
  "validateReads board slot = first_some (map (check_read board) (reads slot))"

definition check_write :: "Board \<Rightarrow> (string, nat) fmap \<Rightarrow> resolvedRole \<Rightarrow> err" where
  "check_write board preInvoke r =
     (case rrKind r of
        RoleVar \<Rightarrow>
          if Var board (rrKey r) = None \<and> rrRequired r
          then Some (errf Validation ''graph: node: handler did not write required variable'') else None
      | RoleMessages \<Rightarrow>
          if rrRequired r \<and> ChannelLen board (rrKey r) \<le> fmget preInvoke (rrKey r)
          then Some (errf Validation ''graph: node: handler did not append to required channel'') else None
      | _ \<Rightarrow> None)"

definition validateWrites :: "Board \<Rightarrow> 'w nodeSlot \<Rightarrow> (string, nat) fmap \<Rightarrow> err" where
  "validateWrites board slot preInvoke = first_some (map (check_write board preInvoke) (writes slot))"

type_synonym 'w invocation = "Board \<Rightarrow> 'w \<Rightarrow> err \<times> Board \<times> 'w"

definition invoke_slot :: "'w nodeSlot \<Rightarrow> ExecutionContext \<Rightarrow> string \<Rightarrow> 'w invocation" where
  "invoke_slot slot ec resolved board w =
     (case behave slot of
        Fallback fb \<Rightarrow> fb ec board (nType (slotDef slot)) resolved w
      | Registered decode handle \<Rightarrow>
        (case decode resolved of
           Inl e \<Rightarrow> (Some e, board, w)
         | Inr cfg \<Rightarrow> handle ec board cfg w))"

text \<open>The retry loop of \<open>invokeNode\<close>: a wait and a look at the context before every attempt but the
  first, and a rollback of the board after every failed attempt that is retried.\<close>

definition before_attempt :: "'h env \<Rightarrow> ctxid \<Rightarrow> int \<Rightarrow> 'h world \<Rightarrow> err \<times> 'h world" where
  "before_attempt env c attempt w =
     (if attempt > 0 then
        (case look env c (w\<lparr>whost := waitForRetry env c (attempt * 500000000) (whost w)\<rparr>) of
           ((cerr, cause), w') \<Rightarrow> (cerr, w'))
      else (None, w))"

function attempts ::
  "'h env \<Rightarrow> ctxid \<Rightarrow> int \<Rightarrow> ('h world) invocation \<Rightarrow> BoardSnapshot option \<Rightarrow> int \<Rightarrow> ('h world) invocation" where
  "attempts env c maxRetries invo rollback attempt board w =
     (case before_attempt env c attempt w of
        (Some e, w1) \<Rightarrow> (Some e, board, w1)
      | (None, w1) \<Rightarrow>
        (case invo board w1 of
           (None, board', w2) \<Rightarrow> (None, board', w2)
         | (Some e, board', w2) \<Rightarrow>
             if \<not> isRetryable e \<or> attempt \<ge> maxRetries then (Some e, board', w2)
             else attempts env c maxRetries invo rollback (attempt + 1) (RestoreFrom rollback board') w2))"
  by pat_completeness auto

termination
  by (relation "measure (\<lambda>(env, c, m, f, r, a, b, w). nat (m - a))") auto

declare attempts.simps [simp del]

definition invokeNode ::
  "'h env \<Rightarrow> ('h world) Graph \<Rightarrow> ctxid \<Rightarrow> ('h world) nodeSlot \<Rightarrow> Board \<Rightarrow> 'h world \<Rightarrow>
    (bool \<times> err) \<times> Board \<times> 'h world" where
  "invokeNode env g c slot board w =
     (let nodeID = nID (slotDef slot);
          fail = (\<lambda>e. Some (Wrapf ''graph node'' e)) in
      case (case skipCondition slot of None \<Rightarrow> Inr False | Some cond \<Rightarrow> condition_Evaluate (eexpr env) cond board) of
        Inl e \<Rightarrow> ((False, fail e), board, w)
      | Inr True \<Rightarrow> ((True, None), board, emit env (StepSkipped nodeID) w)
      | Inr False \<Rightarrow>
        (case resolveConfig (ejson env) (eresolve env) (nConfig (slotDef slot)) board of
           Inl e \<Rightarrow> ((False, fail e), board, w)
         | Inr resolved \<Rightarrow>
           (case validateReads board slot of
              Some e \<Rightarrow> ((False, Some e), board, w)
            | None \<Rightarrow>
              (let ec = \<lparr>ecNodeID = nodeID, ecNodeType = nType (slotDef slot), ecGraphID = gname g\<rparr>;
                   w1 = emit env (StepStarted nodeID) w;
                   preInvoke = channelLengths board (writes slot);
                   retries = maxNodeRetries (goptions g);
                   rollback = (if retries > 0 then Some (Snapshot board) else None)
               in case attempts env c retries (invoke_slot slot ec resolved) rollback 0 board w1 of
                    (Some e, board', w2) \<Rightarrow>
                      (case look env c w2 of (o1, w3) \<Rightarrow>
                        (let e' = (case classifyContextError o1 of None \<Rightarrow> e | Some x \<Rightarrow> x);
                             board'' = (if Is Interrupted (Some e')
                                        then SetVar VarInterruptedNode (VString nodeID) board' else board')
                         in ((False, fail e'), board'', emit env (StepError nodeID e') w3)))
                  | (None, board', w2) \<Rightarrow>
                      (case validateWrites board' slot preInvoke of
                         Some e \<Rightarrow> ((False, Some e), board', emit env (StepError nodeID e) w2)
                       | None \<Rightarrow> ((False, None), board', emit env (StepCompleted nodeID) w2))))))"

subsection \<open>Waves\<close>

text \<open>The sequential loop of \<open>executeWave\<close>. A wave names nodes of the graph; \<open>g.nodes[id]\<close> of an unknown
  id would be nil and dereferenced, which the build rules out.\<close>

fun run_sequential ::
  "'h env \<Rightarrow> ('h world) Graph \<Rightarrow> string list \<Rightarrow> Board \<Rightarrow> 'h world \<Rightarrow> err \<times> Board \<times> 'h world" where
  "run_sequential env g [] board w = (None, board, w)"
| "run_sequential env g (i # ids) board w =
     (case gnodes g i of
        None \<Rightarrow> (Some (Plain ''nil pointer dereference''), board, w)
      | Some slot \<Rightarrow>
        (case invokeNode env g RunCtx slot board w of
           ((skipped, Some e), board', w') \<Rightarrow> (Some e, board', w')
         | ((skipped, None), board', w') \<Rightarrow> run_sequential env g ids board' w'))"

datatype bphase =
  BQueued
| BStarted
| BInvoked bool err Board BoardMark
| BDone BranchResult bool

definition noResult :: "string \<Rightarrow> BranchResult" where
  "noResult i = \<lparr>bNodeID = i, bDelta = None, bSnapshot = None, bErr = None, bCancelled = False\<rparr>"

definition cancelledResult :: "string \<Rightarrow> BranchResult" where
  "cancelledResult i = (noResult i)\<lparr>bCancelled := True\<rparr>"

definition busy :: "bphase \<Rightarrow> bool" where
  "busy p = (case p of BStarted \<Rightarrow> True | BInvoked _ _ _ _ \<Rightarrow> True | _ \<Rightarrow> False)"

text \<open>How a branch that was not cancelled settles.\<close>

definition settle_branch ::
  "'h env \<Rightarrow> ('h world) Graph \<Rightarrow> string \<Rightarrow> string \<Rightarrow> bool \<Rightarrow> err \<Rightarrow> Board \<Rightarrow> BoardMark \<Rightarrow> 'h world \<Rightarrow>
    bphase \<times> 'h world" where
  "settle_branch env g forkID i skipped e bb mk w =
     (let result = (noResult i)\<lparr>bDelta := Some (Since bb mk),
            bSnapshot := (if pcMerge (bparallel (goptions g)) \<noteq> None then Some (Snapshot bb) else None)\<rparr>
      in if skipped then (BDone (noResult i) False, w)
         else case e of
           Some x \<Rightarrow> (BDone (result\<lparr>bErr := Some x\<rparr>) True,
                       emit env (BranchCancel forkID i (error_string x)) w)
         | None \<Rightarrow> (BDone result False, w))"

definition branch_step ::
  "'h env \<Rightarrow> ('h world) Graph \<Rightarrow> string \<Rightarrow> BoardSnapshot \<Rightarrow> string list \<Rightarrow> nat \<Rightarrow>
    bphase list \<times> 'h world \<Rightarrow> bphase list \<times> 'h world" where
  "branch_step env g forkID preFork wave k st =
     (case st of (ps, w) \<Rightarrow>
       if k \<ge> length ps then (ps, w)
       else (let i = wave ! k in
         case ps ! k of
           BQueued \<Rightarrow>
             if int (length (filter busy ps)) < parallelLimit (MaxConcurrency (bparallel (goptions g))) (length ps) then
               (case fork_start i (wfork w) of
                  (Some reason, fc) \<Rightarrow>
                    (ps[k := BDone (cancelledResult i) True],
                     emit env (BranchCancel forkID i reason) (w\<lparr>wfork := fc\<rparr>))
                | (None, fc) \<Rightarrow> (ps[k := BStarted], w\<lparr>wfork := fc\<rparr>))
             else (ps, w)
         | BStarted \<Rightarrow>
             (let b0 = RestoreFrom (Some preFork) NewBoard in
              case gnodes g i of
                None \<Rightarrow> (ps[k := BInvoked False (Some (Plain ''nil pointer dereference'')) b0 (Board_Mark b0)], w)
              | Some slot \<Rightarrow>
                (case invokeNode env g (BranchCtx i) slot b0 w of
                   ((skipped, e), bb, w') \<Rightarrow> (ps[k := BInvoked skipped e bb (Board_Mark b0)], w')))
         | BInvoked skipped e bb mk \<Rightarrow>
             (case cancelledReason i (wfork w) of
                Some reason \<Rightarrow>
                  (let w' = emit env (BranchCancel forkID i reason) w in
                   (ps[k := BDone (cancelledResult i) True], w'\<lparr>wfork := fork_finish i (wfork w')\<rparr>))
              | None \<Rightarrow>
                  (case settle_branch env g forkID i skipped e bb mk w of
                     (p, w') \<Rightarrow> (ps[k := p], w'\<lparr>wfork := fork_finish i (wfork w')\<rparr>)))
         | BDone _ _ \<Rightarrow> (ps, w)))"

text \<open>Which branch goes on when the schedule is used up: one that holds a slot, else one that is
  queued.\<close>

fun first_index :: "('a \<Rightarrow> bool) \<Rightarrow> 'a list \<Rightarrow> nat option" where
  "first_index P [] = None"
| "first_index P (x # xs) = (if P x then Some 0 else map_option Suc (first_index P xs))"

definition next_branch :: "bphase list \<Rightarrow> nat option" where
  "next_branch ps =
     (case first_index busy ps of Some k \<Rightarrow> Some k | None \<Rightarrow> first_index (\<lambda>p. p = BQueued) ps)"

fun phase_weight :: "bphase \<Rightarrow> nat" where
  "phase_weight BQueued = 3"
| "phase_weight BStarted = 2"
| "phase_weight (BInvoked _ _ _ _) = 1"
| "phase_weight (BDone _ _) = 0"

lemma first_index_Some: "first_index P xs = Some k \<Longrightarrow> k < length xs \<and> P (xs ! k)"
  by (induction xs arbitrary: k) (auto split: if_splits)

lemma first_index_None: "first_index P xs = None \<longleftrightarrow> (\<forall>x \<in> set xs. \<not> P x)"
  by (induction xs) auto

lemma done_iff: "(\<exists>r t. p = BDone r t) \<longleftrightarrow> \<not> busy p \<and> p \<noteq> BQueued"
  by (cases p) (auto simp: busy_def)

lemma next_branch_None: "next_branch ps = None \<longleftrightarrow> (\<forall>p \<in> set ps. \<exists>r t. p = BDone r t)"
  by (auto simp: next_branch_def first_index_None done_iff split: option.split dest!: first_index_Some)

lemma next_branch_Some:
  assumes "next_branch ps = Some k"
  shows "k < length ps \<and> (busy (ps ! k) \<or> (ps ! k = BQueued \<and> filter busy ps = []))"
  using assms
  by (auto simp: next_branch_def first_index_None filter_empty_conv dest!: first_index_Some split: option.splits)

lemma parallelLimit_pos: "0 < n \<Longrightarrow> 0 < parallelLimit m n"
  by (simp add: parallelLimit_def)

text \<open>A branch that may go on does: one step of it brings every goroutine nearer to its end.\<close>

lemma weight_update:
  "k < length ps \<Longrightarrow> phase_weight p < phase_weight (ps ! k) \<Longrightarrow>
    sum_list (map phase_weight (ps[k := p])) < sum_list (map phase_weight ps)"
  by (induction ps arbitrary: k) (auto split: nat.splits)

lemma branch_step_weight:
  assumes "next_branch ps = Some k" "branch_step env g forkID preFork wave k (ps, w) = (ps', w')"
  shows "sum_list (map phase_weight ps') < sum_list (map phase_weight ps)"
proof -
  note n = next_branch_Some [OF assms(1)]
  have "0 < length ps" using n by auto
  then have lim: "ps ! k = BQueued \<Longrightarrow> filter busy ps = [] \<Longrightarrow>
      int (length (filter busy ps)) < parallelLimit (MaxConcurrency (bparallel (goptions g))) (length ps)"
    using parallelLimit_pos by simp
  have "\<exists>p. ps' = ps[k := p] \<and> phase_weight p < phase_weight (ps ! k)"
    using n assms(2) lim
    by (cases "ps ! k")
      (auto simp: branch_step_def Let_def busy_def settle_branch_def split: prod.splits option.splits if_splits)
  then show ?thesis using n weight_update by blast
qed

function drain ::
  "'h env \<Rightarrow> ('h world) Graph \<Rightarrow> string \<Rightarrow> BoardSnapshot \<Rightarrow> string list \<Rightarrow>
    bphase list \<times> 'h world \<Rightarrow> bphase list \<times> 'h world" where
  "drain env g forkID preFork wave st =
     (case next_branch (fst st) of
        None \<Rightarrow> st
      | Some k \<Rightarrow> drain env g forkID preFork wave (branch_step env g forkID preFork wave k st))"
  by pat_completeness auto

termination
proof (relation "measure (\<lambda>(env, g, f, p, wv, st). sum_list (map phase_weight (fst st)))", goal_cases)
  case (2 env g forkID preFork wave st k)
  obtain ps w where st: "st = (ps, w)" by fastforce
  obtain ps' w' where b: "branch_step env g forkID preFork wave k (ps, w) = (ps', w')" by fastforce
  show ?case using branch_step_weight [OF _ b] 2 b by (simp add: st)
qed simp

declare drain.simps [simp del]

definition forkID_of :: "Run \<Rightarrow> int \<Rightarrow> string list \<Rightarrow> string" where
  "forkID_of run iteration wave =
     (let attempt = (case atoi (case fmlookup (rAttributes run) ''agent.attempt'' of None \<Rightarrow> [] | Some s \<Rightarrow> s) of
                       None \<Rightarrow> 1 | Some n \<Rightarrow> if n > 0 then n else 1)
      in rRunID run @ ''#attempt-'' @ show_int attempt @ ''#iteration-'' @ show_int iteration @ ''#'' @ wave ! 0)"

definition run_branches ::
  "'h env \<Rightarrow> ('h world) Graph \<Rightarrow> string \<Rightarrow> BoardSnapshot \<Rightarrow> string list \<Rightarrow> 'h world \<Rightarrow> bphase list \<times> 'h world" where
  "run_branches env g forkID preFork wave w =
     (case schedule env (whost w) of (sched, h) \<Rightarrow>
        drain env g forkID preFork wave
          (fold (branch_step env g forkID preFork wave) sched
             (replicate (length wave) BQueued, w\<lparr>whost := h\<rparr>)))"

fun branch_result :: "bphase \<Rightarrow> BranchResult" where
  "branch_result (BDone r t) = r"
| "branch_result _ = noResult []"

fun branch_terminal :: "bphase \<Rightarrow> bool" where
  "branch_terminal (BDone r t) = t"
| "branch_terminal _ = False"

text \<open>The loops over the branches that have no terminal event yet.\<close>

definition close_branches ::
  "'h env \<Rightarrow> (string \<Rightarrow> pub) \<Rightarrow> string list \<Rightarrow> bool list \<Rightarrow> 'h world \<Rightarrow> 'h world" where
  "close_branches env ev wave closed w =
     fold (\<lambda>(i, t) w. if t then w else emit env (ev i) w) (zip wave closed) w"

definition publishUnterminatedBranchCancels ::
  "'h env \<Rightarrow> string \<Rightarrow> string list \<Rightarrow> bool list \<Rightarrow> string \<Rightarrow> 'h world \<Rightarrow> 'h world" where
  "publishUnterminatedBranchCancels env forkID wave closed reason w =
     close_branches env (\<lambda>i. BranchCancel forkID i reason) wave closed w"

text \<open>The error a wave ends with: an interrupted run first, then the first interrupted branch, then the
  first failed one.\<close>

definition wave_error :: "err \<Rightarrow> BranchResult list \<Rightarrow> err" where
  "wave_error cause results =
     (if Is Interrupted cause then cause
      else case find (\<lambda>r. Is Interrupted (bErr r)) results of
        Some r \<Rightarrow> bErr r
      | None \<Rightarrow> first_some (map bErr results))"

definition interrupted_node :: "string list \<Rightarrow> BranchResult list \<Rightarrow> string" where
  "interrupted_node wave results =
     (case find (\<lambda>r. Is Interrupted (bErr r)) results of Some r \<Rightarrow> bNodeID r | None \<Rightarrow> wave ! 0)"

definition executeParallel ::
  "'h env \<Rightarrow> ('h world) Graph \<Rightarrow> Run \<Rightarrow> string list \<Rightarrow> int \<Rightarrow> Board \<Rightarrow> 'h world \<Rightarrow> err \<times> Board \<times> 'h world" where
  "executeParallel env g run wave iteration board w =
     (let cfg = bparallel (goptions g) in
      if MaxBranches cfg > 0 \<and> int (length wave) > MaxBranches cfg then
        (Some (errf BudgetExceeded ''graph: parallel wave exceeds max_branches''), board, w)
      else
        (let preFork = Snapshot board;
             forkID = forkID_of run iteration wave;
             w0 = emit env (ParallelFork forkID wave) (w\<lparr>wfork := newForkController wave\<rparr>)
         in case run_branches env g forkID preFork wave w0 of
           (ps, w1) \<Rightarrow>
           (let results = map branch_result ps; closed = map branch_terminal ps in
            case look env RunCtx w1 of
              ((cerr, cause), w2) \<Rightarrow>
              (case wave_error cause results of
                 Some e \<Rightarrow>
                   (let w3 = publishUnterminatedBranchCancels env forkID wave closed (error_string e) w2;
                        board' = (if Is Interrupted (Some e)
                          then SetVar VarInterruptedNode (VString (interrupted_node wave results))
                                 (mergeInterruptedAssistantMessages (mapOrder env) results board)
                          else board)
                    in (Some e, board', w3))
               | None \<Rightarrow>
                 (case mergeFunc (mapOrder env) cfg preFork results board of
                    (Some e, board') \<Rightarrow>
                      (Some e, board', publishUnterminatedBranchCancels env forkID wave closed (error_string e) w2)
                  | (None, board') \<Rightarrow>
                      (None, board',
                       emit env (ParallelJoin forkID wave (cancelledBranches results))
                         (close_branches env (BranchAccept forkID) wave closed w2)))))))"

definition executeWave ::
  "'h env \<Rightarrow> ('h world) Graph \<Rightarrow> Run \<Rightarrow> string list \<Rightarrow> int \<Rightarrow> Board \<Rightarrow> 'h world \<Rightarrow> err \<times> Board \<times> 'h world" where
  "executeWave env g run wave iteration board w =
     (if length wave = 1 \<or> \<not> Enabled (bparallel (goptions g)) then run_sequential env g wave board w
      else executeParallel env g run wave iteration board w)"

subsection \<open>Routing and the wave loop\<close>

definition takes_edge :: "exprlib \<Rightarrow> (string, val) fmap \<Rightarrow> Edge \<Rightarrow> go_error + bool" where
  "takes_edge ex cenv e =
     (case eCondition e of None \<Rightarrow> Inr True | Some raw \<Rightarrow> condition_evaluate ex raw cenv)"

fun taken_edges :: "exprlib \<Rightarrow> (string, val) fmap \<Rightarrow> Edge list \<Rightarrow> string list \<Rightarrow> go_error + string list" where
  "taken_edges ex cenv [] acc = Inr acc"
| "taken_edges ex cenv (e # es) acc =
     (case takes_edge ex cenv e of
        Inl x \<Rightarrow> Inl (Wrapf ''graph node'' x)
      | Inr take1 \<Rightarrow> taken_edges ex cenv es (if take1 \<and> eTo e \<noteq> END then acc @ [eTo e] else acc))"

definition resolveNext :: "exprlib \<Rightarrow> 'w Graph \<Rightarrow> Board \<Rightarrow> string list \<Rightarrow> int \<Rightarrow> go_error + string list" where
  "resolveNext ex g board executed iterations =
     (case taken_edges ex (conditionEnv board iterations) (concat (map (gedges g) executed)) [] of
        Inl e \<Rightarrow> Inl e
      | Inr nxt \<Rightarrow> Inr (dedupIDs nxt))"

definition stamp_meta :: "'w Graph \<Rightarrow> Run \<Rightarrow> string list \<Rightarrow> int \<Rightarrow> int \<Rightarrow> int \<Rightarrow> CheckpointMeta" where
  "stamp_meta g run wave iterations ts startedAt =
     \<lparr>mtSteps = Slice wave, mtIteration = iterations, mtPayload = [], mtAttributes = rAttributes run,
      mtTimestamp = ts, mtOriginalStartedAt = startedAt, mtSpecVersion = specVersion g\<rparr>"

definition stampCheckpoint ::
  "'h env \<Rightarrow> 'w Graph \<Rightarrow> Run \<Rightarrow> int \<Rightarrow> string list \<Rightarrow> int \<Rightarrow> Board \<Rightarrow>
    'h CheckpointWriter \<Rightarrow> 'h world \<Rightarrow> 'h CheckpointWriter \<times> 'h world" where
  "stampCheckpoint env g run startedAt wave iterations board cw w =
     (if \<not> Writer_Enabled cw then (cw, w)
      else case now env (whost w) of
        (ts, h) \<Rightarrow>
          (case Stamp (stamp_meta g run wave iterations ts startedAt) (Some board) cw h of
             (e, cw', h') \<Rightarrow> (cw', w\<lparr>whost := h'\<rparr>)))"

record 'h loopState =
  frontier :: "string list"
  iters :: int
  writer :: "'h CheckpointWriter"
  lboard :: Board
  lworld :: "'h world"

text \<open>One turn of the loop: \<open>Inl\<close> when \<open>Execute\<close> returns.\<close>

definition wave_step ::
  "'h env \<Rightarrow> ('h world) Graph \<Rightarrow> Run \<Rightarrow> int \<Rightarrow> 'h loopState \<Rightarrow> (err \<times> Board \<times> 'h world) + 'h loopState" where
  "wave_step env g run startedAt s =
     (let board = lboard s; maxI = maxIterations (goptions g) in
      if frontier s = [] then Inl (None, board, lworld s)
      else case look env RunCtx (lworld s) of
        (o1, w1) \<Rightarrow>
        if fst o1 \<noteq> None then
          Inl (classifyContextError o1,
               if Is Interrupted (snd o1) then SetVar VarInterruptedNode (VString (frontier s ! 0)) board else board, w1)
        else case pollInterrupt env w1 of
          (Some intr, w2) \<Rightarrow>
            Inl (Some (Interrupted_err intr), SetVar VarInterruptedNode (VString (frontier s ! 0)) board, w2)
        | (None, w2) \<Rightarrow>
          (let wave = dedupIDs (frontier s) in
           if maxI > 0 \<and> iters s + int (length wave) > maxI then
             Inl (Some (errf BudgetExceeded ''graph exceeded max iterations''), board, w2)
           else case executeWave env g run wave (iters s) board w2 of
             (Some e, board', w3) \<Rightarrow> Inl (Some e, board', w3)
           | (None, board', w3) \<Rightarrow>
             (case look env RunCtx w3 of
                (o2, w4) \<Rightarrow>
                if fst o2 \<noteq> None then Inl (classifyContextError o2, board', w4)
                else case pollInterrupt env w4 of
                  (Some intr, w5) \<Rightarrow>
                    Inl (Some (Interrupted_err intr),
                         SetVar VarInterruptedNode (VString (wave ! (length wave - 1))) board', w5)
                | (None, w5) \<Rightarrow>
                  (let it' = iters s + int (length wave) in
                   case stampCheckpoint env g run startedAt wave it' board' (writer s) w5 of
                     (cw', w6) \<Rightarrow>
                     (case resolveNext (eexpr env) g board' wave it' of
                        Inl e \<Rightarrow> Inl (Some e, board', w6)
                      | Inr nxt \<Rightarrow>
                          Inr \<lparr>frontier = nxt, iters = it', writer = cw', lboard = board', lworld = w6\<rparr>)))))"

partial_function (option) wave_loop ::
  "'h env \<Rightarrow> ('h world) Graph \<Rightarrow> Run \<Rightarrow> int \<Rightarrow> 'h loopState \<Rightarrow> (err \<times> Board \<times> 'h world) option" where
  "wave_loop env g run startedAt s =
     (case wave_step env g run startedAt s of
        Inl r \<Rightarrow> Some r
      | Inr s' \<Rightarrow> wave_loop env g run startedAt s')"

text \<open>Where a run starts: at the successors of the checkpointed wave on the restored board, at the
  overridden start node, or at the entry.\<close>

definition start_point ::
  "'h env \<Rightarrow> ('h world) Graph \<Rightarrow> Run \<Rightarrow> Board \<Rightarrow> (go_error \<times> Board) + (string list \<times> int \<times> Board)" where
  "start_point env g run board =
     (case ResumeFrom run of
        Some cp \<Rightarrow>
          (case Checkpoint_Validate (\<lambda>p. jparse (ejson env) p \<noteq> None) cp of
             Some e \<Rightarrow> Inl (e, board)
           | None \<Rightarrow>
             if cpExecID cp \<noteq> rRunID run then
               Inl (errf Validation ''graph: checkpoint exec id does not match run id'', board)
             else case CanResume g cp of
               Some e \<Rightarrow> Inl (e, board)
             | None \<Rightarrow>
               (let board' = RestoreFrom (cpBoard cp) board in
                case resolveNext (eexpr env) g board' (elems (cpSteps cp)) (cpIteration cp) of
                  Inl e \<Rightarrow> Inl (e, board')
                | Inr nxt \<Rightarrow> Inr (nxt, cpIteration cp, board')))
      | None \<Rightarrow>
          (case startNodeFromContext env of
             None \<Rightarrow> Inr ([gentry g], 0, board)
           | Some startID \<Rightarrow>
               if gnodes g startID = None then
                 Inl (errf Validation ''graph: start node is not defined'', board)
               else Inr ([startID], 0, board)))"

text \<open>The deferred run-end event; a failing publish is joined to the run's error.\<close>

definition end_run :: "'h env \<Rightarrow> err \<times> Board \<times> 'h world \<Rightarrow> err \<times> Board \<times> 'h world" where
  "end_run env r =
     (case r of (runErr, board, w) \<Rightarrow>
        (case publish_ev env (RunEnd runErr) w of
           (None, w') \<Rightarrow> (runErr, board, w')
         | (Some e, w') \<Rightarrow>
             (Some (Join ((case runErr of None \<Rightarrow> [] | Some x \<Rightarrow> [x]) @
                [Mark Internal (Wrapf ''agent: publish run-end'' e)])), board, w')))"

definition Execute ::
  "'h env \<Rightarrow> ('h world) Graph \<Rightarrow> Run \<Rightarrow> Board option \<Rightarrow> 'h world \<Rightarrow> (err \<times> Board \<times> 'h world) option" where
  "Execute env g run board0 w =
     (let board = (case board0 of None \<Rightarrow> NewBoard | Some b \<Rightarrow> b) in
      case now env (whost w) of
        (graphStart, h) \<Rightarrow>
        (let w1 = emit env RunStart (w\<lparr>whost := h\<rparr>);
             startedAt = (case resumeStartedAt env of None \<Rightarrow> graphStart | Some t \<Rightarrow> t)
         in map_option (end_run env)
              (case start_point env g run board of
                 Inl (e, board') \<Rightarrow> Some (Some e, board', w1)
               | Inr (fr, it, board') \<Rightarrow>
                   wave_loop env g run startedAt
                     \<lparr>frontier = fr, iters = it,
                      writer = WithCompactionWindow (checkpointCompaction (goptions g))
                        (NewCheckpointWriter (ckptHost env) (rRunID run)),
                      lboard = board', lworld = w1\<rparr>)))"

subsection \<open>Lemmas on routing\<close>

lemma dedup_from_spec:
  "set (dedup_from seen xs) = set xs - set seen \<and> distinct (dedup_from seen xs)"
  by (induction seen xs rule: dedup_from.induct) auto

lemma dedupIDs_set [simp]: "set (dedupIDs xs) = set xs"
  and dedupIDs_distinct [simp]: "distinct (dedupIDs xs)"
  by (simp_all add: dedupIDs_def dedup_from_spec)

lemma dedupIDs_Nil [simp]: "dedupIDs xs = [] \<longleftrightarrow> xs = []"
  using dedupIDs_set [of xs] by (metis set_empty)

lemma dedup_from_distinct: "distinct xs \<Longrightarrow> set xs \<inter> set seen = {} \<Longrightarrow> dedup_from seen xs = xs"
  by (induction seen xs rule: dedup_from.induct) auto

lemma dedupIDs_id [simp]: "distinct xs \<Longrightarrow> dedupIDs xs = xs"
  by (simp add: dedupIDs_def dedup_from_distinct)

lemma taken_edges_set:
  "taken_edges ex cenv es acc = Inr r \<Longrightarrow> set r \<subseteq> set acc \<union> {eTo e | e. e \<in> set es \<and> eTo e \<noteq> END}"
  by (induction ex cenv es acc rule: taken_edges.induct) (fastforce split: sum.splits if_splits)+

lemma resolveNext_targets:
  assumes "resolveNext ex g board wave it = Inr nxt"
  shows "distinct nxt" "i \<in> set nxt \<Longrightarrow> \<exists>j \<in> set wave. \<exists>e \<in> set (gedges g j). eTo e = i \<and> i \<noteq> END"
  using assms by (auto simp: resolveNext_def split: sum.splits dest!: taken_edges_set) blast

lemma resolveNext_vars: "vars b = vars b' \<Longrightarrow> resolveNext ex g b wave it = resolveNext ex g b' wave it"
  by (simp add: resolveNext_def conditionEnv_def)

text \<open>What a completed turn of the loop has done.\<close>

lemma wave_step_Inr:
  assumes "wave_step env g run st s = Inr s'"
  obtains w2 w3 w5 w6 where "frontier s \<noteq> []"
    "maxIterations (goptions g) > 0 \<Longrightarrow> iters s' \<le> maxIterations (goptions g)"
    "iters s' = iters s + int (length (dedupIDs (frontier s)))"
    "executeWave env g run (dedupIDs (frontier s)) (iters s) (lboard s) w2 = (None, lboard s', w3)"
    "stampCheckpoint env g run st (dedupIDs (frontier s)) (iters s') (lboard s') (writer s) w5 = (writer s', w6)"
    "resolveNext (eexpr env) g (lboard s') (dedupIDs (frontier s)) (iters s') = Inr (frontier s')"
  using assms
  by (auto simp: wave_step_def Let_def split: prod.splits if_splits option.splits sum.splits)

lemma wave_step_progress:
  assumes "wave_step env g run st s = Inr s'"
  shows "iters s < iters s'" "maxIterations (goptions g) > 0 \<Longrightarrow> iters s' \<le> maxIterations (goptions g)"
  using assms by (auto elim!: wave_step_Inr simp: length_greater_0_conv [symmetric] simp del: length_greater_0_conv)

subsection \<open>The loop terminates\<close>

text \<open>A rank that every edge decreases: it exists exactly when the graph has no cycle.\<close>

definition edge_rank :: "'w Graph \<Rightarrow> (string \<Rightarrow> nat) \<Rightarrow> bool" where
  "edge_rank g rk \<longleftrightarrow> (\<forall>i. \<forall>e \<in> set (gedges g i). eTo e \<noteq> END \<longrightarrow> rk (eTo e) < rk i)"

lemma wave_loop_budget:
  "maxIterations (goptions g) > 0 \<Longrightarrow> \<exists>r. wave_loop env g run st s = Some r"
proof (induction "nat (maxIterations (goptions g) - iters s)" arbitrary: s rule: less_induct)
  case less
  show ?case
  proof (cases "wave_step env g run st s")
    case (Inl r)
    then show ?thesis by (cases r) (simp add: wave_loop.simps)
  next
    case (Inr s')
    have "nat (maxIterations (goptions g) - iters s') < nat (maxIterations (goptions g) - iters s)"
      using wave_step_progress [OF Inr] less.prems by auto
    with less Inr show ?thesis by (simp add: wave_loop.simps)
  qed
qed

lemma wave_loop_acyclic:
  assumes "edge_rank g rk"
  shows "\<forall>i \<in> set (frontier s). rk i < n \<Longrightarrow> \<exists>r. wave_loop env g run st s = Some r"
proof (induction n arbitrary: s)
  case 0
  then have "frontier s = []" by (cases "frontier s") auto
  then show ?case by (simp add: wave_loop.simps wave_step_def)
next
  case (Suc n)
  show ?case
  proof (cases "wave_step env g run st s")
    case (Inl r)
    then show ?thesis by (cases r) (simp add: wave_loop.simps)
  next
    case (Inr s')
    have "rk i < n" if "i \<in> set (frontier s')" for i
    proof -
      from Inr obtain it where "resolveNext (eexpr env) g (lboard s') (dedupIDs (frontier s)) it = Inr (frontier s')"
        by (elim wave_step_Inr)
      from resolveNext_targets(2) [OF this that]
      obtain j e where "j \<in> set (frontier s)" "e \<in> set (gedges g j)" "eTo e = i" "i \<noteq> END" by auto
      with assms Suc.prems show ?thesis by (fastforce simp: edge_rank_def)
    qed
    with Suc.IH [of s'] Inr show ?thesis by (simp add: wave_loop.simps)
  qed
qed

lemma wave_loop_total:
  assumes "maxIterations (goptions g) > 0 \<or> edge_rank g rk"
  shows "\<exists>r. wave_loop env g run st s = Some r"
  using assms
proof
  assume "edge_rank g rk"
  moreover have "\<forall>i \<in> set (frontier s). rk i < Suc (Max (rk ` set (frontier s)))"
    by (simp add: less_Suc_eq_le)
  ultimately show ?thesis by (rule wave_loop_acyclic)
qed (rule wave_loop_budget)

subsection \<open>Reachable loop states\<close>

inductive loop_reach ::
  "'h env \<Rightarrow> ('h world) Graph \<Rightarrow> Run \<Rightarrow> int \<Rightarrow> 'h loopState \<Rightarrow> 'h loopState \<Rightarrow> bool"
  for env g run st s0 where
  loop_start: "loop_reach env g run st s0 s0"
| loop_turn: "loop_reach env g run st s0 s \<Longrightarrow> wave_step env g run st s = Inr s' \<Longrightarrow> loop_reach env g run st s0 s'"

definition loop_ok :: "'w Graph \<Rightarrow> 'h loopState \<Rightarrow> bool" where
  "loop_ok g s \<longleftrightarrow> set (frontier s) \<subseteq> set (gorder g) \<and>
     (maxIterations (goptions g) > 0 \<longrightarrow> iters s \<le> maxIterations (goptions g))"

lemma resolveNext_in_graph:
  "graph_ok g \<Longrightarrow> resolveNext ex g board wave it = Inr nxt \<Longrightarrow> set nxt \<subseteq> set (gorder g)"
  by (auto simp: graph_ok_def dest!: resolveNext_targets(2))

lemma loop_ok_step:
  "graph_ok g \<Longrightarrow> wave_step env g run st s = Inr s' \<Longrightarrow> loop_ok g s'"
  by (elim wave_step_Inr) (auto simp: loop_ok_def dest: resolveNext_in_graph [THEN subsetD, rotated 2])

lemma loop_ok_reach:
  "loop_reach env g run st s0 s \<Longrightarrow> graph_ok g \<Longrightarrow> loop_ok g s0 \<Longrightarrow> loop_ok g s"
  by (induction rule: loop_reach.induct) (auto intro: loop_ok_step)

lemma start_point_ok:
  assumes "start_point env g run board = Inr (fr, it, board')" "graph_ok g"
  shows "loop_ok g \<lparr>frontier = fr, iters = it, writer = cw, lboard = board', lworld = w\<rparr>"
proof -
  have "gentry g \<in> set (gorder g)" "\<And>i. gnodes g i \<noteq> None \<longleftrightarrow> i \<in> set (gorder g)"
    using assms(2) by (auto simp: graph_ok_def)
  then show ?thesis
    using assms resolveNext_in_graph [OF assms(2)]
    by (auto simp: start_point_def loop_ok_def CanResume_def Let_def split: option.splits if_splits sum.splits)
qed

end
