(* ===== verification/Graph_Run.thy ===== *)
theory Graph_Run
  imports Graph_Execute
begin

text \<open>
  What a run of the graph engine of \<open>Graph_Execute\<close> guarantees: retries start from the board the node
  was given, step events bracket an invocation, the branches of a parallel wave work on private
  boards and each ends with exactly one terminal event, the loop terminates under a budget or
  without cycles, and a checkpoint stamped after a wave resumes at the frontier the run had computed.
\<close>

subsection \<open>Events\<close>

lemma wpub_emit [simp]: "wpub (emit env p w) = wpub w @ [p]"
  by (simp add: emit_def publish_ev_def split: prod.splits)

lemma wpub_look: "look env c w = (o1, w') \<Longrightarrow> wpub w' = wpub w"
  by (auto simp: look_def split: prod.splits)

text \<open>Handlers report through the host as well; what they publish are not events of the engine.\<close>

definition quiet_inv :: "('h world) invocation \<Rightarrow> bool" where
  "quiet_inv f \<longleftrightarrow> (\<forall>b w e b' w'. f b w = (e, b', w') \<longrightarrow> (\<exists>hs. wpub w' = wpub w @ map HandlerEvent hs))"

definition quiet_slot :: "('h world) nodeSlot \<Rightarrow> bool" where
  "quiet_slot slot \<longleftrightarrow> (\<forall>ec resolved. quiet_inv (invoke_slot slot ec resolved))"

subsection \<open>Retries\<close>

lemma before_attempt_cases:
  assumes "before_attempt env c a w = (stop, w1)"
  shows "wpub w1 = wpub w \<and> (\<forall>x. stop = Some x \<longrightarrow> (\<exists>h cause h'. observe env c h = ((Some x, cause), h')))"
  using assms by (auto simp: before_attempt_def look_def split: if_splits prod.splits)

text \<open>The three ways one turn of the retry loop goes.\<close>

lemma attempts_turn:
  assumes "attempts env c m f r a b w = (e, b', w')"
  obtains (stopped) x where "before_attempt env c a w = (Some x, w')" "e = Some x" "b' = b"
  | (returned) w1 where "before_attempt env c a w = (None, w1)" "f b w1 = (e, b', w')"
  | (again) w1 x b1 w2 where "before_attempt env c a w = (None, w1)" "f b w1 = (Some x, b1, w2)"
      "isRetryable x" "a < m" "attempts env c m f r (a + 1) (RestoreFrom r b1) w2 = (e, b', w')"
  using assms unfolding attempts.simps [of env c m f r a b w]
  by (auto split: prod.splits option.splits if_splits)

lemma attempts_quiet:
  "quiet_inv f \<Longrightarrow> attempts env c m f r a b w = (e, b', w') \<Longrightarrow> \<exists>hs. wpub w' = wpub w @ map HandlerEvent hs"
proof (induction "nat (m - a)" arbitrary: a b w rule: less_induct)
  case less
  note q = less.prems(1)
  from less.prems(2) show ?case
  proof (cases rule: attempts_turn)
    case (stopped x)
    then show ?thesis by (auto dest!: before_attempt_cases intro: exI [of _ "[]"])
  next
    case (returned w1)
    with q before_attempt_cases [OF returned(1)] show ?thesis unfolding quiet_inv_def by metis
  next
    case (again w1 x b1 w2)
    obtain hs where "wpub w2 = wpub w @ map HandlerEvent hs"
      using q before_attempt_cases [OF again(1)] again(2) unfolding quiet_inv_def by metis
    moreover obtain hs' where "wpub w' = wpub w2 @ map HandlerEvent hs'"
      using less.hyps [OF _ q again(5)] again(4) by auto
    ultimately show ?thesis by (metis append.assoc map_append)
  qed
qed

lemma same_state_self: "same_state (Snapshot b) b"
  by (simp add: same_state_def Snapshot_def chan_fmchan)

lemma same_state_restore: "same_state snap (RestoreFrom (Some snap) b)"
  by (auto simp: same_state_def RestoreFrom_fields chan_fmchan snapshot_channels_def fmchan_def)

lemma attempts_clean:
  assumes "\<And>b w. same_state snap b \<Longrightarrow> f b w = f' b w" "same_state snap b"
  shows "attempts env c m f (Some snap) a b w = attempts env c m f' (Some snap) a b w"
  using assms(2)
proof (induction "nat (m - a)" arbitrary: a b w rule: less_induct)
  case less
  obtain stop w1 where s: "before_attempt env c a w = (stop, w1)" by fastforce
  obtain e1 b1 w2 where i: "f b w1 = (e1, b1, w2)" "f' b w1 = (e1, b1, w2)"
    using assms(1) [OF less.prems] by (metis prod_cases3)
  show ?case
  proof (cases "stop = None \<and> (\<exists>x. e1 = Some x \<and> isRetryable x \<and> a < m)")
    case True
    then have "attempts env c m f (Some snap) (a + 1) (RestoreFrom (Some snap) b1) w2 =
        attempts env c m f' (Some snap) (a + 1) (RestoreFrom (Some snap) b1) w2"
      using less.hyps [OF _ same_state_restore] by auto
    with True s i show ?thesis by (auto simp: attempts.simps [of env c m _ "Some snap" a b w])
  next
    case False
    with s i show ?thesis
      by (auto simp: attempts.simps [of env c m _ "Some snap" a b w] split: option.splits)
  qed
qed

lemma attempts_outcome:
  "same_state snap b \<Longrightarrow> attempts env c m f (Some snap) a b w = (e, b', w') \<Longrightarrow>
    (\<exists>b0 w0. same_state snap b0 \<and> f b0 w0 = (e, b', w')) \<or>
    (\<exists>x h cause h'. e = Some x \<and> same_state snap b' \<and> observe env c h = ((Some x, cause), h'))"
proof (induction "nat (m - a)" arbitrary: a b w rule: less_induct)
  case less
  from less.prems(2) show ?case
  proof (cases rule: attempts_turn)
    case (stopped x)
    with before_attempt_cases [OF stopped(1)] less.prems(1) show ?thesis by auto
  next
    case (returned w1)
    with less.prems(1) show ?thesis by blast
  next
    case (again w1 x b1 w2)
    with less.hyps [OF _ same_state_restore again(5)] show ?thesis by simp
  qed
qed

text \<open>A run of the loop without a rollback point makes one attempt.\<close>

lemma attempts_once: "m \<le> 0 \<Longrightarrow> attempts env c m f r 0 b w = f b w"
  by (auto simp: attempts.simps [of env c m f r 0 b w] before_attempt_def split: prod.splits option.splits)

subsection \<open>A host to run on\<close>

text \<open>A quiet host whose state is a counter: contexts stay alive, nothing interrupts, every publish is
  accepted, no checkpoints, branches run one after the other.\<close>

definition demo_env :: "nat env" where
  "demo_env = \<lparr>observe = (\<lambda>c h. ((None, None), h)), interrupts = (\<lambda>h. (None, h)), hPublish = (\<lambda>p h. (None, h)),
     waitForRetry = (\<lambda>c d h. h), now = (\<lambda>h. (1, h)), schedule = (\<lambda>h. ([], h)), ckptHost = None,
     startNodeFromContext = None, resumeStartedAt = None, mapOrder = sorted_keys,
     ejson = \<lparr>jparse = (\<lambda>_. None), jprint = (\<lambda>_. None)\<rparr>,
     eexpr = \<lparr>expr_Compile = (\<lambda>_. None), expr_Run = (\<lambda>_ _. Inr (VBool True))\<rparr>,
     eresolve = (\<lambda>_ _. Inr VNil)\<rparr>"

definition demo_world :: "nat world" where
  "demo_world = \<lparr>wfork = newForkController [], wpub = [], whost = 0\<rparr>"

text \<open>Three nodes: \<open>s\<close> forks into \<open>a\<close> and \<open>b\<close>, which run in parallel and end.\<close>

definition demo_slot :: "string \<Rightarrow> (nat world) nodeSlot" where
  "demo_slot i = \<lparr>slotDef = \<lparr>nID = i, nType = ''t'', nConfig = [], SkipCondition = []\<rparr>,
     behave = Fallback (\<lambda>ec b ty raw w. (None, SetVar (ecNodeID ec) (VInt 1) b, w)), skipCondition = None,
     reads = [], writes = []\<rparr>"

definition demo_edge :: "string \<Rightarrow> string \<Rightarrow> Edge" where
  "demo_edge i j = \<lparr>eFrom = i, eTo = j, eCondition = None\<rparr>"

definition demo_graph :: "(nat world) Graph" where
  "demo_graph = \<lparr>gname = ''g'', specVersion = ''v1'', gentry = ''s'',
     gnodes = (\<lambda>i. if List.member [''s'', ''a'', ''b''] i then Some (demo_slot i) else None),
     gorder = [''s'', ''a'', ''b''],
     gedges = (\<lambda>i. if i = ''s'' then [demo_edge ''s'' ''a'', demo_edge ''s'' ''b'']
        else if i = ''a'' then [demo_edge ''a'' END] else if i = ''b'' then [demo_edge ''b'' END] else []),
     goptions = defaultBuildOptions\<lparr>bparallel := (bparallel defaultBuildOptions)\<lparr>Enabled := True\<rparr>\<rparr>\<rparr>"

definition demo_run :: Run where
  "demo_run = \<lparr>rRunID = ''r'', rAgentID = ''ag'', rAttributes = fmempty, ResumeFrom = None\<rparr>"

text \<open>A handler that writes and fails the first time, and succeeds the second.\<close>

definition flaky :: "(nat world) invocation" where
  "flaky b w = (if whost w = 0 then (Some (Plain ''try again''), SetVar ''junk'' (VInt 1) b, w\<lparr>whost := 1\<rparr>)
     else (None, SetVar ''ok'' (VInt 2) b, w))"

subsection \<open>Properties of a node invocation\<close>

text \<open>C15. Retries never see half-done work: as far as the outcome of the retry loop goes, a node's handler
  matters only on boards whose vars and messages are those the node was given, and what the loop
  returns is either the outcome of one such attempt or the error of a cancelled context with the board
  rolled back.\<close>

theorem retry_sees_clean_board:
  assumes "attempts env c m f (if m > 0 then Some (Snapshot board) else None) 0 board w = (e, board', w')"
  shows "((\<exists>b0 w0. same_state (Snapshot board) b0 \<and> f b0 w0 = (e, board', w')) \<or>
      (\<exists>x h cause h'. e = Some x \<and> same_state (Snapshot board) board' \<and> observe env c h = ((Some x, cause), h'))) \<and>
    (\<forall>f'. (\<forall>b w. same_state (Snapshot board) b \<longrightarrow> f' b w = f b w) \<longrightarrow>
       attempts env c m f' (if m > 0 then Some (Snapshot board) else None) 0 board w = (e, board', w'))"
proof (cases "m > 0")
  case True
  then have run: "attempts env c m f (Some (Snapshot board)) 0 board w = (e, board', w')" using assms by simp
  have "attempts env c m f' (Some (Snapshot board)) 0 board w = (e, board', w')"
    if "\<forall>b w. same_state (Snapshot board) b \<longrightarrow> f' b w = f b w" for f'
    using attempts_clean [where f = f' and f' = f, OF _ same_state_self] that run by metis
  with attempts_outcome [OF same_state_self run] True show ?thesis by simp
next
  case False
  then have m: "m \<le> 0" by simp
  have "f board w = (e, board', w')" using assms m by (simp add: attempts_once)
  with m same_state_self [of board] show ?thesis by (auto simp: attempts_once)
qed

theorem retry_sees_clean_board_witness:
  "\<exists>b' w'. attempts demo_env RunCtx 1 flaky (Some (Snapshot NewBoard)) 0 NewBoard demo_world = (None, b', w') \<and>
     fmlookup (vars b') ''ok'' = Some (VInt 2) \<and> fmlookup (vars b') ''junk'' = None"
proof -
  have r: "isRetryable (Plain ''try again'')" by (simp add: isRetryable_def err_simps)
  obtain b' w' where a: "attempts demo_env RunCtx 1 flaky (Some (Snapshot NewBoard)) 0 NewBoard demo_world = (None, b', w')"
    by (simp add: attempts.simps [of _ _ _ _ _ 0] attempts.simps [of _ _ _ _ _ 1] before_attempt_def flaky_def
        demo_world_def demo_env_def look_def r)
  obtain b0 w0 where "same_state (Snapshot NewBoard) b0" "flaky b0 w0 = (None, b', w')"
    using retry_sees_clean_board [of demo_env RunCtx 1 flaky NewBoard demo_world] a by auto
  then have "b' = SetVar ''ok'' (VInt 2) b0" "vars b0 = fmempty"
    by (auto simp: flaky_def same_state_def Snapshot_def NewBoard_def split: if_splits)
  with a show ?thesis by (simp add: SetVar_def noteVarWriteLocked_def)
qed

text \<open>Step events bracket an invocation: a skipped node reports only its skip; a node that fails before
  its handler runs reports nothing and leaves the board alone; every other invocation reports its start,
  then what the handlers say, then exactly one of completion, without error, and failure, with one.\<close>

theorem step_events_bracket:
  assumes "invokeNode env g c slot board w = ((skipped, e), board', w')" "quiet_slot slot"
  shows "\<exists>evs. wpub w' = wpub w @ evs \<and>
    ((skipped \<and> e = None \<and> board' = board \<and> evs = [StepSkipped (nID (slotDef slot))]) \<or>
     (\<not> skipped \<and> e \<noteq> None \<and> board' = board \<and> evs = []) \<or>
     (\<not> skipped \<and> (\<exists>hs ending. evs = StepStarted (nID (slotDef slot)) # map HandlerEvent hs @ [ending] \<and>
        (case e of None \<Rightarrow> ending = StepCompleted (nID (slotDef slot))
         | Some _ \<Rightarrow> \<exists>x. ending = StepError (nID (slotDef slot)) x))))"
proof -
  have q: "\<exists>hs. wpub w2 = wpub w1 @ map HandlerEvent hs"
    if "attempts env c m (invoke_slot slot ec res) r a b w1 = (x, b', w2)" for m ec res r a b w1 x b' w2
    using attempts_quiet [OF _ that] assms(2) by (simp add: quiet_slot_def)
  show ?thesis
    using assms(1)
    by (cases e) (auto simp: invokeNode_def Let_def split: prod.splits option.splits sum.splits bool.splits
        dest!: q wpub_look)
qed

subsection \<open>Branches of a wave\<close>

definition terminal_for :: "string \<Rightarrow> string \<Rightarrow> pub \<Rightarrow> bool" where
  "terminal_for f i p \<longleftrightarrow> p = BranchAccept f i \<or> (\<exists>r. p = BranchCancel f i r)"

definition terminals :: "string \<Rightarrow> string \<Rightarrow> pub list \<Rightarrow> nat" where
  "terminals f i evs = length (filter (terminal_for f i) evs)"

lemma terminals_simps [simp]:
  "terminals f i [] = 0"
  "terminals f i (xs @ ys) = terminals f i xs + terminals f i ys"
  "terminals f i (p # ps) = (if terminal_for f i p then 1 else 0) + terminals f i ps"
  by (simp_all add: terminals_def)

lemma terminal_for_simps [simp]:
  "terminal_for f i (BranchCancel f' j r) \<longleftrightarrow> f' = f \<and> j = i"
  "terminal_for f i (BranchAccept f' j) \<longleftrightarrow> f' = f \<and> j = i"
  "\<not> terminal_for f i (StepStarted n)" "\<not> terminal_for f i (StepCompleted n)" "\<not> terminal_for f i (StepSkipped n)"
  "\<not> terminal_for f i (StepError n x)" "\<not> terminal_for f i (HandlerEvent s)"
  "\<not> terminal_for f i (ParallelFork a b)" "\<not> terminal_for f i (ParallelJoin a b d)"
  by (auto simp: terminal_for_def)

lemma terminals_handler [simp]: "terminals f i (map HandlerEvent hs) = 0"
  by (induction hs) auto

definition quiet_graph :: "('h world) Graph \<Rightarrow> bool" where
  "quiet_graph g \<longleftrightarrow> (\<forall>i slot. gnodes g i = Some slot \<longrightarrow> quiet_slot slot)"

lemma invokeNode_silent:
  assumes "invokeNode env g c slot board w = ((skipped, e), board', w')" "quiet_slot slot"
  shows "\<exists>evs. wpub w' = wpub w @ evs \<and> (\<forall>f i. terminals f i evs = 0) \<and> (\<forall>f i. BranchAccept f i \<notin> set evs)"
proof -
  have q: "\<exists>hs. wpub w2 = wpub w1 @ map HandlerEvent hs"
    if "attempts env c m (invoke_slot slot ec res) r a b w1 = (x, b', w2)" for m ec res r a b w1 x b' w2
    using attempts_quiet [OF _ that] assms(2) by (simp add: quiet_slot_def)
  show ?thesis
    using assms(1)
    by (auto simp: invokeNode_def Let_def split: prod.splits option.splits sum.splits bool.splits
        dest!: q wpub_look)
qed

text \<open>A finished branch's result: cancelled branches contribute nothing, a skipped one neither, and any
  other is what its node did to a private copy of the board before the fork.\<close>

definition ran_privately :: "'h env \<Rightarrow> ('h world) Graph \<Rightarrow> BoardSnapshot \<Rightarrow> string \<Rightarrow> bool \<Rightarrow> err \<Rightarrow> Board \<Rightarrow> bool" where
  "ran_privately env g preFork i skipped e bb \<longleftrightarrow>
     (case gnodes g i of
        None \<Rightarrow> \<not> skipped \<and> e \<noteq> None
      | Some slot \<Rightarrow> \<exists>w1 w2. invokeNode env g (BranchCtx i) slot (RestoreFrom (Some preFork) NewBoard) w1 =
          ((skipped, e), bb, w2))"

definition result_ok :: "'h env \<Rightarrow> ('h world) Graph \<Rightarrow> BoardSnapshot \<Rightarrow> string \<Rightarrow> BranchResult \<Rightarrow> bool" where
  "result_ok env g preFork i r \<longleftrightarrow> bNodeID r = i \<and>
     (if bCancelled r then bDelta r = None \<and> bErr r = None
      else \<exists>skipped bb. ran_privately env g preFork i skipped (bErr r) bb \<and>
        bDelta r = (if skipped then None else Some (Since bb (Board_Mark (RestoreFrom (Some preFork) NewBoard)))))"

fun phase_ok :: "'h env \<Rightarrow> ('h world) Graph \<Rightarrow> BoardSnapshot \<Rightarrow> string \<Rightarrow> bphase \<Rightarrow> bool" where
  "phase_ok env g preFork i (BDone r t) \<longleftrightarrow> result_ok env g preFork i r \<and> (t \<longleftrightarrow> bCancelled r \<or> bErr r \<noteq> None)"
| "phase_ok env g preFork i (BInvoked skipped e bb mk) \<longleftrightarrow> ran_privately env g preFork i skipped e bb \<and>
     mk = Board_Mark (RestoreFrom (Some preFork) NewBoard)"
| "phase_ok env g preFork i _ \<longleftrightarrow> True"

lemma skipped_no_error: "invokeNode env g c slot b w = ((True, e), b', w') \<Longrightarrow> e = None"
  by (auto simp: invokeNode_def Let_def split: prod.splits option.splits sum.splits bool.splits)

lemma settle_ok:
  assumes "ran_privately env g preFork i skipped e bb" "mk = Board_Mark (RestoreFrom (Some preFork) NewBoard)"
    and "settle_branch env g f i skipped e bb mk w = (p, w')"
  shows "phase_ok env g preFork i p"
proof -
  have sk: "skipped \<Longrightarrow> e = None"
    using assms(1) by (auto simp: ran_privately_def dest: skipped_no_error split: option.splits)
  have "\<exists>r t. p = BDone r t \<and> bNodeID r = i \<and> \<not> bCancelled r \<and> bErr r = e \<and>
      bDelta r = (if skipped then None else Some (Since bb mk)) \<and> t = (e \<noteq> None)"
    using sk assms(3) by (cases skipped; cases e) (simp_all add: settle_branch_def noResult_def Let_def, auto)
  then obtain r t where p: "p = BDone r t" "t = (e \<noteq> None)" and r: "bNodeID r = i" "\<not> bCancelled r" "bErr r = e"
    "bDelta r = (if skipped then None else Some (Since bb mk))" by (elim exE conjE) (rule that)
  have "ran_privately env g preFork i skipped (bErr r) bb \<and> bDelta r =
      (if skipped then None else Some (Since bb (Board_Mark (RestoreFrom (Some preFork) NewBoard))))"
    using assms(1,2) r(3,4) by simp
  then have "result_ok env g preFork i r"
    unfolding result_ok_def using r(1,2) by (simp only: if_False simp_thms) blast
  with p r show ?thesis by simp
qed

text \<open>The invariant of a wave in flight, relative to the events before it.\<close>

definition wave_inv ::
  "'h env \<Rightarrow> ('h world) Graph \<Rightarrow> string \<Rightarrow> BoardSnapshot \<Rightarrow> string list \<Rightarrow> pub list \<Rightarrow> bphase list \<times> 'h world \<Rightarrow> bool" where
  "wave_inv env g f preFork wave evs0 st \<longleftrightarrow>
     (case st of (ps, w) \<Rightarrow> length ps = length wave \<and>
        (\<forall>k < length ps. phase_ok env g preFork (wave ! k) (ps ! k)) \<and>
        (\<exists>evs. wpub w = evs0 @ evs \<and> (\<forall>i. BranchAccept f i \<notin> set evs) \<and>
          (\<forall>k < length ps. terminals f (wave ! k) evs = (if branch_terminal (ps ! k) then 1 else 0))))"

text \<open>A step of branch \<open>k\<close> that turns its phase into \<open>p\<close> and reports \<open>evs\<close>.\<close>

lemma wave_inv_update:
  assumes inv: "wave_inv env g f preFork wave evs0 (ps, w)" and k: "k < length ps" and d: "distinct wave"
    and p: "phase_ok env g preFork (wave ! k) p" and w': "wpub w' = wpub w @ evs"
    and acc: "\<forall>i. BranchAccept f i \<notin> set evs"
    and own: "terminals f (wave ! k) evs + (if branch_terminal (ps ! k) then 1 else 0) = (if branch_terminal p then 1 else 0)"
    and other: "\<And>i. i \<noteq> wave ! k \<Longrightarrow> terminals f i evs = 0"
  shows "wave_inv env g f preFork wave evs0 (ps[k := p], w')"
proof -
  from inv obtain evs1 where e1: "wpub w = evs0 @ evs1" "\<forall>i. BranchAccept f i \<notin> set evs1"
    "\<forall>j < length ps. terminals f (wave ! j) evs1 = (if branch_terminal (ps ! j) then 1 else 0)"
    and l: "length ps = length wave" and ph: "\<forall>j < length ps. phase_ok env g preFork (wave ! j) (ps ! j)"
    by (auto simp: wave_inv_def)
  have t: "terminals f (wave ! j) (evs1 @ evs) = (if branch_terminal (ps[k := p] ! j) then 1 else 0)"
    if "j < length ps" for j
  proof (cases "j = k")
    case True
    then show ?thesis using e1(3) k own by simp
  next
    case False
    then have "wave ! j \<noteq> wave ! k" using d l k that by (simp add: nth_eq_iff_index_eq)
    with False show ?thesis using e1(3) other that by simp
  qed
  have "phase_ok env g preFork (wave ! j) (ps[k := p] ! j)" if "j < length ps" for j
    using that ph p k by (cases "j = k") auto
  with t e1 w' acc l show ?thesis by (auto simp: wave_inv_def intro!: exI [of _ "evs1 @ evs"])
qed

lemma wave_inv_host: "wpub w' = wpub w \<Longrightarrow> wave_inv env g f p wave e (ps, w') = wave_inv env g f p wave e (ps, w)"
  by (simp add: wave_inv_def)

lemma wave_inv_step:
  assumes inv: "wave_inv env g f preFork wave evs0 st" and d: "distinct wave" and q: "quiet_graph g"
  shows "wave_inv env g f preFork wave evs0 (branch_step env g f preFork wave k st)"
proof -
  obtain ps w where st: "st = (ps, w)" by fastforce
  let ?i = "wave ! k"
  show ?thesis
  proof (cases "k < length ps")
    case False
    then show ?thesis using inv by (simp add: branch_step_def st)
  next
    case k: True
    have ph: "phase_ok env g preFork ?i (ps ! k)" using inv k by (auto simp: wave_inv_def st)
    note upd = wave_inv_update [OF inv [unfolded st] k d]
    have canc: "phase_ok env g preFork ?i (BDone (cancelledResult ?i) True)"
      by (simp add: cancelledResult_def noResult_def result_ok_def)
    show ?thesis
    proof (cases "ps ! k")
      case BQueued
      then show ?thesis using k inv
        by (auto simp: branch_step_def st Let_def split: prod.splits option.splits
            intro: upd [OF canc, of _ "[BranchCancel f ?i _]"] upd [of BStarted _ "[]"])
    next
      case BStarted
      let ?b0 = "RestoreFrom (Some preFork) NewBoard"
      show ?thesis
      proof (cases "gnodes g ?i")
        case None
        then show ?thesis using k BStarted
          by (auto simp: branch_step_def st Let_def ran_privately_def intro!: upd [of _ _ "[]"])
      next
        case (Some slot)
        obtain sk e bb w' where i: "invokeNode env g (BranchCtx ?i) slot ?b0 w = ((sk, e), bb, w')"
          by (metis prod_cases3 surj_pair)
        obtain evs where "wpub w' = wpub w @ evs" "\<forall>f i. terminals f i evs = 0" "\<forall>f i. BranchAccept f i \<notin> set evs"
          using invokeNode_silent [OF i] q Some by (auto simp: quiet_graph_def)
        moreover have "ran_privately env g preFork ?i sk e bb" using i Some by (auto simp: ran_privately_def)
        ultimately show ?thesis using k BStarted Some i
          by (auto simp: branch_step_def st Let_def intro!: upd [of _ _ evs])
      qed
    next
      case (BInvoked sk e bb mk)
      obtain p w' where s: "settle_branch env g f ?i sk e bb mk w = (p, w')" by fastforce
      have pok: "phase_ok env g preFork ?i p" using settle_ok [OF _ _ s] ph BInvoked by simp
      have "\<exists>evs. wpub w' = wpub w @ evs \<and> (\<forall>i. BranchAccept f i \<notin> set evs) \<and>
          terminals f ?i evs = (if branch_terminal p then 1 else 0) \<and> (\<forall>i. i \<noteq> ?i \<longrightarrow> terminals f i evs = 0)"
        using s by (auto simp: settle_branch_def Let_def split: if_splits option.splits)
      then obtain evs where "wpub w' = wpub w @ evs" "\<forall>i. BranchAccept f i \<notin> set evs"
        "terminals f ?i evs = (if branch_terminal p then 1 else 0)" "\<And>i. i \<noteq> ?i \<Longrightarrow> terminals f i evs = 0" by blast
      then show ?thesis using k BInvoked s
        by (auto simp: branch_step_def st Let_def split: option.splits
            intro!: upd [OF canc, of _ "[BranchCancel f ?i _]"] upd [OF pok, of _ evs])
    next
      case (BDone r t)
      then show ?thesis using k inv by (simp add: branch_step_def st)
    qed
  qed
qed

lemma wave_inv_fold:
  "wave_inv env g f preFork wave evs0 st \<Longrightarrow> distinct wave \<Longrightarrow> quiet_graph g \<Longrightarrow>
    wave_inv env g f preFork wave evs0 (fold (branch_step env g f preFork wave) ks st)"
proof (induction ks arbitrary: st)
  case (Cons k ks)
  from Cons.IH [OF wave_inv_step [OF Cons.prems] Cons.prems(2,3)] show ?case by simp
qed simp

lemma wave_inv_drain:
  "wave_inv env g f preFork wave evs0 st \<Longrightarrow> distinct wave \<Longrightarrow> quiet_graph g \<Longrightarrow>
    wave_inv env g f preFork wave evs0 (drain env g f preFork wave st)"
proof (induction env g f preFork wave st rule: drain.induct)
  case (1 env g f preFork wave st)
  then show ?case
    by (subst drain.simps) (auto split: option.splits intro: wave_inv_step)
qed

lemma drain_done: "next_branch (fst (drain env g f preFork wave st)) = None"
proof (induction env g f preFork wave st rule: drain.induct)
  case (1 env g f preFork wave st)
  then show ?case by (subst drain.simps) (auto split: option.splits)
qed

text \<open>After \<open>wg.Wait\<close>: every branch is done, with its result and at most one terminal event.\<close>

lemma run_branches_spec:
  assumes "run_branches env g f preFork wave w = (ps, w')" "distinct wave" "quiet_graph g"
  shows "wave_inv env g f preFork wave (wpub w) (ps, w')" "\<forall>p \<in> set ps. \<exists>r t. p = BDone r t"
proof -
  obtain sched h where s: "schedule env (whost w) = (sched, h)" by fastforce
  have "wave_inv env g f preFork wave (wpub w) (replicate (length wave) BQueued, w\<lparr>whost := h\<rparr>)"
    by (auto simp: wave_inv_def intro!: exI [of _ "[]"])
  note inv = wave_inv_drain [OF wave_inv_fold [OF this assms(2,3), of sched] assms(2,3)]
  have d: "drain env g f preFork wave (fold (branch_step env g f preFork wave) sched
      (replicate (length wave) BQueued, w\<lparr>whost := h\<rparr>)) = (ps, w')"
    using assms(1) s by (simp add: run_branches_def)
  show "wave_inv env g f preFork wave (wpub w) (ps, w')" using inv unfolding d .
  have "next_branch ps = None"
    using drain_done [of env g f preFork wave "fold (branch_step env g f preFork wave) sched
      (replicate (length wave) BQueued, w\<lparr>whost := h\<rparr>)"] unfolding d by simp
  then show "\<forall>p \<in> set ps. \<exists>r t. p = BDone r t" by (simp only: next_branch_None)
qed

lemma close_branches_events:
  assumes "distinct wave" "length closed = length wave" "\<And>i. terminal_for f i (ev i)" "\<And>i j. i \<noteq> j \<Longrightarrow> \<not> terminal_for f i (ev j)"
  shows "\<exists>evs. wpub (close_branches env ev wave closed w) = wpub w @ evs \<and> set evs \<subseteq> range ev \<and>
    (\<forall>k < length wave. terminals f (wave ! k) evs = (if closed ! k then 0 else 1)) \<and>
    (\<forall>i. i \<notin> set wave \<longrightarrow> terminals f i evs = 0)"
  using assms(1,2)
proof (induction wave arbitrary: "closed" w)
  case Nil
  then show ?case by (auto simp: close_branches_def intro!: exI [of _ "[]"])
next
  case (Cons i wave)
  obtain b bs where tb: "closed = b # bs" using Cons.prems(2) by (cases "closed") auto
  let ?w = "if b then w else emit env (ev i) w"
  obtain evs where e: "wpub (close_branches env ev wave bs ?w) = wpub ?w @ evs" "set evs \<subseteq> range ev"
    "\<forall>k < length wave. terminals f (wave ! k) evs = (if bs ! k then 0 else 1)" "\<forall>j. j \<notin> set wave \<longrightarrow> terminals f j evs = 0"
    using Cons.IH [of bs ?w] Cons.prems tb by auto
  have cl: "close_branches env ev (i # wave) closed w = close_branches env ev wave bs ?w"
    by (simp add: close_branches_def tb)
  let ?evs = "(if b then [] else [ev i]) @ evs"
  have "terminals f ((i # wave) ! k) ?evs = (if closed ! k then 0 else 1)" if "k < Suc (length wave)" for k
  proof (cases k)
    case 0
    then show ?thesis using e(4) Cons.prems(1) assms(3) by (simp add: tb)
  next
    case (Suc j)
    then have "wave ! j \<noteq> i" using Cons.prems(1) that by (auto simp: in_set_conv_nth)
    then show ?thesis using e(3) Suc that assms(4) by (simp add: tb)
  qed
  moreover have "terminals f j ?evs = 0" if "j \<notin> set (i # wave)" for j
    using that e(4) assms(4) by auto
  moreover have "wpub (close_branches env ev (i # wave) closed w) = wpub w @ ?evs \<and> set ?evs \<subseteq> range ev"
    using e(1,2) by (simp add: cl)
  ultimately show ?case by (simp only: length_Cons) blast
qed

lemma wave_error_failed:
  assumes "r \<in> set results" "bErr r \<noteq> None"
  shows "wave_error cause results \<noteq> None"
proof -
  have ic: "Is c x \<Longrightarrow> x \<noteq> None" for c x by (cases x) (simp_all add: Is_def)
  show ?thesis
proof (cases "find (\<lambda>r. Is Interrupted (bErr r)) results")
  case None
  have "first_some (map bErr results) \<noteq> None" using assms by auto
  then show ?thesis using None ic by (simp add: wave_error_def del: first_some_None not_None_eq)
next
  case (Some r')
  then have "Is Interrupted (bErr r')" by (auto simp: find_Some_iff)
  then show ?thesis using Some ic by (simp add: wave_error_def del: not_None_eq)
qed
qed

text \<open>The ways a parallel wave within its branch limit ends, once its branches are done.\<close>

definition wave_ends ::
  "'h env \<Rightarrow> ('h world) Graph \<Rightarrow> string \<Rightarrow> string list \<Rightarrow> Board \<Rightarrow> bphase list \<Rightarrow> err \<times> err \<Rightarrow> 'h world \<Rightarrow>
    err \<Rightarrow> Board \<Rightarrow> 'h world \<Rightarrow> bool" where
  "wave_ends env g f wave board ps o1 w2 e board' w' \<longleftrightarrow>
    (\<exists>x. wave_error (snd o1) (map branch_result ps) = Some x \<and> e = Some x \<and> (Is Interrupted e \<or> board' = board) \<and>
        w' = publishUnterminatedBranchCancels env f wave (map branch_terminal ps) (error_string x) w2) \<or>
     wave_error (snd o1) (map branch_result ps) = None \<and>
       mergeFunc (mapOrder env) (bparallel (goptions g)) (Snapshot board) (map branch_result ps) board = (e, board') \<and>
       (case e of Some x \<Rightarrow> w' = publishUnterminatedBranchCancels env f wave (map branch_terminal ps) (error_string x) w2
        | None \<Rightarrow> w' = emit env (ParallelJoin f wave (cancelledBranches (map branch_result ps)))
            (close_branches env (BranchAccept f) wave (map branch_terminal ps) w2))"

lemma wave_ends_events:
  assumes "wave_ends env g f wave board ps o1 w2 e board' w'"
  shows "(\<exists>r. w' = publishUnterminatedBranchCancels env f wave (map branch_terminal ps) r w2) \<or>
    e = None \<and> (\<exists>c. w' = emit env (ParallelJoin f wave c) (close_branches env (BranchAccept f) wave (map branch_terminal ps) w2))"
  using assms unfolding wave_ends_def by (cases e) auto

lemma wave_ends_board:
  assumes "wave_ends env g f wave board ps o1 w2 e board' w'"
  shows "((\<exists>r \<in> set (map branch_result ps). bErr r \<noteq> None) \<longrightarrow> e \<noteq> None \<and> (Is Interrupted e \<or> board' = board)) \<and>
    (e = None \<longrightarrow> mergeFunc (mapOrder env) (bparallel (goptions g)) (Snapshot board) (map branch_result ps) board = (None, board'))"
  using assms wave_error_failed [of _ "map branch_result ps" "snd o1"] unfolding wave_ends_def by blast

lemma executeParallel_cases:
  assumes "executeParallel env g run wave it board w = (e, board', w')"
    and "MaxBranches (bparallel (goptions g)) \<le> 0 \<or> int (length wave) \<le> MaxBranches (bparallel (goptions g))"
  defines "f \<equiv> forkID_of run it wave"
  obtains ps w1 o1 w2 where
    "run_branches env g f (Snapshot board) wave
       (emit env (ParallelFork f wave) (w\<lparr>wfork := newForkController wave\<rparr>)) = (ps, w1)"
    "look env RunCtx w1 = (o1, w2)" "wave_ends env g f wave board ps o1 w2 e board' w'"
proof -
  obtain ps w1 where rb: "run_branches env g f (Snapshot board) wave
       (emit env (ParallelFork f wave) (w\<lparr>wfork := newForkController wave\<rparr>)) = (ps, w1)" by fastforce
  obtain cerr cause w2 where lk: "look env RunCtx w1 = ((cerr, cause), w2)"
    by (cases "look env RunCtx w1"; cases "fst (look env RunCtx w1)") auto
  obtain m b1 where mg: "mergeFunc (mapOrder env) (bparallel (goptions g)) (Snapshot board) (map branch_result ps) board =
      (m, b1)" by fastforce
  have b: "\<not> (0 < MaxBranches (bparallel (goptions g)) \<and> MaxBranches (bparallel (goptions g)) < int (length wave))"
    using assms(2) by auto
  note ep = assms(1) [unfolded executeParallel_def Let_def if_not_P [OF b], folded f_def, unfolded rb, simplified, unfolded lk,
      simplified, unfolded mg]
  show thesis
  proof (cases "wave_error cause (map branch_result ps)")
    case None
    with that [OF rb lk] ep mg show thesis by (cases m) (auto simp: wave_ends_def)
  next
    case (Some x)
    with that [OF rb lk] ep show thesis by (auto simp: wave_ends_def)
  qed
qed

subsection \<open>Properties of a parallel wave\<close>


text \<open>C3. Every branch of a wave is closed exactly once: whatever the schedule, cancellations and failures,
  the events of a parallel wave contain, for each of its branches, exactly one terminal event of the
  fork, an acceptance or a cancellation, and a wave that fails accepts none.\<close>

theorem branch_closed_once:
  assumes "executeParallel env g run wave it board w = (e, board', w')" "distinct wave" "quiet_graph g"
    and "MaxBranches (bparallel (goptions g)) \<le> 0 \<or> int (length wave) \<le> MaxBranches (bparallel (goptions g))"
  shows "\<exists>evs. wpub w' = wpub w @ evs \<and>
    (\<forall>i \<in> set wave. terminals (forkID_of run it wave) i evs = 1) \<and>
    (e \<noteq> None \<longrightarrow> (\<forall>i. BranchAccept (forkID_of run it wave) i \<notin> set evs))"
proof -
  let ?f = "forkID_of run it wave"
  obtain ps w1 o1 w2 where rb: "run_branches env g ?f (Snapshot board) wave
       (emit env (ParallelFork ?f wave) (w\<lparr>wfork := newForkController wave\<rparr>)) = (ps, w1)"
    and lk: "look env RunCtx w1 = (o1, w2)"
    and ends: "wave_ends env g ?f wave board ps o1 w2 e board' w'"
    by (rule executeParallel_cases [OF assms(1,4)])
  note sp = run_branches_spec [OF rb assms(2,3)]
  obtain evs1 where l: "length ps = length wave" and e1: "wpub w1 = wpub w @ ParallelFork ?f wave # evs1"
    "\<forall>i. BranchAccept ?f i \<notin> set evs1"
    "\<forall>k < length ps. terminals ?f (wave ! k) evs1 = (if branch_terminal (ps ! k) then 1 else 0)"
    using sp(1) by (auto simp: wave_inv_def)
  have w2: "wpub w2 = wpub w @ ParallelFork ?f wave # evs1" using wpub_look [OF lk] e1(1) by simp
  let ?closed = "map branch_terminal ps"
  have close: "\<exists>evs. wpub (close_branches env ev wave ?closed w2) = wpub w @ ParallelFork ?f wave # evs1 @ evs \<and>
      set evs \<subseteq> range ev \<and> (\<forall>i \<in> set wave. terminals ?f i (evs1 @ evs) = 1)"
    if ev: "\<And>i. terminal_for ?f i (ev i)" "\<And>i j. i \<noteq> j \<Longrightarrow> \<not> terminal_for ?f i (ev j)" for ev
  proof -
    obtain evs where "wpub (close_branches env ev wave ?closed w2) = wpub w2 @ evs" "set evs \<subseteq> range ev"
      "\<forall>k < length wave. terminals ?f (wave ! k) evs = (if ?closed ! k then 0 else 1)"
      using close_branches_events [OF assms(2) _ ev, of ?closed env w2] l by auto
    then show ?thesis using e1(3) l w2 by (intro exI [of _ evs]) (auto simp: in_set_conv_nth)
  qed
  from wave_ends_events [OF ends] show ?thesis
  proof
    assume "\<exists>r. w' = publishUnterminatedBranchCancels env ?f wave ?closed r w2"
    then obtain r where r: "w' = close_branches env (\<lambda>i. BranchCancel ?f i r) wave ?closed w2"
      by (auto simp: publishUnterminatedBranchCancels_def)
    obtain evs where "wpub w' = wpub w @ ParallelFork ?f wave # evs1 @ evs" "set evs \<subseteq> range (\<lambda>i. BranchCancel ?f i r)"
      "\<forall>i \<in> set wave. terminals ?f i (evs1 @ evs) = 1"
      using close [of "\<lambda>i. BranchCancel ?f i r"] r by auto
    then show ?thesis using e1(2) by (intro exI [of _ "ParallelFork ?f wave # evs1 @ evs"]) auto
  next
    assume "e = None \<and> (\<exists>c. w' = emit env (ParallelJoin ?f wave c) (close_branches env (BranchAccept ?f) wave ?closed w2))"
    then obtain c where c: "e = None" "w' = emit env (ParallelJoin ?f wave c) (close_branches env (BranchAccept ?f) wave ?closed w2)"
      by blast
    obtain evs where "wpub (close_branches env (BranchAccept ?f) wave ?closed w2) = wpub w @ ParallelFork ?f wave # evs1 @ evs"
      "\<forall>i \<in> set wave. terminals ?f i (evs1 @ evs) = 1"
      using close [of "BranchAccept ?f"] by auto
    then show ?thesis using c by (intro exI [of _ "ParallelFork ?f wave # evs1 @ evs @ [ParallelJoin ?f wave c]"]) auto
  qed
qed

lemma demo_quiet: "quiet_graph demo_graph" "quiet_slot (demo_slot i)"
  by (auto simp: quiet_graph_def quiet_slot_def quiet_inv_def demo_graph_def demo_slot_def invoke_slot_def
      split: if_splits intro: exI [of _ "[]"])

lemma demo_graph_ok: "graph_ok demo_graph"
  by (auto simp: graph_ok_def demo_graph_def demo_slot_def demo_edge_def END_def split: if_splits)

lemma demo_bounds: "MaxBranches (bparallel (goptions demo_graph)) = 0" "maxIterations (goptions demo_graph) = 100"
  "maxNodeRetries (goptions demo_graph) = 0"
  by (simp_all add: demo_graph_def defaultBuildOptions_def)

theorem step_events_bracket_witness:
  "\<exists>b w hs. invokeNode demo_env demo_graph RunCtx (demo_slot ''a'') NewBoard demo_world = ((False, None), b, w) \<and>
     wpub w = StepStarted ''a'' # map HandlerEvent hs @ [StepCompleted ''a'']"
proof -
  obtain b w where i: "invokeNode demo_env demo_graph RunCtx (demo_slot ''a'') NewBoard demo_world = ((False, None), b, w)"
    by (simp add: invokeNode_def demo_slot_def resolveConfig_def validateReads_def validateWrites_def demo_bounds
        attempts_once invoke_slot_def Let_def)
  have "nID (slotDef (demo_slot ''a'')) = ''a''" by (simp add: demo_slot_def)
  with step_events_bracket [OF i demo_quiet(2)] i show ?thesis by (auto simp: demo_world_def)
qed


theorem branch_closed_once_witness:
  "\<exists>e b w. executeParallel demo_env demo_graph demo_run [''a'', ''b''] 1 NewBoard demo_world = (e, b, w) \<and>
     terminals (forkID_of demo_run 1 [''a'', ''b'']) ''a'' (wpub w) = 1"
proof -
  obtain e b w where ep: "executeParallel demo_env demo_graph demo_run [''a'', ''b''] 1 NewBoard demo_world = (e, b, w)"
    by (metis prod_cases3)
  from branch_closed_once [OF ep _ demo_quiet(1)] ep show ?thesis by (auto simp: demo_bounds demo_world_def)
qed

subsection \<open>Properties of a run\<close>

text \<open>C4. Every run ends: with an iteration budget, or on a graph without cycles, \<open>Execute\<close> returns whatever
  the handlers, the host, the conditions and the scheduler do, resumed or not.\<close>

theorem execute_terminates:
  assumes "maxIterations (goptions g) > 0 \<or> edge_rank g rk"
  shows "\<exists>e board' w'. Execute env g run board w = Some (e, board', w')"
proof -
  have "wave_loop env g run st s \<noteq> None" for st s using wave_loop_total [OF assms, of env run st s] by auto
  then have "Execute env g run board w \<noteq> None"
    by (simp add: Execute_def Let_def del: not_None_eq split: prod.split sum.split)
  then show ?thesis by (metis option.exhaust prod_cases3)
qed

theorem execute_terminates_witness:
  "\<exists>e board' w'. Execute demo_env demo_graph demo_run None demo_world = Some (e, board', w')"
  by (rule execute_terminates [of demo_graph "\<lambda>_. 0"]) (simp add: demo_bounds)

text \<open>A checkpoint is a faithful resume point: a record of the boundary after a wave, as a store returns it,
  is accepted by \<open>CanResume\<close>, and the resumed run starts where the recorded one went on.\<close>

lemma resume_from_record:
  assumes "graph_ok g" "start_point env g run b0 = Inr (fr, it, b1)"
    and "loop_reach env g run st \<lparr>frontier = fr, iters = it, writer = cw, lboard = b1, lworld = w\<rparr> s"
    and "wave_step env g run st s = Inr s'"
    and "represents (rRunID run) (stamp_meta g run (dedupIDs (frontier s)) (iters s') ts st, lboard s') cp"
    and "Checkpoint_Validate (\<lambda>p. jparse (ejson env) p \<noteq> None) cp = None"
  shows "CanResume g cp = None \<and>
    (\<exists>b'. start_point env g (run\<lparr>ResumeFrom := Some cp\<rparr>) b = Inr (frontier s', iters s', b') \<and>
      same_state (Snapshot b') (lboard s'))"
proof -
  have ok: "loop_ok g s" using loop_ok_reach [OF assms(3,1)] start_point_ok [OF assms(2,1)] by blast
  obtain snap where cp: "cpExecID cp = rRunID run" "cpSteps cp = Slice (dedupIDs (frontier s))" "cpIteration cp = iters s'"
    "cpSpecVersion cp = specVersion g" "cpBoard cp = Some snap" "same_state snap (lboard s')"
    using assms(5) by (auto simp: represents_def stamp_meta_def)
  have ne: "frontier s \<noteq> []" and nx: "resolveNext (eexpr env) g (lboard s') (dedupIDs (frontier s)) (iters s') = Inr (frontier s')"
    using assms(4) by (auto elim: wave_step_Inr)
  have "\<forall>i \<in> set (frontier s). gnodes g i \<noteq> None" using ok assms(1) by (auto simp: loop_ok_def graph_ok_def)
  then have cr: "CanResume g cp = None"
    using cp ne wave_step_progress(2) [OF assms(4)] by (auto simp: CanResume_def list_ex_iff)
  let ?b = "RestoreFrom (Some snap) b"
  have "vars ?b = vars (lboard s')" using cp(6) by (simp add: RestoreFrom_fields same_state_def)
  then have "resolveNext (eexpr env) g ?b (dedupIDs (frontier s)) (iters s') = Inr (frontier s')"
    using nx resolveNext_vars by metis
  then have "start_point env g (run\<lparr>ResumeFrom := Some cp\<rparr>) b = Inr (frontier s', iters s', ?b)"
    using assms(6) cp cr by (simp add: start_point_def)
  moreover have "same_state (Snapshot ?b) (lboard s')"
    using cp(6) same_state_restore [of snap b] by (simp add: same_state_def Snapshot_def chan_fmchan)
  ultimately show ?thesis using cr by blast
qed

text \<open>The first wave of the demonstration graph.\<close>

definition demo_start :: "nat loopState" where
  "demo_start = \<lparr>frontier = [''s''], iters = 0, writer = NewCheckpointWriter None ''r'', lboard = NewBoard,
     lworld = demo_world\<rparr>"

lemma demo_invoke:
  "gnodes demo_graph i = Some slot \<Longrightarrow>
   invokeNode demo_env demo_graph c slot b w = ((False, None), SetVar i (VInt 1) b,
     emit demo_env (StepCompleted i) (emit demo_env (StepStarted i) w))"
  by (auto simp: demo_graph_def demo_slot_def invokeNode_def resolveConfig_def validateReads_def validateWrites_def
      attempts_once invoke_slot_def Let_def defaultBuildOptions_def split: if_splits)

lemma demo_look: "look demo_env c w = ((None, None), w)" "pollInterrupt demo_env w = (None, w)"
  by (simp_all add: look_def pollInterrupt_def demo_env_def)

lemma demo_first_wave:
  "\<exists>s'. wave_step demo_env demo_graph demo_run 1 demo_start = Inr s' \<and> frontier s' = [''a'', ''b''] \<and> iters s' = 1"
proof -
  obtain slot where s: "gnodes demo_graph ''s'' = Some slot" by (simp add: demo_graph_def)
  have nx: "resolveNext (eexpr demo_env) demo_graph b [''s''] 1 = Inr [''a'', ''b'']" for b
    by (simp add: resolveNext_def demo_graph_def demo_edge_def takes_edge_def END_def)
  have st: "stampCheckpoint demo_env demo_graph demo_run 1 [''s''] 1 b (NewCheckpointWriter None ''r'') w =
      (NewCheckpointWriter None ''r'', w)" for b w
    by (simp add: stampCheckpoint_def Writer_Enabled_def NewCheckpointWriter_def blank_writer_def no_caps_def)
  show ?thesis
    by (simp add: wave_step_def demo_start_def demo_look demo_bounds executeWave_def s demo_invoke [OF s] nx st Let_def)
qed

lemma demo_start_point: "start_point demo_env demo_graph demo_run NewBoard = Inr ([''s''], 0, NewBoard)"
  by (simp add: start_point_def demo_run_def demo_env_def demo_graph_def)

end
