(* ===== verification/Resource_Graph.thy ===== *)
theory Resource_Graph
  imports Agent_Board "HOL-Library.Multiset"
begin

text \<open>
  Resources and their dependency graph: \<open>core/resource/types.go\<close> (references, dependencies, validation) and
  \<open>core/resource/dag.go\<close> (insertion, validation, cycle search, topological order).

  Every loop over a Go map visits the keys in an order of its own: \<open>it l K\<close> is the order of the loop labelled \<open>l\<close>
  over the keys \<open>K\<close>, and the results hold for every \<open>it\<close> that lists the keys without repetition. \<open>jv\<close>
  stands for \<open>json.Valid\<close>. The colours of the cycle search are the constants of \<open>findCycle\<close>; its recursion
  is \<open>visit_refs\<close>, the loop over the references of a grey node, and terminates because each descent
  makes a white node grey.
\<close>

type_synonym iter = "string list \<Rightarrow> string fset \<Rightarrow> string list"

definition iter_ok :: "iter \<Rightarrow> bool" where
  "iter_ok it \<longleftrightarrow> (\<forall>l K. set (it l K) = fset K \<and> distinct (it l K))"

subsection \<open>References and resources\<close>

definition Ref_Split :: "string \<Rightarrow> string \<times> string \<times> bool" where
  "Ref_Split r =
     (let text1 = trim_space r in
      if text1 = [] then ([], [], False)
      else case index_byte text1 CHR ''/'' of
        Some i \<Rightarrow>
          if i = 0 \<or> i = length text1 - 1 then ([], [], False)
          else if contains_str (drop (i + 1) text1) ''/'' then ([], [], False)
          else (take i text1, drop (i + 1) text1, True)
      | None \<Rightarrow> (text1, [], True))"

definition Ref_Validate :: "string \<Rightarrow> err" where
  "Ref_Validate r =
     (case Ref_Split r of (res, item, ok) \<Rightarrow>
        if \<not> ok \<or> res = [] then Some (errf Validation ''resource ref: must be resource or resource/item'') else None)"

definition ResourceName :: "string \<Rightarrow> string" where
  "ResourceName r = fst (Ref_Split r)"

definition ItemName :: "string \<Rightarrow> string \<times> bool" where
  "ItemName r = (case Ref_Split r of (res, item, ok) \<Rightarrow> (item, ok \<and> item \<noteq> []))"

type_synonym Deps = "(string, string) fmap"

definition Deps_Validate :: "iter \<Rightarrow> string \<Rightarrow> Deps \<Rightarrow> err" where
  "Deps_Validate it owner d =
     first_some (map (\<lambda>name.
       if trim_space name = [] then Some (errf Validation ''resource deps: dep name is empty'')
       else map_option (errf_w Validation ''resource deps'') (Ref_Validate (the (fmlookup d name))))
     (it [''deps'', owner] (fmdom d)))"

record Resource =
  rKind :: string
  rImpl :: string
  rDeps :: Deps
  rSettings :: string

definition Resource_Validate :: "(string \<Rightarrow> bool) \<Rightarrow> iter \<Rightarrow> string \<Rightarrow> Resource \<Rightarrow> err" where
  "Resource_Validate jv it owner r =
     (if rKind r = [] then Some (errf Validation ''resource: kind is required'')
      else case Deps_Validate it owner (rDeps r) of
        Some e \<Rightarrow> Some e
      | None \<Rightarrow>
          if rSettings r \<noteq> [] \<and> \<not> jv (rSettings r)
          then Some (errf Validation ''resource: settings is not valid JSON'') else None)"

definition Resources_Validate :: "(string \<Rightarrow> bool) \<Rightarrow> iter \<Rightarrow> (string, Resource) fmap \<Rightarrow> err" where
  "Resources_Validate jv it rs =
     first_some (map (\<lambda>name.
       if trim_space name = [] then Some (errf Validation ''resources: resource name is empty'')
       else map_option (errf_w Validation ''resources'') (Resource_Validate jv it name (the (fmlookup rs name))))
     (it [''resources''] (fmdom rs)))"

subsection \<open>The graph\<close>

record ResGraph =
  rnodes :: "(string, Resource) fmap"
  external :: "string fset"

definition NewGraph :: ResGraph where
  "NewGraph = \<lparr>rnodes = fmempty, external = {||}\<rparr>"

definition Graph_Add :: "(string \<Rightarrow> bool) \<Rightarrow> iter \<Rightarrow> string \<Rightarrow> Resource \<Rightarrow> ResGraph \<Rightarrow> go_error + ResGraph" where
  "Graph_Add jv it name res g =
     (if fmlookup (rnodes g) name \<noteq> None then Inl (errf Conflict ''resource graph: duplicate node'')
      else if name |\<in>| external g then Inl (errf Conflict ''resource graph: node duplicates an external node'')
      else case Resource_Validate jv it name res of
        Some e \<Rightarrow> Inl (errf_w Validation ''resource graph: node'' e)
      | None \<Rightarrow> Inr (g\<lparr>rnodes := fmupd name res (rnodes g)\<rparr>))"

definition AddExternal :: "string \<Rightarrow> ResGraph \<Rightarrow> go_error + ResGraph" where
  "AddExternal name0 g =
     (let name = trim_space name0 in
      if name = [] \<or> contains_str name ''/'' then
        Inl (errf Validation ''resource graph: external node must be a non-empty resource name'')
      else if fmlookup (rnodes g) name \<noteq> None then
        Inl (errf Conflict ''resource graph: external node duplicates a resource'')
      else if name |\<in>| external g then Inl (errf Conflict ''resource graph: duplicate external node'')
      else Inr (g\<lparr>external := finsert name (external g)\<rparr>))"

definition Graph_Node :: "ResGraph \<Rightarrow> string \<Rightarrow> Resource option" where
  "Graph_Node g name = fmlookup (rnodes g) name"

definition Names :: "iter \<Rightarrow> ResGraph \<Rightarrow> string list" where
  "Names it g = sort (it [''names''] (fmdom (rnodes g)))"

text \<open>The resources a node's dependencies name, one per dependency; the loop over an unknown node's
  dependencies is empty.\<close>

definition dep_targets :: "iter \<Rightarrow> string list \<Rightarrow> ResGraph \<Rightarrow> string \<Rightarrow> string list" where
  "dep_targets it l g name =
     (case fmlookup (rnodes g) name of
        None \<Rightarrow> []
      | Some r \<Rightarrow> map (\<lambda>k. ResourceName (the (fmlookup (rDeps r) k))) (it (l @ [name]) (fmdom (rDeps r))))"

subsection \<open>The cycle search\<close>

datatype colour = White | Gray | Black

record search =
  colours :: "string \<Rightarrow> colour"
  gstack :: "string list"

text \<open>The loop that cuts the stack at \<open>nxt\<close>.\<close>

fun cut_stack :: "string list \<Rightarrow> string \<Rightarrow> string list option" where
  "cut_stack [] nxt = None"
| "cut_stack (n # ns) nxt = (if n = nxt then Some ((n # ns) @ [nxt]) else cut_stack ns nxt)"

definition enter :: "string \<Rightarrow> search \<Rightarrow> search" where
  "enter name s = s\<lparr>colours := (colours s)(name := Gray), gstack := gstack s @ [name]\<rparr>"

definition leave :: "string \<Rightarrow> search \<Rightarrow> search" where
  "leave name s = s\<lparr>gstack := butlast (gstack s), colours := (colours s)(name := Black)\<rparr>"

definition whites :: "ResGraph \<Rightarrow> search \<Rightarrow> nat" where
  "whites g s = card {n \<in> fset (fmdom (rnodes g)). colours s n = White}"

function visit_refs :: "iter \<Rightarrow> ResGraph \<Rightarrow> string \<Rightarrow> string list \<Rightarrow> search \<Rightarrow> string list option \<times> search" where
  "visit_refs it g name [] s = (None, leave name s)"
| "visit_refs it g name (nxt # rest) s =
     (if nxt |\<in>| external g then visit_refs it g name rest s
      else case colours s nxt of
        Gray \<Rightarrow>
          (case cut_stack (gstack s) nxt of
             Some cycle \<Rightarrow> (Some cycle, s)
           | None \<Rightarrow> visit_refs it g name rest s)
      | White \<Rightarrow>
          (case visit_refs it g nxt (dep_targets it [''dfs''] g nxt) (enter nxt s) of
             (Some cycle, s') \<Rightarrow> (Some cycle, s')
           | (None, s') \<Rightarrow> visit_refs it g name rest s')
      | Black \<Rightarrow> visit_refs it g name rest s)"
  by pat_completeness auto

lemma whites_mono: "(\<And>n. colours s' n = White \<Longrightarrow> colours s n = White) \<Longrightarrow> whites g s' \<le> whites g s"
  unfolding whites_def by (rule card_mono) auto

lemma visit_keeps_white:
  "visit_refs_dom (it, g, name, refs, s) \<Longrightarrow> visit_refs it g name refs s = (r, s') \<Longrightarrow>
    colours s' n = White \<Longrightarrow> colours s n = White"
proof (induction it g name refs s arbitrary: r s' rule: visit_refs.pinduct)
  case (1 it g name s)
  then show ?case by (auto simp: visit_refs.psimps leave_def split: if_splits)
next
  case (2 it g name nxt rest s)
  show ?case
  proof (cases "nxt |\<in>| external g")
    case True
    then show ?thesis using 2 by (simp add: visit_refs.psimps)
  next
    case False
    show ?thesis
    proof (cases "colours s nxt")
      case White
      obtain r1 s1 where v: "visit_refs it g nxt (dep_targets it [''dfs''] g nxt) (enter nxt s) = (r1, s1)"
        by fastforce
      have "colours s n = White" if "colours s1 n = White"
        using 2(3) [OF False White v that] by (simp add: enter_def split: if_splits)
      then show ?thesis
        using 2 False White v by (auto simp: visit_refs.psimps split: option.splits)
    next
      case Gray
      then show ?thesis using 2 False by (auto simp: visit_refs.psimps split: option.splits)
    next
      case Black
      then show ?thesis using 2 False by (simp add: visit_refs.psimps)
    qed
  qed
qed

lemma whites_enter:
  assumes "colours s nxt = White" "fmlookup (rnodes g) nxt \<noteq> None"
  shows "whites g (enter nxt s) < whites g s"
  unfolding whites_def
proof (rule psubset_card_mono)
  show "finite {n \<in> fset (fmdom (rnodes g)). colours s n = White}" by simp
qed (use assms in \<open>auto simp: enter_def fmlookup_dom_iff\<close>)

lemma whites_enter_le: "whites g (enter nxt s) \<le> whites g s"
  by (rule whites_mono) (simp add: enter_def split: if_splits)

termination visit_refs
proof (relation "measures [\<lambda>(it, g, name, refs, s). whites g s, \<lambda>(it, g, name, refs, s). length refs]", goal_cases)
  case (3 it g name nxt rest s)
  then show ?case
    using whites_enter_le [of g nxt s] whites_enter [of s nxt g]
    by (cases "fmlookup (rnodes g) nxt") (auto simp: dep_targets_def less_le_not_le)
next
  case (4 it g name nxt rest s r s')
  then have "whites g s' \<le> whites g (enter nxt s)"
    by (intro whites_mono) (metis visit_keeps_white)
  then show ?case using whites_enter_le [of g nxt s] by (auto simp: less_le_not_le)
qed auto

declare visit_refs.simps [simp del]

definition dfs :: "iter \<Rightarrow> ResGraph \<Rightarrow> string \<Rightarrow> search \<Rightarrow> string list option \<times> search" where
  "dfs it g name s = visit_refs it g name (dep_targets it [''dfs''] g name) (enter name s)"

fun find_from :: "iter \<Rightarrow> ResGraph \<Rightarrow> string list \<Rightarrow> search \<Rightarrow> string list option" where
  "find_from it g [] s = None"
| "find_from it g (name # names) s =
     (if colours s name = White
      then (case dfs it g name s of (Some cycle, s') \<Rightarrow> Some cycle | (None, s') \<Rightarrow> find_from it g names s')
      else find_from it g names s)"

definition findCycle :: "iter \<Rightarrow> ResGraph \<Rightarrow> string list option" where
  "findCycle it g = find_from it g (it [''cycle''] (fmdom (rnodes g))) \<lparr>colours = (\<lambda>_. White), gstack = []\<rparr>"

definition validate_node :: "(string \<Rightarrow> bool) \<Rightarrow> iter \<Rightarrow> ResGraph \<Rightarrow> string \<Rightarrow> err" where
  "validate_node jv it g name =
     (case fmlookup (rnodes g) name of
        None \<Rightarrow> None
      | Some res \<Rightarrow>
        (case Resource_Validate jv it name res of
           Some e \<Rightarrow> Some (errf_w Validation ''resource graph: node'' e)
         | None \<Rightarrow>
           first_some (map (\<lambda>refName.
             if fmlookup (rnodes g) refName = None \<and> refName |\<notin>| external g
             then Some (errf Validation ''resource graph: node dep references missing resource'') else None)
           (dep_targets it [''validate''] g name))))"

definition Graph_Validate :: "(string \<Rightarrow> bool) \<Rightarrow> iter \<Rightarrow> ResGraph \<Rightarrow> err" where
  "Graph_Validate jv it g =
     (case first_some (map (validate_node jv it g) (it [''nodes''] (fmdom (rnodes g)))) of
        Some e \<Rightarrow> Some e
      | None \<Rightarrow>
        (case findCycle it g of
           Some cycle \<Rightarrow> Some (errf Validation ''resource graph: dependency cycle'')
         | None \<Rightarrow> None))"

subsection \<open>The topological order\<close>

record kahn =
  indegree :: "(string, int) fmap"
  ready :: "string list"
  sorted_out :: "string list"

definition degree :: "(string, int) fmap \<Rightarrow> string \<Rightarrow> int" where
  "degree m n = (case fmlookup m n of None \<Rightarrow> 0 | Some d \<Rightarrow> d)"

text \<open>The counting loop: the degrees and, for each name, its dependents in the order they were met.\<close>

definition count_deps ::
  "iter \<Rightarrow> ResGraph \<Rightarrow> string \<Rightarrow> (string, int) fmap \<times> (string \<Rightarrow> string list) \<Rightarrow>
    (string, int) fmap \<times> (string \<Rightarrow> string list)" where
  "count_deps it g name s =
     (let refs = dep_targets it [''topo''] g name in
      (fmupd name (int (length refs)) (fst s),
       fold (\<lambda>ref deps. deps(ref := deps ref @ [name])) refs (snd s)))"

definition release :: "string \<Rightarrow> kahn \<Rightarrow> kahn" where
  "release dependent k =
     (let d = degree (indegree k) dependent - 1;
          k1 = k\<lparr>indegree := fmupd dependent d (indegree k)\<rparr>
      in if d = 0 then k1\<lparr>ready := sort (ready k1 @ [dependent])\<rparr> else k1)"

definition kahn_weight :: "kahn \<Rightarrow> nat" where
  "kahn_weight k = length (ready k) + card {n \<in> fset (fmdom (indegree k)). degree (indegree k) n > 0}"

lemma release_weight: "kahn_weight (release n k) \<le> kahn_weight k"
proof -
  let ?P = "\<lambda>k. {m \<in> fset (fmdom (indegree k)). degree (indegree k) m > 0}"
  have fin: "finite (?P k)" by simp
  have sub: "?P (release n k) \<subseteq> ?P k"
    by (auto simp: release_def Let_def degree_def fmlookup_dom_iff split: if_splits option.splits)
  show ?thesis
  proof (cases "degree (indegree k) n = 1")
    case True
    then have "n \<in> ?P k - ?P (release n k)"
      by (auto simp: release_def Let_def degree_def fmlookup_dom_iff split: if_splits option.splits)
    then have "card (?P (release n k)) < card (?P k)" using sub fin by (intro psubset_card_mono) auto
    then show ?thesis using True by (simp add: kahn_weight_def release_def Let_def)
  next
    case False
    then show ?thesis using card_mono [OF fin sub] by (simp add: kahn_weight_def release_def Let_def)
  qed
qed

lemma fold_release_weight: "kahn_weight (fold release ds k) \<le> kahn_weight k"
  by (induction ds arbitrary: k) (auto intro: order_trans release_weight)

definition take_ready :: "ResGraph \<Rightarrow> (string \<Rightarrow> string list) \<Rightarrow> string \<Rightarrow> kahn \<Rightarrow> kahn" where
  "take_ready g dependents name k =
     (let k1 = k\<lparr>ready := tl (ready k)\<rparr>;
          k2 = (if name |\<in>| external g then k1 else k1\<lparr>sorted_out := sorted_out k1 @ [name]\<rparr>)
      in fold release (dependents name) k2)"

function kahn_loop :: "ResGraph \<Rightarrow> (string \<Rightarrow> string list) \<Rightarrow> kahn \<Rightarrow> string list" where
  "kahn_loop g dependents k =
     (case ready k of
        [] \<Rightarrow> sorted_out k
      | name # rest \<Rightarrow> kahn_loop g dependents (take_ready g dependents name k))"
  by pat_completeness auto

termination
proof (relation "measure (\<lambda>(g, d, k). kahn_weight k)", goal_cases)
  case (2 g dependents k name rest)
  let ?k = "k\<lparr>ready := rest\<rparr>"
  let ?k2 = "if name |\<in>| external g then ?k else ?k\<lparr>sorted_out := sorted_out ?k @ [name]\<rparr>"
  have "kahn_weight ?k2 < kahn_weight k" using 2 by (simp add: kahn_weight_def)
  with fold_release_weight [of "dependents name" ?k2] show ?case using 2 by (simp add: take_ready_def Let_def)
qed simp

declare kahn_loop.simps [simp del]

definition topo_start :: "iter \<Rightarrow> ResGraph \<Rightarrow> (string, int) fmap \<Rightarrow> kahn" where
  "topo_start it g deg =
     \<lparr>indegree = deg,
      ready = sort (it [''external''] (external g) @ filter (\<lambda>n. degree deg n = 0) (it [''indegree''] (fmdom deg))),
      sorted_out = []\<rparr>"

definition TopoOrder :: "(string \<Rightarrow> bool) \<Rightarrow> iter \<Rightarrow> ResGraph \<Rightarrow> go_error + string list" where
  "TopoOrder jv it g =
     (case Graph_Validate jv it g of
        Some e \<Rightarrow> Inl e
      | None \<Rightarrow>
        (let (deg, dependents) = fold (count_deps it g) (it [''count''] (fmdom (rnodes g))) (fmempty, \<lambda>_. [])
         in Inr (kahn_loop g dependents (topo_start it g deg))))"

end
