(* ===== verification/Resource_Order.thy ===== *)
theory Resource_Order
  imports Resource_Graph
begin

text \<open>
  What the cycle search and the topological order of \<open>core/resource/dag.go\<close> compute: the search finds a
  cycle exactly when there is one and returns it, and the order lists every resource once, after
  everything it depends on, whatever order the maps are walked in.
\<close>

subsection \<open>The dependency relation\<close>

text \<open>Resource \<open>a\<close> depends on \<open>b\<close>; references to external nodes are not edges.\<close>

definition dep_rel :: "ResGraph \<Rightarrow> (string \<times> string) set" where
  "dep_rel g = {(a, b). b |\<notin>| external g \<and>
     (\<exists>r k ref. fmlookup (rnodes g) a = Some r \<and> fmlookup (rDeps r) k = Some ref \<and> b = ResourceName ref)}"

definition dep_cycle :: "ResGraph \<Rightarrow> string list \<Rightarrow> bool" where
  "dep_cycle g c \<longleftrightarrow> 2 \<le> length c \<and> c ! 0 = last c \<and> successively (\<lambda>a b. (a, b) \<in> dep_rel g) c"

lemma iter_set [simp]: "iter_ok it \<Longrightarrow> set (it l K) = fset K" "iter_ok it \<Longrightarrow> distinct (it l K)"
  by (auto simp: iter_ok_def)

lemma dep_targets_set:
  assumes "iter_ok it"
  shows "x \<in> set (dep_targets it l g n) \<longleftrightarrow>
    (\<exists>r k ref. fmlookup (rnodes g) n = Some r \<and> fmlookup (rDeps r) k = Some ref \<and> x = ResourceName ref)"
proof (cases "fmlookup (rnodes g) n")
  case (Some r)
  have "x \<in> set (dep_targets it l g n) \<longleftrightarrow> (\<exists>k \<in> fset (fmdom (rDeps r)). x = ResourceName (the (fmlookup (rDeps r) k)))"
    using assms Some by (auto simp: dep_targets_def)
  also have "\<dots> \<longleftrightarrow> (\<exists>k ref. fmlookup (rDeps r) k = Some ref \<and> x = ResourceName ref)"
    by (metis fmlookup_dom_iff option.sel)
  finally show ?thesis using Some by simp
qed (simp add: dep_targets_def)

lemma dep_rel_iff: "iter_ok it \<Longrightarrow> (n, x) \<in> dep_rel g \<longleftrightarrow> x |\<notin>| external g \<and> x \<in> set (dep_targets it l g n)"
  by (auto simp: dep_rel_def dep_targets_set)

lemma dep_rel_node: "(n, x) \<in> dep_rel g \<Longrightarrow> n |\<in>| fmdom (rnodes g)"
  by (auto simp: dep_rel_def fmlookup_dom_iff)

lemma successively_trancl: "successively (\<lambda>a b. (a, b) \<in> R) (x # xs @ [y]) \<Longrightarrow> (x, y) \<in> R\<^sup>+"
  by (induction xs arbitrary: x) (auto intro: trancl_into_trancl2)

lemma dep_cycle_cyclic:
  assumes "dep_cycle g c"
  shows "\<not> acyclic (dep_rel g)"
proof -
  obtain x xs y where c: "c = x # xs @ [y]"
    using assms by (cases c; cases "tl c" rule: rev_cases) (auto simp: dep_cycle_def)
  with assms have "x = y" "(x, y) \<in> (dep_rel g)\<^sup>+"
    by (auto simp: dep_cycle_def intro!: successively_trancl)
  then show ?thesis by (auto simp: acyclic_def)
qed

subsection \<open>The cycle search\<close>

lemma cut_stack_None: "cut_stack xs n = None \<longleftrightarrow> n \<notin> set xs"
  by (induction xs) auto

lemma cut_stack_Some:
  "cut_stack xs n = Some c \<Longrightarrow> \<exists>pre suf. xs = pre @ n # suf \<and> c = n # suf @ [n]"
proof (induction xs)
  case (Cons x xs)
  show ?case
  proof (cases "x = n")
    case True
    then show ?thesis using Cons.prems by (intro exI [of _ "[]"] exI [of _ xs]) auto
  next
    case False
    then obtain pre suf where "xs = pre @ n # suf" "c = n # suf @ [n]" using Cons by auto
    then show ?thesis by (intro exI [of _ "x # pre"] exI [of _ suf]) auto
  qed
qed simp

text \<open>The stack is the grey path; black nodes are finished: closed under dependencies and on no cycle.\<close>

definition dfs_inv :: "ResGraph \<Rightarrow> search \<Rightarrow> bool" where
  "dfs_inv g s \<longleftrightarrow> distinct (gstack s) \<and> set (gstack s) = {n. colours s n = Gray} \<and>
     successively (\<lambda>a b. (a, b) \<in> dep_rel g) (gstack s) \<and>
     (\<forall>b c. colours s b = Black \<longrightarrow> (b, c) \<in> dep_rel g \<longrightarrow> colours s c = Black) \<and>
     (\<forall>b. colours s b = Black \<longrightarrow> (b, b) \<notin> (dep_rel g)\<^sup>+)"

lemma dfs_inv_enter:
  assumes "dfs_inv g s" "colours s n = White" "gstack s = [] \<or> (last (gstack s), n) \<in> dep_rel g"
  shows "dfs_inv g (enter n s)"
  using assms
  by (auto simp: dfs_inv_def enter_def successively_append_iff split: if_splits)

lemma black_closed:
  assumes "dfs_inv g s" "(b, c) \<in> (dep_rel g)\<^sup>*" "colours s b = Black"
  shows "colours s c = Black"
  using assms(2,1,3) by (induction rule: rtrancl_induct) (auto simp: dfs_inv_def)

lemma dfs_inv_leave:
  assumes inv: "dfs_inv g s" and st: "gstack s = pre @ [n]" and succ: "\<And>c. (n, c) \<in> dep_rel g \<Longrightarrow> colours s c = Black"
  shows "dfs_inv g (leave n s)"
proof -
  have n: "colours s n = Gray" using inv st by (auto simp: dfs_inv_def)
  have "(n, n) \<notin> (dep_rel g)\<^sup>+"
  proof
    assume "(n, n) \<in> (dep_rel g)\<^sup>+"
    then obtain c where "(n, c) \<in> dep_rel g" "(c, n) \<in> (dep_rel g)\<^sup>*" by (meson tranclD)
    with succ black_closed [OF inv] n show False by force
  qed
  then show ?thesis
    using inv st succ by (auto simp: dfs_inv_def leave_def successively_append_iff)
qed

lemma visit_spec:
  assumes "iter_ok it" "visit_refs it g n refs s = (r, s')" "dfs_inv g s" "gstack s = pre @ [n]"
    and "\<And>x. x \<in> set refs \<Longrightarrow> x |\<notin>| external g \<Longrightarrow> (n, x) \<in> dep_rel g"
    and "\<And>c. (n, c) \<in> dep_rel g \<Longrightarrow> c \<in> set refs \<or> colours s c = Black"
  shows "case r of Some c \<Rightarrow> dep_cycle g c
    | None \<Rightarrow> dfs_inv g s' \<and> gstack s' = pre \<and> colours s' n = Black \<and> (\<forall>m. colours s m = Black \<longrightarrow> colours s' m = Black)"
  using assms
proof (induction it g n refs s arbitrary: r s' pre rule: visit_refs.induct)
  case (1 it g n s)
  then have "dfs_inv g (leave n s)" by (intro dfs_inv_leave) auto
  then show ?case using 1 by (auto simp: visit_refs.simps leave_def)
next
  case (2 it g n nxt rest s)
  show ?case
  proof (cases "nxt |\<in>| external g")
    case True
    then have "(n, nxt) \<notin> dep_rel g" by (auto simp: dep_rel_def)
    then show ?thesis using 2 True by (auto simp: visit_refs.simps)
  next
    case False
    have e: "(n, nxt) \<in> dep_rel g" using 2 False by simp
    show ?thesis
    proof (cases "colours s nxt")
      case White
      obtain r1 s1 where v: "visit_refs it g nxt (dep_targets it [''dfs''] g nxt) (enter nxt s) = (r1, s1)" by fastforce
      have i: "dfs_inv g (enter nxt s)" using 2 White e by (intro dfs_inv_enter) auto
      have st: "gstack (enter nxt s) = (pre @ [n]) @ [nxt]" using 2 by (simp add: enter_def)
      have sub: "case r1 of Some c \<Rightarrow> dep_cycle g c
        | None \<Rightarrow> dfs_inv g s1 \<and> gstack s1 = pre @ [n] \<and> colours s1 nxt = Black \<and>
            (\<forall>m. colours (enter nxt s) m = Black \<longrightarrow> colours s1 m = Black)"
        using dep_rel_iff [OF "2.prems"(1), of nxt _ g "[''dfs'']"] "2.prems"(1)
        by (intro "2.IH"(2) [OF False White _ v i st]) auto
      have keep: "colours s m = Black \<Longrightarrow> colours (enter nxt s) m = Black" for m
        using White by (auto simp: enter_def)
      show ?thesis
      proof (cases r1)
        case None
        then have s1: "dfs_inv g s1" "gstack s1 = pre @ [n]" "colours s1 nxt = Black"
          "\<And>m. colours s m = Black \<Longrightarrow> colours s1 m = Black" using sub keep by auto
        have r: "visit_refs it g n rest s1 = (r, s')" using 2 False White v None by (simp add: visit_refs.simps)
        have succ: "c \<in> set rest \<or> colours s1 c = Black" if "(n, c) \<in> dep_rel g" for c
          using "2.prems"(6) [OF that] s1(3,4) by auto
        have sub2: "case r of Some c \<Rightarrow> dep_cycle g c
          | None \<Rightarrow> dfs_inv g s' \<and> gstack s' = pre \<and> colours s' n = Black \<and>
              (\<forall>m. colours s1 m = Black \<longrightarrow> colours s' m = Black)"
          by (rule "2.IH"(3) [OF False White v [symmetric] None "2.prems"(1) r s1(1,2) _ succ]) (use "2.prems" in auto)
        then show ?thesis using s1(4) by (auto split: option.splits)
      next
        case (Some c)
        then show ?thesis using 2 False White v sub by (auto simp: visit_refs.simps)
      qed
    next
      case Gray
      then obtain c where c: "cut_stack (gstack s) nxt = Some c"
        using 2 by (cases "cut_stack (gstack s) nxt") (auto simp: cut_stack_None dfs_inv_def)
      obtain p suf where "gstack s = p @ nxt # suf" "c = nxt # suf @ [nxt]"
        using cut_stack_Some [OF c] by blast
      moreover have "last (gstack s) = n" "successively (\<lambda>a b. (a, b) \<in> dep_rel g) (gstack s)"
        using 2 by (auto simp: dfs_inv_def)
      ultimately have "dep_cycle g c"
        using e by (auto simp: dep_cycle_def successively_append_iff successively_Cons split: if_splits)
      moreover have "r = Some c" using "2.prems"(2) False Gray c by (simp add: visit_refs.simps)
      ultimately show ?thesis by simp
    next
      case Black
      then show ?thesis using 2 False by (auto simp: visit_refs.simps)
    qed
  qed
qed

lemma dfs_spec:
  assumes "iter_ok it" "dfs it g n s = (r, s')" "dfs_inv g s" "gstack s = []" "colours s n = White"
  shows "case r of Some c \<Rightarrow> dep_cycle g c
    | None \<Rightarrow> dfs_inv g s' \<and> gstack s' = [] \<and> colours s' n = Black \<and> (\<forall>m. colours s m = Black \<longrightarrow> colours s' m = Black)"
proof -
  have "dfs_inv g (enter n s)" "gstack (enter n s) = [] @ [n]"
    using dfs_inv_enter [OF assms(3,5)] assms(4) by (simp, simp add: enter_def)
  from visit_spec [OF assms(1) assms(2) [unfolded dfs_def] this] dep_rel_iff [OF assms(1), of n _ g "[''dfs'']"]
  have "case r of Some c \<Rightarrow> dep_cycle g c
    | None \<Rightarrow> dfs_inv g s' \<and> gstack s' = [] \<and> colours s' n = Black \<and>
        (\<forall>m. colours (enter n s) m = Black \<longrightarrow> colours s' m = Black)" by auto
  moreover have "colours (enter n s) m = Black" if "colours s m = Black" for m
    using that assms(5) by (auto simp: enter_def)
  ultimately show ?thesis by (auto split: option.splits)
qed

lemma find_from_spec:
  assumes "iter_ok it" "dfs_inv g s" "gstack s = []" "\<And>n. n |\<in>| fmdom (rnodes g) \<Longrightarrow> n \<in> set ns \<or> colours s n = Black"
  shows "case find_from it g ns s of Some c \<Rightarrow> dep_cycle g c | None \<Rightarrow> acyclic (dep_rel g)"
  using assms
proof (induction ns arbitrary: s)
  case Nil
  have "(n, n) \<notin> (dep_rel g)\<^sup>+" for n
  proof
    assume n: "(n, n) \<in> (dep_rel g)\<^sup>+"
    then have "n |\<in>| fmdom (rnodes g)" using dep_rel_node by (metis tranclD)
    with Nil n show False by (auto simp: dfs_inv_def)
  qed
  then show ?case by (simp add: acyclic_def)
next
  case (Cons n ns)
  show ?case
  proof (cases "colours s n = White")
    case True
    obtain r s' where d: "dfs it g n s = (r, s')" by fastforce
    note sp = dfs_spec [OF Cons.prems(1) d Cons.prems(2,3) True]
    show ?thesis
    proof (cases r)
      case None
      with sp Cons.prems(4) have "case find_from it g ns s' of Some c \<Rightarrow> dep_cycle g c | None \<Rightarrow> acyclic (dep_rel g)"
        by (intro Cons.IH) (auto simp: Cons.prems(1))
      then show ?thesis using d True None by simp
    qed (use sp d True in simp)
  next
    case False
    moreover have "colours s n = Black" using Cons.prems(2,3) False by (cases "colours s n") (auto simp: dfs_inv_def)
    ultimately show ?thesis using Cons by auto
  qed
qed

lemma findCycle_spec:
  assumes "iter_ok it"
  shows "case findCycle it g of Some c \<Rightarrow> dep_cycle g c | None \<Rightarrow> acyclic (dep_rel g)"
  unfolding findCycle_def using assms by (intro find_from_spec) (auto simp: dfs_inv_def)

subsection \<open>Counting\<close>

text \<open>The references of a node as a multiset: the order of its dependencies does not matter.\<close>

definition need :: "ResGraph \<Rightarrow> string \<Rightarrow> string multiset" where
  "need g n = (case fmlookup (rnodes g) n of None \<Rightarrow> {#}
     | Some r \<Rightarrow> image_mset (\<lambda>k. ResourceName (the (fmlookup (rDeps r) k))) (mset_set (fset (fmdom (rDeps r)))))"

lemma mset_iter: "iter_ok it \<Longrightarrow> mset (it l K) = mset_set (fset K)"
  using mset_set_set [of "it l K"] by simp

lemma mset_dep_targets: "iter_ok it \<Longrightarrow> mset (dep_targets it l g n) = need g n"
  by (simp add: dep_targets_def need_def mset_iter split: option.split)

lemma need_edge: "iter_ok it \<Longrightarrow> x \<in># need g n \<Longrightarrow> x |\<notin>| external g \<Longrightarrow> (n, x) \<in> dep_rel g"
  by (metis dep_rel_iff mset_dep_targets set_mset_mset)

lemma fold_append_at:
  "fold (\<lambda>ref deps. deps(ref := deps ref @ [n])) refs f x = f x @ replicate (count (mset refs) x) n"
  by (induction refs arbitrary: f) (auto simp: replicate_append_same)

lemma count_deps_fold:
  assumes "iter_ok it" "distinct ns"
    and "fold (count_deps it g) ns (deg0, dep0) = (deg, dependents)"
  shows "fmdom deg = fmdom deg0 |\<union>| fset_of_list ns \<and>
    (\<forall>n. degree deg n = (if n \<in> set ns then int (size (need g n)) else degree deg0 n)) \<and>
    (\<forall>x n. count (mset (dependents x)) n = count (mset (dep0 x)) n + (if n \<in> set ns then count (need g n) x else 0))"
  using assms
proof (induction ns arbitrary: deg0 dep0)
  case (Cons n ns)
  obtain deg1 dep1 where c: "count_deps it g n (deg0, dep0) = (deg1, dep1)" by fastforce
  have m: "mset (dep_targets it [''topo''] g n) = need g n" by (rule mset_dep_targets [OF Cons.prems(1)])
  then have l: "length (dep_targets it [''topo''] g n) = size (need g n)" by (metis size_mset)
  have deg1: "deg1 = fmupd n (int (size (need g n))) deg0" using c by (simp add: count_deps_def Let_def l)
  have "dep1 = fold (\<lambda>ref deps. deps(ref := deps ref @ [n])) (dep_targets it [''topo''] g n) dep0"
    using c by (simp add: count_deps_def Let_def)
  then have dep1: "dep1 x = dep0 x @ replicate (count (need g n) x) n" for x by (simp only: fold_append_at m)
  have f: "distinct ns" "fold (count_deps it g) ns (deg1, dep1) = (deg, dependents)" using Cons.prems c by auto
  have d1: "degree deg1 m = (if m = n then int (size (need g n)) else degree deg0 m)" for m
    by (simp add: deg1 degree_def)
  note ih = Cons.IH [OF Cons.prems(1) f]
  have n: "n \<notin> set ns" using Cons.prems by simp
  have dom1: "fmdom deg1 = finsert n (fmdom deg0)" by (simp add: deg1)
  show ?case
  proof (intro conjI allI)
    show "fmdom deg = fmdom deg0 |\<union>| fset_of_list (n # ns)" using ih [THEN conjunct1] by (simp add: dom1)
    show "degree deg i = (if i \<in> set (n # ns) then int (size (need g i)) else degree deg0 i)" for i
      using ih [THEN conjunct2, THEN conjunct1, rule_format, of i] n by (simp add: d1)
    show "count (mset (dependents x)) i =
        count (mset (dep0 x)) i + (if i \<in> set (n # ns) then count (need g i) x else 0)" for x i
      using ih [THEN conjunct2, THEN conjunct2, rule_format, of x i] n by (simp add: dep1)
  qed
qed simp

subsection \<open>Releasing dependents\<close>

lemma fold_release:
  assumes "\<And>n. int (count (mset ds) n) \<le> max 0 (degree (indegree k) n)"
    and "sorted (ready k)" "distinct (ready k)" "\<And>n. n \<in> set (ready k) \<Longrightarrow> degree (indegree k) n \<le> 0"
  shows "(\<forall>n. degree (indegree (fold release ds k)) n = degree (indegree k) n - int (count (mset ds) n)) \<and>
    sorted (ready (fold release ds k)) \<and> distinct (ready (fold release ds k)) \<and>
    set (ready (fold release ds k)) = set (ready k) \<union> {n \<in> set ds. degree (indegree k) n = int (count (mset ds) n)} \<and>
    sorted_out (fold release ds k) = sorted_out k"
  using assms
proof (induction ds arbitrary: k)
  case (Cons d ds)
  let ?k = "release d k"
  have d: "degree (indegree k) d > 0" using Cons.prems(1) [of d] by (auto simp: max_def split: if_splits)
  have deg: "degree (indegree ?k) n = degree (indegree k) n - (if n = d then 1 else 0)" for n
    by (simp add: release_def Let_def degree_def)
  have rdy: "ready ?k = (if degree (indegree k) d = 1 then sort (ready k @ [d]) else ready k)"
    by (simp add: release_def Let_def)
  have nin: "d \<notin> set (ready k)" using Cons.prems(4) [of d] d by force
  have last: "d \<notin> set ds" if "degree (indegree k) d = 1"
    using Cons.prems(1) [of d] that by (auto simp: count_eq_zero_iff)
  have "int (count (mset ds) n) \<le> max 0 (degree (indegree ?k) n)" for n
    using Cons.prems(1) [of n] d by (auto simp: deg max_def split: if_splits)
  moreover have "sorted (ready ?k)" "distinct (ready ?k)" "\<And>n. n \<in> set (ready ?k) \<Longrightarrow> degree (indegree ?k) n \<le> 0"
    using Cons.prems(2-4) nin by (auto simp: rdy deg split: if_splits)
  ultimately have ih: "(\<forall>n. degree (indegree (fold release ds ?k)) n = degree (indegree ?k) n - int (count (mset ds) n)) \<and>
    sorted (ready (fold release ds ?k)) \<and> distinct (ready (fold release ds ?k)) \<and>
    set (ready (fold release ds ?k)) = set (ready ?k) \<union> {n \<in> set ds. degree (indegree ?k) n = int (count (mset ds) n)} \<and>
    sorted_out (fold release ds ?k) = sorted_out ?k" by (rule Cons.IH)
  have out: "sorted_out ?k = sorted_out k" by (simp add: release_def Let_def)
  have "set (ready ?k) \<union> {n \<in> set ds. degree (indegree ?k) n = int (count (mset ds) n)} =
      set (ready k) \<union> {n \<in> set (d # ds). degree (indegree k) n = int (count (mset (d # ds)) n)}"
    using d last by (auto simp: rdy deg count_eq_zero_iff split: if_splits)
  with ih show ?case by (simp add: deg out)
qed auto

subsection \<open>The loop\<close>

definition topological :: "ResGraph \<Rightarrow> string list \<Rightarrow> bool" where
  "topological g xs \<longleftrightarrow>
     (\<forall>i < length xs. \<forall>x. x \<in># need g (xs ! i) \<longrightarrow> x |\<in>| external g \<or> x \<in> set (take i xs))"

lemma topological_snoc:
  assumes "topological g xs" "\<And>x. x \<in># need g n \<Longrightarrow> x |\<in>| external g \<or> x \<in> set xs"
  shows "topological g (xs @ [n])"
  using assms by (fastforce simp: topological_def nth_append less_Suc_eq)

definition disjoint_names :: "ResGraph \<Rightarrow> bool" where
  "disjoint_names g \<longleftrightarrow> (\<forall>n. n |\<in>| external g \<longrightarrow> fmlookup (rnodes g) n = None)"

definition deps_ok :: "ResGraph \<Rightarrow> (string \<Rightarrow> string list) \<Rightarrow> bool" where
  "deps_ok g dependents \<longleftrightarrow>
     (\<forall>x n. count (mset (dependents x)) n = (if n |\<in>| fmdom (rnodes g) then count (need g n) x else 0))"

text \<open>After the names in \<open>P\<close> were taken: a degree counts the references to other names, and a name is
  ready when it is external or its degree is zero.\<close>

definition open_refs :: "ResGraph \<Rightarrow> string set \<Rightarrow> string \<Rightarrow> nat" where
  "open_refs g P n = (if n |\<in>| fmdom (rnodes g) then size (filter_mset (\<lambda>x. x \<notin> P) (need g n)) else 0)"

definition available :: "ResGraph \<Rightarrow> string set \<Rightarrow> string set" where
  "available g P = fset (external g) \<union> {n. n |\<in>| fmdom (rnodes g) \<and> open_refs g P n = 0}"

definition kahn_inv :: "ResGraph \<Rightarrow> string set \<Rightarrow> kahn \<Rightarrow> bool" where
  "kahn_inv g P k \<longleftrightarrow> sorted (ready k) \<and> distinct (ready k) \<and>
     (\<forall>n. degree (indegree k) n = int (open_refs g P n)) \<and>
     set (ready k) \<inter> P = {} \<and> set (ready k) \<union> P = available g P \<and>
     distinct (sorted_out k) \<and> set (sorted_out k) = P - fset (external g) \<and> topological g (sorted_out k)"

lemma filter_insert: "a \<notin> P \<Longrightarrow>
  size (filter_mset (\<lambda>x. x \<notin> P) M) = count M a + size (filter_mset (\<lambda>x. x \<notin> insert a P) M)"
  by (induction M) auto

lemma open_refs_insert:
  "a \<notin> P \<Longrightarrow> deps_ok g dependents \<Longrightarrow>
    open_refs g P n = count (mset (dependents a)) n + open_refs g (insert a P) n"
  by (simp add: open_refs_def deps_ok_def filter_insert [of a P])

lemma available_degree:
  "disjoint_names g \<Longrightarrow> n \<in> available g P \<Longrightarrow> open_refs g P n = 0"
  by (auto simp: available_def open_refs_def disjoint_names_def fmlookup_dom_iff)

lemma kahn_step:
  assumes inv: "kahn_inv g P k" and dj: "disjoint_names g" and dp: "deps_ok g dependents" and r: "ready k = a # rest"
  shows "kahn_inv g (insert a P) (take_ready g dependents a k)"
proof -
  let ?k = "k\<lparr>ready := rest\<rparr>"
  let ?k2 = "if a |\<in>| external g then ?k else ?k\<lparr>sorted_out := sorted_out ?k @ [a]\<rparr>"
  let ?ds = "dependents a" and ?P = "insert a P"
  have t: "take_ready g dependents a k = fold release ?ds ?k2" using r by (simp add: take_ready_def Let_def)
  have a: "a \<notin> P" "a \<notin> set rest" "a \<in> available g P" "set rest \<union> insert a P = available g P" "set rest \<inter> P = {}"
    "sorted rest" "distinct rest" and deg: "\<And>n. degree (indegree k) n = int (open_refs g P n)"
    using inv r by (auto simp: kahn_inv_def)
  have k2: "indegree ?k2 = indegree k" "ready ?k2 = rest" by auto
  note op = open_refs_insert [OF a(1) dp]
  have z: "degree (indegree ?k2) n \<le> 0" if "n \<in> set (ready ?k2)" for n
    using that a(4) available_degree [OF dj, of n P] deg k2 by auto
  have c: "int (count (mset ?ds) n) \<le> max 0 (degree (indegree ?k2) n)" for n
    using op [of n] deg k2 by simp
  note f = fold_release [OF c _ _ z, unfolded k2, OF a(6,7), folded t]
  have new: "{n \<in> set ?ds. degree (indegree k) n = int (count (mset ?ds) n)} = available g ?P - available g P"
  proof -
    have ds: "n \<in> set ?ds \<longleftrightarrow> 0 < count (mset ?ds) n" for n by simp
    have node: "n |\<in>| fmdom (rnodes g) \<and> n |\<notin>| external g" if "0 < count (mset ?ds) n" for n
      using that dp [unfolded deps_ok_def, rule_format, of a n] dj by (auto simp: disjoint_names_def fmlookup_dom_iff split: if_splits)
    have "0 < count (mset ?ds) n \<and> open_refs g P n = count (mset ?ds) n \<longleftrightarrow> n \<in> available g ?P - available g P" for n
      using node [of n] op [of n] by (auto simp: available_def)
    then show ?thesis unfolding deg ds of_nat_eq_iff by blast
  qed
  have sub: "available g P \<subseteq> available g ?P" using op by (auto simp: available_def)
  have rs: "set (ready (take_ready g dependents a k)) = set rest \<union> (available g ?P - available g P)"
    using f new by simp
  have refs: "x |\<in>| external g \<or> x \<in> set (sorted_out k)" if "a |\<notin>| external g" "x \<in># need g a" for x
  proof -
    have "a |\<in>| fmdom (rnodes g)" "open_refs g P a = 0" using a(3) that(1) by (auto simp: available_def)
    then have "x \<in> P" using that(2) by (auto simp: open_refs_def)
    then show ?thesis using inv by (auto simp: kahn_inv_def)
  qed
  have out: "distinct (sorted_out ?k2) \<and> set (sorted_out ?k2) = ?P - fset (external g) \<and> topological g (sorted_out ?k2)"
    using inv a(1) topological_snoc [OF _ refs] by (auto simp: kahn_inv_def)
  have "set (ready (take_ready g dependents a k)) \<inter> ?P = {}" "set (ready (take_ready g dependents a k)) \<union> ?P = available g ?P"
    using rs a sub by auto
  with f out op deg show ?thesis by (auto simp: kahn_inv_def)
qed

lemma kahn_loop_spec:
  assumes "kahn_inv g P k" "disjoint_names g" "deps_ok g dependents"
  shows "\<exists>P. P = available g P \<and> distinct (kahn_loop g dependents k) \<and>
    set (kahn_loop g dependents k) = P - fset (external g) \<and> topological g (kahn_loop g dependents k)"
  using assms
proof (induction g dependents k arbitrary: P rule: kahn_loop.induct)
  case (1 g dependents k)
  show ?case
  proof (cases "ready k")
    case Nil
    then show ?thesis using 1 by (auto simp: kahn_loop.simps kahn_inv_def)
  next
    case (Cons a rest)
    then show ?thesis using 1 kahn_step [OF "1.prems" Cons] by (simp add: kahn_loop.simps)
  qed
qed

text \<open>Which order the maps are walked in does not matter: the state after a step is determined by the
  multiset of dependents.\<close>

lemma kahn_loop_det:
  assumes "kahn_inv g P k" "kahn_inv g P k'" "sorted_out k = sorted_out k'" "disjoint_names g"
    "deps_ok g dependents" "deps_ok g dependents'"
  shows "kahn_loop g dependents k = kahn_loop g dependents' k'"
  using assms
proof (induction g dependents k arbitrary: P k' rule: kahn_loop.induct)
  case (1 g dependents k)
  have "set (ready k) = available g P - P" "set (ready k') = available g P - P"
    using 1 by (auto simp: kahn_inv_def)
  then have r: "ready k' = ready k" using 1 by (metis kahn_inv_def sorted_distinct_set_unique)
  show ?case
  proof (cases "ready k")
    case Nil
    then show ?thesis using 1 r by (simp add: kahn_loop.simps)
  next
    case (Cons a rest)
    have o: "sorted_out (take_ready g d a m) = (if a |\<in>| external g then sorted_out m else sorted_out m @ [a])" for d m
    proof -
      have "sorted_out (fold release ds m) = sorted_out m" for ds m
        by (induction ds arbitrary: m) (auto simp: release_def Let_def)
      then show ?thesis by (simp add: take_ready_def Let_def)
    qed
    have "kahn_loop g dependents (take_ready g dependents a k) = kahn_loop g dependents' (take_ready g dependents' a k')"
      using "1.IH" [OF Cons kahn_step [OF "1.prems"(1,4,5) Cons] kahn_step [OF "1.prems"(2,4,6)]] 1 Cons r by (simp add: o)
    then show ?thesis using Cons r by (simp add: kahn_loop.simps)
  qed
qed

subsection \<open>Validation and the start\<close>

definition no_dangling :: "ResGraph \<Rightarrow> bool" where
  "no_dangling g \<longleftrightarrow> (\<forall>n x. x \<in># need g n \<longrightarrow> x |\<in>| fmdom (rnodes g) |\<union>| external g)"

lemma first_some_map: "first_some (map f xs) = None \<longleftrightarrow> (\<forall>x \<in> set xs. f x = None)"
  by auto

lemma case_err_None: "(case e of Some x \<Rightarrow> Some (f x) | None \<Rightarrow> rest) = None \<longleftrightarrow> e = None \<and> rest = None"
  by (cases e) auto

lemmas first_error = first_some_map case_err_None

lemma Graph_Validate_None:
  assumes "iter_ok it"
  shows "Graph_Validate jv it g = None \<longleftrightarrow>
    (\<forall>n r. fmlookup (rnodes g) n = Some r \<longrightarrow> Resource_Validate jv it n r = None) \<and> no_dangling g \<and> acyclic (dep_rel g)"
proof -
  have c: "findCycle it g = None \<longleftrightarrow> acyclic (dep_rel g)"
    using findCycle_spec [OF assms, of g] dep_cycle_cyclic by (auto split: option.splits)
  have v: "validate_node jv it g n = None \<longleftrightarrow> Resource_Validate jv it n r = None \<and>
      (\<forall>x. x \<in># need g n \<longrightarrow> x |\<in>| fmdom (rnodes g) |\<union>| external g)" if "fmlookup (rnodes g) n = Some r" for n r
    using that mset_dep_targets [OF assms, of "[''validate'']" g n, symmetric]
    by (auto simp: validate_node_def fmlookup_dom_iff first_some_map simp del: first_some_None split: option.splits)
  have "no_dangling g \<longleftrightarrow> (\<forall>n r. fmlookup (rnodes g) n = Some r \<longrightarrow>
      (\<forall>x. x \<in># need g n \<longrightarrow> x |\<in>| fmdom (rnodes g) |\<union>| external g))"
    by (auto simp: no_dangling_def) (force simp: need_def split: option.splits)
  moreover have "Graph_Validate jv it g = None \<longleftrightarrow>
      (\<forall>n r. fmlookup (rnodes g) n = Some r \<longrightarrow> validate_node jv it g n = None) \<and> findCycle it g = None"
    using assms by (auto simp: Graph_Validate_def fmlookup_dom_iff first_error simp del: first_some_None)
  ultimately show ?thesis using c v by metis
qed

lemma topo_start_inv:
  assumes it: "iter_ok it" and dj: "disjoint_names g"
    and f: "fold (count_deps it g) (it [''count''] (fmdom (rnodes g))) (fmempty, \<lambda>_. []) = (deg, dependents)"
  shows "deps_ok g dependents" "kahn_inv g {} (topo_start it g deg)" "sorted_out (topo_start it g deg) = []"
proof -
  note c = count_deps_fold [OF it _ f]
  have dom: "fmdom deg = fmdom (rnodes g)" using c it by (auto simp: fset_of_list_elem)
  have deg: "degree deg n = int (open_refs g {} n)" for n
    using c it by (simp add: open_refs_def degree_def)
  show "deps_ok g dependents" using c it by (simp add: deps_ok_def)
  show "sorted_out (topo_start it g deg) = []" by (simp add: topo_start_def)
  show "kahn_inv g {} (topo_start it g deg)"
    using it dj by (auto simp: kahn_inv_def topo_start_def dom deg available_def disjoint_names_def fmlookup_dom_iff topological_def)
qed

lemma all_available:
  assumes "P = available g P" "no_dangling g" "acyclic (dep_rel g)" "iter_ok it" "n |\<in>| fmdom (rnodes g)"
  shows "n \<in> P"
proof (rule ccontr)
  let ?N = "fset (fmdom (rnodes g))" let ?R = "dep_rel g \<inter> ?N \<times> ?N"
  assume "n \<notin> P"
  have "wf (?R\<inverse>)"
    by (intro finite_acyclic_wf_converse) (auto intro: acyclic_subset [OF assms(3)] finite_subset [of _ "?N \<times> ?N"])
  then have "m |\<in>| fmdom (rnodes g) \<Longrightarrow> m \<in> P" for m
  proof (induction m rule: wf_induct_rule)
    case (less m)
    have "x \<in> P" if x: "x \<in># need g m" for x
    proof (cases "x |\<in>| external g")
      case True
      then show ?thesis using assms(1) by (auto simp: available_def)
    next
      case False
      then have "(x, m) \<in> ?R\<inverse>" "x |\<in>| fmdom (rnodes g)"
        using need_edge [OF assms(4) x False] x assms(2) less.prems by (auto simp: no_dangling_def)
      then show ?thesis using less.IH by blast
    qed
    then have "filter_mset (\<lambda>x. x \<notin> P) (need g m) = {#}" by (auto simp: filter_mset_eq_conv)
    then have "m \<in> available g P" using less.prems by (simp add: available_def open_refs_def)
    then show ?case using assms(1) by simp
  qed
  then show False using assms(5) \<open>n \<notin> P\<close> by blast
qed

lemma TopoOrder_run:
  assumes "iter_ok it" "disjoint_names g" "Graph_Validate jv it g = None"
  obtains dependents k where "TopoOrder jv it g = Inr (kahn_loop g dependents k)"
    "deps_ok g dependents" "kahn_inv g {} k" "sorted_out k = []"
proof -
  obtain deg dependents where
    f: "fold (count_deps it g) (it [''count''] (fmdom (rnodes g))) (fmempty, \<lambda>_. []) = (deg, dependents)" by fastforce
  then have "TopoOrder jv it g = Inr (kahn_loop g dependents (topo_start it g deg))"
    using assms(3) by (simp add: TopoOrder_def)
  then show thesis using that topo_start_inv [OF assms(1,2) f] by blast
qed

subsection \<open>Graphs the code builds\<close>

inductive built :: "(string \<Rightarrow> bool) \<Rightarrow> iter \<Rightarrow> ResGraph \<Rightarrow> bool" for jv it where
  built_new: "built jv it NewGraph"
| built_add: "built jv it g \<Longrightarrow> Graph_Add jv it name res g = Inr g' \<Longrightarrow> built jv it g'"
| built_external: "built jv it g \<Longrightarrow> AddExternal name g = Inr g' \<Longrightarrow> built jv it g'"

lemma Resource_Validate_order:
  "iter_ok it \<Longrightarrow> iter_ok it' \<Longrightarrow> Resource_Validate jv it n r = None \<longleftrightarrow> Resource_Validate jv it' n r = None"
  by (simp add: Resource_Validate_def Deps_Validate_def first_error del: first_some_None)

lemma built_order:
  assumes "built jv it g" "iter_ok it" "iter_ok it'"
  shows "built jv it' g"
  using assms(1)
proof (induction rule: built.induct)
  case built_new
  show ?case by (rule built.built_new)
next
  case (built_add g name res g')
  then have "Graph_Add jv it' name res g = Inr g'"
    using Resource_Validate_order [OF assms(2,3)] by (auto simp: Graph_Add_def split: if_splits option.splits)
  with built_add.IH show ?case by (rule built.built_add)
next
  case (built_external g name g')
  then show ?case by (blast intro: built.built_external)
qed

lemma built_ok:
  "built jv it g \<Longrightarrow> disjoint_names g \<and>
    (\<forall>n r. fmlookup (rnodes g) n = Some r \<longrightarrow> Resource_Validate jv it n r = None)"
proof (induction rule: built.induct)
  case built_new
  then show ?case by (simp add: NewGraph_def disjoint_names_def)
next
  case (built_add g name res g')
  then show ?case by (auto simp: Graph_Add_def disjoint_names_def split: if_splits option.splits)
next
  case (built_external g name g')
  then show ?case by (auto simp: AddExternal_def disjoint_names_def Let_def split: if_splits)
qed

text \<open>C29. The topological order is complete, sound and deterministic: on every graph built by \<open>Add\<close> and
  \<open>AddExternal\<close>, \<open>TopoOrder\<close> fails exactly when a reference names nothing or the dependencies have a cycle; an
  order it returns lists every resource exactly once, each after all the resources it depends on, and
  is the same whatever order the maps are walked in.\<close>

theorem topo_order_correct:
  assumes "iter_ok it" "built jv it g"
  shows "((\<exists>e. TopoOrder jv it g = Inl e) \<longleftrightarrow> \<not> no_dangling g \<or> \<not> acyclic (dep_rel g)) \<and>
    (\<forall>xs. TopoOrder jv it g = Inr xs \<longrightarrow>
       distinct xs \<and> set xs = fset (fmdom (rnodes g)) \<and>
       (\<forall>i < length xs. \<forall>b. (xs ! i, b) \<in> dep_rel g \<longrightarrow> (\<exists>j < i. xs ! j = b)) \<and>
       (\<forall>it'. iter_ok it' \<longrightarrow> TopoOrder jv it' g = Inr xs))"
proof -
  note dj = built_ok [OF assms(2), THEN conjunct1]
  have v: "Graph_Validate jv it' g = None \<longleftrightarrow> no_dangling g \<and> acyclic (dep_rel g)" if "iter_ok it'" for it'
    using Graph_Validate_None [OF that] built_ok [OF built_order [OF assms(2,1) that]] by blast
  have "(\<exists>e. TopoOrder jv it g = Inl e) \<longleftrightarrow> Graph_Validate jv it g \<noteq> None"
    by (auto simp: TopoOrder_def split: option.splits prod.splits)
  then have fails: "(\<exists>e. TopoOrder jv it g = Inl e) \<longleftrightarrow> \<not> no_dangling g \<or> \<not> acyclic (dep_rel g)"
    by (simp only: v [OF assms(1)] de_Morgan_conj)
  have succeeds: "distinct xs \<and> set xs = fset (fmdom (rnodes g)) \<and>
       (\<forall>i < length xs. \<forall>b. (xs ! i, b) \<in> dep_rel g \<longrightarrow> (\<exists>j < i. xs ! j = b)) \<and>
       (\<forall>it'. iter_ok it' \<longrightarrow> TopoOrder jv it' g = Inr xs)" if xs: "TopoOrder jv it g = Inr xs" for xs
  proof -
    have ok: "Graph_Validate jv it g = None" using xs by (auto simp: TopoOrder_def split: option.splits)
    obtain dependents k where k: "TopoOrder jv it g = Inr (kahn_loop g dependents k)"
      "deps_ok g dependents" "kahn_inv g {} k" "sorted_out k = []" by (rule TopoOrder_run [OF assms(1) dj ok])
    then have l: "kahn_loop g dependents k = xs" using xs by simp
    obtain P where P: "P = available g P" "distinct xs" "set xs = P - fset (external g)" "topological g xs"
      using kahn_loop_spec [OF k(3) dj k(2)] l by blast
    have "set xs = fset (fmdom (rnodes g))"
      using P(1,3) all_available [OF P(1) _ _ assms(1)] v [OF assms(1)] ok dj by (auto simp: available_def disjoint_names_def fmlookup_dom_iff)
    moreover have "\<exists>j < i. xs ! j = b" if "i < length xs" "(xs ! i, b) \<in> dep_rel g" for i b
    proof -
      have "b \<in># need g (xs ! i)" "b |\<notin>| external g"
        using that(2) dep_rel_iff [OF assms(1)] mset_dep_targets [OF assms(1)] by (metis set_mset_mset)+
      then have "b \<in> set (take i xs)" using P(4) that(1) by (auto simp: topological_def)
      then show ?thesis using that(1) by (auto simp: in_set_conv_nth)
    qed
    moreover have "TopoOrder jv it' g = Inr xs" if it': "iter_ok it'" for it'
    proof -
      have "Graph_Validate jv it' g = None" using v [OF it'] v [OF assms(1)] ok by simp
      from TopoOrder_run [OF it' dj this] obtain dep' k' where "TopoOrder jv it' g = Inr (kahn_loop g dep' k')"
        "deps_ok g dep'" "kahn_inv g {} k'" "sorted_out k' = []" by blast
      then show ?thesis using kahn_loop_det [OF k(3), of k' dependents dep'] k dj l by simp
    qed
    ultimately show ?thesis using P(2) by blast
  qed
  show ?thesis by (rule conjI [OF fails], intro allI impI, rule succeeds)
qed

text \<open>A small deployment: \<open>app\<close> depends on \<open>bus\<close> and on an external \<open>log\<close>.\<close>

definition entry :: "Deps \<Rightarrow> Resource" where
  "entry d = \<lparr>rKind = ''k'', rImpl = [], rDeps = d, rSettings = []\<rparr>"

definition deploy_demo :: ResGraph where
  "deploy_demo = \<lparr>rnodes = fmupd ''bus'' (entry fmempty)
       (fmupd ''app'' (entry (fmupd ''b'' ''bus'' (fmupd ''l'' ''log'' fmempty))) fmempty),
     external = {|''log''|}\<rparr>"

definition sorted_iter :: iter where
  "sorted_iter l K = sorted_keys K"

lemma sorted_iter_ok: "iter_ok sorted_iter"
  by (simp add: iter_ok_def sorted_iter_def sorted_keys_def sorted_list_of_fset.rep_eq)

lemma names_demo [simp]:
  "ResourceName ''bus'' = ''bus''" "ResourceName ''log'' = ''log''" "ResourceName ''app'' = ''app''"
  "Ref_Validate ''bus'' = None" "Ref_Validate ''log'' = None" "trim_space ''log'' = ''log''"
  "\<not> contains_str ''log'' ''/''"
  "trim_space ''b'' \<noteq> []" "trim_space ''l'' \<noteq> []"
  by code_simp+

lemma entry_valid:
  "Resource_Validate jv sorted_iter n (entry fmempty) = None"
  "Resource_Validate jv sorted_iter n (entry (fmupd ''b'' ''bus'' (fmupd ''l'' ''log'' fmempty))) = None"
  using sorted_iter_ok
  by (simp_all add: Resource_Validate_def Deps_Validate_def entry_def first_error del: first_some_None)

lemma deploy_demo_built: "built jv sorted_iter deploy_demo"
proof -
  have 1: "AddExternal ''log'' NewGraph = Inr \<lparr>rnodes = fmempty, external = {|''log''|}\<rparr>"
    by (simp add: AddExternal_def NewGraph_def has_prefix_def Let_def)
  have 2: "Graph_Add jv sorted_iter ''app'' (entry (fmupd ''b'' ''bus'' (fmupd ''l'' ''log'' fmempty)))
      \<lparr>rnodes = fmempty, external = {|''log''|}\<rparr> =
      Inr \<lparr>rnodes = fmupd ''app'' (entry (fmupd ''b'' ''bus'' (fmupd ''l'' ''log'' fmempty))) fmempty, external = {|''log''|}\<rparr>"
    by (simp add: Graph_Add_def entry_valid)
  have 3: "Graph_Add jv sorted_iter ''bus'' (entry fmempty)
      \<lparr>rnodes = fmupd ''app'' (entry (fmupd ''b'' ''bus'' (fmupd ''l'' ''log'' fmempty))) fmempty, external = {|''log''|}\<rparr> =
      Inr deploy_demo"
    by (simp add: Graph_Add_def entry_valid deploy_demo_def)
  show ?thesis using built_add [OF built_add [OF built_external [OF built_new 1] 2] 3] .
qed

lemma deploy_demo_rel: "dep_rel deploy_demo = {(''app'', ''bus'')}"
  by (auto simp: dep_rel_def deploy_demo_def entry_def split: if_splits)

lemma deploy_demo_refs: "no_dangling deploy_demo"
  unfolding no_dangling_def
  by (auto simp: need_def deploy_demo_def entry_def split: option.splits if_splits)

theorem topo_order_correct_witness:
  "\<exists>xs. TopoOrder (\<lambda>_. True) sorted_iter deploy_demo = Inr xs \<and> set xs = {''app'', ''bus''} \<and> distinct xs \<and>
     (\<exists>i j. j < i \<and> i < length xs \<and> xs ! i = ''app'' \<and> xs ! j = ''bus'')"
proof -
  note c = topo_order_correct [OF sorted_iter_ok deploy_demo_built, of "\<lambda>_. True"]
  have "acyclic (dep_rel deploy_demo)"
    by (simp add: deploy_demo_rel acyclic_insert acyclic_def [of "{}"])
  then have "\<not> (\<exists>e. TopoOrder (\<lambda>_. True) sorted_iter deploy_demo = Inl e)"
    using deploy_demo_refs by (simp only: c [THEN conjunct1] simp_thms)
  then obtain xs where xs: "TopoOrder (\<lambda>_. True) sorted_iter deploy_demo = Inr xs"
    by (cases "TopoOrder (\<lambda>_. True) sorted_iter deploy_demo") auto
  note p = c [THEN conjunct2, THEN spec, THEN mp, OF xs]
  have s: "set xs = {''app'', ''bus''}" "distinct xs"
    using p [THEN conjunct2, THEN conjunct1] p [THEN conjunct1] by (auto simp: deploy_demo_def)
  then obtain i where i: "i < length xs" "xs ! i = ''app''" by (metis in_set_conv_nth insertI1)
  obtain j where "j < i" "xs ! j = ''bus''"
    using p [THEN conjunct2, THEN conjunct2, THEN conjunct1, rule_format, OF i(1), of "''bus''"] i(2)
    by (auto simp: deploy_demo_rel)
  with xs s i show ?thesis by blast
qed

text \<open>The cycle search is exact: \<open>findCycle\<close> returns nothing exactly on acyclic dependencies, and what it
  returns is a cycle, a path along dependencies that ends where it starts.\<close>

theorem find_cycle_exact:
  assumes "iter_ok it"
  shows "(findCycle it g = None \<longleftrightarrow> acyclic (dep_rel g)) \<and>
    (\<forall>c. findCycle it g = Some c \<longrightarrow> 2 \<le> length c \<and> c ! 0 = last c \<and> (\<forall>i. Suc i < length c \<longrightarrow> (c ! i, c ! Suc i) \<in> dep_rel g))"
proof -
  have "dep_cycle g c \<Longrightarrow> Suc i < length c \<Longrightarrow> (c ! i, c ! Suc i) \<in> dep_rel g" for c i
    by (auto simp: dep_cycle_def successively_conv_nth)
  then show ?thesis
    using findCycle_spec [OF assms, of g] dep_cycle_cyclic by (auto split: option.splits simp: dep_cycle_def)
qed

theorem find_cycle_exact_witness:
  "\<exists>c. findCycle sorted_iter \<lparr>rnodes = fmupd ''app'' (entry (fmupd ''b'' ''app'' fmempty)) fmempty, external = {||}\<rparr> = Some c \<and>
     2 \<le> length c \<and> c ! 0 = last c"
proof -
  let ?g = "\<lparr>rnodes = fmupd ''app'' (entry (fmupd ''b'' ''app'' fmempty)) fmempty, external = {||}\<rparr>"
  have "(''app'', ''app'') \<in> dep_rel ?g" by (auto simp: dep_rel_def entry_def)
  then have "\<not> acyclic (dep_rel ?g)" by (auto simp: acyclic_def)
  with find_cycle_exact [OF sorted_iter_ok, of ?g] show ?thesis by auto
qed

end
