(* ===== verification/Journal_Fold.thy ===== *)
theory Journal_Fold
  imports Prelude "HOL-Library.Finite_Map"
begin

text \<open>
  The event fold of the sandbox write journal, \<open>core/sandbox/journal/fold.go\<close>: raw platform events of single
  paths are folded into net changes, with tables for changes that wait for their completion edge, for
  unpaired rename sources and for moved directories.

  Times are integers (\<open>time.Time\<close> on one clock), cookies natural numbers, and the separator is the slash.
  The order in which a Go map is walked is an argument: \<open>pw\<close> for maps keyed by path, \<open>cw\<close> for the cookie
  table. The slice the methods append to is the first component of the pair they return. \<open>Reparent\<close>
  inserts while it walks; the entries it inserts are not walked again, which Go leaves open and which
  makes a difference only when the new path lies inside the old one.
\<close>

subsection \<open>State\<close>

datatype FileOp = FileOpCreate | FileOpWrite | FileOpRename | FileOpRemove

datatype rawOp = rawCreate | rawModify | rawCloseWrite | rawDelete | rawMovedFrom | rawMovedTo | rawMoveSelf
  | rawDeleteSelf | rawIgnored | rawOverflow

record rawEvent =
  rOp :: rawOp
  rCookie :: nat
  rIsDir :: bool

record change =
  chOp :: FileOp
  chPath :: string
  chOldPath :: string
  chIsDir :: bool

record pend =
  pOp :: FileOp
  pEmitted :: bool
  pWrote :: bool
  pIsDir :: bool
  pDeadline :: int

record cookied =
  ckPath :: string
  ckIsDir :: bool
  ckDeadline :: int

datatype JournalGapReason = JournalGapOverflow | JournalGapRetention | JournalGapCapacity | JournalGapWatchLost | JournalGapBackend

record foldst =
  fttl :: int
  fops :: "FileOp list option"
  pending :: "(string, pend) fmap"
  cookies :: "(nat, cookied) fmap"
  moves :: "(string, int) fmap"

type_synonym 'k walk = "'k fset \<Rightarrow> 'k list"
type_synonym out = "change list"

definition pendingTTL :: int where "pendingTTL = 250000000"
definition maxPending :: nat where "maxPending = 4096"
definition maxCookies :: nat where "maxCookies = 128"

definition newFold :: "FileOp list option \<Rightarrow> int \<Rightarrow> foldst" where
  "newFold ops ttl = \<lparr>fttl = (if ttl \<le> 0 then pendingTTL else ttl), fops = ops,
     pending = fmempty, cookies = fmempty, moves = fmempty\<rparr>"

definition wants :: "foldst \<Rightarrow> FileOp \<Rightarrow> bool" where
  "wants f op = (case fops f of None \<Rightarrow> True | Some ops \<Rightarrow> List.member ops op)"

definition reported :: "FileOp \<Rightarrow> string \<Rightarrow> bool \<Rightarrow> change" where
  "reported op path isDir = \<lparr>chOp = op, chPath = path, chOldPath = [], chIsDir = isDir\<rparr>"

definition fresh :: "FileOp \<Rightarrow> bool \<Rightarrow> int \<Rightarrow> pend" where
  "fresh op isDir deadline = \<lparr>pOp = op, pEmitted = False, pWrote = False, pIsDir = isDir, pDeadline = deadline\<rparr>"

subsection \<open>Bounded tables\<close>

text \<open>The loops that look for the entry closest to its deadline; the first of the walk wins a tie. The
  search of \<open>makeRoom\<close> uses the empty path as its start value.\<close>

fun oldest_pending :: "foldst \<Rightarrow> string list \<Rightarrow> string \<times> int \<Rightarrow> string" where
  "oldest_pending f [] best = fst best"
| "oldest_pending f (path # ps) best =
     (let d = pDeadline (the (fmlookup (pending f) path)) in
      oldest_pending f ps (if fst best = [] \<or> d < snd best then (path, d) else best))"

fun oldest_cookie :: "foldst \<Rightarrow> nat list \<Rightarrow> (nat \<times> int) option \<Rightarrow> nat" where
  "oldest_cookie f [] best = (case best of None \<Rightarrow> 0 | Some (c, d) \<Rightarrow> c)"
| "oldest_cookie f (k # ks) best =
     (let d = ckDeadline (the (fmlookup (cookies f) k)) in
      oldest_cookie f ks (case best of None \<Rightarrow> Some (k, d)
        | Some (c, at) \<Rightarrow> if d < at then Some (k, d) else best))"

definition makeRoom :: "string walk \<Rightarrow> out \<times> foldst \<Rightarrow> out \<times> foldst" where
  "makeRoom pw s =
     (case s of (out, f) \<Rightarrow>
        if fcard (fmdom (pending f)) < maxPending then (out, f)
        else case find (\<lambda>p. pEmitted (the (fmlookup (pending f) p))) (pw (fmdom (pending f))) of
          Some path \<Rightarrow> (out, f\<lparr>pending := fmdrop path (pending f)\<rparr>)
        | None \<Rightarrow>
          (let oldest = oldest_pending f (pw (fmdom (pending f))) ([], 0) in
           if oldest = [] then (out, f)
           else (let p = the (fmlookup (pending f) oldest) in
                 (out @ [reported (pOp p) oldest (pIsDir p)], f\<lparr>pending := fmdrop oldest (pending f)\<rparr>))))"

definition remember :: "nat walk \<Rightarrow> nat \<Rightarrow> cookied \<Rightarrow> foldst \<Rightarrow> foldst" where
  "remember cw cookie c f =
     (let f1 = (if fmlookup (cookies f) cookie = None \<and> fcard (fmdom (cookies f)) \<ge> maxCookies
                then f\<lparr>cookies := fmdrop (oldest_cookie f (cw (fmdom (cookies f))) None) (cookies f)\<rparr> else f)
      in f1\<lparr>cookies := fmupd cookie c (cookies f1)\<rparr>)"

subsection \<open>Single observations\<close>

definition fold_publish :: "pend \<Rightarrow> string \<Rightarrow> int \<Rightarrow> out \<times> foldst \<Rightarrow> out \<times> foldst" where
  "fold_publish p path now s =
     (case s of (out, f) \<Rightarrow>
        (out @ [reported (pOp p) path (pIsDir p)],
         f\<lparr>pending := fmupd path (p\<lparr>pEmitted := True, pDeadline := now + fttl f\<rparr>) (pending f)\<rparr>))"

text \<open>The common tail of \<open>appear\<close> and \<open>Seed\<close>.\<close>

definition track_new :: "string walk \<Rightarrow> string \<Rightarrow> bool \<Rightarrow> int \<Rightarrow> out \<times> foldst \<Rightarrow> out \<times> foldst" where
  "track_new pw path isDir now s =
     (case makeRoom pw s of (out, f) \<Rightarrow>
        (let p = fresh FileOpCreate isDir (now + fttl f);
             s1 = (out, f\<lparr>pending := fmupd path p (pending f)\<rparr>)
         in if isDir then fold_publish p path now s1 else s1))"

definition appear :: "string walk \<Rightarrow> string \<Rightarrow> bool \<Rightarrow> int \<Rightarrow> out \<times> foldst \<Rightarrow> out \<times> foldst" where
  "appear pw path isDir now s =
     (case s of (out, f) \<Rightarrow>
        (case fmlookup (pending f) path of
           Some p \<Rightarrow> (out, if isDir then f\<lparr>pending := fmupd path (p\<lparr>pIsDir := True\<rparr>) (pending f)\<rparr> else f)
         | None \<Rightarrow> track_new pw path isDir now s))"

definition Seed :: "string walk \<Rightarrow> string \<Rightarrow> bool \<Rightarrow> int \<Rightarrow> out \<times> foldst \<Rightarrow> out \<times> foldst" where
  "Seed pw path isDir now s =
     (if fmlookup (pending (snd s)) path \<noteq> None then s else track_new pw path isDir now s)"

definition touch :: "string walk \<Rightarrow> string \<Rightarrow> int \<Rightarrow> out \<times> foldst \<Rightarrow> out \<times> foldst" where
  "touch pw path now s =
     (case fmlookup (pending (snd s)) path of
        Some p \<Rightarrow> (fst s, (snd s)\<lparr>pending := fmupd path (p\<lparr>pWrote := True\<rparr>) (pending (snd s))\<rparr>)
      | None \<Rightarrow>
        (case makeRoom pw s of (out, f) \<Rightarrow>
           (out, f\<lparr>pending := fmupd path ((fresh FileOpWrite False (now + fttl f))\<lparr>pWrote := True\<rparr>) (pending f)\<rparr>)))"

definition complete :: "string \<Rightarrow> out \<times> foldst \<Rightarrow> out \<times> foldst" where
  "complete path s =
     (case s of (out, f) \<Rightarrow>
        (case fmlookup (pending f) path of
           None \<Rightarrow> (out, f)
         | Some p \<Rightarrow>
           (let f1 = f\<lparr>pending := fmdrop path (pending f)\<rparr> in
            if pEmitted p then (out, f1)
            else if pOp p \<noteq> FileOpCreate \<and> \<not> pWrote p then (out, f1)
            else (out @ [reported (pOp p) path (pIsDir p)], f1))))"

definition gone :: "string \<Rightarrow> out \<times> foldst \<Rightarrow> out \<times> foldst" where
  "gone path s =
     (case s of (out, f) \<Rightarrow>
        (let f1 = f\<lparr>pending := fmdrop path (pending f)\<rparr>;
             removal = (\<lambda>d. (out @ [reported FileOpRemove path d], f1\<lparr>moves := fmdrop path (moves f)\<rparr>))
         in case fmlookup (pending f) path of
              Some p \<Rightarrow> if \<not> pEmitted p \<and> pOp p = FileOpCreate then (out, f1) else removal (pIsDir p)
            | None \<Rightarrow> removal False))"

definition depart :: "nat walk \<Rightarrow> string \<Rightarrow> nat \<Rightarrow> bool \<Rightarrow> int \<Rightarrow> out \<times> foldst \<Rightarrow> out \<times> foldst" where
  "depart cw path cookie isDir now s =
     (case s of (out, f) \<Rightarrow>
        (let out1 = (case fmlookup (pending f) path of
               Some p \<Rightarrow> if \<not> pEmitted p \<and> pOp p = FileOpCreate
                         then out @ [reported FileOpCreate path (pIsDir p)] else out
             | None \<Rightarrow> out)
         in (out1, remember cw cookie \<lparr>ckPath = path, ckIsDir = isDir, ckDeadline = now + fttl f\<rparr>
                     (f\<lparr>pending := fmdrop path (pending f)\<rparr>))))"

definition ResolveMove :: "string \<Rightarrow> foldst \<Rightarrow> foldst" where
  "ResolveMove path f = f\<lparr>moves := fmdrop path (moves f)\<rparr>"

definition arrive :: "string walk \<Rightarrow> string \<Rightarrow> nat \<Rightarrow> bool \<Rightarrow> int \<Rightarrow> out \<times> foldst \<Rightarrow> out \<times> foldst" where
  "arrive pw path cookie isDir now s =
     (case s of (out, f) \<Rightarrow>
        (case fmlookup (cookies f) cookie of
           None \<Rightarrow> appear pw path isDir now s
         | Some c \<Rightarrow>
             (out @ [\<lparr>chOp = FileOpRename, chPath = path, chOldPath = ckPath c, chIsDir = isDir \<or> ckIsDir c\<rparr>],
              ResolveMove (ckPath c) (f\<lparr>cookies := fmdrop cookie (cookies f), pending := fmdrop path (pending f)\<rparr>))))"

definition Observe :: "string walk \<Rightarrow> nat walk \<Rightarrow> rawEvent \<Rightarrow> string \<Rightarrow> int \<Rightarrow> foldst \<Rightarrow> out \<times> foldst" where
  "Observe pw cw ev path now f =
     (case rOp ev of
        rawCreate \<Rightarrow> appear pw path (rIsDir ev) now ([], f)
      | rawModify \<Rightarrow> touch pw path now ([], f)
      | rawCloseWrite \<Rightarrow> complete path ([], f)
      | rawDelete \<Rightarrow> gone path ([], f)
      | rawMovedFrom \<Rightarrow> depart cw path (rCookie ev) (rIsDir ev) now ([], f)
      | rawMovedTo \<Rightarrow> arrive pw path (rCookie ev) (rIsDir ev) now ([], f)
      | rawMoveSelf \<Rightarrow> ([], f\<lparr>moves := fmupd path (now + fttl f) (moves f)\<rparr>)
      | _ \<Rightarrow> ([], f))"

subsection \<open>Deadlines, freezing and moved subtrees\<close>

definition sweep_pending :: "int option \<Rightarrow> string \<Rightarrow> out \<times> foldst \<Rightarrow> out \<times> foldst" where
  "sweep_pending now path s =
     (case s of (out, f) \<Rightarrow>
        (case fmlookup (pending f) path of
           None \<Rightarrow> (out, f)
         | Some p \<Rightarrow>
           if (case now of None \<Rightarrow> False | Some t \<Rightarrow> t < pDeadline p) then (out, f)
           else (if pEmitted p then out else out @ [reported (pOp p) path (pIsDir p)],
                 f\<lparr>pending := fmdrop path (pending f)\<rparr>)))"

definition sweep_cookie :: "int option \<Rightarrow> nat \<Rightarrow> (out \<times> foldst) \<times> string list \<Rightarrow> (out \<times> foldst) \<times> string list" where
  "sweep_cookie now cookie s =
     (case s of ((out, f), removed) \<Rightarrow>
        (case fmlookup (cookies f) cookie of
           None \<Rightarrow> s
         | Some c \<Rightarrow>
           if (case now of None \<Rightarrow> False | Some t \<Rightarrow> t < ckDeadline c) then s
           else ((out @ [reported FileOpRemove (ckPath c) (ckIsDir c)],
                  f\<lparr>cookies := fmdrop cookie (cookies f)\<rparr>), ckPath c # removed)))"

definition sweep_move ::
  "int \<Rightarrow> string list \<Rightarrow> string \<Rightarrow> (out \<times> foldst) \<times> JournalGapReason list \<Rightarrow> (out \<times> foldst) \<times> JournalGapReason list" where
  "sweep_move now removed path s =
     (case s of ((out, f), gaps) \<Rightarrow>
        (case fmlookup (moves f) path of
           None \<Rightarrow> s
         | Some deadline \<Rightarrow>
           if now < deadline then s
           else (let f1 = f\<lparr>moves := fmdrop path (moves f)\<rparr> in
             if List.member removed path then ((out, f1), gaps)
             else ((out @ [reported FileOpRemove path True], f1), gaps @ [JournalGapWatchLost]))))"

definition Sweep :: "string walk \<Rightarrow> nat walk \<Rightarrow> int \<Rightarrow> out \<times> foldst \<Rightarrow> JournalGapReason list \<times> out \<times> foldst" where
  "Sweep pw cw now s =
     (let s1 = fold (sweep_pending (Some now)) (pw (fmdom (pending (snd s)))) s;
          (s2, removed) = fold (sweep_cookie (Some now)) (cw (fmdom (cookies (snd s1)))) (s1, []);
          (s3, gaps) = fold (sweep_move now removed) (pw (fmdom (moves (snd s2)))) (s2, [])
      in (gaps, s3))"

definition flush_move :: "string \<Rightarrow> out \<times> foldst \<Rightarrow> out \<times> foldst" where
  "flush_move path s =
     (case s of (out, f) \<Rightarrow>
        (out @ [reported FileOpRemove path True], f\<lparr>moves := fmdrop path (moves f)\<rparr>))"

definition Flush :: "string walk \<Rightarrow> nat walk \<Rightarrow> out \<times> foldst \<Rightarrow> out \<times> foldst" where
  "Flush pw cw s =
     (let s1 = fold (sweep_pending None) (pw (fmdom (pending (snd s)))) s;
          s2 = fst (fold (sweep_cookie None) (cw (fmdom (cookies (snd s1)))) (s1, []))
      in fold flush_move (pw (fmdom (moves (snd s2)))) s2)"

definition under :: "string \<Rightarrow> string \<Rightarrow> bool" where
  "under dir path \<longleftrightarrow> path = dir \<or> has_prefix path (dir @ ''/'')"

definition rewrite :: "string \<Rightarrow> string \<Rightarrow> string \<Rightarrow> string option" where
  "rewrite old new path =
     (if path = old then Some new
      else if has_prefix path (old @ ''/'') then Some (new @ drop (length old) path)
      else None)"

definition rekey :: "string \<Rightarrow> string \<Rightarrow> string \<Rightarrow> (string, 'a) fmap \<Rightarrow> (string, 'a) fmap" where
  "rekey old new path m =
     (case (rewrite old new path, fmlookup m path) of
        (Some nxt, Some v) \<Rightarrow> fmupd nxt v (fmdrop path m)
      | _ \<Rightarrow> m)"

definition Reparent :: "string walk \<Rightarrow> string \<Rightarrow> string \<Rightarrow> foldst \<Rightarrow> foldst" where
  "Reparent pw old new f =
     f\<lparr>pending := fold (rekey old new) (pw (fmdom (pending f))) (pending f),
       moves := fold (rekey old new) (pw (fmdom (moves f))) (moves f),
       cookies := fmmap (\<lambda>c. case rewrite old new (ckPath c) of None \<Rightarrow> c | Some nxt \<Rightarrow> c\<lparr>ckPath := nxt\<rparr>) (cookies f)\<rparr>"

definition Forget :: "string \<Rightarrow> foldst \<Rightarrow> foldst" where
  "Forget prefix f =
     f\<lparr>pending := fmfilter (\<lambda>p. \<not> under prefix p) (pending f),
       moves := fmfilter (\<lambda>p. \<not> under prefix p) (moves f),
       cookies := fmfilter (\<lambda>k. \<not> under prefix (ckPath (the (fmlookup (cookies f) k)))) (cookies f)\<rparr>"

end
