(* ===== verification/Journal_Props.thy ===== *)
theory Journal_Props
  imports Journal_Fold
begin

text \<open>
  What the event fold of \<open>core/sandbox/journal/fold.go\<close> keeps: its tables stay within their bounds, and a change
  it has not reported is kept, reported, or cancelled by an event that makes its net effect nothing.
\<close>

definition walk_ok :: "'k walk \<Rightarrow> bool" where
  "walk_ok w \<longleftrightarrow> (\<forall>K. set (w K) = fset K \<and> distinct (w K))"

lemma walk_set [simp]: "walk_ok w \<Longrightarrow> set (w K) = fset K" "walk_ok w \<Longrightarrow> distinct (w K)"
  by (auto simp: walk_ok_def)

subsection \<open>Sizes\<close>

lemma fcard_upd: "fcard (fmdom (fmupd k v m)) \<le> Suc (fcard (fmdom m))"
  by (simp add: fcard_finsert_if)

lemma fcard_upd_known: "fmlookup m k \<noteq> None \<Longrightarrow> fcard (fmdom (fmupd k v m)) = fcard (fmdom m)"
  by (auto simp: fcard_finsert_if fmlookup_dom_iff)

lemma fcard_drop: "fcard (fmdom (fmdrop k m)) \<le> fcard (fmdom m)"
  by (rule fcard_mono) auto

lemma fcard_drop_known: "fmlookup m k \<noteq> None \<Longrightarrow> Suc (fcard (fmdom (fmdrop k m))) = fcard (fmdom m)"
  unfolding fmdom_drop by (rule fcard_Suc_fminus1) (auto simp: fmlookup_dom_iff)

lemma oldest_pending_known:
  assumes "set ps \<subseteq> fset (fmdom (pending f))" "fst best = [] \<or> fst best |\<in>| fmdom (pending f)"
    and "[] |\<notin>| fmdom (pending f)" "ps \<noteq> [] \<or> fst best \<noteq> []"
  shows "oldest_pending f ps best |\<in>| fmdom (pending f)"
  using assms
proof (induction f ps best rule: oldest_pending.induct)
  case (2 f path ps best)
  then have "path \<noteq> []" by auto
  with 2 show ?case by (auto simp: Let_def)
qed auto

lemma oldest_cookie_known:
  assumes "set ks \<subseteq> fset (fmdom (cookies f))" "\<And>c d. best = Some (c, d) \<Longrightarrow> c |\<in>| fmdom (cookies f)"
    and "ks \<noteq> [] \<or> best \<noteq> None"
  shows "oldest_cookie f ks best |\<in>| fmdom (cookies f)"
  using assms by (induction f ks best rule: oldest_cookie.induct) (auto simp: Let_def split: option.splits if_splits)

definition fold_ok :: "foldst \<Rightarrow> bool" where
  "fold_ok f \<longleftrightarrow> [] |\<notin>| fmdom (pending f) \<and> fcard (fmdom (pending f)) \<le> maxPending \<and> fcard (fmdom (cookies f)) \<le> maxCookies"

lemma makeRoom_ok:
  assumes "fold_ok f" "walk_ok pw" "makeRoom pw (out, f) = (out', f')"
  shows "fold_ok f' \<and> Suc (fcard (fmdom (pending f'))) \<le> maxPending \<and> cookies f' = cookies f \<and> moves f' = moves f \<and> fttl f' = fttl f"
proof (cases "fcard (fmdom (pending f)) < maxPending")
  case True
  then show ?thesis using assms by (simp add: makeRoom_def)
next
  case full: False
  then have ne: "fmdom (pending f) \<noteq> {||}" by (auto simp: maxPending_def fcard_fempty)
  have drop: "fold_ok (f\<lparr>pending := fmdrop k (pending f)\<rparr>) \<and> Suc (fcard (fmdom (fmdrop k (pending f)))) \<le> maxPending"
    if "fmlookup (pending f) k \<noteq> None" for k
    using fcard_drop_known [OF that] assms(1) by (auto simp: fold_ok_def)
  show ?thesis
  proof (cases "find (\<lambda>p. pEmitted (the (fmlookup (pending f) p))) (pw (fmdom (pending f)))")
    case None
    have "pw (fmdom (pending f)) \<noteq> []" using ne assms(2) by (metis bot_fset.rep_eq fset_inject list.set(1) walk_set(1))
    then have "oldest_pending f (pw (fmdom (pending f))) ([], 0) |\<in>| fmdom (pending f)"
      using assms(1,2) by (intro oldest_pending_known) (auto simp: fold_ok_def)
    then have o: "fmlookup (pending f) (oldest_pending f (pw (fmdom (pending f))) ([], 0)) \<noteq> None"
      "oldest_pending f (pw (fmdom (pending f))) ([], 0) \<noteq> []"
      using assms(1) by (auto simp: fold_ok_def fmlookup_dom_iff)
    then show ?thesis using assms(3) full None drop [OF o(1)] by (auto simp: makeRoom_def Let_def)
  next
    case (Some k)
    then have "fmlookup (pending f) k \<noteq> None" using assms(2) by (auto simp: find_Some_iff fmlookup_dom_iff dest!: nth_mem)
    then show ?thesis using assms(3) full Some drop by (auto simp: makeRoom_def)
  qed
qed

lemma fold_ok_drop: "fold_ok f \<Longrightarrow> fold_ok (f\<lparr>pending := fmdrop k (pending f)\<rparr>)"
  using fcard_drop [of k "pending f"] by (auto simp: fold_ok_def)

lemma fold_ok_known:
  "fold_ok f \<Longrightarrow> fmlookup (pending f) k \<noteq> None \<Longrightarrow> fold_ok (f\<lparr>pending := fmupd k v (pending f)\<rparr>)"
  using fcard_upd_known [of "pending f" k v] by (auto simp: fold_ok_def fmlookup_dom_iff)

lemma fold_ok_new:
  "fold_ok f \<Longrightarrow> Suc (fcard (fmdom (pending f))) \<le> maxPending \<Longrightarrow> k \<noteq> [] \<Longrightarrow>
    fold_ok (f\<lparr>pending := fmupd k v (pending f)\<rparr>)"
  using fcard_upd [of k v "pending f"] by (auto simp: fold_ok_def)

lemma fold_ok_moves [simp]: "fold_ok (f\<lparr>moves := m\<rparr>) = fold_ok f"
  by (simp add: fold_ok_def)

lemma track_new_ok:
  assumes "fold_ok f" "walk_ok pw" "path \<noteq> []" "track_new pw path isDir now (out, f) = (out', f')"
  shows "fold_ok f'"
proof -
  obtain out1 f1 where r: "makeRoom pw (out, f) = (out1, f1)" by fastforce
  from makeRoom_ok [OF assms(1,2) r] have "fold_ok (f1\<lparr>pending := fmupd path p (pending f1)\<rparr>)" for p
    using assms(3) by (auto intro: fold_ok_new)
  then show ?thesis using assms(4) r by (auto simp: track_new_def Let_def fold_publish_def split: if_splits)
qed

lemma remember_ok:
  assumes "fold_ok f" "walk_ok cw"
  shows "fold_ok (remember cw k c f)"
proof (cases "fmlookup (cookies f) k")
  case None
  show ?thesis
  proof (cases "fcard (fmdom (cookies f)) \<ge> maxCookies")
    case True
    then have ne: "fmdom (cookies f) \<noteq> {||}" by (auto simp: maxCookies_def fcard_fempty)
    then have "cw (fmdom (cookies f)) \<noteq> []" using assms(2) by (metis bot_fset.rep_eq fset_inject list.set(1) walk_set(1))
    then have "oldest_cookie f (cw (fmdom (cookies f))) None |\<in>| fmdom (cookies f)"
      using assms(2) by (intro oldest_cookie_known) auto
    then have o: "fmlookup (cookies f) (oldest_cookie f (cw (fmdom (cookies f))) None) \<noteq> None" by (auto simp: fmlookup_dom_iff)
    from fcard_drop_known [OF o] assms(1) show ?thesis
      using None True fcard_upd [of k c "fmdrop (oldest_cookie f (cw (fmdom (cookies f))) None) (cookies f)"]
      by (simp add: remember_def Let_def fold_ok_def)
  next
    case False
    then show ?thesis using None assms(1) fcard_upd [of k c "cookies f"] by (simp add: remember_def Let_def fold_ok_def)
  qed
next
  case (Some c')
  then show ?thesis using assms(1) fcard_upd_known [of "cookies f" k c] by (simp add: remember_def Let_def fold_ok_def)
qed

lemma appear_ok:
  assumes "fold_ok f" "walk_ok pw" "path \<noteq> []" "appear pw path isDir now (out, f) = (out', f')"
  shows "fold_ok f'"
  using assms track_new_ok [OF assms(1-3)]
  by (auto simp: appear_def split: option.splits if_splits intro: fold_ok_known)

lemma Observe_ok:
  assumes "fold_ok f" "walk_ok pw" "walk_ok cw" "path \<noteq> []" "Observe pw cw ev path now f = (out, f')"
  shows "fold_ok f'"
proof (cases "rOp ev")
  case rawCreate
  then show ?thesis using assms by (auto simp: Observe_def intro: appear_ok)
next
  case rawModify
  obtain out1 f1 where r: "makeRoom pw ([], f) = (out1, f1)" by fastforce
  have "fold_ok (f1\<lparr>pending := fmupd path p (pending f1)\<rparr>)" for p
    using makeRoom_ok [OF assms(1,2) r] assms(4) by (auto intro: fold_ok_new)
  then show ?thesis
    using rawModify assms r by (auto simp: Observe_def touch_def split: option.splits intro: fold_ok_known)
next
  case rawCloseWrite
  then show ?thesis using assms by (auto simp: Observe_def complete_def Let_def split: option.splits if_splits intro: fold_ok_drop)
next
  case rawDelete
  then show ?thesis using assms
    by (auto simp: Observe_def gone_def Let_def split: option.splits if_splits intro: fold_ok_drop)
next
  case rawMovedFrom
  then show ?thesis using assms
    by (auto simp: Observe_def depart_def Let_def intro: remember_ok fold_ok_drop)
next
  case rawMovedTo
  show ?thesis
  proof (cases "fmlookup (cookies f) (rCookie ev)")
    case None
    then show ?thesis using rawMovedTo assms by (auto simp: Observe_def arrive_def intro: appear_ok)
  next
    case (Some c)
    have "fcard (fmdom (fmdrop (rCookie ev) (cookies f))) \<le> maxCookies" "fcard (fmdom (fmdrop path (pending f))) \<le> maxPending"
      using assms(1) fcard_drop [of "rCookie ev" "cookies f"] fcard_drop [of path "pending f"] by (auto simp: fold_ok_def)
    then show ?thesis using rawMovedTo assms(1,5) Some by (auto simp: Observe_def arrive_def ResolveMove_def fold_ok_def)
  qed
qed (use assms in \<open>auto simp: Observe_def\<close>)

subsection \<open>Steps of the fold\<close>

datatype fold_event =
  Raw rawEvent string int
| Seeded string bool int
| Swept int
| Flushed
| Reparented string string
| Forgotten string

definition fold_apply :: "string walk \<Rightarrow> nat walk \<Rightarrow> fold_event \<Rightarrow> foldst \<Rightarrow> out \<times> foldst" where
  "fold_apply pw cw e f =
     (case e of
        Raw ev path now \<Rightarrow> Observe pw cw ev path now f
      | Seeded path isDir now \<Rightarrow> Seed pw path isDir now ([], f)
      | Swept now \<Rightarrow> snd (Sweep pw cw now ([], f))
      | Flushed \<Rightarrow> Flush pw cw ([], f)
      | Reparented old new \<Rightarrow> ([], Reparent pw old new f)
      | Forgotten dir \<Rightarrow> ([], Forget dir f))"

text \<open>Paths are absolute, so none is empty.\<close>

fun real_paths :: "fold_event \<Rightarrow> bool" where
  "real_paths (Raw ev path now) \<longleftrightarrow> path \<noteq> []"
| "real_paths (Seeded path isDir now) \<longleftrightarrow> path \<noteq> []"
| "real_paths (Reparented old new) \<longleftrightarrow> new \<noteq> []"
| "real_paths _ \<longleftrightarrow> True"

lemma fold_keeps: "(\<And>x s. P s \<Longrightarrow> P (f x s)) \<Longrightarrow> P s \<Longrightarrow> P (fold f xs s)"
  by (induction xs arbitrary: s) auto

lemma sweep_ok [step_inv]:
  "fold_ok (snd s) \<Longrightarrow> fold_ok (snd (sweep_pending now path s))"
  "fold_ok (snd (fst t)) \<Longrightarrow> fold_ok (snd (fst (sweep_cookie now k t)))"
  "fold_ok (snd (fst u)) \<Longrightarrow> fold_ok (snd (fst (sweep_move m removed path u)))"
  "fold_ok (snd s) \<Longrightarrow> fold_ok (snd (flush_move path s))"
proof -
  show "fold_ok (snd s) \<Longrightarrow> fold_ok (snd (sweep_pending now path s))"
    by (auto simp: sweep_pending_def fold_ok_drop split: prod.splits option.splits)
  have "fold_ok (f\<lparr>cookies := fmdrop c (cookies f)\<rparr>)" if "fold_ok f" for c f
    using that fcard_drop [of c "cookies f"] by (auto simp: fold_ok_def)
  then show "fold_ok (snd (fst t)) \<Longrightarrow> fold_ok (snd (fst (sweep_cookie now k t)))"
    by (auto simp: sweep_cookie_def split: prod.splits option.splits)
qed (auto simp: sweep_move_def flush_move_def Let_def split: prod.splits option.splits)

lemma Sweep_ok:
  assumes "fold_ok (snd s)" "Sweep pw cw now s = (gaps, out, f)"
  shows "fold_ok f"
proof -
  let ?s1 = "fold (sweep_pending (Some now)) (pw (fmdom (pending (snd s)))) s"
  let ?t = "fold (sweep_cookie (Some now)) (cw (fmdom (cookies (snd ?s1)))) (?s1, [])"
  let ?u = "fold (sweep_move now (snd ?t)) (pw (fmdom (moves (snd (fst ?t))))) (fst ?t, [])"
  have "fold_ok (snd ?s1)" using assms(1) by (rule fold_keeps [rotated]) (rule sweep_ok)
  then have "fold_ok (snd (fst ?t))" by (intro fold_keeps [where P = "\<lambda>t. fold_ok (snd (fst t))"] sweep_ok) simp_all
  then have "fold_ok (snd (fst ?u))" by (intro fold_keeps [where P = "\<lambda>t. fold_ok (snd (fst t))"] sweep_ok) simp_all
  then show ?thesis using assms(2) by (auto simp: Sweep_def Let_def split: prod.splits)
qed

lemma Flush_ok:
  assumes "fold_ok (snd s)"
  shows "fold_ok (snd (Flush pw cw s))"
proof -
  let ?s1 = "fold (sweep_pending None) (pw (fmdom (pending (snd s)))) s"
  let ?t = "fold (sweep_cookie None) (cw (fmdom (cookies (snd ?s1)))) (?s1, [])"
  have "fold_ok (snd ?s1)" using assms by (rule fold_keeps [rotated]) (rule sweep_ok)
  then have "fold_ok (snd (fst ?t))" by (intro fold_keeps [where P = "\<lambda>t. fold_ok (snd (fst t))"] sweep_ok) simp_all
  then show ?thesis unfolding Flush_def Let_def by (rule fold_keeps [rotated]) (rule sweep_ok)
qed

lemma rekey_size:
  assumes "new \<noteq> []"
  shows "fcard (fmdom (rekey old new path m)) \<le> fcard (fmdom m) \<and>
    ([] |\<notin>| fmdom m \<longrightarrow> [] |\<notin>| fmdom (rekey old new path m))"
proof (cases "rewrite old new path \<noteq> None \<and> fmlookup m path \<noteq> None")
  case True
  then obtain nxt v where n: "rewrite old new path = Some nxt" "fmlookup m path = Some v" by auto
  then have "nxt \<noteq> []" using assms by (auto simp: rewrite_def split: if_splits)
  moreover have "fcard (fmdom (fmupd nxt v (fmdrop path m))) \<le> fcard (fmdom m)"
    using fcard_upd [of nxt v "fmdrop path m"] fcard_drop_known [of m path] n(2) by simp
  ultimately show ?thesis using n by (simp add: rekey_def)
next
  case False
  then show ?thesis by (auto simp: rekey_def split: option.splits)
qed

lemma Reparent_ok:
  assumes "fold_ok f" "new \<noteq> []"
  shows "fold_ok (Reparent pw old new f)"
proof -
  have "fcard (fmdom (fold (rekey old new) ps m)) \<le> fcard (fmdom m) \<and>
      ([] |\<notin>| fmdom m \<longrightarrow> [] |\<notin>| fmdom (fold (rekey old new) ps m))" for ps and m :: "(string, pend) fmap"
  proof (induction ps arbitrary: m)
    case (Cons p ps)
    show ?case using Cons.IH [of "rekey old new p m"] rekey_size [OF assms(2), of old p m] by auto
  qed simp
  from this [of "pw (fmdom (pending f))" "pending f"] show ?thesis
    using assms(1) by (auto simp: Reparent_def fold_ok_def)
qed

lemma Forget_ok:
  assumes "fold_ok f"
  shows "fold_ok (Forget dir f)"
proof -
  have "fcard (fmdom (fmfilter P m)) \<le> fcard (fmdom m)" for P and m :: "('k, 'v) fmap"
    by (rule fcard_mono) auto
  from this [of _ "pending f"] this [of _ "cookies f"] show ?thesis
    using assms by (auto simp: Forget_def fold_ok_def intro: order_trans)
qed

lemma fold_apply_ok:
  assumes "fold_ok f" "walk_ok pw" "walk_ok cw" "real_paths e"
  shows "fold_ok (snd (fold_apply pw cw e f))"
proof (cases e)
  case (Raw ev path now)
  then show ?thesis using assms by (auto simp: fold_apply_def intro: Observe_ok [OF assms(1-3) _ prod.collapse [symmetric]])
next
  case (Seeded path isDir now)
  then show ?thesis using assms
    by (auto simp: fold_apply_def Seed_def intro: track_new_ok [OF assms(1,2) _ prod.collapse [symmetric]])
next
  case (Swept now)
  obtain gaps out f' where "Sweep pw cw now ([], f) = (gaps, out, f')" by (metis prod_cases3)
  with Swept Sweep_ok [OF _ this] assms(1) show ?thesis by (simp add: fold_apply_def)
qed (use assms in \<open>auto simp: fold_apply_def intro: Flush_ok Reparent_ok Forget_ok\<close>)

inductive fold_reach :: "string walk \<Rightarrow> nat walk \<Rightarrow> foldst \<Rightarrow> bool" for pw cw where
  fold_start: "fold_reach pw cw (newFold ops ttl)"
| fold_next: "fold_reach pw cw f \<Longrightarrow> real_paths e \<Longrightarrow> fold_reach pw cw (snd (fold_apply pw cw e f))"

text \<open>The fold never outgrows its tables: whatever events, seeds, sweeps and subtree moves it sees, at
  most 4096 paths and 128 rename sources are folded at any time.\<close>

theorem fold_tables_bounded:
  assumes "walk_ok pw" "walk_ok cw" "fold_reach pw cw f"
  shows "fcard (fmdom (pending f)) \<le> 4096 \<and> fcard (fmdom (cookies f)) \<le> 128"
proof -
  from assms(3) have "fold_ok f"
  proof (induction rule: fold_reach.induct)
    case (fold_start ops ttl)
    then show ?case by (simp add: newFold_def fold_ok_def fcard_fempty)
  next
    case (fold_next f e)
    then show ?case using fold_apply_ok assms(1,2) by blast
  qed
  then show ?thesis by (simp add: fold_ok_def maxPending_def maxCookies_def)
qed

subsection \<open>Nothing is lost\<close>

text \<open>A folded change is an appearance or a write that was seen.\<close>

definition pend_op :: "pend \<Rightarrow> bool" where
  "pend_op p \<longleftrightarrow> pOp p = FileOpCreate \<or> pOp p = FileOpWrite \<and> pWrote p"

definition pend_ops :: "foldst \<Rightarrow> bool" where
  "pend_ops f \<longleftrightarrow> (\<forall>path p. fmlookup (pending f) path = Some p \<longrightarrow> pend_op p)"

lemma pend_ops_drop: "pend_ops f \<Longrightarrow> pend_ops (f\<lparr>pending := fmdrop k (pending f)\<rparr>)"
  by (auto simp: pend_ops_def)

lemma pend_ops_upd:
  "pend_ops f \<Longrightarrow> pend_op p \<Longrightarrow> pend_ops (f\<lparr>pending := fmupd k p (pending f)\<rparr>)"
  by (auto simp: pend_ops_def)

lemma pend_ops_cong: "pending f = pending f' \<Longrightarrow> pend_ops f = pend_ops f'"
  by (simp add: pend_ops_def)

lemma pend_ops_makeRoom: "pend_ops f \<Longrightarrow> makeRoom pw (out, f) = (out', f') \<Longrightarrow> pend_ops f'"
  by (auto simp: makeRoom_def Let_def pend_ops_drop split: if_splits option.splits)

lemma pend_ops_track: "pend_ops (snd s) \<Longrightarrow> pend_ops (snd (track_new pw path isDir now s))"
proof -
  assume a: "pend_ops (snd s)"
  obtain out f where s: "s = (out, f)" by fastforce
  obtain out1 f1 where r: "makeRoom pw (out, f) = (out1, f1)" by fastforce
  have "pend_ops f1" using pend_ops_makeRoom [OF _ r] a by (simp add: s)
  then have "pend_ops (f1\<lparr>pending := fmupd path q (pending f1)\<rparr>)" if "pOp q = FileOpCreate" for q
    using that by (simp add: pend_ops_upd pend_op_def)
  then show ?thesis by (simp add: track_new_def Let_def fold_publish_def fresh_def s r)
qed

lemma pend_ops_appear: "pend_ops (snd s) \<Longrightarrow> pend_ops (snd (appear pw path isDir now s))"
proof -
  assume a: "pend_ops (snd s)"
  show ?thesis
  proof (cases "fmlookup (pending (snd s)) path")
    case None
    then show ?thesis using a pend_ops_track [of s] by (cases s) (simp add: appear_def)
  next
    case (Some p)
    then have "pend_op (p\<lparr>pIsDir := True\<rparr>)" using a by (auto simp: pend_ops_def pend_op_def)
    then show ?thesis using a Some pend_ops_upd [of "snd s" "p\<lparr>pIsDir := True\<rparr>" path]
      by (cases s) (simp add: appear_def)
  qed
qed

lemma pend_ops_Observe:
  assumes "pend_ops f"
  shows "pend_ops (snd (Observe pw cw ev path now f))"
proof (cases "rOp ev")
  case rawCreate
  then show ?thesis using pend_ops_appear [of "([], f)"] assms by (simp add: Observe_def)
next
  case rawModify
  then show ?thesis using assms
    by (auto simp: Observe_def touch_def fresh_def pend_op_def split: option.splits prod.splits dest: pend_ops_makeRoom
        intro!: pend_ops_upd) (auto simp: pend_ops_def pend_op_def)
next
  case rawMovedFrom
  have "pending (remember cw k c f') = pending f'" for k c f' by (simp add: remember_def Let_def)
  then show ?thesis using rawMovedFrom assms
    by (simp add: Observe_def depart_def Let_def pend_ops_cong [of "remember _ _ _ _" "f\<lparr>pending := _\<rparr>"] pend_ops_drop)
next
  case rawMovedTo
  have "pend_ops (f\<lparr>pending := fmdrop path (pending f)\<rparr>)" using assms by (rule pend_ops_drop)
  then have "pend_ops (ResolveMove q (f\<lparr>cookies := c, pending := fmdrop path (pending f)\<rparr>))" for q c
    by (simp add: ResolveMove_def pend_ops_def)
  then show ?thesis using rawMovedTo assms
    by (auto simp: Observe_def arrive_def pend_ops_appear split: option.splits)
qed (use assms in \<open>auto simp: Observe_def complete_def gone_def Let_def pend_ops_appear pend_ops_drop pend_ops_def
      split: option.splits\<close>)

text \<open>What the sweeps do: the pending, cookie and move loops touch only their own table.\<close>

lemma sweep_pending_lookup:
  "pending (snd (sweep_pending now path s)) =
     (if \<exists>p. fmlookup (pending (snd s)) path = Some p \<and> (\<forall>t. now = Some t \<longrightarrow> \<not> t < pDeadline p)
      then fmdrop path (pending (snd s)) else pending (snd s))"
  by (cases s) (auto simp: sweep_pending_def split: option.splits)

lemma sweep_frame [simp]:
  "cookies (snd (sweep_pending now path s)) = cookies (snd s)" "moves (snd (sweep_pending now path s)) = moves (snd s)"
  "pending (snd (fst (sweep_cookie now k t))) = pending (snd (fst t))"
  "moves (snd (fst (sweep_cookie now k t))) = moves (snd (fst t))"
  "pending (snd (fst (sweep_move m removed path u))) = pending (snd (fst u))"
  "pending (snd (flush_move path s)) = pending (snd s)" "cookies (snd (flush_move path s)) = cookies (snd s)"
  by (auto simp: sweep_pending_def sweep_cookie_def sweep_move_def flush_move_def Let_def split: prod.splits option.splits)

lemma sweep_out:
  "set (fst s) \<subseteq> set (fst (sweep_pending now path s))" "set (fst (fst t)) \<subseteq> set (fst (fst (sweep_cookie now k t)))"
  "set (fst (fst u)) \<subseteq> set (fst (fst (sweep_move m removed path u)))" "set (fst s) \<subseteq> set (fst (flush_move path s))"
  by (auto simp: sweep_pending_def sweep_cookie_def sweep_move_def flush_move_def Let_def split: prod.splits option.splits)

lemma fold_frame: "(\<And>x s. h (f x s) = h s) \<Longrightarrow> h (fold f xs s) = h s"
  by (induction xs arbitrary: s) auto

lemma fold_grows: "(\<And>x s. set (h s) \<subseteq> set (h (f x s))) \<Longrightarrow> set (h s) \<subseteq> set (h (fold f xs s))"
  by (induction xs arbitrary: s) (auto, blast)

text \<open>The loop over the pending table reports every unreported entry it drops.\<close>

lemma sweep_pending_accounts:
  assumes "fmlookup (pending (snd s)) path = Some p" "\<not> pEmitted p"
  shows "fmlookup (pending (snd (fold (sweep_pending now) ps s))) path = Some p \<or>
    reported (pOp p) path (pIsDir p) \<in> set (fst (fold (sweep_pending now) ps s))"
  using assms(1)
proof (induction ps arbitrary: s)
  case (Cons q ps)
  let ?s = "sweep_pending now q s"
  have "fmlookup (pending (snd ?s)) path = Some p \<or> reported (pOp p) path (pIsDir p) \<in> set (fst ?s)"
    using Cons.prems assms(2) by (cases s) (auto simp: sweep_pending_def split: option.splits)
  then show ?case
  proof
    assume "fmlookup (pending (snd ?s)) path = Some p"
    then show ?thesis using Cons.IH by simp
  next
    assume "reported (pOp p) path (pIsDir p) \<in> set (fst ?s)"
    moreover have "set (fst ?s) \<subseteq> set (fst (fold (sweep_pending now) ps ?s))" by (rule fold_grows) (rule sweep_out)
    ultimately show ?thesis by auto
  qed
qed simp

lemma flush_pending_empty:
  assumes "set ps = fset (fmdom (pending (snd s)))"
  shows "pending (snd (fold (sweep_pending None) ps s)) = fmempty"
proof -
  have "fmdom (pending (snd (fold (sweep_pending None) ps s))) = fmdom (pending (snd s)) |-| fset_of_list ps"
  proof (induction ps arbitrary: s)
    case (Cons q ps)
    then show ?case by (auto simp: sweep_pending_lookup fmlookup_dom_iff split: if_splits)
  qed simp
  then have "fmdom (pending (snd (fold (sweep_pending None) ps s))) = {||}" using assms by (auto simp: fset_of_list_elem)
  then show ?thesis by (metis fmdom_empty fmrestrict_fset_dom fmrestrict_fset_null)
qed

lemma pend_ops_ran:
  "pend_ops f \<longleftrightarrow> (\<forall>v \<in> fset (fmran (pending f)). pend_op v)"
  by (auto simp: pend_ops_def fmlookup_ran_iff)

lemma pend_ops_apply:
  assumes "pend_ops f"
  shows "pend_ops (snd (fold_apply pw cw e f))"
proof (cases e)
  case (Seeded path isDir now)
  then show ?thesis using assms pend_ops_track [of "([], f)"] by (simp add: fold_apply_def Seed_def)
next
  case (Reparented old new)
  have "\<forall>v \<in> fset (fmran (fold (rekey old new) ps m)). P v" if "\<forall>v \<in> fset (fmran m). P v"
    for ps P and m :: "(string, pend) fmap"
    using that
  proof (induction ps arbitrary: m)
    case (Cons q ps)
    have "\<forall>v \<in> fset (fmran (rekey old new q m)). P v"
      using Cons.prems by (auto simp: rekey_def fmlookup_ran_iff split: option.splits if_splits)
    then show ?case using Cons.IH by simp
  qed simp
  from this [of "pending f" pend_op]
  show ?thesis using assms Reparented by (simp add: fold_apply_def Reparent_def pend_ops_ran)
next
  case (Swept now)
  have "pend_ops (snd (fold (sweep_pending (Some now)) ps s))" if "pend_ops (snd s)" for ps s
    using that by (rule fold_keeps [rotated]) (auto simp: pend_ops_def sweep_pending_lookup split: if_splits)
  moreover have "pending (snd (snd (Sweep pw cw now ([], f)))) =
      pending (snd (fold (sweep_pending (Some now)) (pw (fmdom (pending f))) ([], f)))"
    by (simp add: Sweep_def Let_def case_prod_beta
        fold_frame [where h = "\<lambda>t. pending (snd (fst t))"])
  ultimately show ?thesis using assms Swept pend_ops_cong [of "snd (snd (Sweep pw cw now ([], f)))"] by (auto simp: fold_apply_def)
next
  case Flushed
  have "pend_ops (snd (fold (sweep_pending None) ps s))" if "pend_ops (snd s)" for ps s
    using that by (rule fold_keeps [rotated]) (auto simp: pend_ops_def sweep_pending_lookup split: if_splits)
  moreover have "pending (snd (Flush pw cw ([], f))) =
      pending (snd (fold (sweep_pending None) (pw (fmdom (pending f))) ([], f)))"
    by (simp add: Flush_def Let_def fold_frame [where h = "\<lambda>t. pending (snd (fst t))"]
        fold_frame [where h = "\<lambda>t. pending (snd t)" and f = flush_move])
  ultimately show ?thesis using assms Flushed pend_ops_cong [of "snd (Flush pw cw ([], f))"] by (auto simp: fold_apply_def)
next
  case (Raw ev path now)
  then show ?thesis using assms by (simp add: fold_apply_def pend_ops_Observe)
qed (use assms in \<open>auto simp: fold_apply_def Forget_def pend_ops_def\<close>)

lemma pend_ops_reach: "fold_reach pw cw f \<Longrightarrow> pend_ops f"
proof (induction rule: fold_reach.induct)
  case (fold_start ops ttl)
  then show ?case by (simp add: newFold_def pend_ops_def)
qed (rule pend_ops_apply)

text \<open>An event that settles an unreported change of its path without reporting it: the path disappears
  again, it is renamed away while a write is open, or another file is moved over it.\<close>

definition settled :: "rawEvent \<Rightarrow> string \<Rightarrow> pend \<Rightarrow> out \<Rightarrow> foldst \<Rightarrow> bool" where
  "settled ev path p out f' \<longleftrightarrow>
     rOp ev = rawDelete \<and> (pOp p = FileOpCreate \<or> (\<exists>d. reported FileOpRemove path d \<in> set out)) \<or>
     rOp ev = rawMovedFrom \<and> pOp p = FileOpWrite \<and> (\<exists>c. fmlookup (cookies f') (rCookie ev) = Some c \<and> ckPath c = path) \<or>
     rOp ev = rawMovedTo \<and> (\<exists>ch \<in> set out. chOp ch = FileOpRename \<and> chPath ch = path)"

definition kept :: "string \<Rightarrow> pend \<Rightarrow> foldst \<Rightarrow> bool" where
  "kept path p f' \<longleftrightarrow> (\<exists>p'. fmlookup (pending f') path = Some p' \<and> pOp p' = pOp p \<and> \<not> pEmitted p')"

lemma makeRoom_accounts:
  assumes "makeRoom pw (out, f) = (out', f')" "fmlookup (pending f) path = Some p" "\<not> pEmitted p"
  shows "fmlookup (pending f') path = Some p \<or> reported (pOp p) path (pIsDir p) \<in> set out'"
  using assms by (auto simp: makeRoom_def Let_def find_Some_iff split: if_splits option.splits)

lemma track_new_accounts:
  assumes "track_new pw q isDir now (out, f) = (out', f')" "fmlookup (pending f) path = Some p" "\<not> pEmitted p" "q \<noteq> path"
  shows "kept path p f' \<or> reported (pOp p) path (pIsDir p) \<in> set out'"
proof -
  obtain out1 f1 where r: "makeRoom pw (out, f) = (out1, f1)" by fastforce
  show ?thesis
    using makeRoom_accounts [OF r assms(2,3)] assms(1,3,4) r
    by (auto simp: track_new_def Let_def fold_publish_def kept_def split: if_splits)
qed

lemma appear_accounts:
  assumes "appear pw q isDir now (out, f) = (out', f')" "fmlookup (pending f) path = Some p" "\<not> pEmitted p"
  shows "kept path p f' \<or> reported (pOp p) path (pIsDir p) \<in> set out'"
proof (cases "fmlookup (pending f) q")
  case None
  then have "q \<noteq> path" using assms(2) by auto
  then show ?thesis using track_new_accounts assms None by (simp add: appear_def)
next
  case (Some p')
  then show ?thesis using assms by (auto simp: appear_def kept_def split: if_splits)
qed

lemma Observe_accounts:
  assumes "Observe pw cw ev q now f = (out, f')" "fmlookup (pending f) path = Some p" "\<not> pEmitted p" "pend_ops f"
  shows "kept path p f' \<or> reported (pOp p) path (pIsDir p) \<in> set out \<or> q = path \<and> settled ev path p out f'"
proof -
  have op: "pOp p = FileOpCreate \<or> pOp p = FileOpWrite \<and> pWrote p" using assms(2,4) by (auto simp: pend_ops_def pend_op_def)
  show ?thesis
  proof (cases "rOp ev")
    case rawCreate
    then have "appear pw q (rIsDir ev) now ([], f) = (out, f')" using assms(1) by (simp add: Observe_def)
    from appear_accounts [OF this assms(2,3)] show ?thesis by blast
  next
    case rawModify
    show ?thesis
    proof (cases "fmlookup (pending f) q")
      case None
      then have "q \<noteq> path" using assms(2) by auto
      obtain out1 f1 where r: "makeRoom pw ([], f) = (out1, f1)" by fastforce
      show ?thesis
        using makeRoom_accounts [OF r assms(2,3)] None r rawModify assms(1,3) \<open>q \<noteq> path\<close>
        by (auto simp: Observe_def touch_def kept_def)
    next
      case (Some p')
      then show ?thesis using rawModify assms by (cases "q = path") (auto simp: Observe_def touch_def kept_def)
    qed
  next
    case rawCloseWrite
    then show ?thesis using assms op
      by (auto simp: Observe_def complete_def Let_def kept_def split: option.splits if_splits)
  next
    case rawDelete
    then show ?thesis using assms op
      by (auto simp: Observe_def gone_def Let_def kept_def settled_def split: option.splits if_splits)
  next
    case rawMovedFrom
    have c: "fmlookup (cookies (remember cw k c f1)) k = Some c" "pending (remember cw k c f1) = pending f1" for k c f1
      by (simp_all add: remember_def Let_def)
    show ?thesis
    proof (cases "q = path")
      case True
      then show ?thesis using rawMovedFrom assms op
        by (auto simp: Observe_def depart_def Let_def settled_def c)
    next
      case False
      then show ?thesis using rawMovedFrom assms by (auto simp: Observe_def depart_def Let_def kept_def c)
    qed
  next
    case rawMovedTo
    show ?thesis
    proof (cases "fmlookup (cookies f) (rCookie ev)")
      case None
      then have "appear pw q (rIsDir ev) now ([], f) = (out, f')" using assms(1) rawMovedTo by (simp add: Observe_def arrive_def)
      from appear_accounts [OF this assms(2,3)] show ?thesis by blast
    next
      case (Some c)
      then show ?thesis using rawMovedTo assms
        by (cases "q = path") (auto simp: Observe_def arrive_def ResolveMove_def kept_def settled_def)
    qed
  qed (use assms in \<open>auto simp: Observe_def kept_def\<close>)
qed

text \<open>Freezing reports every remembered rename source and every unexplained move.\<close>

lemma flush_cookies:
  assumes "fmlookup (cookies (snd (fst t))) k = Some c"
  shows "fmlookup (cookies (snd (fst (fold (sweep_cookie None) ks t)))) k = Some c \<and> k \<notin> set ks \<or>
    reported FileOpRemove (ckPath c) (ckIsDir c) \<in> set (fst (fst (fold (sweep_cookie None) ks t)))"
  using assms
proof (induction ks arbitrary: t)
  case (Cons j ks)
  let ?t = "sweep_cookie None j t"
  have grow: "set (fst (fst ?t)) \<subseteq> set (fst (fst (fold (sweep_cookie None) ks ?t)))"
    by (rule fold_grows [where h = "\<lambda>t. fst (fst t)"]) (rule sweep_out)
  show ?case
  proof (cases "j = k")
    case True
    then have "reported FileOpRemove (ckPath c) (ckIsDir c) \<in> set (fst (fst ?t))"
      using Cons.prems by (auto simp: sweep_cookie_def split: prod.splits)
    then show ?thesis using grow by auto
  next
    case False
    then have "fmlookup (cookies (snd (fst ?t))) k = Some c"
      using Cons.prems by (auto simp: sweep_cookie_def split: prod.splits option.splits)
    then show ?thesis using Cons.IH [of ?t] False by auto
  qed
qed simp

lemma flush_moves:
  "set (fst (fold flush_move ps s)) = set (fst s) \<union> (\<lambda>p. reported FileOpRemove p True) ` set ps"
  by (induction ps arbitrary: s) (auto simp: flush_move_def split: prod.splits)

lemma Flush_spec:
  assumes "walk_ok pw" "walk_ok cw" "Flush pw cw ([], f) = (out, f')"
  shows "pending f' = fmempty"
    and "fmlookup (pending f) path = Some p \<Longrightarrow> \<not> pEmitted p \<Longrightarrow> reported (pOp p) path (pIsDir p) \<in> set out"
    and "fmlookup (cookies f) k = Some c \<Longrightarrow> reported FileOpRemove (ckPath c) (ckIsDir c) \<in> set out"
    and "fmlookup (moves f) q \<noteq> None \<Longrightarrow> reported FileOpRemove q True \<in> set out"
proof -
  let ?s1 = "fold (sweep_pending None) (pw (fmdom (pending f))) ([], f)"
  let ?t = "fold (sweep_cookie None) (cw (fmdom (cookies f))) (?s1, [])"
  have fr: "cookies (snd ?s1) = cookies f" "moves (snd ?s1) = moves f"
    by (simp_all add: fold_frame [where h = "\<lambda>s. cookies (snd s)"] fold_frame [where h = "\<lambda>s. moves (snd s)"])
  have fr2: "pending (snd (fst ?t)) = pending (snd ?s1)" "moves (snd (fst ?t)) = moves f"
    using fr by (simp_all add: fold_frame [where h = "\<lambda>t. pending (snd (fst t))"] fold_frame [where h = "\<lambda>t. moves (snd (fst t))"])
  have o: "(out, f') = fold flush_move (pw (fmdom (moves f))) (fst ?t)"
    using assms(3) fr fr2 by (simp add: Flush_def Let_def)
  then have out: "set out = set (fst (fst ?t)) \<union> (\<lambda>p. reported FileOpRemove p True) ` fset (fmdom (moves f))"
    using flush_moves [of "pw (fmdom (moves f))" "fst ?t"] assms(1) by (metis fst_conv walk_set(1))
  have grow: "set (fst ?s1) \<subseteq> set (fst (fst ?t))"
    using fold_grows [where h = "\<lambda>t. fst (fst t)" and f = "sweep_cookie None", OF sweep_out(2)] by fastforce
  have emp: "pending (snd ?s1) = fmempty" by (rule flush_pending_empty) (simp add: assms(1))
  show "pending f' = fmempty"
    using o emp fr2(1) fold_frame [where h = "\<lambda>s. pending (snd s)" and f = flush_move] by (metis snd_conv sweep_frame(6))
  show "reported (pOp p) path (pIsDir p) \<in> set out" if "fmlookup (pending f) path = Some p" "\<not> pEmitted p"
    using sweep_pending_accounts [of "([], f)" path p None "pw (fmdom (pending f))"] that emp out grow by auto
  show "reported FileOpRemove (ckPath c) (ckIsDir c) \<in> set out" if "fmlookup (cookies f) k = Some c"
  proof -
    have "k \<in> set (cw (fmdom (cookies f)))" using that assms(2) by (simp add: fmlookup_dom_iff)
    then show ?thesis using flush_cookies [of "(?s1, [])" k c "cw (fmdom (cookies f))"] that fr out by auto
  qed
  show "reported FileOpRemove q True \<in> set out" if "fmlookup (moves f) q \<noteq> None"
    using that out by (auto simp: fmlookup_dom_iff)
qed

lemma Sweep_accounts:
  assumes "Sweep pw cw now ([], f) = (gaps, out, f')" "fmlookup (pending f) path = Some p" "\<not> pEmitted p"
  shows "kept path p f' \<or> reported (pOp p) path (pIsDir p) \<in> set out"
proof -
  let ?s1 = "fold (sweep_pending (Some now)) (pw (fmdom (pending f))) ([], f)"
  let ?t = "fold (sweep_cookie (Some now)) (cw (fmdom (cookies (snd ?s1)))) (?s1, [])"
  let ?u = "fold (sweep_move now (snd ?t)) (pw (fmdom (moves (snd (fst ?t))))) (fst ?t, [])"
  have u: "(out, f') = fst ?u" using assms(1) by (simp add: Sweep_def Let_def case_prod_beta)
  have "pending f' = pending (snd ?s1)"
    using arg_cong [OF u, of snd]
    by (simp add: fold_frame [where h = "\<lambda>t. pending (snd (fst t))"])
  moreover have "set (fst ?s1) \<subseteq> set (fst (fst ?t))"
    using fold_grows [where h = "\<lambda>t. fst (fst t)" and f = "sweep_cookie (Some now)", OF sweep_out(2)] by fastforce
  moreover have "set (fst (fst ?t)) \<subseteq> set (fst (fst ?u))"
    using fold_grows [where h = "\<lambda>t. fst (fst t)" and f = "sweep_move now (snd ?t)", OF sweep_out(3)] by fastforce
  moreover have "out = fst (fst ?u)" using arg_cong [OF u, of fst] by simp
  ultimately show ?thesis
    using sweep_pending_accounts [of "([], f)" path p "Some now" "pw (fmdom (pending f))"] assms(2,3) by (auto simp: kept_def)
qed


definition sorted_walk :: "('k :: linorder) walk" where
  "sorted_walk K = sorted_list_of_fset K"

lemma sorted_walk_ok: "walk_ok sorted_walk"
  by (simp add: walk_ok_def sorted_walk_def sorted_list_of_fset.rep_eq)

definition created :: foldst where
  "created = snd (fold_apply sorted_walk sorted_walk (Raw \<lparr>rOp = rawCreate, rCookie = 0, rIsDir = False\<rparr> ''/w/a'' 10) (newFold None 5))"

lemma created_pending:
  "fmlookup (pending created) ''/w/a'' = Some (fresh FileOpCreate False 15)"
  by (simp add: created_def fold_apply_def Observe_def appear_def newFold_def track_new_def makeRoom_def maxPending_def
      fcard_fempty Let_def)

lemma created_reach: "fold_reach sorted_walk sorted_walk created"
  unfolding created_def by (intro fold_reach.intros) simp

theorem fold_tables_bounded_witness:
  "fold_reach sorted_walk sorted_walk created \<and> fmlookup (pending created) ''/w/a'' \<noteq> None \<and>
     fcard (fmdom (pending created)) \<le> 4096"
  using fold_tables_bounded [OF sorted_walk_ok sorted_walk_ok created_reach] created_reach created_pending by simp


text \<open>A full rename table forgets: when 128 sources wait for their destination, one more departure drops
  one of them from the table without reporting anything about it, although the bound is meant to turn it
  into a reported removal.\<close>

theorem evicted_rename_forgotten:
  assumes "walk_ok cw" "fcard (fmdom (cookies f)) = 128" "fmlookup (cookies f) cookie = None"
    and "Observe pw cw \<lparr>rOp = rawMovedFrom, rCookie = cookie, rIsDir = d\<rparr> path now f = (out, f')"
  shows "\<exists>k c. fmlookup (cookies f) k = Some c \<and> fmlookup (cookies f') k = None \<and>
    (\<forall>ch \<in> set out. chOp ch = FileOpCreate \<and> chPath ch = path)"
proof -
  let ?k = "oldest_cookie f (cw (fmdom (cookies f))) None"
  have "cw (fmdom (cookies f)) \<noteq> []" using assms(1,2) fcard_fempty
    by (metis bot_fset.rep_eq fset_inject list.set(1) rel_simps(76) walk_set(1))
  then have "?k |\<in>| fmdom (cookies f)" using assms(1) by (intro oldest_cookie_known) auto
  then obtain c where c: "fmlookup (cookies f) ?k = Some c" by (auto simp: fmlookup_dom_iff)
  have oc: "oldest_cookie (f\<lparr>pending := m\<rparr>) ks b = oldest_cookie f ks b" for m ks b
    by (induction ks arbitrary: b) (simp_all add: Let_def)
  have "?k \<noteq> cookie" using c assms(3) by auto
  then have "fmlookup (cookies f') ?k = None"
    using assms by (auto simp: Observe_def depart_def remember_def Let_def maxCookies_def oc)
  moreover have "\<forall>ch \<in> set out. chOp ch = FileOpCreate \<and> chPath ch = path"
    using assms(4) by (auto simp: Observe_def depart_def Let_def reported_def split: option.splits if_splits)
  ultimately show ?thesis using c by blast
qed

definition full_table :: foldst where
  "full_table = (newFold None 5)\<lparr>cookies := fmap_of_list
     (map (\<lambda>k. (k, \<lparr>ckPath = ''/w/'' @ show_nat k, ckIsDir = False, ckDeadline = int k\<rparr>)) [0..<128])\<rparr>"

theorem evicted_rename_forgotten_witness:
  "\<exists>k c. fmlookup (cookies full_table) k = Some c \<and>
     fmlookup (cookies (snd (Observe sorted_walk sorted_walk \<lparr>rOp = rawMovedFrom, rCookie = 500, rIsDir = False\<rparr> ''/w/b'' 200 full_table))) k = None"
proof -
  have dom: "fmdom (cookies full_table) = fset_of_list [0..<128]"
    by (simp add: full_table_def comp_def)
  then have "fcard (fmdom (cookies full_table)) = 128" by (simp add: fcard.rep_eq fset_of_list.rep_eq)
  moreover have "fmlookup (cookies full_table) 500 = None"
    using dom by (intro fmdom_notD) (simp add: fset_of_list_elem)
  ultimately show ?thesis
    using evicted_rename_forgotten [OF sorted_walk_ok _ _ prod.collapse [symmetric], of full_table 500] by blast
qed

end
