(* ===== verification/Journal_Ring.thy ===== *)
theory Journal_Ring
  imports Journal_Fold Errdefs
begin

text \<open>
  The replayable window of the sandbox write journal, \<open>core/sandbox/journal/ring.go\<close>, and the read entry point
  of \<open>core/sandbox/journal/journal.go\<close>: a ring buffer of numbered events with a bounded ledger of losses.

  The buffer is an array written at \<open>rhead\<close>; the abstraction relates it to the list of all events ever
  appended, of which it holds the newest. Sequence numbers are unbounded integers: the code's 64-bit
  counter does not reach its limit.
\<close>

subsection \<open>State and operations\<close>

record WriteEvent =
  weSeq :: int
  weAt :: int
  weOp :: FileOp
  wePath :: string
  weOldPath :: string
  weIsDir :: bool
  weDev :: int
  weIno :: int
  weSize :: int
  weSession :: string

definition zeroEvent :: WriteEvent where
  "zeroEvent = \<lparr>weSeq = 0, weAt = 0, weOp = FileOpCreate, wePath = [], weOldPath = [], weIsDir = False,
     weDev = 0, weIno = 0, weSize = 0, weSession = []\<rparr>"

record lossEntry =
  lAfter :: int
  lReason :: JournalGapReason

record JournalGap =
  FirstMissing :: int
  gReason :: JournalGapReason

record JournalBatch =
  bEvents :: "WriteEvent list"
  bNextSeq :: int
  bGap :: "JournalGap option"
  bClosed :: bool

record ring =
  retention :: nat
  buf :: "WriteEvent list"
  rhead :: nat
  rsize :: nat
  rnext :: int
  losses :: "lossEntry list"

definition DefaultJournalRetention :: int where "DefaultJournalRetention = 4096"
definition maxLosses :: nat where "maxLosses = 8"

definition newRing :: "int \<Rightarrow> ring" where
  "newRing retention0 =
     (let n = nat (if retention0 \<le> 0 then DefaultJournalRetention else retention0) in
      \<lparr>retention = n, buf = replicate n zeroEvent, rhead = 0, rsize = 0, rnext = 1, losses = []\<rparr>)"

definition ring_append :: "WriteEvent \<Rightarrow> ring \<Rightarrow> ring" where
  "ring_append ev r =
     r\<lparr>rnext := rnext r + 1,
       buf := (buf r)[rhead r := ev\<lparr>weSeq := rnext r\<rparr>],
       rhead := (rhead r + 1) mod retention r,
       rsize := (if rsize r < retention r then rsize r + 1 else rsize r)\<rparr>"

definition high :: "ring \<Rightarrow> int" where
  "high r = rnext r - 1"

text \<open>The position \<open>head - size + skip\<close>, wrapped once when it is negative.\<close>

definition window_start :: "ring \<Rightarrow> nat \<Rightarrow> nat" where
  "window_start r skip =
     (let start = int (rhead r) - int (rsize r) + int skip
      in nat (if start < 0 then start + int (retention r) else start))"

definition ring_first :: "ring \<Rightarrow> int" where
  "ring_first r = (if rsize r = 0 then rnext r else weSeq (buf r ! window_start r 0))"

definition ring_after :: "int \<Rightarrow> int \<Rightarrow> ring \<Rightarrow> WriteEvent list" where
  "ring_after from0 maxN r =
     (if rsize r = 0 \<or> maxN \<le> 0 then []
      else let first = ring_first r;
               from = (if from0 < first then first else from0)
           in if from > high r then []
              else let skip = nat (from - first);
                       count = int (rsize r) - int skip;
                       n = nat (if count > maxN then maxN else count)
                   in map (\<lambda>i. buf r ! ((window_start r skip + i) mod retention r)) [0..<n])"

definition recordLoss :: "JournalGapReason \<Rightarrow> ring \<Rightarrow> ring" where
  "recordLoss reason r =
     (let a = high r; n = length (losses r) in
      if n > 0 \<and> lAfter (losses r ! (n - 1)) = a then r
      else (let ls = (if n \<ge> maxLosses then take 1 (losses r) @ drop 2 (losses r) else losses r)
            in r\<lparr>losses := ls @ [\<lparr>lAfter = a, lReason = reason\<rparr>]\<rparr>))"

text \<open>The loop over the ledger keeps the earliest missing sequence number.\<close>

definition note_loss :: "int \<Rightarrow> lossEntry \<Rightarrow> JournalGap option \<Rightarrow> JournalGap option" where
  "note_loss afterSeq l g =
     (if lAfter l < afterSeq then g
      else let firstMissing = lAfter l + 1 in
           if g = None \<or> firstMissing < FirstMissing (the g)
           then Some \<lparr>FirstMissing = firstMissing, gReason = lReason l\<rparr> else g)"

definition readView :: "int \<Rightarrow> int \<Rightarrow> bool \<Rightarrow> ring \<Rightarrow> JournalBatch" where
  "readView afterSeq maxN frozen r =
     (let start0 = afterSeq + 1;
          first = ring_first r;
          behind = (start0 < first \<and> start0 \<le> high r);
          gap0 = (if behind then Some \<lparr>FirstMissing = start0, gReason = JournalGapRetention\<rparr> else None);
          start = (if behind then first else start0);
          events = ring_after start maxN r;
          nextSeq = (if events \<noteq> [] then weSeq (last events) else if behind then high r else afterSeq)
      in \<lparr>bEvents = events, bNextSeq = nextSeq, bGap = fold (note_loss afterSeq) (losses r) gap0, bClosed = frozen\<rparr>)"

definition ring_release :: "ring \<Rightarrow> ring" where
  "ring_release r = r\<lparr>buf := [], rhead := 0, rsize := 0\<rparr>"

definition readBatch :: "err \<Rightarrow> int \<Rightarrow> int \<Rightarrow> bool \<Rightarrow> ring \<Rightarrow> go_error + JournalBatch" where
  "readBatch ctxErr afterSeq maxN frozen r =
     (case ctxErr of
        Some e \<Rightarrow> Inl e
      | None \<Rightarrow>
        if afterSeq < 0 then Inl (errf Validation ''sandbox/journal: afterSeq must not be negative'')
        else if maxN \<le> 0 then Inl (errf Validation ''sandbox/journal: max must be positive'')
        else Inr (readView afterSeq maxN frozen r))"

subsection \<open>The ring holds the end of the log\<close>

text \<open>The rings of a running journal with the log of all events appended, and the abstraction: the event
  with index \<open>i\<close> of the log sits at \<open>i mod retention\<close> as long as it is among the newest.\<close>

inductive ring_reach :: "ring \<Rightarrow> WriteEvent list \<Rightarrow> bool" where
  ring_new: "ring_reach (newRing n) []"
| ring_event: "ring_reach r es \<Longrightarrow> ring_reach (ring_append ev r) (es @ [ev\<lparr>weSeq := rnext r\<rparr>])"
| ring_loss: "ring_reach r es \<Longrightarrow> ring_reach (recordLoss reason r) es"

definition ring_holds :: "ring \<Rightarrow> WriteEvent list \<Rightarrow> bool" where
  "ring_holds r es \<longleftrightarrow> 0 < retention r \<and> length (buf r) = retention r \<and>
     rnext r = int (length es) + 1 \<and> rsize r = min (retention r) (length es) \<and>
     rhead r = length es mod retention r \<and>
     (\<forall>i < length es. weSeq (es ! i) = int i + 1) \<and>
     (\<forall>i < length es. length es \<le> i + rsize r \<longrightarrow> buf r ! (i mod retention r) = es ! i)"

lemma mod_window: "i < n \<Longrightarrow> n < i + k \<Longrightarrow> i mod k \<noteq> n mod (k :: nat)"
  by (metis add_diff_cancel_left' dvd_imp_le less_imp_le_nat linorder_not_less mod_eq_dvd_iff_nat nat_add_left_cancel_less
      ordered_cancel_comm_monoid_diff_class.add_diff_inverse zero_less_diff)

lemma ring_append_holds:
  assumes "ring_holds r es"
  shows "ring_holds (ring_append ev r) (es @ [ev\<lparr>weSeq := rnext r\<rparr>])"
proof -
  let ?k = "retention r" let ?n = "length es" let ?e = "ev\<lparr>weSeq := rnext r\<rparr>"
  have b: "(buf r)[rhead r := ?e] ! (i mod ?k) = (es @ [?e]) ! i" if "i < Suc ?n" "Suc ?n \<le> i + rsize (ring_append ev r)" for i
  proof (cases "i = ?n")
    case True
    then show ?thesis using assms by (simp add: ring_holds_def)
  next
    case False
    then have i: "i < ?n" using that by simp
    have "rsize (ring_append ev r) \<le> ?k" using assms by (auto simp: ring_append_def ring_holds_def)
    then have "Suc ?n \<le> i + ?k" using that(2) by linarith
    then have "i mod ?k \<noteq> rhead r" using mod_window [OF i, of ?k] assms by (auto simp: ring_holds_def)
    moreover have "?n \<le> i + rsize r" using that(2) assms by (auto simp: ring_append_def ring_holds_def split: if_splits)
    ultimately show ?thesis using assms i by (simp add: ring_holds_def nth_append)
  qed
  have s: "weSeq ((es @ [?e]) ! i) = int i + 1" if "i < Suc ?n" for i
    using that assms by (auto simp: ring_holds_def nth_append less_Suc_eq)
  show ?thesis
    unfolding ring_holds_def
    using assms b s by (auto simp: ring_append_def ring_holds_def mod_Suc_eq)
qed

lemma recordLoss_frame [simp]:
  "retention (recordLoss reason r) = retention r" "buf (recordLoss reason r) = buf r" "rhead (recordLoss reason r) = rhead r"
  "rsize (recordLoss reason r) = rsize r" "rnext (recordLoss reason r) = rnext r"
  by (simp_all add: recordLoss_def Let_def)

lemma ring_reach_holds: "ring_reach r es \<Longrightarrow> ring_holds r es"
proof (induction rule: ring_reach.induct)
  case (ring_new n)
  then show ?case by (simp add: newRing_def ring_holds_def Let_def DefaultJournalRetention_def)
next
  case (ring_event r es ev)
  from ring_event.IH show ?case by (rule ring_append_holds)
next
  case (ring_loss r es reason)
  then show ?case by (simp add: ring_holds_def)
qed

lemma window_start_eq:
  assumes "ring_holds r es" "skip < rsize r"
  shows "window_start r skip = (length es - rsize r + skip) mod retention r"
proof (cases "length es < retention r")
  case True
  then show ?thesis using assms by (auto simp: ring_holds_def window_start_def Let_def)
next
  case False
  let ?k = "retention r" let ?h = "length es mod ?k"
  have k: "rsize r = ?k" "0 < ?k" "rhead r = ?h" "skip < ?k" using assms False by (auto simp: ring_holds_def)
  have "?h < ?k" using k by simp
  have m: "(length es - ?k + skip) mod ?k = (?h + skip) mod ?k"
    using False by (metis le_mod_geq mod_add_left_eq not_less)
  show ?thesis
  proof (cases "?h + skip < ?k")
    case True
    then show ?thesis using k m by (auto simp: window_start_def Let_def)
  next
    case False
    moreover have "?h + skip - ?k < ?k" using \<open>?h < ?k\<close> k(4) by linarith
    ultimately have "(?h + skip) mod ?k = ?h + skip - ?k" by (metis le_mod_geq mod_less not_less)
    then show ?thesis using False k m by (auto simp: window_start_def Let_def)
  qed
qed

lemma ring_first_eq:
  assumes "ring_holds r es"
  shows "ring_first r = int (length es - rsize r) + 1"
proof (cases "rsize r = 0")
  case False
  have "length es - rsize r < length es" using False assms by (auto simp: ring_holds_def)
  then show ?thesis
    using window_start_eq [OF assms, of 0] False assms by (auto simp: ring_first_def ring_holds_def)
qed (use assms in \<open>auto simp: ring_first_def ring_holds_def min_def\<close>)

lemma ring_after_eq:
  assumes "ring_holds r es" "0 < maxN"
  shows "ring_after from0 maxN r = take (nat maxN) (drop (max (length es - rsize r) (nat (from0 - 1))) es)"
proof -
  let ?n = "length es" let ?o = "?n - rsize r"
  have h: "high r = int ?n" "rsize r \<le> ?n" "rsize r = 0 \<Longrightarrow> es = []" using assms(1) by (auto simp: high_def ring_holds_def min_def split: if_splits)
  note f = ring_first_eq [OF assms(1)]
  let ?from = "if from0 < ring_first r then ring_first r else from0"
  let ?skip = "nat (?from - ring_first r)"
  have d: "max ?o (nat (from0 - 1)) = ?o + ?skip" using f by auto
  show ?thesis
  proof (cases "rsize r = 0 \<or> ?from > high r")
    case True
    then show ?thesis using h d f assms(2) by (auto simp: ring_after_def Let_def)
  next
    case False
    define skip where "skip = ?skip"
    define c where "c = nat (if int (rsize r) - int skip > maxN then maxN else int (rsize r) - int skip)"
    have sk: "skip < rsize r" using False f h unfolding skip_def by auto
    then have c: "c \<le> rsize r - skip" "c = min (nat maxN) (rsize r - skip)" unfolding c_def by auto
    have el: "buf r ! ((window_start r skip + i) mod retention r) = es ! (?o + skip + i)" if "i < c" for i
    proof -
      have "?o + skip + i < ?n" using that h(2) sk c by linarith
      moreover have "(window_start r skip + i) mod retention r = (?o + skip + i) mod retention r"
        using window_start_eq [OF assms(1) sk] by (simp add: mod_add_left_eq)
      ultimately show ?thesis using assms(1) by (simp add: ring_holds_def)
    qed
    have "ring_after from0 maxN r = map (\<lambda>i. buf r ! ((window_start r skip + i) mod retention r)) [0..<c]"
      using False assms(2) by (simp add: ring_after_def Let_def skip_def c_def)
    also have "\<dots> = map (\<lambda>i. es ! (?o + skip + i)) [0..<c]" using el by simp
    also have "\<dots> = take (nat maxN) (drop (?o + skip) es)"
      using h(2) sk c(2) by (intro nth_equalityI) auto
    finally have "ring_after from0 maxN r = take (nat maxN) (drop (?o + skip) es)" .
    then show ?thesis by (simp only: d skip_def)
  qed
qed

subsection \<open>Reading\<close>

text \<open>A gap is only ever moved to an earlier number.\<close>

lemma fold_note_loss:
  "g = Some x \<Longrightarrow> \<exists>y. fold (note_loss c) ls g = Some y \<and> FirstMissing y \<le> FirstMissing x"
proof (induction ls arbitrary: g x)
  case (Cons l ls)
  have "\<exists>y. note_loss c l g = Some y \<and> FirstMissing y \<le> FirstMissing x"
    using Cons.prems by (cases "lAfter l < c"; cases "lAfter l + 1 < FirstMissing x") (simp_all add: note_loss_def Let_def)
  then obtain y where "note_loss c l g = Some y" "FirstMissing y \<le> FirstMissing x" by blast
  with Cons.IH [of _ y] show ?case by fastforce
qed simp


definition ring_demo :: ring where
  "ring_demo = ring_append zeroEvent (ring_append zeroEvent (ring_append zeroEvent (newRing 2)))"

lemma ring_demo_reach: "\<exists>es. ring_reach ring_demo es \<and> length es = 3"
proof -
  have "ring_reach ring_demo (([] @ [zeroEvent\<lparr>weSeq := rnext (newRing 2)\<rparr>]) @
      [zeroEvent\<lparr>weSeq := rnext (ring_append zeroEvent (newRing 2))\<rparr>] @
      [zeroEvent\<lparr>weSeq := rnext (ring_append zeroEvent (ring_append zeroEvent (newRing 2)))\<rparr>])"
    unfolding ring_demo_def using ring_event [OF ring_event [OF ring_event [OF ring_new]]] by simp
  then show ?thesis by fastforce
qed


text \<open>A full loss ledger hides a loss: with eight boundaries recorded, the next loss drops the second of
  them, and a reader whose cursor lies between the first and the second is from then on told of a later
  first missing number than before.\<close>

theorem loss_declared_later:
  assumes "losses r = l0 # l1 # ls" "length ls = 6" "lAfter l0 < c" "c \<le> lAfter l1"
    and "\<forall>l \<in> set ls. lAfter l1 < lAfter l" "\<forall>l \<in> set ls. lAfter l < high r" "lAfter l1 < high r"
    and "ring_first r \<le> c + 1"
  shows "\<exists>g g'. bGap (readView c maxN frozen r) = Some g \<and> FirstMissing g = lAfter l1 + 1 \<and>
    bGap (readView c maxN frozen (recordLoss reason r)) = Some g' \<and> FirstMissing g < FirstMissing g'"
proof -
  have stay: "fold (note_loss c) ks (Some g) = Some g" if "\<forall>l \<in> set ks. FirstMissing g \<le> lAfter l + 1" for ks g
    using that by (induction ks) (auto simp: note_loss_def Let_def)
  have ends: "ls ! 5 \<in> set ls" using assms(2) by simp
  have rl: "losses (recordLoss reason r) = l0 # ls @ [\<lparr>lAfter = high r, lReason = reason\<rparr>]"
    using assms(1,2) assms(6) [rule_format, OF ends] by (simp add: recordLoss_def Let_def maxLosses_def)
  have nb: "\<not> c + 1 < ring_first r" using assms(8) by simp
  have before: "bGap (readView c maxN frozen r) = Some \<lparr>FirstMissing = lAfter l1 + 1, gReason = lReason l1\<rparr>"
    using nb assms(1,3,4,5) stay [of ls "\<lparr>FirstMissing = lAfter l1 + 1, gReason = lReason l1\<rparr>"]
    by (simp add: readView_def Let_def note_loss_def less_imp_le)
  have later: "\<exists>g'. fold (note_loss c) ks None = Some g' \<and> lAfter l1 + 1 < FirstMissing g'"
    if "\<forall>l \<in> set ks. lAfter l1 < lAfter l" "ks \<noteq> []" for ks
  proof -
    have "\<exists>g'. fold (note_loss c) xs (Some g) = Some g' \<and> lAfter l1 + 1 < FirstMissing g'"
      if "\<forall>l \<in> set xs. lAfter l1 < lAfter l" "lAfter l1 + 1 < FirstMissing g" for xs g
      using that by (induction xs arbitrary: g) (auto simp: note_loss_def Let_def)
    then show ?thesis using that assms(4) by (cases ks) (auto simp: note_loss_def Let_def)
  qed
  have "ring_first (recordLoss reason r) = ring_first r" "high (recordLoss reason r) = high r"
    by (simp_all add: ring_first_def high_def window_start_def Let_def)
  then have "bGap (readView c maxN frozen (recordLoss reason r)) =
      fold (note_loss c) (ls @ [\<lparr>lAfter = high r, lReason = reason\<rparr>]) None"
    using nb assms(3) by (simp add: readView_def Let_def rl note_loss_def)
  with later [of "ls @ [\<lparr>lAfter = high r, lReason = reason\<rparr>]"] assms(5,7) before show ?thesis by auto
qed

text \<open>A journal that loses events after each one it records.\<close>

primrec lossy :: "nat \<Rightarrow> ring" where
  "lossy 0 = newRing 100"
| "lossy (Suc n) = recordLoss JournalGapOverflow (ring_append zeroEvent (lossy n))"

lemma lossy_state:
  "n \<le> 8 \<Longrightarrow> losses (lossy n) = map (\<lambda>i. \<lparr>lAfter = int i, lReason = JournalGapOverflow\<rparr>) [1..<Suc n] \<and> rnext (lossy n) = int n + 1 \<and>
    retention (lossy n) = 100 \<and> (\<exists>es. ring_reach (lossy n) es \<and> length es = n)"
proof (induction n)
  case 0
  then show ?case using ring_new [of 100] by (auto simp: newRing_def)
next
  case (Suc n)
  then obtain es where es: "ring_reach (lossy n) es" "length es = n" by auto
  have "ring_reach (lossy (Suc n)) (es @ [zeroEvent\<lparr>weSeq := rnext (lossy n)\<rparr>])"
    using ring_loss [OF ring_event [OF es(1)]] by simp
  then have "\<exists>es. ring_reach (lossy (Suc n)) es \<and> length es = Suc n" using es(2) by (metis length_append_singleton)
  moreover have "losses (lossy (Suc n)) = map (\<lambda>i. \<lparr>lAfter = int i, lReason = JournalGapOverflow\<rparr>) [1..<Suc (Suc n)]"
    using Suc by (cases n) (simp_all add: recordLoss_def ring_append_def Let_def high_def maxLosses_def nth_append del: upt_Suc, simp_all)
  ultimately show ?case using Suc by (auto simp: ring_append_def)
qed

theorem loss_declared_later_witness:
  "\<exists>g g'. bGap (readView 2 10 False (ring_append zeroEvent (lossy 8))) = Some g \<and>
     bGap (readView 2 10 False (recordLoss JournalGapOverflow (ring_append zeroEvent (lossy 8)))) = Some g' \<and>
     FirstMissing g = 3 \<and> FirstMissing g < FirstMissing g'"
proof -
  let ?r = "ring_append zeroEvent (lossy 8)"
  let ?l = "\<lambda>i. \<lparr>lAfter = i, lReason = JournalGapOverflow\<rparr>"
  have s: "losses (lossy 8) = map (\<lambda>i. ?l (int i)) [1..<9]" "rnext (lossy 8) = 9" "retention (lossy 8) = 100"
    using lossy_state [of 8] by auto
  have "[1..<9] = [1, 2, 3, 4, 5, 6, 7, 8 :: nat]" by (simp add: upt_rec)
  then have d: "losses ?r = ?l 1 # ?l 2 # [?l 3, ?l 4, ?l 5, ?l 6, ?l 7, ?l 8]" "high ?r = 9"
    using s by (simp_all add: ring_append_def high_def)
  obtain es where "ring_reach (lossy 8) es" "length es = 8" using lossy_state [of 8] by auto
  then have "ring_holds ?r (es @ [zeroEvent\<lparr>weSeq := 9\<rparr>])" "length es = 8"
    using ring_append_holds [OF ring_reach_holds] s(2) by metis+
  from ring_first_eq [OF this(1)] this s(3) have "ring_first ?r = 1"
    by (simp add: ring_holds_def ring_append_def)
  with d loss_declared_later [OF d(1), of 2 10 False JournalGapOverflow] show ?thesis by simp blast
qed

end
