(* ===== verification/Event_Bus.thy ===== *)
theory Event_Bus
  imports Event_Subject Errdefs "HOL-Library.Finite_Map"
begin

text \<open>
  The in-process event bus, \<open>core/event/memory.go\<close> with the options of \<open>bus.go\<close>, the policies of
  \<open>observer.go\<close> and the drop report of \<open>telemetry.go\<close>: subscriptions with bounded channels, the route
  cache, publication under the four backpressure policies, closing one subscription and closing the bus.

  Every goroutine inside the bus is a value: a publisher with its position in \<open>Publish\<close> and its local
  variables, a closer with its position in \<open>memSub.Close\<close>, and the goroutine that runs \<open>MemoryBus.Close\<close>.
  A step of the relation \<open>bus_step\<close> is one action between two points where another goroutine can run. A
  section under the write lock is one step, allowed when no publisher holds the read lock; a publisher
  holds the read lock in the positions of \<open>holds_read\<close>. A channel is its buffer, its capacity and whether it
  is closed; a send on a closed channel panics, which ends the process.

  A subscription is named by the number its id \<^verbatim>\<open>ms-n\<close> is made of. Sampling rates and draws are rationals.
  What Go leaves open is an argument of a step: the order of a map walk, which ready case a \<open>select\<close>
  takes, the random draw, fresh ids, the clock and the trace span. Log lines are not kept.
\<close>

subsection \<open>Envelopes, policies and options\<close>

record Envelope =
  eID :: string
  eSubject :: string
  eTime :: int
  eSource :: string
  eTraceID :: string
  eSpanID :: string
  eHeaders :: "(string, string) fmap"
  ePayload :: string

datatype BackpressurePolicy = DropNewest | DropOldest | Block | Sample
datatype DropReason = DropReasonBufferFull | DropReasonClosed | DropReasonSampled

definition defaultMemoryBufferSize :: int where "defaultMemoryBufferSize = 64"
definition defaultRouteCacheSize :: int where "defaultRouteCacheSize = 1024"
definition maxMemoryBufferSize :: int where "maxMemoryBufferSize = 2 ^ 20"

record subOptions =
  oBufferSize :: int
  oBackpressure :: BackpressurePolicy
  oPredicate :: "(Envelope \<Rightarrow> bool) option"
  oSampleRate :: rat
  oErr :: err

type_synonym SubOption = "subOptions \<Rightarrow> subOptions"

definition WithBufferSize :: "int \<Rightarrow> SubOption" where
  "WithBufferSize n o' =
     (if n > 0 then
        (let o1 = o'\<lparr>oBufferSize := n\<rparr> in
         if n > maxMemoryBufferSize
         then o1\<lparr>oErr := Some (errf Validation ''event: subscription buffer size exceeds max'')\<rparr> else o1)
      else o')"

definition WithBackpressure :: "BackpressurePolicy \<Rightarrow> SubOption" where
  "WithBackpressure p o' = o'\<lparr>oBackpressure := p\<rparr>"

definition WithPredicate :: "(Envelope \<Rightarrow> bool) option \<Rightarrow> SubOption" where
  "WithPredicate fn o' = o'\<lparr>oPredicate := fn\<rparr>"

definition WithSampleRate :: "rat \<Rightarrow> SubOption" where
  "WithSampleRate rate o' =
     o'\<lparr>oSampleRate := (if rate \<le> 0 then 0 else if rate \<ge> 1 then 1 else rate)\<rparr>"

subsection \<open>State\<close>

record memSub =
  sPattern :: string
  patternSegs :: "string list"
  predicate :: "(Envelope \<Rightarrow> bool) option"
  backpressure :: BackpressurePolicy
  sampleRate :: rat
  chCap :: nat
  chBuf :: "Envelope list"
  chClosed :: bool
  doneClosed :: bool
  senders :: nat

datatype pub_result = Published | BusClosed | PubCanceled

text \<open>The positions of a publisher: before it is registered; registered; reading the cache missed; in
  the loop with the subscriptions left; about to send; after a full buffer; after the eviction; parked in
  a blocking send; woken with its sender still registered; after a cancelled wait; about to lock again;
  about to call the observer; returned; panicked.\<close>

datatype ppos =
  PStart
| PFilled
| PMiss
| PLoop "nat list"
| PSend nat "nat list"
| PEvict nat "nat list"
| PRetry nat "nat list"
| PBlocked nat "nat list"
| PUnblock nat "nat list"
| PGiveUp nat
| PRelock "nat list"
| PFire pub_result
| PReturned pub_result
| PPanic

record publisher =
  pos :: ppos
  penv :: Envelope
  pmatched :: "nat list"
  pdelivers :: "nat list"
  pdrops :: "(nat \<times> DropReason) list"

datatype cpos = CRemove | CSignal | CWait | CClose | CDone

record closer =
  cpos :: cpos
  csub :: nat

datatype bclose = BIdle | BSignal "nat list" "nat list" | BWait "nat list" | BEach "nat list" | BClosed

datatype observer_call =
  OnPublish Envelope
| OnDeliver nat Envelope
| OnDrop nat Envelope DropReason

record bus =
  subscribers :: "nat fset"
  objs :: "(nat, memSub) fmap"
  bclosed :: bool
  bdropped :: int
  dropLogAt :: "int option"
  inflight :: nat
  observer :: nat
  observed :: "(nat \<times> observer_call) list"
  subSeq :: nat
  routeCache :: "(string, nat list) fmap"
  routeCacheCap :: int
  dropsTotal :: "(DropReason, int) fmap"
  pubs :: "(nat, publisher) fmap"
  closers :: "(nat, closer) fmap"
  bcloser :: bclose

definition NewMemoryBus :: "int option \<Rightarrow> nat \<Rightarrow> bus" where
  "NewMemoryBus cacheSize obs =
     \<lparr>subscribers = {||}, objs = fmempty, bclosed = False, bdropped = 0, dropLogAt = None, inflight = 0,
      observer = obs, observed = [], subSeq = 0, routeCache = fmempty,
      routeCacheCap = (case cacheSize of None \<Rightarrow> defaultRouteCacheSize
                       | Some n \<Rightarrow> if n < 0 then defaultRouteCacheSize else n),
      dropsTotal = fmempty, pubs = fmempty, closers = fmempty, bcloser = BIdle\<rparr>"

definition sub_of :: "bus \<Rightarrow> nat \<Rightarrow> memSub" where
  "sub_of s i = the (fmlookup (objs s) i)"

definition upd_sub :: "nat \<Rightarrow> (memSub \<Rightarrow> memSub) \<Rightarrow> bus \<Rightarrow> bus" where
  "upd_sub i f s = s\<lparr>objs := fmupd i (f (sub_of s i)) (objs s)\<rparr>"

definition AttachObserver :: "nat option \<Rightarrow> bus \<Rightarrow> bool \<times> bus" where
  "AttachObserver obs s =
     (case obs of
        None \<Rightarrow> (True, s)
      | Some ob \<Rightarrow> if bclosed s then (False, s) else (True, s\<lparr>observer := ob\<rparr>))"

subsection \<open>The route cache\<close>

definition lookupRoute :: "string \<Rightarrow> bus \<Rightarrow> nat list option" where
  "lookupRoute subj s = (if routeCacheCap s = 0 then None else fmlookup (routeCache s) subj)"

definition storeRoute :: "string \<Rightarrow> nat list \<Rightarrow> bus \<Rightarrow> bus" where
  "storeRoute subj subs s =
     (if routeCacheCap s = 0 then s
      else let cache = (if int (fcard (fmdom (routeCache s))) \<ge> routeCacheCap s then fmempty else routeCache s)
           in s\<lparr>routeCache := fmupd subj subs cache\<rparr>)"

definition clearRouteCache :: "bus \<Rightarrow> bus" where
  "clearRouteCache s = (if routeCacheCap s = 0 then s else s\<lparr>routeCache := fmempty\<rparr>)"

definition patternMatches :: "memSub \<Rightarrow> string list \<Rightarrow> bool" where
  "patternMatches m sSegs = matchSegs (patternSegs m) sSegs"

definition predicateAllows :: "memSub \<Rightarrow> Envelope \<Rightarrow> bool" where
  "predicateAllows m env = (case predicate m of None \<Rightarrow> True | Some f \<Rightarrow> f env)"

subsection \<open>Drops and the observer\<close>

fun reason_name :: "DropReason \<Rightarrow> string" where
  "reason_name DropReasonBufferFull = ''buffer_full''"
| "reason_name DropReasonClosed = ''closed''"
| "reason_name DropReasonSampled = ''sampled''"

definition dropLogInterval :: int where "dropLogInterval = 30000000000"

definition claimDropLog :: "int \<Rightarrow> bus \<Rightarrow> bool \<times> bus" where
  "claimDropLog now s =
     (case dropLogAt s of
        Some lst \<Rightarrow> if now - lst < dropLogInterval then (False, s) else (True, s\<lparr>dropLogAt := Some now\<rparr>)
      | None \<Rightarrow> (True, s\<lparr>dropLogAt := Some now\<rparr>))"

definition count_drop :: "nat \<times> DropReason \<Rightarrow> (DropReason, int) fmap \<Rightarrow> (DropReason, int) fmap" where
  "count_drop d m = fmupd (snd d) ((case fmlookup m (snd d) of None \<Rightarrow> 0 | Some n \<Rightarrow> n) + 1) m"

definition recordDrops :: "int \<Rightarrow> bool \<Rightarrow> (nat \<times> DropReason) list \<Rightarrow> bus \<Rightarrow> bus" where
  "recordDrops now dbg drops s =
     (if drops = [] then s
      else let s1 = s\<lparr>dropsTotal := fold count_drop drops (dropsTotal s)\<rparr>;
               loss = list_ex (\<lambda>d. snd d \<noteq> DropReasonSampled) drops
           in if \<not> loss \<and> \<not> dbg then s1 else snd (claimDropLog now s1))"

definition fireObserver :: "int \<Rightarrow> bool \<Rightarrow> publisher \<Rightarrow> bus \<Rightarrow> bus" where
  "fireObserver now dbg p s =
     (let s1 = recordDrops now dbg (pdrops p) s;
          calls = OnPublish (penv p) # map (\<lambda>i. OnDeliver i (penv p)) (pdelivers p)
                  @ map (\<lambda>d. OnDrop (fst d) (penv p) (snd d)) (pdrops p)
      in s1\<lparr>observed := observed s1 @ map (Pair (observer s1)) calls\<rparr>)"

subsection \<open>Publish\<close>

datatype sel = SelSend | SelDone | SelCtx

record choice =
  cOrder :: "nat list"
  cSelect :: sel
  cDraw :: rat
  cFreshID :: string
  cNow :: int
  cSpan :: "(string \<times> string) option"
  cDebug :: bool

text \<open>The id, time and trace \<open>Publish\<close> fills in; the time is 0 for Go's zero time.\<close>

definition fill_envelope :: "choice \<Rightarrow> Envelope \<Rightarrow> Envelope" where
  "fill_envelope c env =
     (let e1 = (if eID env = [] then env\<lparr>eID := cFreshID c\<rparr> else env);
          e2 = (if eTime e1 = 0 then e1\<lparr>eTime := cNow c\<rparr> else e1)
      in case cSpan c of
           None \<Rightarrow> e2
         | Some (tr, sp) \<Rightarrow>
           (let e3 = (if eTraceID e2 = [] then e2\<lparr>eTraceID := tr\<rparr> else e2)
            in if eSpanID e3 = [] then e3\<lparr>eSpanID := sp\<rparr> else e3))"

definition deliver_cb :: "nat \<Rightarrow> publisher \<Rightarrow> publisher" where
  "deliver_cb i p = p\<lparr>pdelivers := pdelivers p @ [i]\<rparr>"

definition drop_cb :: "nat \<Rightarrow> DropReason \<Rightarrow> publisher \<Rightarrow> publisher" where
  "drop_cb i r p = p\<lparr>pdrops := pdrops p @ [(i, r)]\<rparr>"

definition goto :: "ppos \<Rightarrow> publisher \<Rightarrow> publisher" where
  "goto q p = p\<lparr>pos := q\<rparr>"

text \<open>A non-blocking send: sent, full, or a panic.\<close>

datatype send_result = Sent | Full | SendPanic

definition try_send :: "nat \<Rightarrow> Envelope \<Rightarrow> bus \<Rightarrow> send_result \<times> bus" where
  "try_send i env s =
     (let m = sub_of s i in
      if chClosed m then (SendPanic, s)
      else if length (chBuf m) < chCap m then (Sent, upd_sub i (\<lambda>m. m\<lparr>chBuf := chBuf m @ [env]\<rparr>) s)
      else (Full, s))"

definition count_dropped :: "bus \<Rightarrow> bus" where
  "count_dropped s = s\<lparr>bdropped := bdropped s + 1\<rparr>"

text \<open>The send that drops the new envelope when the buffer is full.\<close>

definition send_or_drop :: "nat \<Rightarrow> nat list \<Rightarrow> publisher \<Rightarrow> bus \<Rightarrow> publisher \<times> bus" where
  "send_or_drop i rest p s =
     (case try_send i (penv p) s of
        (Sent, s') \<Rightarrow> (goto (PLoop rest) (deliver_cb i p), s')
      | (Full, s') \<Rightarrow> (goto (PLoop rest) (drop_cb i DropReasonBufferFull p), count_dropped s')
      | (SendPanic, s') \<Rightarrow> (goto PPanic p, s'))"

definition pub_begin :: "choice \<Rightarrow> publisher \<Rightarrow> bus \<Rightarrow> publisher \<times> bus" where
  "pub_begin c p s =
     (if bclosed s then (goto (PReturned BusClosed) p, s)
      else (goto PFilled (p\<lparr>penv := fill_envelope c (penv p)\<rparr>), s\<lparr>inflight := inflight s + 1\<rparr>))"

definition pub_route :: "publisher \<Rightarrow> bus \<Rightarrow> publisher \<times> bus" where
  "pub_route p s =
     (if bclosed s then (goto (PReturned BusClosed) p, s\<lparr>inflight := inflight s - 1\<rparr>)
      else case lookupRoute (eSubject (penv p)) s of
        Some matched \<Rightarrow> (goto (PLoop matched) (p\<lparr>pmatched := matched\<rparr>), s)
      | None \<Rightarrow> (goto PMiss p, s))"

definition pub_scan :: "nat list \<Rightarrow> publisher \<Rightarrow> bus \<Rightarrow> publisher \<times> bus" where
  "pub_scan order p s =
     (let sSegs = splitSubject (eSubject (penv p));
          matched = filter (\<lambda>i. patternMatches (sub_of s i) sSegs) order
      in (goto (PLoop matched) (p\<lparr>pmatched := matched\<rparr>), storeRoute (eSubject (penv p)) matched s))"

fun pub_next :: "nat list \<Rightarrow> publisher \<Rightarrow> bus \<Rightarrow> publisher \<times> bus" where
  "pub_next [] p s = (goto (PFire Published) p, s)"
| "pub_next (i # rest) p s =
     (if \<not> predicateAllows (sub_of s i) (penv p) then (goto (PLoop rest) p, s)
      else if doneClosed (sub_of s i) then (goto (PLoop rest) (drop_cb i DropReasonClosed p), s)
      else (goto (PSend i rest) p, s))"

definition keeps :: "rat \<Rightarrow> rat \<Rightarrow> bool" where
  "keeps rate draw \<longleftrightarrow> rate \<ge> 1 \<or> (rate > 0 \<and> draw < rate)"

definition pub_send :: "rat \<Rightarrow> nat \<Rightarrow> nat list \<Rightarrow> publisher \<Rightarrow> bus \<Rightarrow> publisher \<times> bus" where
  "pub_send draw i rest p s =
     (case backpressure (sub_of s i) of
        Block \<Rightarrow> (goto (PBlocked i rest) p, upd_sub i (\<lambda>m. m\<lparr>senders := senders m + 1\<rparr>) s)
      | DropOldest \<Rightarrow>
          (case try_send i (penv p) s of
             (Sent, s') \<Rightarrow> (goto (PLoop rest) (deliver_cb i p), s')
           | (Full, s') \<Rightarrow> (goto (PEvict i rest) p, s')
           | (SendPanic, s') \<Rightarrow> (goto PPanic p, s'))
      | Sample \<Rightarrow>
          if \<not> keeps (sampleRate (sub_of s i)) draw
          then (goto (PLoop rest) (drop_cb i DropReasonSampled p), count_dropped s)
          else send_or_drop i rest p s
      | DropNewest \<Rightarrow> send_or_drop i rest p s)"

text \<open>The eviction receives from the channel: a buffered envelope, or the zero value of a closed one.\<close>

definition pub_evict :: "nat \<Rightarrow> nat list \<Rightarrow> publisher \<Rightarrow> bus \<Rightarrow> publisher \<times> bus" where
  "pub_evict i rest p s =
     (let m = sub_of s i in
      if chBuf m \<noteq> [] \<or> chClosed m
      then (goto (PRetry i rest) (drop_cb i DropReasonBufferFull p),
            count_dropped (upd_sub i (\<lambda>m. m\<lparr>chBuf := tl (chBuf m)\<rparr>) s))
      else (goto (PRetry i rest) p, s))"

text \<open>The blocking \<open>select\<close>; \<open>None\<close> when the chosen case is not ready.\<close>

definition pub_select :: "sel \<Rightarrow> nat \<Rightarrow> nat list \<Rightarrow> publisher \<Rightarrow> bus \<Rightarrow> (publisher \<times> bus) option" where
  "pub_select c i rest p s =
     (case c of
        SelSend \<Rightarrow>
          (case try_send i (penv p) s of
             (Sent, s') \<Rightarrow> Some (goto (PUnblock i rest) (deliver_cb i p), s')
           | (Full, s') \<Rightarrow> None
           | (SendPanic, s') \<Rightarrow> Some (goto PPanic p, s'))
      | SelDone \<Rightarrow>
          if doneClosed (sub_of s i)
          then Some (goto (PUnblock i rest) (drop_cb i DropReasonClosed p), s) else None
      | SelCtx \<Rightarrow> Some (goto (PGiveUp i) p, s))"

definition release_sender :: "nat \<Rightarrow> bus \<Rightarrow> bus" where
  "release_sender i s = upd_sub i (\<lambda>m. m\<lparr>senders := senders m - 1\<rparr>) s"

definition pub_relock :: "nat list \<Rightarrow> publisher \<Rightarrow> bus \<Rightarrow> publisher \<times> bus" where
  "pub_relock rest p s = (if bclosed s then (goto (PFire BusClosed) p, s) else (goto (PLoop rest) p, s))"

definition pub_fire :: "choice \<Rightarrow> pub_result \<Rightarrow> publisher \<Rightarrow> bus \<Rightarrow> publisher \<times> bus" where
  "pub_fire c r p s =
     (goto (PReturned r) p, (fireObserver (cNow c) (cDebug c) p s)\<lparr>inflight := inflight s - 1\<rparr>)"

definition enumerates :: "nat list \<Rightarrow> nat fset \<Rightarrow> bool" where
  "enumerates xs A \<longleftrightarrow> distinct xs \<and> fset_of_list xs = A"

text \<open>One action of \<open>Publish\<close>, by the position it is at.\<close>

definition publish_step :: "choice \<Rightarrow> publisher \<Rightarrow> bus \<Rightarrow> (publisher \<times> bus) option" where
  "publish_step c p s =
     (case pos p of
        PStart \<Rightarrow> Some (pub_begin c p s)
      | PFilled \<Rightarrow> Some (pub_route p s)
      | PMiss \<Rightarrow> if enumerates (cOrder c) (subscribers s) then Some (pub_scan (cOrder c) p s) else None
      | PLoop rest \<Rightarrow> Some (pub_next rest p s)
      | PSend i rest \<Rightarrow> Some (pub_send (cDraw c) i rest p s)
      | PEvict i rest \<Rightarrow> Some (pub_evict i rest p s)
      | PRetry i rest \<Rightarrow> Some (send_or_drop i rest p s)
      | PBlocked i rest \<Rightarrow> pub_select (cSelect c) i rest p s
      | PUnblock i rest \<Rightarrow> Some (goto (PRelock rest) p, release_sender i s)
      | PGiveUp i \<Rightarrow> Some (goto (PFire PubCanceled) p, release_sender i s)
      | PRelock rest \<Rightarrow> Some (pub_relock rest p s)
      | PFire r \<Rightarrow> Some (pub_fire c r p s)
      | PReturned r \<Rightarrow> None
      | PPanic \<Rightarrow> None)"

definition newPublisher :: "Envelope \<Rightarrow> publisher" where
  "newPublisher env = \<lparr>pos = PStart, penv = env, pmatched = [], pdelivers = [], pdrops = []\<rparr>"

fun holds_read :: "ppos \<Rightarrow> bool" where
  "holds_read PMiss = True"
| "holds_read (PLoop rest) = True"
| "holds_read (PSend i rest) = True"
| "holds_read (PEvict i rest) = True"
| "holds_read (PRetry i rest) = True"
| "holds_read _ = False"

definition no_readers :: "bus \<Rightarrow> bool" where
  "no_readers s \<longleftrightarrow> fBall (fmdom (pubs s)) (\<lambda>t. \<not> holds_read (pos (the (fmlookup (pubs s) t))))"

definition crashed :: "bus \<Rightarrow> bool" where
  "crashed s \<longleftrightarrow> fBex (fmdom (pubs s)) (\<lambda>t. pos (the (fmlookup (pubs s) t)) = PPanic)"

subsection \<open>Subscribe and Close\<close>

datatype subscribe_error = BadPattern subject_error | BadOption go_error | SubscribeClosed

definition sub_options :: "SubOption list \<Rightarrow> subOptions" where
  "sub_options opts =
     fold (\<lambda>fn. fn) opts
       \<lparr>oBufferSize = defaultMemoryBufferSize, oBackpressure = DropNewest, oPredicate = None,
        oSampleRate = 1, oErr = None\<rparr>"

definition new_memSub :: "string \<Rightarrow> subOptions \<Rightarrow> memSub" where
  "new_memSub pattern o' =
     \<lparr>sPattern = pattern, patternSegs = splitSubject pattern, predicate = oPredicate o',
      backpressure = oBackpressure o', sampleRate = oSampleRate o', chCap = nat (oBufferSize o'),
      chBuf = [], chClosed = False, doneClosed = False, senders = 0\<rparr>"

definition Subscribe :: "string \<Rightarrow> SubOption list \<Rightarrow> bus \<Rightarrow> (subscribe_error + nat) \<times> bus" where
  "Subscribe pattern opts s =
     (case Pattern_Validate pattern of
        Some e \<Rightarrow> (Inl (BadPattern e), s)
      | None \<Rightarrow>
        (case oErr (sub_options opts) of
           Some e \<Rightarrow> (Inl (BadOption e), s)
         | None \<Rightarrow>
           if bclosed s then (Inl SubscribeClosed, s)
           else (let i = subSeq s + 1; s1 = clearRouteCache s
                 in (Inr i, s1\<lparr>subSeq := i, subscribers := finsert i (subscribers s1),
                               objs := fmupd i (new_memSub pattern (sub_options opts)) (objs s1)\<rparr>))))"

definition removeSub :: "nat \<Rightarrow> bus \<Rightarrow> bus" where
  "removeSub i s =
     (if i |\<in>| subscribers s then clearRouteCache (s\<lparr>subscribers := subscribers s |-| {|i|}\<rparr>) else s)"

definition signalClose :: "nat \<Rightarrow> bus \<Rightarrow> bus" where
  "signalClose i s = upd_sub i (\<lambda>m. m\<lparr>doneClosed := True\<rparr>) s"

definition closeChan :: "nat \<Rightarrow> bus \<Rightarrow> bus" where
  "closeChan i s = upd_sub i (\<lambda>m. m\<lparr>chClosed := True\<rparr>) s"

text \<open>\<open>memSub.Close\<close>, also run when the subscriber's context ends; \<open>None\<close> where it waits.\<close>

definition sub_close_step :: "closer \<Rightarrow> bus \<Rightarrow> (closer \<times> bus) option" where
  "sub_close_step k s =
     (case cpos k of
        CRemove \<Rightarrow> if no_readers s then Some (k\<lparr>cpos := CSignal\<rparr>, removeSub (csub k) s) else None
      | CSignal \<Rightarrow> Some (k\<lparr>cpos := CWait\<rparr>, signalClose (csub k) s)
      | CWait \<Rightarrow> if senders (sub_of s (csub k)) = 0 then Some (k\<lparr>cpos := CClose\<rparr>, s) else None
      | CClose \<Rightarrow> Some (k\<lparr>cpos := CDone\<rparr>, closeChan (csub k) s)
      | CDone \<Rightarrow> None)"

text \<open>\<open>MemoryBus.Close\<close>. A call on a closed bus returns at once and is no step.\<close>

definition bus_close_step :: "nat list \<Rightarrow> bus \<Rightarrow> bus option" where
  "bus_close_step order s =
     (case bcloser s of
        BIdle \<Rightarrow>
          if no_readers s \<and> \<not> bclosed s \<and> enumerates order (subscribers s)
          then Some (clearRouteCache (s\<lparr>bclosed := True, subscribers := {||}, bcloser := BSignal order order\<rparr>))
          else None
      | BSignal (i # is) subs \<Rightarrow> Some ((signalClose i s)\<lparr>bcloser := BSignal is subs\<rparr>)
      | BSignal [] subs \<Rightarrow> Some (s\<lparr>bcloser := BWait subs\<rparr>)
      | BWait subs \<Rightarrow> if inflight s = 0 then Some (s\<lparr>bcloser := BEach subs\<rparr>) else None
      | BEach (i # is) \<Rightarrow>
          if senders (sub_of s i) = 0 then Some ((closeChan i s)\<lparr>bcloser := BEach is\<rparr>) else None
      | BEach [] \<Rightarrow> Some (s\<lparr>bcloser := BClosed\<rparr>)
      | BClosed \<Rightarrow> None)"

definition receive :: "nat \<Rightarrow> bus \<Rightarrow> (Envelope \<times> bus) option" where
  "receive i s =
     (case chBuf (sub_of s i) of
        [] \<Rightarrow> None
      | e # es \<Rightarrow> Some (e, upd_sub i (\<lambda>m. m\<lparr>chBuf := es\<rparr>) s))"

subsection \<open>Steps\<close>

inductive bus_work :: "bus \<Rightarrow> bus \<Rightarrow> bool" where
  work_publish: "\<not> crashed s \<Longrightarrow> fmlookup (pubs s) t = Some p \<Longrightarrow> publish_step c p s = Some (p', s') \<Longrightarrow>
    bus_work s (s'\<lparr>pubs := fmupd t p' (pubs s)\<rparr>)"
| work_sub_close: "\<not> crashed s \<Longrightarrow> fmlookup (closers s) t = Some k \<Longrightarrow> sub_close_step k s = Some (k', s') \<Longrightarrow>
    bus_work s (s'\<lparr>closers := fmupd t k' (closers s)\<rparr>)"
| work_bus_close: "\<not> crashed s \<Longrightarrow> bcloser s \<noteq> BIdle \<Longrightarrow> bus_close_step order s = Some s' \<Longrightarrow> bus_work s s'"

inductive bus_step :: "bus \<Rightarrow> bus \<Rightarrow> bool" where
  step_work: "bus_work s s' \<Longrightarrow> bus_step s s'"
| step_Publish: "\<not> crashed s \<Longrightarrow> fmlookup (pubs s) t = None \<Longrightarrow>
    bus_step s (s\<lparr>pubs := fmupd t (newPublisher env) (pubs s)\<rparr>)"
| step_Subscribe: "\<not> crashed s \<Longrightarrow> no_readers s \<Longrightarrow> Subscribe pattern opts s = (r, s') \<Longrightarrow> bus_step s s'"
| step_sub_Close: "\<not> crashed s \<Longrightarrow> fmlookup (closers s) t = None \<Longrightarrow> i |\<in>| fmdom (objs s) \<Longrightarrow>
    bus_step s (s\<lparr>closers := fmupd t \<lparr>cpos = CRemove, csub = i\<rparr> (closers s)\<rparr>)"
| step_Close: "\<not> crashed s \<Longrightarrow> bcloser s = BIdle \<Longrightarrow> bus_close_step order s = Some s' \<Longrightarrow> bus_step s s'"
| step_receive: "\<not> crashed s \<Longrightarrow> i |\<in>| fmdom (objs s) \<Longrightarrow> receive i s = Some (e, s') \<Longrightarrow> bus_step s s'"
| step_AttachObserver: "\<not> crashed s \<Longrightarrow> no_readers s \<Longrightarrow> AttachObserver obs s = (ok, s') \<Longrightarrow> bus_step s s'"

definition bus_init :: "bus \<Rightarrow> bool" where
  "bus_init s \<longleftrightarrow> (\<exists>n obs. s = NewMemoryBus n obs)"

end
