(* ===== verification/Finite_Counting.thy ===== *)
theory Finite_Counting
  imports Main "HOL-Library.Finite_Map"
begin

text \<open>
  How many entries of a finite map satisfy a predicate, and how one update changes that number. The wait groups
  and semaphores of the concurrent components count goroutines; their invariants equate the counter with
  such a number. Likewise for the sum of a value over all entries.
\<close>

definition fm_count :: "('v \<Rightarrow> bool) \<Rightarrow> ('k, 'v) fmap \<Rightarrow> nat" where
  "fm_count P m = card {k. \<exists>v. fmlookup m k = Some v \<and> P v}"

lemma fm_finite [simp]: "finite {k. \<exists>v. fmlookup m k = Some v \<and> P v}"
  by (rule finite_subset [of _ "fset (fmdom m)"]) (auto intro: fmdomI)

lemma fm_count_empty [simp]: "fm_count P fmempty = 0"
  by (simp add: fm_count_def)

lemma fm_count_upd:
  assumes "fmlookup m t = Some v"
  shows "fm_count P (fmupd t w m) + (if P v then 1 else 0) = fm_count P m + (if P w then 1 else 0)"
proof -
  let ?A = "{k. \<exists>v. fmlookup m k = Some v \<and> P v}"
  let ?B = "{k. \<exists>v. fmlookup (fmupd t w m) k = Some v \<and> P v}"
  have "?A - {t} = ?B - {t}" by auto
  moreover have "t \<in> ?A \<longleftrightarrow> P v" "t \<in> ?B \<longleftrightarrow> P w" using assms by auto
  moreover have "card X = card (X - {t}) + (if t \<in> X then 1 else 0)" if "finite X" for X
    using that card_Suc_Diff1 [of X t] by auto
  from this [OF fm_finite] this [OF fm_finite]
  have "card ?A = card (?A - {t}) + (if t \<in> ?A then 1 else 0)" "card ?B = card (?B - {t}) + (if t \<in> ?B then 1 else 0)" .
  ultimately show ?thesis unfolding fm_count_def by simp
qed

lemma fm_count_new:
  assumes "fmlookup m t = None"
  shows "fm_count P (fmupd t w m) = fm_count P m + (if P w then 1 else 0)"
proof -
  let ?A = "{k. \<exists>v. fmlookup m k = Some v \<and> P v}"
  have "{k. \<exists>v. fmlookup (fmupd t w m) k = Some v \<and> P v} = (if P w then insert t ?A else ?A)"
    using assms by auto
  moreover have "t \<notin> ?A" using assms by simp
  ultimately show ?thesis unfolding fm_count_def by simp
qed

lemma fm_count_drop: "fmlookup m t = Some v \<Longrightarrow> fm_count P m = fm_count P (fmdrop t m) + (if P v then 1 else 0)"
proof -
  assume "fmlookup m t = Some v"
  then have "m = fmupd t v (fmdrop t m)" by (intro fmap_ext) auto
  then show ?thesis using fm_count_new [of "fmdrop t m" t P v] by simp
qed

lemma fm_count_zero: "fm_count P m = 0 \<longleftrightarrow> (\<forall>k v. fmlookup m k = Some v \<longrightarrow> \<not> P v)"
  by (auto simp: fm_count_def)

lemma fm_count_pos: "fmlookup m k = Some v \<Longrightarrow> P v \<Longrightarrow> fm_count P m > 0"
  using fm_count_zero [of P m] by (metis gr0I)

lemma fm_count_cong: "(\<And>k v. fmlookup m k = Some v \<Longrightarrow> P v = Q v) \<Longrightarrow> fm_count P m = fm_count Q m"
  unfolding fm_count_def by (rule arg_cong [where f = card]) auto

subsection \<open>Sums over a finite map\<close>

definition fm_sum :: "('v \<Rightarrow> 'a :: comm_monoid_add) \<Rightarrow> ('k, 'v) fmap \<Rightarrow> 'a" where
  "fm_sum f m = (\<Sum>k\<in>fset (fmdom m). f (the (fmlookup m k)))"

lemma fm_sum_empty [simp]: "fm_sum f fmempty = 0"
  by (simp add: fm_sum_def)

lemma fm_sum_new:
  assumes "fmlookup m k = None"
  shows "fm_sum f (fmupd k v m) = f v + fm_sum f m"
proof -
  have k: "k \<notin> fset (fmdom m)" using assms by (simp add: fmlookup_dom_iff)
  have "(\<Sum>x\<in>fset (fmdom m). f (the (fmlookup (fmupd k v m) x))) = (\<Sum>x\<in>fset (fmdom m). f (the (fmlookup m x)))"
    using k by (intro sum.cong) auto
  then show ?thesis using k by (simp add: fm_sum_def)
qed

lemma fm_sum_drop:
  assumes "fmlookup m k = Some v"
  shows "fm_sum f m = f v + fm_sum f (fmdrop k m)"
proof -
  have "m = fmupd k v (fmdrop k m)" using assms by (intro fmap_ext) auto
  then have "fm_sum f m = fm_sum f (fmupd k v (fmdrop k m))" by simp
  also have "\<dots> = f v + fm_sum f (fmdrop k m)" by (rule fm_sum_new) simp
  finally show ?thesis .
qed

lemma fm_sum_upd: "fm_sum f (fmupd k v m) = f v + fm_sum f (fmdrop k m)"
proof -
  have "fmupd k v m = fmupd k v (fmdrop k m)" by (intro fmap_ext) auto
  then show ?thesis using fm_sum_new [of "fmdrop k m" k f v] by simp
qed

lemma fm_sum_swap:
  assumes "fmlookup m t = Some v"
  shows "fm_sum f (fmupd t w m) + f v = fm_sum f m + f w"
  unfolding fm_sum_upd fm_sum_drop [OF assms, of f] by (simp add: ac_simps)

end
