(* ===== verification/Bus_Safety.thy ===== *)
theory Bus_Safety
  imports Event_Bus Finite_Counting
begin

text \<open>
  Invariants of the event bus: the bookkeeping of subscriptions, closers and publishers that holds in every
  reachable state, the counters that the two wait groups stand for, and the coherence of the route cache.
\<close>

subsection \<open>Positions\<close>

fun in_flight :: "ppos \<Rightarrow> bool" where
  "in_flight PStart = False"
| "in_flight (PReturned r) = False"
| "in_flight _ = True"

text \<open>The subscriptions a publisher has still to serve, and the one it is registered with as a sender.\<close>

fun ahead :: "ppos \<Rightarrow> nat list" where
  "ahead (PLoop rest) = rest"
| "ahead (PSend i rest) = i # rest"
| "ahead (PEvict i rest) = i # rest"
| "ahead (PRetry i rest) = i # rest"
| "ahead (PBlocked i rest) = i # rest"
| "ahead (PUnblock i rest) = i # rest"
| "ahead (PGiveUp i) = [i]"
| "ahead (PRelock rest) = rest"
| "ahead _ = []"

fun sends_to :: "nat \<Rightarrow> ppos \<Rightarrow> bool" where
  "sends_to j (PBlocked i rest) = (i = j)"
| "sends_to j (PUnblock i rest) = (i = j)"
| "sends_to j (PGiveUp i) = (i = j)"
| "sends_to j _ = False"

definition pub_in :: "bus \<Rightarrow> ppos \<Rightarrow> bool" where
  "pub_in s q \<longleftrightarrow> (\<exists>t p. fmlookup (pubs s) t = Some p \<and> pos p = q)"

lemma crashed_iff: "crashed s \<longleftrightarrow> (\<exists>t p. fmlookup (pubs s) t = Some p \<and> pos p = PPanic)"
  unfolding crashed_def Bex_def by (metis fmdomE fmdomI option.sel)

lemma no_readers_iff: "no_readers s \<longleftrightarrow> (\<forall>t p. fmlookup (pubs s) t = Some p \<longrightarrow> \<not> holds_read (pos p))"
  unfolding no_readers_def Ball_def by (metis fmdomE fmdomI option.sel)

subsection \<open>Frames\<close>

text \<open>What no publisher changes of a subscription.\<close>

definition fixed :: "memSub \<Rightarrow> string list \<times> (Envelope \<Rightarrow> bool) option \<times> BackpressurePolicy \<times> bool \<times> bool" where
  "fixed m = (patternSegs m, predicate m, backpressure m, chClosed m, doneClosed m)"

definition same_subs :: "bus \<Rightarrow> bus \<Rightarrow> bool" where
  "same_subs s s' \<longleftrightarrow> (\<forall>i. map_option fixed (fmlookup (objs s') i) = map_option fixed (fmlookup (objs s) i))"

lemma same_subs_refl [simp]: "same_subs s s"
  by (simp add: same_subs_def)

lemma same_subs_objs [simp]: "objs s' = objs s \<Longrightarrow> same_subs s s'"
  by (simp add: same_subs_def)

lemma same_subs_upd [simp]:
  "i |\<in>| fmdom (objs s) \<Longrightarrow> (\<And>m. fixed (f m) = fixed m) \<Longrightarrow> same_subs s (upd_sub i f s)"
  by (auto simp: same_subs_def upd_sub_def sub_of_def)

lemma same_subs_ignores [simp]:
  "same_subs s (s'\<lparr>bdropped := n\<rparr>) = same_subs s s'" "same_subs s (s'\<lparr>pubs := m\<rparr>) = same_subs s s'"
  "same_subs s (s'\<lparr>routeCache := rc\<rparr>) = same_subs s s'" "same_subs s (s'\<lparr>inflight := k\<rparr>) = same_subs s s'"
  by (simp_all add: same_subs_def)

lemma same_subs_dom: "same_subs s s' \<Longrightarrow> fmdom (objs s') = fmdom (objs s)"
  unfolding same_subs_def by (intro fset_eqI) (metis fmlookup_dom_iff map_option_is_None option.distinct(1) not_None_eq)

lemma same_subs_of:
  assumes "same_subs s s'" "i |\<in>| fmdom (objs s)"
  shows "patternSegs (sub_of s' i) = patternSegs (sub_of s i)" "predicate (sub_of s' i) = predicate (sub_of s i)"
    "backpressure (sub_of s' i) = backpressure (sub_of s i)" "chClosed (sub_of s' i) = chClosed (sub_of s i)"
    "doneClosed (sub_of s' i) = doneClosed (sub_of s i)"
proof -
  obtain m where m: "fmlookup (objs s) i = Some m" using assms(2) by auto
  moreover from this obtain m' where "fmlookup (objs s') i = Some m'" "fixed m' = fixed m"
    using assms(1) unfolding same_subs_def by (metis (no_types, lifting) map_option_eq_Some)
  ultimately show "patternSegs (sub_of s' i) = patternSegs (sub_of s i)" "predicate (sub_of s' i) = predicate (sub_of s i)"
    "backpressure (sub_of s' i) = backpressure (sub_of s i)" "chClosed (sub_of s' i) = chClosed (sub_of s i)"
    "doneClosed (sub_of s' i) = doneClosed (sub_of s i)"
    by (simp_all add: sub_of_def fixed_def)
qed

lemmas pub_defs = publish_step_def pub_begin_def pub_route_def pub_scan_def pub_send_def pub_evict_def
  pub_select_def pub_relock_def pub_fire_def send_or_drop_def try_send_def goto_def deliver_cb_def drop_cb_def
  count_dropped_def release_sender_def storeRoute_def Let_def

lemmas pub_splits = option.splits prod.splits if_splits list.splits sel.splits BackpressurePolicy.splits send_result.splits

lemma fireObserver_frame [simp]:
  "subscribers (fireObserver now dbg p s) = subscribers s" "objs (fireObserver now dbg p s) = objs s"
  "bclosed (fireObserver now dbg p s) = bclosed s" "subSeq (fireObserver now dbg p s) = subSeq s"
  "closers (fireObserver now dbg p s) = closers s" "bcloser (fireObserver now dbg p s) = bcloser s"
  "routeCache (fireObserver now dbg p s) = routeCache s" "routeCacheCap (fireObserver now dbg p s) = routeCacheCap s"
  "pubs (fireObserver now dbg p s) = pubs s" "inflight (fireObserver now dbg p s) = inflight s"
  "bdropped (fireObserver now dbg p s) = bdropped s"
  by (simp_all add: fireObserver_def recordDrops_def claimDropLog_def Let_def split: option.splits)

lemma upd_sub_frame [simp]:
  "subscribers (upd_sub i f s) = subscribers s" "bclosed (upd_sub i f s) = bclosed s" "subSeq (upd_sub i f s) = subSeq s"
  "closers (upd_sub i f s) = closers s" "bcloser (upd_sub i f s) = bcloser s" "routeCache (upd_sub i f s) = routeCache s"
  "routeCacheCap (upd_sub i f s) = routeCacheCap s" "pubs (upd_sub i f s) = pubs s" "inflight (upd_sub i f s) = inflight s"
  "objs (upd_sub i f s) = fmupd i (f (sub_of s i)) (objs s)"
  by (simp_all add: upd_sub_def)

lemma publish_frame:
  assumes "publish_step c p s = Some (p', s')"
  shows "subscribers s' = subscribers s \<and> bclosed s' = bclosed s \<and> subSeq s' = subSeq s \<and> closers s' = closers s \<and>
    bcloser s' = bcloser s \<and> pubs s' = pubs s \<and> routeCacheCap s' = routeCacheCap s"
proof (cases "pos p")
  case (PLoop rest)
  then show ?thesis using assms by (cases rest) (auto simp: pub_defs split: pub_splits)
qed (use assms in \<open>auto simp: pub_defs split: pub_splits\<close>)

lemma publish_same_subs:
  assumes "publish_step c p s = Some (p', s')" "set (ahead (pos p)) \<subseteq> fset (fmdom (objs s))"
  shows "same_subs s s'"
proof (cases "pos p")
  case (PLoop rest)
  then show ?thesis using assms(1) by (cases rest) (auto simp: pub_defs split: pub_splits)
qed (use assms in \<open>auto simp: pub_defs fixed_def split: pub_splits\<close>)

subsection \<open>Subscriptions and closing\<close>

fun snapshot :: "bclose \<Rightarrow> nat list" where
  "snapshot (BSignal is subs) = subs"
| "snapshot (BWait subs) = subs"
| "snapshot (BEach is) = is"
| "snapshot _ = []"

fun to_signal :: "bclose \<Rightarrow> nat list" where
  "to_signal (BSignal is subs) = is"
| "to_signal _ = []"

definition past_remove :: "(nat, closer) fmap \<Rightarrow> nat \<Rightarrow> bool" where
  "past_remove ks i \<longleftrightarrow> (\<exists>t k. fmlookup ks t = Some k \<and> csub k = i \<and> cpos k \<noteq> CRemove)"

definition subs_ok :: "bus \<Rightarrow> bool" where
  "subs_ok s \<longleftrightarrow> fset (subscribers s) \<subseteq> fset (fmdom (objs s)) \<and>
     (\<forall>i. i |\<in>| fmdom (objs s) \<longrightarrow> i \<le> subSeq s \<and>
       (chClosed (sub_of s i) \<longrightarrow> i |\<notin>| subscribers s \<and> doneClosed (sub_of s i))) \<and>
     (bclosed s \<longleftrightarrow> bcloser s \<noteq> BIdle) \<and> (bclosed s \<longrightarrow> subscribers s = {||})"

definition closers_ok :: "bus \<Rightarrow> bool" where
  "closers_ok s \<longleftrightarrow> (\<forall>t k. fmlookup (closers s) t = Some k \<longrightarrow> csub k |\<in>| fmdom (objs s) \<and>
     (cpos k \<noteq> CRemove \<longrightarrow> csub k |\<notin>| subscribers s) \<and>
     (cpos k \<in> {CWait, CClose, CDone} \<longrightarrow> doneClosed (sub_of s (csub k))) \<and>
     (cpos k = CDone \<longrightarrow> chClosed (sub_of s (csub k))))"

definition closing_ok :: "bus \<Rightarrow> bool" where
  "closing_ok s \<longleftrightarrow> set (to_signal (bcloser s)) \<subseteq> set (snapshot (bcloser s)) \<and>
     (\<forall>i \<in> set (snapshot (bcloser s)). i |\<in>| fmdom (objs s) \<and>
       (i \<in> set (to_signal (bcloser s)) \<or> doneClosed (sub_of s i))) \<and>
     (\<forall>i. i |\<in>| fmdom (objs s) \<longrightarrow> i |\<in>| subscribers s \<or> past_remove (closers s) i \<or> i \<in> set (snapshot (bcloser s)) \<or>
       chClosed (sub_of s i))"

definition control_ok :: "bus \<Rightarrow> bool" where
  "control_ok s \<longleftrightarrow> subs_ok s \<and> closers_ok s \<and> closing_ok s"

lemmas control_defs = control_ok_def subs_ok_def closers_ok_def closing_ok_def

lemma controlI:
  assumes "\<And>i. i |\<in>| subscribers s \<Longrightarrow> i |\<in>| fmdom (objs s)"
    "\<And>i. i |\<in>| fmdom (objs s) \<Longrightarrow> i \<le> subSeq s"
    "\<And>i. i |\<in>| fmdom (objs s) \<Longrightarrow> chClosed (sub_of s i) \<Longrightarrow> i |\<notin>| subscribers s \<and> doneClosed (sub_of s i)"
    "bclosed s \<longleftrightarrow> bcloser s \<noteq> BIdle" "bcloser s \<noteq> BIdle \<Longrightarrow> subscribers s = {||}"
    "\<And>t k. fmlookup (closers s) t = Some k \<Longrightarrow> csub k |\<in>| fmdom (objs s)"
    "\<And>t k. fmlookup (closers s) t = Some k \<Longrightarrow> cpos k \<noteq> CRemove \<Longrightarrow> csub k |\<notin>| subscribers s"
    "\<And>t k. fmlookup (closers s) t = Some k \<Longrightarrow> cpos k \<in> {CWait, CClose, CDone} \<Longrightarrow> doneClosed (sub_of s (csub k))"
    "\<And>t k. fmlookup (closers s) t = Some k \<Longrightarrow> cpos k = CDone \<Longrightarrow> chClosed (sub_of s (csub k))"
    "\<And>i. i \<in> set (to_signal (bcloser s)) \<Longrightarrow> i \<in> set (snapshot (bcloser s))"
    "\<And>i. i \<in> set (snapshot (bcloser s)) \<Longrightarrow> i |\<in>| fmdom (objs s)"
    "\<And>i. i \<in> set (snapshot (bcloser s)) \<Longrightarrow> i \<notin> set (to_signal (bcloser s)) \<Longrightarrow> doneClosed (sub_of s i)"
    "\<And>i. i |\<in>| fmdom (objs s) \<Longrightarrow> i |\<notin>| subscribers s \<Longrightarrow> \<not> past_remove (closers s) i \<Longrightarrow> i \<notin> set (snapshot (bcloser s)) \<Longrightarrow>
       chClosed (sub_of s i)"
  shows "control_ok s"
  unfolding control_ok_def
proof (intro conjI)
  show "subs_ok s" using assms(1-5) by (auto simp: subs_ok_def)
  show "closers_ok s" using assms(6-9) by (simp add: closers_ok_def)
  show "closing_ok s" using assms(10-13) by (auto simp: closing_ok_def)
qed

lemma controlD:
  assumes "control_ok s"
  shows "i |\<in>| subscribers s \<Longrightarrow> i |\<in>| fmdom (objs s)"
    "i |\<in>| fmdom (objs s) \<Longrightarrow> i \<le> subSeq s"
    "i |\<in>| fmdom (objs s) \<Longrightarrow> chClosed (sub_of s i) \<Longrightarrow> i |\<notin>| subscribers s \<and> doneClosed (sub_of s i)"
    "bclosed s \<longleftrightarrow> bcloser s \<noteq> BIdle" "bcloser s \<noteq> BIdle \<Longrightarrow> subscribers s = {||}"
    "fmlookup (closers s) t = Some k \<Longrightarrow> csub k |\<in>| fmdom (objs s)"
    "fmlookup (closers s) t = Some k \<Longrightarrow> cpos k \<noteq> CRemove \<Longrightarrow> csub k |\<notin>| subscribers s"
    "fmlookup (closers s) t = Some k \<Longrightarrow> cpos k \<in> {CWait, CClose, CDone} \<Longrightarrow> doneClosed (sub_of s (csub k))"
    "fmlookup (closers s) t = Some k \<Longrightarrow> cpos k = CDone \<Longrightarrow> chClosed (sub_of s (csub k))"
    "i \<in> set (to_signal (bcloser s)) \<Longrightarrow> i \<in> set (snapshot (bcloser s))"
    "i \<in> set (snapshot (bcloser s)) \<Longrightarrow> i |\<in>| fmdom (objs s)"
    "i \<in> set (snapshot (bcloser s)) \<Longrightarrow> i \<notin> set (to_signal (bcloser s)) \<Longrightarrow> doneClosed (sub_of s i)"
    "i |\<in>| fmdom (objs s) \<Longrightarrow> i |\<notin>| subscribers s \<Longrightarrow> \<not> past_remove (closers s) i \<Longrightarrow> i \<notin> set (snapshot (bcloser s)) \<Longrightarrow>
       chClosed (sub_of s i)"
proof -
  have S: "subs_ok s" and K: "closers_ok s" and C: "closing_ok s" using assms by (simp_all add: control_ok_def)
  show "i |\<in>| subscribers s \<Longrightarrow> i |\<in>| fmdom (objs s)" using S by (auto simp: subs_ok_def)
  show "i |\<in>| fmdom (objs s) \<Longrightarrow> i \<le> subSeq s" using S by (simp add: subs_ok_def)
  show "i |\<in>| fmdom (objs s) \<Longrightarrow> chClosed (sub_of s i) \<Longrightarrow> i |\<notin>| subscribers s \<and> doneClosed (sub_of s i)"
    using S by (simp add: subs_ok_def)
  show "bclosed s \<longleftrightarrow> bcloser s \<noteq> BIdle" "bcloser s \<noteq> BIdle \<Longrightarrow> subscribers s = {||}" using S by (simp_all add: subs_ok_def)
  show "fmlookup (closers s) t = Some k \<Longrightarrow> csub k |\<in>| fmdom (objs s)"
    "fmlookup (closers s) t = Some k \<Longrightarrow> cpos k \<noteq> CRemove \<Longrightarrow> csub k |\<notin>| subscribers s"
    "fmlookup (closers s) t = Some k \<Longrightarrow> cpos k \<in> {CWait, CClose, CDone} \<Longrightarrow> doneClosed (sub_of s (csub k))"
    "fmlookup (closers s) t = Some k \<Longrightarrow> cpos k = CDone \<Longrightarrow> chClosed (sub_of s (csub k))"
    using K unfolding closers_ok_def by blast+
  show "i \<in> set (to_signal (bcloser s)) \<Longrightarrow> i \<in> set (snapshot (bcloser s))"
    "i \<in> set (snapshot (bcloser s)) \<Longrightarrow> i |\<in>| fmdom (objs s)"
    "i \<in> set (snapshot (bcloser s)) \<Longrightarrow> i \<notin> set (to_signal (bcloser s)) \<Longrightarrow> doneClosed (sub_of s i)"
    "i |\<in>| fmdom (objs s) \<Longrightarrow> i |\<notin>| subscribers s \<Longrightarrow> \<not> past_remove (closers s) i \<Longrightarrow> i \<notin> set (snapshot (bcloser s)) \<Longrightarrow>
       chClosed (sub_of s i)"
    using C by (auto simp: closing_ok_def)
qed

lemma control_cong:
  assumes "control_ok s" "same_subs s s'" "subscribers s' = subscribers s" "subSeq s' = subSeq s"
    "bclosed s' = bclosed s" "bcloser s' = bcloser s" "closers s' = closers s"
  shows "control_ok s'"
proof -
  have o: "\<And>i. i |\<in>| fmdom (objs s) \<Longrightarrow> chClosed (sub_of s' i) = chClosed (sub_of s i) \<and> doneClosed (sub_of s' i) = doneClosed (sub_of s i)"
    using same_subs_of [OF assms(2)] by simp
  show ?thesis
    using assms(1) o unfolding control_defs assms(3-) same_subs_dom [OF assms(2)] by auto
qed

lemma sub_of_upd [simp]: "sub_of (upd_sub i f s) j = (if j = i then f (sub_of s i) else sub_of s j)"
  by (simp add: sub_of_def)

lemma sub_of_ignores [simp]:
  "sub_of (s\<lparr>bcloser := b\<rparr>) i = sub_of s i" "sub_of (s\<lparr>closers := ks\<rparr>) i = sub_of s i" "sub_of (s\<lparr>pubs := ps\<rparr>) i = sub_of s i"
  "sub_of (s\<lparr>subscribers := A\<rparr>) i = sub_of s i" "sub_of (s\<lparr>inflight := n\<rparr>) i = sub_of s i"
  by (simp_all add: sub_of_def)

lemma clearRouteCache_frame [simp]:
  "subscribers (clearRouteCache s) = subscribers s" "objs (clearRouteCache s) = objs s"
  "bclosed (clearRouteCache s) = bclosed s" "subSeq (clearRouteCache s) = subSeq s"
  "closers (clearRouteCache s) = closers s" "bcloser (clearRouteCache s) = bcloser s"
  "routeCacheCap (clearRouteCache s) = routeCacheCap s" "pubs (clearRouteCache s) = pubs s"
  "inflight (clearRouteCache s) = inflight s" "sub_of (clearRouteCache s) i = sub_of s i"
  by (simp_all add: clearRouteCache_def sub_of_def)

lemma past_remove_closers:
  "fmlookup ks t = Some k \<Longrightarrow> csub k' = csub k \<Longrightarrow> cpos k' \<noteq> CRemove \<Longrightarrow> past_remove ks i \<Longrightarrow>
   past_remove (fmupd t k' ks) i"
  unfolding past_remove_def by (erule exE, rule_tac x = "if csub k = i then t else ta" in exI) auto

lemma past_remove_self: "cpos k' \<noteq> CRemove \<Longrightarrow> past_remove (fmupd t k' ks) (csub k')"
  unfolding past_remove_def by (metis fmupd_lookup)

lemma removeSub_frame [simp]:
  "objs (removeSub i s) = objs s" "bclosed (removeSub i s) = bclosed s" "subSeq (removeSub i s) = subSeq s"
  "closers (removeSub i s) = closers s" "bcloser (removeSub i s) = bcloser s" "pubs (removeSub i s) = pubs s"
  "inflight (removeSub i s) = inflight s" "sub_of (removeSub i s) j = sub_of s j"
  "subscribers (removeSub i s) = subscribers s |-| {|i|}"
  by (auto simp: removeSub_def sub_of_def)

lemma sub_close_control:
  assumes ok: "control_ok s" and k: "fmlookup (closers s) t = Some k" and st: "sub_close_step k s = Some (k', s')"
  shows "control_ok (s'\<lparr>closers := fmupd t k' (closers s)\<rparr>)"
proof -
  let ?s = "s'\<lparr>closers := fmupd t k' (closers s)\<rparr>"
  have c: "csub k' = csub k" "cpos k' \<noteq> CRemove" "csub k |\<in>| fmdom (objs s)"
    using st k ok by (auto simp: sub_close_step_def control_defs split: cpos.splits if_splits)
  have r: "past_remove (closers s) i \<Longrightarrow> past_remove (fmupd t k' (closers s)) i" "past_remove (fmupd t k' (closers s)) (csub k)" for i
    using past_remove_closers [OF k c(1,2)] past_remove_self [OF c(2), of t "closers s"] c(1) by auto
  note D = controlD [OF ok]
  show ?thesis
  proof (cases "cpos k")
    case CRemove
    then have s: "?s = (removeSub (csub k) s)\<lparr>closers := fmupd t k' (closers s)\<rparr>" "cpos k' = CSignal" "k' = k\<lparr>cpos := CSignal\<rparr>"
      using st by (auto simp: sub_close_step_def split: if_splits)
    show ?thesis
      unfolding s(1) by (rule controlI) (use r c in \<open>auto simp: s(2,3) D(4) intro: D(1,2,6,8,9,10,11,12) dest: D(3,5,7,9,13) split: if_splits\<close>)
  next
    case CSignal
    then have s: "?s = (signalClose (csub k) s)\<lparr>closers := fmupd t k' (closers s)\<rparr>" "cpos k' = CWait" "k' = k\<lparr>cpos := CWait\<rparr>"
      using st by (auto simp: sub_close_step_def split: if_splits)
    show ?thesis
      unfolding s(1) by (rule controlI) (use r c CSignal k in \<open>auto simp: s(2,3) signalClose_def D(4) intro: D(1,2,6,8,9,10,11,12) dest: D(3,5,7,9,13) split: if_splits\<close>)
  next
    case CWait
    then have s: "?s = s\<lparr>closers := fmupd t k' (closers s)\<rparr>" "cpos k' = CClose" "k' = k\<lparr>cpos := CClose\<rparr>"
      using st by (auto simp: sub_close_step_def split: if_splits)
    show ?thesis
      unfolding s(1) by (rule controlI) (use r c CWait k in \<open>auto simp: s(2,3) D(4) intro: D(1,2,6,8,9,10,11,12) dest: D(3,5,7,9,13) split: if_splits\<close>)
  next
    case CClose
    then have s: "?s = (closeChan (csub k) s)\<lparr>closers := fmupd t k' (closers s)\<rparr>" "cpos k' = CDone" "k' = k\<lparr>cpos := CDone\<rparr>"
      using st by (auto simp: sub_close_step_def split: if_splits)
    show ?thesis
      unfolding s(1) by (rule controlI) (use r c CClose k in \<open>auto simp: s(2,3) closeChan_def D(4) intro: D(1,2,6,8,9,10,11,12) dest: D(3,5,7,9,13) split: if_splits\<close>)
  qed (use st in \<open>simp add: sub_close_step_def\<close>)
qed

lemma enumerates_set: "enumerates xs A \<Longrightarrow> i \<in> set xs \<longleftrightarrow> i |\<in>| A"
  by (auto simp: enumerates_def fset_of_list_elem)

lemma bus_close_control:
  assumes ok: "control_ok s" and st: "bus_close_step order s = Some s'"
  shows "control_ok s'"
proof -
  note D = controlD [OF ok]
  show ?thesis
  proof (cases "bcloser s")
    case BIdle
    then have e: "\<And>i. i \<in> set order \<longleftrightarrow> i |\<in>| subscribers s"
      and s: "s' = clearRouteCache (s\<lparr>bclosed := True, subscribers := {||}, bcloser := BSignal order order\<rparr>)"
      using st by (auto simp: bus_close_step_def enumerates_set split: if_splits)
    have o: "sub_of (s\<lparr>bclosed := True, subscribers := {||}, bcloser := BSignal order order\<rparr>) = sub_of s"
      by (simp add: sub_of_def fun_eq_iff)
    show ?thesis
      unfolding s by (rule controlI) (use BIdle D(13) in \<open>auto simp: e o intro: D(1,2,6,8,9) dest: D(3)\<close>)
  next
    case (BSignal js subs)
    show ?thesis
    proof (cases js)
      case Nil
      then have s: "s' = s\<lparr>bcloser := BWait subs\<rparr>" using st BSignal by (simp add: bus_close_step_def)
      show ?thesis
        unfolding s by (rule controlI) (use BSignal Nil D(5,10-13) in \<open>auto simp: D(4) intro: D(1,2,6,8,9) dest: D(3,7)\<close>)
    next
      case (Cons i js')
      then have s: "s' = (signalClose i s)\<lparr>bcloser := BSignal js' subs\<rparr>" using st BSignal by (simp add: bus_close_step_def)
      have i: "i |\<in>| fmdom (objs s)" using D(10,11) [of i] BSignal Cons by simp
      show ?thesis
        unfolding s signalClose_def
        by (rule controlI) (use BSignal Cons i D(5,10-13) in \<open>auto simp: D(4) intro: D(1,2,6,8,9) dest: D(3,7,9)\<close>)
    qed
  next
    case (BWait subs)
    then have s: "s' = s\<lparr>bcloser := BEach subs\<rparr>" using st by (simp add: bus_close_step_def split: if_splits)
    show ?thesis
      unfolding s by (rule controlI) (use BWait D(5,10-13) in \<open>auto simp: D(4) intro: D(1,2,6,8,9) dest: D(3,7)\<close>)
  next
    case (BEach subs)
    show ?thesis
    proof (cases subs)
      case Nil
      then have s: "s' = s\<lparr>bcloser := BClosed\<rparr>" using st BEach by (simp add: bus_close_step_def)
      show ?thesis
        unfolding s by (rule controlI) (use BEach Nil D(5,10-13) in \<open>auto simp: D(4) intro: D(1,2,6,8,9) dest: D(3,7)\<close>)
    next
      case (Cons i js')
      then have s: "s' = (closeChan i s)\<lparr>bcloser := BEach js'\<rparr>"
        using st BEach by (simp add: bus_close_step_def split: if_splits)
      have i: "i |\<in>| fmdom (objs s)" "doneClosed (sub_of s i)" using D(11,12) [of i] BEach Cons by simp_all
      show ?thesis
        unfolding s closeChan_def
        by (rule controlI) (use BEach Cons i D(5,10-13) in \<open>auto simp: D(4) intro: D(1,2,6,8,9) dest: D(3,7,8,9)\<close>)
    qed
  qed (use st in \<open>simp add: bus_close_step_def\<close>)
qed

lemma new_memSub_simps [simp]:
  "\<not> chClosed (new_memSub pattern o')" "\<not> doneClosed (new_memSub pattern o')" "senders (new_memSub pattern o') = 0"
  "patternSegs (new_memSub pattern o') = splitSubject pattern"
  by (simp_all add: new_memSub_def)

lemma Subscribe_cases:
  assumes "Subscribe pattern opts s = (r, s')"
  obtains (refused) "s' = s"
  | (added) i where "\<not> bclosed s" "i = subSeq s + 1" "r = Inr i"
      "s' = (clearRouteCache s)\<lparr>subSeq := i, subscribers := finsert i (subscribers s),
        objs := fmupd i (new_memSub pattern (sub_options opts)) (objs s)\<rparr>"
proof (cases "Pattern_Validate pattern = None \<and> oErr (sub_options opts) = None \<and> \<not> bclosed s")
  case True
  then show thesis using assms by (intro added [of "subSeq s + 1"]) (simp_all add: Subscribe_def Let_def)
next
  case False
  then have "s' = s" using assms by (auto simp: Subscribe_def Let_def split: option.splits)
  then show thesis by (rule refused)
qed

lemma Subscribe_control:
  assumes ok: "control_ok s" and st: "Subscribe pattern opts s = (r, s')"
  shows "control_ok s'"
  using st
proof (cases rule: Subscribe_cases)
  case (added i)
  note D = controlD [OF ok]
  have n: "i |\<notin>| fmdom (objs s)" using D(2) [of i] added(2) by auto
  then have nc: "\<And>t k. fmlookup (closers s) t = Some k \<Longrightarrow> csub k \<noteq> i" using D(6) by blast
  have o: "sub_of s' j = (if j = i then new_memSub pattern (sub_options opts) else sub_of s j)" for j
    using added by (simp add: sub_of_def)
  have b: "bcloser s = BIdle" using D(4) added(1) by simp
  have f: "subscribers s' = finsert i (subscribers s)" "objs s' = fmupd i (new_memSub pattern (sub_options opts)) (objs s)"
    "subSeq s' = i" "bclosed s' = bclosed s" "bcloser s' = BIdle" "closers s' = closers s"
    using added b by (simp_all add: clearRouteCache_def)
  show ?thesis
    by (rule controlI) (use n b added(1,2) D(13) in \<open>auto simp: f o nc dest: D(1,2,3,6,7,8,9) nc intro: le_SucI\<close>)
qed (use ok in simp)

end
