(* ===== verification/Bus_Publish.thy ===== *)
theory Bus_Publish
  imports Bus_Safety
begin

text \<open>
  What a publisher of the event bus has done at each of its positions: every subscription it matched and has
  passed is settled by a delivery or a drop, and none twice except where an eviction makes room. With the
  counters of the two wait groups and the coherence of the route cache this completes the bus invariant.
\<close>

subsection \<open>Accounts of one publication\<close>

definition allows :: "bus \<Rightarrow> publisher \<Rightarrow> nat \<Rightarrow> bool" where
  "allows s p i \<longleftrightarrow> predicateAllows (sub_of s i) (penv p)"

definition settled :: "publisher \<Rightarrow> nat set" where
  "settled p = set (pdelivers p) \<union> fst ` set (pdrops p)"

definition account :: "bus \<Rightarrow> nat list \<Rightarrow> publisher \<Rightarrow> bool" where
  "account s td p \<longleftrightarrow> (\<exists>pre. pmatched p = pre @ td) \<and> distinct (pmatched p) \<and>
     set (pmatched p) \<subseteq> fset (fmdom (objs s)) \<and>
     (\<forall>i \<in> set (pmatched p). patternMatches (sub_of s i) (splitSubject (eSubject (penv p)))) \<and>
     settled p \<subseteq> {i \<in> set (pmatched p). allows s p i} \<and>
     distinct (pdelivers p) \<and> set (pdelivers p) \<inter> set td = {} \<and>
     (\<forall>i \<in> set (pdelivers p) \<inter> fst ` set (pdrops p). backpressure (sub_of s i) = DropOldest)"

definition all_settled :: "bus \<Rightarrow> nat list \<Rightarrow> publisher \<Rightarrow> bool" where
  "all_settled s td p \<longleftrightarrow> (\<forall>i \<in> set (pmatched p) - set td. allows s p i \<longrightarrow> i \<in> settled p)"

definition undropped :: "nat list \<Rightarrow> publisher \<Rightarrow> bool" where
  "undropped td p \<longleftrightarrow> set td \<inter> fst ` set (pdrops p) = {}"

definition on_course :: "bus \<Rightarrow> nat list \<Rightarrow> publisher \<Rightarrow> bool" where
  "on_course s td p \<longleftrightarrow> account s td p \<and> all_settled s td p \<and> undropped td p"

definition pub_ok :: "bus \<Rightarrow> publisher \<Rightarrow> bool" where
  "pub_ok s p \<longleftrightarrow>
     (case pos p of
        PMiss \<Rightarrow> \<not> bclosed s \<and> pmatched p = [] \<and> pdelivers p = [] \<and> pdrops p = []
      | PLoop rest \<Rightarrow> \<not> bclosed s \<and> on_course s rest p
      | PSend i rest \<Rightarrow> \<not> bclosed s \<and> on_course s (i # rest) p \<and> allows s p i
      | PEvict i rest \<Rightarrow> \<not> bclosed s \<and> on_course s (i # rest) p \<and> allows s p i \<and> backpressure (sub_of s i) = DropOldest
      | PRetry i rest \<Rightarrow> \<not> bclosed s \<and> account s (i # rest) p \<and> all_settled s (i # rest) p \<and> undropped rest p \<and>
          allows s p i \<and> backpressure (sub_of s i) = DropOldest
      | PBlocked i rest \<Rightarrow> on_course s (i # rest) p \<and> allows s p i \<and> backpressure (sub_of s i) = Block
      | PUnblock i rest \<Rightarrow> on_course s rest p \<and> i |\<in>| fmdom (objs s) \<and> backpressure (sub_of s i) = Block
      | PGiveUp i \<Rightarrow> account s [] p \<and> i |\<in>| fmdom (objs s) \<and> backpressure (sub_of s i) = Block
      | PRelock rest \<Rightarrow> on_course s rest p \<and> (\<exists>i. i |\<in>| fmdom (objs s) \<and> backpressure (sub_of s i) = Block)
      | PFire r \<Rightarrow> account s [] p \<and> (r = Published \<longrightarrow> all_settled s [] p)
      | PReturned r \<Rightarrow> account s [] p \<and> (r = Published \<longrightarrow> all_settled s [] p)
      | PPanic \<Rightarrow> True
      | _ \<Rightarrow> pmatched p = [] \<and> pdelivers p = [] \<and> pdrops p = [])"

lemma goto_simps [simp]:
  "account s td (goto q p) = account s td p" "all_settled s td (goto q p) = all_settled s td p"
  "undropped td (goto q p) = undropped td p" "on_course s td (goto q p) = on_course s td p"
  "allows s (goto q p) = allows s p" "pos (goto q p) = q" "penv (goto q p) = penv p" "pmatched (goto q p) = pmatched p"
  "pdelivers (goto q p) = pdelivers p" "pdrops (goto q p) = pdrops p"
  by (simp_all add: goto_def account_def all_settled_def undropped_def on_course_def allows_def settled_def fun_eq_iff)

lemma account_Nil: "account s td p \<Longrightarrow> account s [] p"
  by (auto simp: account_def)

lemma account_dom: "account s td p \<Longrightarrow> i \<in> set td \<Longrightarrow> i |\<in>| fmdom (objs s)"
  by (auto simp: account_def)

lemma account_start: "pmatched p = [] \<Longrightarrow> pdelivers p = [] \<Longrightarrow> pdrops p = [] \<Longrightarrow> account s [] p"
  by (simp add: account_def settled_def)

lemma settle_delivered:
  assumes "account s (i # rest) p" "all_settled s (i # rest) p" "undropped rest p" "allows s p i"
    "i \<notin> fst ` set (pdrops p) \<or> backpressure (sub_of s i) = DropOldest"
  shows "on_course s rest (deliver_cb i p)"
proof -
  obtain pre where m: "pmatched p = pre @ i # rest" using assms(1) by (auto simp: account_def)
  then have "i \<notin> set rest" using assms(1) by (auto simp: account_def)
  then show ?thesis
    using assms m by (auto simp: on_course_def account_def all_settled_def undropped_def deliver_cb_def settled_def allows_def)
qed

lemma settle_dropped:
  assumes "account s (i # rest) p" "all_settled s (i # rest) p" "undropped rest p" "allows s p i"
  shows "on_course s rest (drop_cb i r p)"
proof -
  obtain pre where m: "pmatched p = pre @ i # rest" using assms(1) by (auto simp: account_def)
  then have "i \<notin> set rest" using assms(1) by (auto simp: account_def)
  then show ?thesis
    using assms m by (auto simp: on_course_def account_def all_settled_def undropped_def drop_cb_def settled_def allows_def)
qed

lemma settle_skip: "on_course s (i # rest) p \<Longrightarrow> \<not> allows s p i \<Longrightarrow> on_course s rest p"
  by (auto simp: on_course_def account_def all_settled_def undropped_def)

lemma settle_evict:
  assumes "on_course s (i # rest) p" "allows s p i"
  shows "account s (i # rest) (drop_cb i r p)" "all_settled s (i # rest) (drop_cb i r p)" "undropped rest (drop_cb i r p)"
proof -
  obtain pre where m: "pmatched p = pre @ i # rest" using assms(1) by (auto simp: account_def on_course_def)
  then have "i \<notin> set rest" using assms(1) by (auto simp: account_def on_course_def)
  then show "account s (i # rest) (drop_cb i r p)" "all_settled s (i # rest) (drop_cb i r p)" "undropped rest (drop_cb i r p)"
    using assms m by (auto simp: on_course_def account_def all_settled_def undropped_def drop_cb_def settled_def allows_def)
qed

text \<open>Publishers rely only on what a subscription never changes.\<close>

definition keeps_subs :: "bus \<Rightarrow> bus \<Rightarrow> bool" where
  "keeps_subs s s' \<longleftrightarrow> (\<forall>i. i |\<in>| fmdom (objs s) \<longrightarrow> i |\<in>| fmdom (objs s') \<and>
     patternSegs (sub_of s' i) = patternSegs (sub_of s i) \<and> predicate (sub_of s' i) = predicate (sub_of s i) \<and>
     backpressure (sub_of s' i) = backpressure (sub_of s i))"

lemma keeps_subs_same: "same_subs s s' \<Longrightarrow> keeps_subs s s'"
  by (simp add: keeps_subs_def same_subs_of same_subs_dom)

lemma keeps_account:
  assumes "keeps_subs s s'" "account s td p"
  shows "account s' td p" "all_settled s td p \<Longrightarrow> all_settled s' td p" "on_course s td p \<Longrightarrow> on_course s' td p"
proof -
  have d: "set (pmatched p) \<subseteq> fset (fmdom (objs s))" using assms(2) by (simp add: account_def)
  have a: "allows s' p i = allows s p i" "patternMatches (sub_of s' i) = patternMatches (sub_of s i)"
      "backpressure (sub_of s' i) = backpressure (sub_of s i)" "i |\<in>| fmdom (objs s')" if "i \<in> set (pmatched p)" for i
    using assms(1) d that by (auto simp: keeps_subs_def allows_def predicateAllows_def patternMatches_def fun_eq_iff)
  have sub: "settled p \<subseteq> set (pmatched p)" using assms(2) by (auto simp: account_def)
  have b: "i \<in> settled p \<Longrightarrow> allows s p i" "i \<in> set (pdelivers p) \<Longrightarrow> i \<in> set (pmatched p)" for i
    using assms(2) by (auto simp: account_def settled_def)
  have "set (pmatched p) \<subseteq> fset (fmdom (objs s'))" using a(4) by blast
  moreover have "settled p \<subseteq> {i \<in> set (pmatched p). allows s' p i}" using a(1) b(1) sub by blast
  moreover have "\<forall>i \<in> set (pmatched p). patternMatches (sub_of s' i) (splitSubject (eSubject (penv p)))"
    using assms(2) a(2) by (simp add: account_def)
  moreover have "\<forall>i \<in> set (pdelivers p) \<inter> fst ` set (pdrops p). backpressure (sub_of s' i) = DropOldest"
    using assms(2) a(3) b(2) by (simp add: account_def)
  ultimately show A: "account s' td p" using assms(2) unfolding account_def by blast
  show B: "all_settled s td p \<Longrightarrow> all_settled s' td p"
    using a by (auto simp: all_settled_def)
  show "on_course s td p \<Longrightarrow> on_course s' td p"
    using A B by (simp add: on_course_def)
qed

lemma pub_ok_cong:
  assumes "keeps_subs s s'" "bclosed s' \<Longrightarrow> bclosed s \<or> \<not> holds_read (pos p)" "pub_ok s p"
  shows "pub_ok s' p"
proof -
  have o: "on_course s td p \<Longrightarrow> on_course s' td p" for td
    using keeps_account(3) [OF assms(1)] by (simp add: on_course_def)
  have al: "account s td p \<Longrightarrow> i \<in> set td \<Longrightarrow> allows s p i \<Longrightarrow> allows s' p i" for td i
    using assms(1) by (auto simp: keeps_subs_def allows_def predicateAllows_def dest: account_dom)
  have bp: "account s td p \<Longrightarrow> i \<in> set td \<Longrightarrow> backpressure (sub_of s' i) = backpressure (sub_of s i)" for td i
    using assms(1) by (auto simp: keeps_subs_def dest: account_dom)
  have bq: "i |\<in>| fmdom (objs s) \<Longrightarrow> i |\<in>| fmdom (objs s') \<and> backpressure (sub_of s' i) = backpressure (sub_of s i)" for i
    using assms(1) by (simp add: keeps_subs_def)
  have c: "\<not> bclosed s \<Longrightarrow> holds_read (pos p) \<Longrightarrow> \<not> bclosed s'" using assms(2) by blast
  note k = keeps_account(1,2) [OF assms(1)]
  show ?thesis
    using assms(3) unfolding pub_ok_def
    by (cases "pos p") (use o k al bp bq c in \<open>force simp: on_course_def\<close>)+
qed

definition cache_ok :: "bus \<Rightarrow> bool" where
  "cache_ok s \<longleftrightarrow> (routeCacheCap s = 0 \<longrightarrow> routeCache s = fmempty) \<and> (\<forall>subj l. fmlookup (routeCache s) subj = Some l \<longrightarrow> distinct l \<and>
     set l = {i. i |\<in>| subscribers s \<and> patternMatches (sub_of s i) (splitSubject subj)})"

lemma pub_ok_ahead: "pub_ok s p \<Longrightarrow> set (ahead (pos p)) \<subseteq> fset (fmdom (objs s))"
  by (cases "pos p") (auto simp: pub_ok_def on_course_def dest: account_dom)

lemma on_course_all:
  assumes "pmatched p = []" "pdelivers p = []" "pdrops p = []" "distinct l" "set l \<subseteq> fset (fmdom (objs s))"
    "\<forall>i \<in> set l. patternMatches (sub_of s i) (splitSubject (eSubject (penv p)))"
  shows "on_course s l (p\<lparr>pmatched := l\<rparr>)"
  using assms by (simp add: on_course_def account_def all_settled_def undropped_def settled_def)

lemma route_on_course:
  assumes "control_ok s" "cache_ok s" "pub_ok s p" "pos p = PFilled" "lookupRoute (eSubject (penv p)) s = Some l"
  shows "on_course s l (p\<lparr>pmatched := l\<rparr>)"
proof -
  have "distinct l \<and> set l = {i. i |\<in>| subscribers s \<and> patternMatches (sub_of s i) (splitSubject (eSubject (penv p)))}"
    using assms(2,5) unfolding cache_ok_def lookupRoute_def by (simp split: if_splits)
  then show ?thesis
    using assms(1,3,4) by (intro on_course_all) (auto simp: pub_ok_def dest: controlD(1))
qed

lemma scan_on_course:
  assumes "control_ok s" "pub_ok s p" "pos p = PMiss" "enumerates order (subscribers s)"
    "l = filter (\<lambda>i. patternMatches (sub_of s i) (splitSubject (eSubject (penv p)))) order"
  shows "on_course s l (p\<lparr>pmatched := l\<rparr>)"
  using assms(2,3) enumerates_set [OF assms(4)] controlD(1) [OF assms(1)] assms(4)
  unfolding assms(5) by (intro on_course_all) (auto simp: pub_ok_def enumerates_def)

lemma try_send_fst: "fst (try_send i e s) = (if chClosed (sub_of s i) then SendPanic
    else if length (chBuf (sub_of s i)) < chCap (sub_of s i) then Sent else Full)"
  by (simp add: try_send_def Let_def)

lemma send_or_drop_ok:
  assumes "send_or_drop i rest p s = (p', s')" "account s (i # rest) p" "all_settled s (i # rest) p" "undropped rest p"
    "allows s p i" "i \<notin> fst ` set (pdrops p) \<or> backpressure (sub_of s i) = DropOldest" "\<not> bclosed s"
  shows "pub_ok s p'"
  using assms(1) settle_delivered [OF assms(2-6)] settle_dropped [OF assms(2-5)] assms(7)
  by (auto simp: send_or_drop_def pub_ok_def split: prod.splits send_result.splits)

lemma publish_moves:
  assumes "control_ok s" "cache_ok s" "pub_ok s p" "publish_step c p s = Some (p', s')"
  shows "pub_ok s p'"
proof (cases "pos p")
  case PStart
  then show ?thesis using assms(3,4) by (auto simp: publish_step_def pub_begin_def pub_ok_def goto_def intro!: account_start split: if_splits)
next
  case PFilled
  then show ?thesis
    using assms(3,4) route_on_course [OF assms(1-3) PFilled]
    by (auto simp: publish_step_def pub_route_def pub_ok_def intro!: account_start split: if_splits option.splits)
next
  case PMiss
  then show ?thesis
    using assms(3,4) scan_on_course [OF assms(1,3) PMiss]
    by (auto simp: publish_step_def pub_scan_def pub_ok_def Let_def split: if_splits)
next
  case (PLoop rest)
  then have o: "on_course s rest p" "\<not> bclosed s" using assms(3) by (auto simp: pub_ok_def)
  show ?thesis
  proof (cases rest)
    case Nil
    then show ?thesis using assms(4) PLoop o by (auto simp: publish_step_def pub_ok_def on_course_def)
  next
    case (Cons i r)
    then have "on_course s r p" if "\<not> allows s p i" using o(1) that settle_skip by blast
    moreover have "on_course s r (drop_cb i DropReasonClosed p)" if "allows s p i"
      using o(1) that Cons by (intro settle_dropped) (auto simp: on_course_def undropped_def)
    ultimately show ?thesis using assms(4) PLoop Cons o
      by (auto simp: publish_step_def pub_ok_def allows_def split: if_splits)
  qed
next
  case (PSend i rest)
  then have o: "on_course s (i # rest) p" "\<not> bclosed s" "allows s p i" using assms(3) by (auto simp: pub_ok_def)
  then have a: "account s (i # rest) p" "all_settled s (i # rest) p" "undropped rest p" "i \<notin> fst ` set (pdrops p)"
    by (auto simp: on_course_def undropped_def)
  have "on_course s rest (deliver_cb i p)" "\<And>r. on_course s rest (drop_cb i r p)"
    using settle_delivered [OF a(1-3) o(3)] settle_dropped [OF a(1-3) o(3)] a(4) by auto
  moreover have "pub_ok s p''" if "send_or_drop i rest p s = (p'', s'')" for p'' s''
    using send_or_drop_ok [OF that a(1-3) o(3)] a(4) o(2) by blast
  ultimately show ?thesis
    using assms(4) PSend o
    by (auto simp: publish_step_def pub_send_def pub_ok_def split: BackpressurePolicy.splits prod.splits send_result.splits if_splits)
next
  case (PEvict i rest)
  then have o: "on_course s (i # rest) p" "allows s p i" "\<not> bclosed s" "backpressure (sub_of s i) = DropOldest"
    using assms(3) by (auto simp: pub_ok_def)
  have "undropped rest p" using o(1) by (auto simp: on_course_def undropped_def)
  then show ?thesis
    using assms(4) PEvict o settle_evict [OF o(1,2)]
    by (auto simp: publish_step_def pub_evict_def pub_ok_def Let_def allows_def drop_cb_def on_course_def split: if_splits)
next
  case (PRetry i rest)
  then show ?thesis
    using assms(3,4) send_or_drop_ok [of i rest p s p' s'] by (simp add: publish_step_def pub_ok_def)
next
  case (PBlocked i rest)
  then have o: "on_course s (i # rest) p" "allows s p i" "backpressure (sub_of s i) = Block" using assms(3) by (auto simp: pub_ok_def)
  then have a: "account s (i # rest) p" "all_settled s (i # rest) p" "undropped rest p" "i \<notin> fst ` set (pdrops p)"
    by (auto simp: on_course_def undropped_def)
  have "on_course s rest (deliver_cb i p)" "\<And>r. on_course s rest (drop_cb i r p)" "account s [] p" "i |\<in>| fmdom (objs s)"
    using settle_delivered [OF a(1-3) o(2)] settle_dropped [OF a(1-3) o(2)] a(4) account_Nil [OF a(1)] account_dom [OF a(1)] by auto
  then show ?thesis
    using assms(4) PBlocked o
    by (auto simp: publish_step_def pub_select_def pub_ok_def split: sel.splits prod.splits send_result.splits if_splits)
next
  case (PUnblock i rest)
  then show ?thesis using assms(3,4) by (auto simp: publish_step_def pub_ok_def)
next
  case (PGiveUp i)
  then show ?thesis using assms(3,4) by (auto simp: publish_step_def pub_ok_def)
next
  case (PRelock rest)
  then show ?thesis
    using assms(3,4) by (auto simp: publish_step_def pub_relock_def pub_ok_def on_course_def intro: account_Nil split: if_splits)
next
  case (PFire r)
  then show ?thesis using assms(3,4) by (auto simp: publish_step_def pub_fire_def pub_ok_def)
qed (use assms(4) in \<open>simp_all add: publish_step_def\<close>)

subsection \<open>The wait groups\<close>

definition closing_done :: "bclose \<Rightarrow> bool" where
  "closing_done b \<longleftrightarrow> (case b of BEach l \<Rightarrow> True | BClosed \<Rightarrow> True | _ \<Rightarrow> False)"

definition counts_ok :: "bus \<Rightarrow> bool" where
  "counts_ok s \<longleftrightarrow> inflight s = fm_count (\<lambda>p. in_flight (pos p)) (pubs s) \<and>
     (\<not> crashed s \<longrightarrow> (\<forall>i. i |\<in>| fmdom (objs s) \<longrightarrow>
       senders (sub_of s i) = fm_count (\<lambda>p. sends_to i (pos p)) (pubs s))) \<and>
     (closing_done (bcloser s) \<longrightarrow> inflight s = 0)"

lemma inflight_step:
  assumes "publish_step c p s = Some (p', s')" "in_flight (pos p) \<Longrightarrow> inflight s > 0"
  shows "inflight s' + (if in_flight (pos p) then 1 else 0) = inflight s + (if in_flight (pos p') then 1 else 0)"
proof (cases "pos p")
  case (PLoop rest)
  then show ?thesis using assms by (cases rest) (auto simp: pub_defs split: pub_splits)
qed (use assms in \<open>auto simp: pub_defs split: pub_splits\<close>)

lemma senders_step:
  assumes "publish_step c p s = Some (p', s')" "pos p' \<noteq> PPanic" "sends_to i (pos p) \<Longrightarrow> senders (sub_of s i) > 0"
  shows "senders (sub_of s' i) + (if sends_to i (pos p) then 1 else 0) =
    senders (sub_of s i) + (if sends_to i (pos p') then 1 else 0)"
proof -
  have f [simp]: "sub_of (s\<lparr>bdropped := n\<rparr>) j = sub_of s j" "sub_of (s\<lparr>routeCache := rc\<rparr>) j = sub_of s j"
     "sub_of (fireObserver now dbg p s) j = sub_of s j" for s n rc now dbg p j
    by (simp_all add: sub_of_def)
  show ?thesis
  proof (cases "pos p")
    case (PLoop rest)
    then show ?thesis using assms by (cases rest) (auto simp: pub_defs split: pub_splits)
  qed (use assms in \<open>auto simp: pub_defs split: pub_splits\<close>)
qed

lemma begins_open: "publish_step c p s = Some (p', s') \<Longrightarrow> in_flight (pos p') \<Longrightarrow> in_flight (pos p) \<or> \<not> bclosed s"
  by (cases "pos p") (auto simp: publish_step_def pub_begin_def goto_def split: if_splits)

lemma crashed_upd: "crashed (s\<lparr>pubs := fmupd t p' ps\<rparr>) \<longleftrightarrow>
    pos p' = PPanic \<or> (\<exists>u p. u \<noteq> t \<and> fmlookup ps u = Some p \<and> pos p = PPanic)"
  by (auto simp: crashed_iff)

lemma publish_counts:
  assumes ok: "counts_ok s" and c: "control_ok s" and nc: "\<not> crashed s" and p: "fmlookup (pubs s) t = Some p"
    and st: "publish_step ch p s = Some (p', s')" and dom: "fmdom (objs s') = fmdom (objs s)"
  shows "counts_ok (s'\<lparr>pubs := fmupd t p' (pubs s)\<rparr>)"
proof -
  have fr: "bcloser s' = bcloser s" using publish_frame [OF st] by simp
  have n: "inflight s = fm_count (\<lambda>p. in_flight (pos p)) (pubs s)" using ok by (simp add: counts_ok_def)
  have pos1: "in_flight (pos p) \<Longrightarrow> inflight s > 0"
    using fm_count_pos [OF p, of "\<lambda>p. in_flight (pos p)"] n by simp
  have i: "inflight s' = fm_count (\<lambda>p. in_flight (pos p)) (fmupd t p' (pubs s))"
    using inflight_step [OF st pos1] fm_count_upd [OF p, of "\<lambda>p. in_flight (pos p)" p'] n by simp
  have "senders (sub_of s' j) = fm_count (\<lambda>p. sends_to j (pos p)) (fmupd t p' (pubs s))"
    if "j |\<in>| fmdom (objs s)" "pos p' \<noteq> PPanic" for j
  proof -
    have e: "senders (sub_of s j) = fm_count (\<lambda>p. sends_to j (pos p)) (pubs s)" using ok nc that(1) by (simp add: counts_ok_def)
    then have "sends_to j (pos p) \<Longrightarrow> senders (sub_of s j) > 0"
      using fm_count_pos [OF p, of "\<lambda>p. sends_to j (pos p)"] by simp
    from senders_step [OF st that(2) this] fm_count_upd [OF p, of "\<lambda>p. sends_to j (pos p)" p'] e show ?thesis by simp
  qed
  moreover have "inflight s' = 0" if "closing_done (bcloser s)"
  proof -
    have z: "inflight s = 0" and "bclosed s" using ok that controlD(4) [OF c] by (auto simp: counts_ok_def closing_done_def split: bclose.splits)
    moreover from z have "\<not> in_flight (pos p)" using pos1 by auto
    ultimately have "\<not> in_flight (pos p')" using begins_open [OF st] by blast
    then show ?thesis using inflight_step [OF st pos1] z \<open>\<not> in_flight (pos p)\<close> by simp
  qed
  ultimately show ?thesis
    using i by (auto simp: counts_ok_def crashed_upd fr dom)
qed

subsection \<open>The bus invariant\<close>

definition bus_ok :: "bus \<Rightarrow> bool" where
  "bus_ok s \<longleftrightarrow> control_ok s \<and> cache_ok s \<and> counts_ok s \<and> (\<forall>t p. fmlookup (pubs s) t = Some p \<longrightarrow> pub_ok s p)"

lemma publish_cache:
  assumes "cache_ok s" "control_ok s" "same_subs s s'" "publish_step c p s = Some (p', s')"
  shows "cache_ok s'"
proof -
  have fr: "subscribers s' = subscribers s" using publish_frame [OF assms(4)] by simp
  have m: "i |\<in>| subscribers s \<Longrightarrow> patternMatches (sub_of s' i) = patternMatches (sub_of s i)" for i
    using same_subs_of(1) [OF assms(3)] controlD(1) [OF assms(2)] by (simp add: patternMatches_def fun_eq_iff)
  have z: "routeCache s' = fmempty" if "routeCacheCap s = 0"
  proof (cases "pos p")
    case (PLoop rest)
    with assms(1,4) that show ?thesis by (cases rest) (auto simp: pub_defs cache_ok_def split: pub_splits)
  qed (use assms(1,4) that in \<open>auto simp: pub_defs cache_ok_def split: pub_splits\<close>)
  have "distinct l \<and> set l = {i. i |\<in>| subscribers s \<and> patternMatches (sub_of s i) (splitSubject subj)}"
    if "fmlookup (routeCache s') subj = Some l" for subj l
  proof (cases "pos p")
    case PMiss
    with assms(4) that show ?thesis
      using assms(1) enumerates_set [of "cOrder c" "subscribers s"]
      by (auto simp: publish_step_def pub_scan_def storeRoute_def cache_ok_def Let_def enumerates_def split: if_splits)
  next
    case (PLoop rest)
    with assms(1,4) that show ?thesis by (cases rest) (auto simp: pub_defs cache_ok_def split: pub_splits)
  qed (use assms(1,4) that in \<open>auto simp: pub_defs cache_ok_def split: pub_splits\<close>)
  then show ?thesis unfolding cache_ok_def fr using m z publish_frame [OF assms(4)] by (auto 0 3)
qed

end
