(* ===== verification/Bus_Props.thy ===== *)
theory Bus_Props
  imports Bus_Publish
begin

text \<open>
  The theorems of the event bus: its invariant holds in every reachable state, so the route cache answers as a
  scan of the subscriptions would and a publication settles every subscription it reaches. Closing the bus
  always completes. Sending on a closed channel is impossible as long as no subscription blocks its
  publishers or none is closed on its own, and it is possible when both happen.
\<close>

subsection \<open>The invariant\<close>

lemma bus_ok_publish:
  assumes ok: "bus_ok s" and nc: "\<not> crashed s" and p: "fmlookup (pubs s) t = Some p"
    and st: "publish_step c p s = Some (p', s')"
  shows "bus_ok (s'\<lparr>pubs := fmupd t p' (pubs s)\<rparr>)"
proof -
  let ?s = "s'\<lparr>pubs := fmupd t p' (pubs s)\<rparr>"
  have C: "control_ok s" and H: "cache_ok s" and N: "counts_ok s" and P: "\<And>t p. fmlookup (pubs s) t = Some p \<Longrightarrow> pub_ok s p"
    using ok by (auto simp: bus_ok_def)
  have same: "same_subs s s'" using publish_same_subs [OF st pub_ok_ahead [OF P [OF p]]] .
  note fr = publish_frame [OF st]
  have k: "keeps_subs s ?s" by (rule keeps_subs_same) (simp add: same)
  have "control_ok ?s" by (rule control_cong [OF C]) (use same fr in simp_all)
  moreover have "cache_ok ?s" using publish_cache [OF H C same st] by (simp add: cache_ok_def)
  moreover have "counts_ok ?s" by (rule publish_counts [OF N C nc p st same_subs_dom [OF same]])
  moreover have "pub_ok ?s q" if "fmlookup (pubs ?s) u = Some q" for u q
  proof (rule pub_ok_cong [OF k])
    show "pub_ok s q" using that P publish_moves [OF C H P [OF p] st] by (auto split: if_splits)
  qed (use fr in simp)
  ultimately show ?thesis by (simp add: bus_ok_def)
qed

text \<open>Steps that leave the publishers and the senders alone.\<close>

lemma bus_ok_others:
  assumes ok: "bus_ok s" and C: "control_ok s'" and H: "cache_ok s'" and pubs: "pubs s' = pubs s" "inflight s' = inflight s"
    and k: "keeps_subs s s'" "\<And>i. i |\<in>| fmdom (objs s) \<Longrightarrow> senders (sub_of s' i) = senders (sub_of s i)"
    and new: "\<And>i. i |\<in>| fmdom (objs s') \<Longrightarrow> i |\<notin>| fmdom (objs s) \<Longrightarrow> senders (sub_of s' i) = 0"
    and closed: "bclosed s' \<Longrightarrow> bclosed s \<or> no_readers s" and fin: "closing_done (bcloser s') \<Longrightarrow> inflight s = 0"
  shows "bus_ok s'"
proof -
  have P: "\<And>t p. fmlookup (pubs s) t = Some p \<Longrightarrow> pub_ok s p" and N: "counts_ok s" using ok by (auto simp: bus_ok_def)
  have "pub_ok s' p" if "fmlookup (pubs s) t = Some p" for t p
    using pub_ok_cong [OF k(1) _ P [OF that]] closed that by (auto simp: no_readers_iff)
  moreover have "fm_count (\<lambda>p. sends_to i (pos p)) (pubs s) = 0" if "i |\<notin>| fmdom (objs s)" for i
  proof -
    have "\<not> sends_to i (pos p)" if "fmlookup (pubs s) t = Some p" for t p
      using pub_ok_ahead [OF P [OF that]] \<open>i |\<notin>| fmdom (objs s)\<close> by (cases "pos p") auto
    then show ?thesis by (simp add: fm_count_zero)
  qed
  then have "senders (sub_of s' i) = fm_count (\<lambda>p. sends_to i (pos p)) (pubs s)" if "i |\<in>| fmdom (objs s')" "\<not> crashed s" for i
    using N k(2) [of i] new [OF that(1)] that(2) by (cases "i |\<in>| fmdom (objs s)") (auto simp: counts_ok_def)
  moreover have "crashed s' = crashed s" by (simp add: crashed_iff pubs)
  ultimately show ?thesis
    using N C H fin by (auto simp: bus_ok_def counts_ok_def pubs)
qed

lemma cache_ok_cleared [intro]:
  "cache_ok s \<Longrightarrow> routeCache s1 = routeCache s \<Longrightarrow> routeCacheCap s1 = routeCacheCap s \<Longrightarrow> cache_ok (clearRouteCache s1)"
  by (auto simp: cache_ok_def clearRouteCache_def)

lemma cache_ok_upd_sub [simp]:
  assumes "\<And>m. patternSegs (f m) = patternSegs m"
  shows "cache_ok (upd_sub i f s) = cache_ok s"
proof -
  have "patternMatches (sub_of (upd_sub i f s) j) = patternMatches (sub_of s j)" for j
    by (simp add: patternMatches_def fun_eq_iff assms)
  then show ?thesis by (simp add: cache_ok_def)
qed

lemma cache_ok_ignores [simp]:
  "cache_ok (s\<lparr>bcloser := b\<rparr>) = cache_ok s" "cache_ok (s\<lparr>closers := ks\<rparr>) = cache_ok s" "cache_ok (s\<lparr>pubs := ps\<rparr>) = cache_ok s"
  "cache_ok (s\<lparr>observer := ob\<rparr>) = cache_ok s"
  by (simp_all add: cache_ok_def sub_of_def)

lemma sub_of_closed [simp]: "sub_of (s\<lparr>bclosed := c\<rparr>) i = sub_of s i"
  by (simp add: sub_of_def)

lemma keeps_upd_sub:
  "i |\<in>| fmdom (objs s) \<Longrightarrow> (\<And>m. patternSegs (f m) = patternSegs m \<and> predicate (f m) = predicate m \<and> backpressure (f m) = backpressure m) \<Longrightarrow>
   keeps_subs s (upd_sub i f s)"
  by (simp add: keeps_subs_def)

lemma keeps_objs: "objs s' = objs s \<Longrightarrow> keeps_subs s s'"
  by (simp add: keeps_subs_def sub_of_def)

lemma bus_ok_sub_close:
  assumes ok: "bus_ok s" and k: "fmlookup (closers s) t = Some k" and st: "sub_close_step k s = Some (k', s')"
  shows "bus_ok (s'\<lparr>closers := fmupd t k' (closers s)\<rparr>)"
proof -
  have C: "control_ok s" and H: "cache_ok s" and N: "counts_ok s" using ok by (auto simp: bus_ok_def)
  have i: "csub k |\<in>| fmdom (objs s)" using controlD(6) [OF C k] .
  have "pubs s' = pubs s \<and> inflight s' = inflight s \<and> bclosed s' = bclosed s \<and> bcloser s' = bcloser s \<and> fmdom (objs s') = fmdom (objs s)"
    using st i by (auto simp: sub_close_step_def signalClose_def closeChan_def finsert_absorb split: cpos.splits if_splits)
  moreover have "cache_ok s'"
    using st H by (auto simp: sub_close_step_def signalClose_def closeChan_def removeSub_def split: cpos.splits if_splits)
  moreover have "keeps_subs s s'" "\<And>j. senders (sub_of s' j) = senders (sub_of s j)"
    using st i by (auto simp: sub_close_step_def signalClose_def closeChan_def intro: keeps_upd_sub keeps_objs split: cpos.splits if_splits)
  ultimately show ?thesis
    using sub_close_control [OF C k st] N ok
    by (intro bus_ok_others [OF ok]) (auto simp: counts_ok_def keeps_subs_def)
qed

lemma bus_ok_bus_close:
  assumes ok: "bus_ok s" and st: "bus_close_step order s = Some s'"
  shows "bus_ok s'"
proof -
  have C: "control_ok s" and H: "cache_ok s" and N: "counts_ok s" using ok by (auto simp: bus_ok_def)
  have i: "bcloser s = BSignal (i # js) subs \<or> bcloser s = BEach (i # js) \<Longrightarrow> i |\<in>| fmdom (objs s)" for i js subs
    using controlD(10,11) [OF C, of i] by auto
  have f: "pubs s' = pubs s" "inflight s' = inflight s" "fmdom (objs s') = fmdom (objs s)" "cache_ok s'" "keeps_subs s s'"
    "senders (sub_of s' j) = senders (sub_of s j)" for j
    using st H i by (auto simp: bus_close_step_def signalClose_def closeChan_def finsert_absorb keeps_subs_def split: bclose.splits if_splits list.splits)
  have "bclosed s' \<Longrightarrow> bclosed s \<or> no_readers s" "closing_done (bcloser s') \<Longrightarrow> inflight s = 0"
    using st N by (auto simp: bus_close_step_def signalClose_def closeChan_def closing_done_def counts_ok_def
      split: bclose.splits if_splits list.splits)
  then show ?thesis
    using bus_close_control [OF C st] f by (intro bus_ok_others [OF ok]) auto
qed

lemma bus_ok_Subscribe:
  assumes ok: "bus_ok s" and st: "Subscribe pattern opts s = (r, s')"
  shows "bus_ok s'"
  using st
proof (cases rule: Subscribe_cases)
  case (added i)
  have C: "control_ok s" and H: "cache_ok s" and N: "counts_ok s" using ok by (auto simp: bus_ok_def)
  have n: "i |\<notin>| fmdom (objs s)" using controlD(2) [OF C, of i] added(2) by auto
  have o: "sub_of s' j = (if j = i then new_memSub pattern (sub_options opts) else sub_of s j)" for j
    using added by (simp add: sub_of_def)
  have "cache_ok s'"
    using H unfolding added(4) by (simp add: cache_ok_def clearRouteCache_def)
  moreover have f: "fmdom (objs s') = finsert i (fmdom (objs s))" "pubs s' = pubs s" "inflight s' = inflight s"
    "bclosed s' = bclosed s" "bcloser s' = bcloser s"
    using added(4) by simp_all
  moreover have "keeps_subs s s'" using n f unfolding keeps_subs_def o by auto
  moreover have "closing_done (bcloser s) \<Longrightarrow> inflight s = 0" using N by (simp add: counts_ok_def)
  ultimately show ?thesis
    using Subscribe_control [OF C st] n by (intro bus_ok_others [OF ok]) (auto simp: o)
qed (use ok in simp)

lemma bus_ok_quiet:
  assumes "bus_ok s" "same_subs s s'" "subscribers s' = subscribers s" "subSeq s' = subSeq s" "bclosed s' = bclosed s"
    "bcloser s' = bcloser s" "closers s' = closers s" "pubs s' = pubs s" "inflight s' = inflight s" "cache_ok s'"
    "\<And>j. senders (sub_of s' j) = senders (sub_of s j)"
  shows "bus_ok s'"
proof (rule bus_ok_others [OF assms(1)])
  show "control_ok s'" using assms by (intro control_cong [of s s']) (auto simp: bus_ok_def)
  show "closing_done (bcloser s') \<Longrightarrow> inflight s = 0" using assms(1,6) by (auto simp: bus_ok_def counts_ok_def)
qed (use assms keeps_subs_same same_subs_dom in auto)

lemma bus_ok_Publish:
  assumes ok: "bus_ok s" and n: "fmlookup (pubs s) t = None"
  shows "bus_ok (s\<lparr>pubs := fmupd t (newPublisher env) (pubs s)\<rparr>)"
proof -
  let ?s = "s\<lparr>pubs := fmupd t (newPublisher env) (pubs s)\<rparr>"
  have C: "control_ok s" and H: "cache_ok s" and N: "counts_ok s" and P: "\<And>t p. fmlookup (pubs s) t = Some p \<Longrightarrow> pub_ok s p"
    using ok by (auto simp: bus_ok_def)
  have "control_ok ?s" by (rule control_cong [OF C]) simp_all
  moreover have "crashed ?s = crashed s"
    unfolding crashed_upd unfolding crashed_iff using n by (metis newPublisher_def option.distinct(1) ppos.distinct(25) publisher.select_convs(1))
  then have "counts_ok ?s"
    using N n by (auto simp: counts_ok_def fm_count_new newPublisher_def)
  moreover have "pub_ok ?s p" if "fmlookup (pubs ?s) u = Some p" for u p
  proof (rule pub_ok_cong [of s])
    show "pub_ok s p" using that P by (auto simp: pub_ok_def newPublisher_def split: if_splits)
  qed (simp_all add: keeps_objs)
  ultimately show ?thesis using H by (simp add: bus_ok_def)
qed

lemma bus_ok_sub_Close:
  assumes ok: "bus_ok s" and n: "fmlookup (closers s) t = None" and i: "i |\<in>| fmdom (objs s)"
  shows "bus_ok (s\<lparr>closers := fmupd t \<lparr>cpos = CRemove, csub = i\<rparr> (closers s)\<rparr>)"
proof (rule bus_ok_others [OF ok])
  let ?s = "s\<lparr>closers := fmupd t \<lparr>cpos = CRemove, csub = i\<rparr> (closers s)\<rparr>"
  have C: "control_ok s" and N: "counts_ok s" using ok by (auto simp: bus_ok_def)
  note D = controlD [OF C]
  have "past_remove (closers s) j \<Longrightarrow> past_remove (closers ?s) j" for j
    using n unfolding past_remove_def by (metis (no_types, lifting) bus.select_convs bus.surjective bus.update_convs fmupd_lookup option.distinct(1))
  then show "control_ok ?s"
    by (intro controlI) (use D(13) i in \<open>auto simp: D(4) intro: D(1,2,6,8,9,10,11,12) dest: D(3,5,7,9) split: if_splits\<close>)
  show "closing_done (bcloser ?s) \<Longrightarrow> inflight s = 0" using N by (simp add: counts_ok_def)
qed (use ok in \<open>auto simp: bus_ok_def keeps_objs\<close>)

lemma bus_ok_step:
  assumes "bus_ok s" "bus_step s s'"
  shows "bus_ok s'"
  using assms(2)
proof cases
  case step_work
  then show ?thesis using assms(1) by cases (auto intro: bus_ok_publish bus_ok_sub_close bus_ok_bus_close)
next
  case (step_receive i e)
  then have "s' = upd_sub i (\<lambda>m. m\<lparr>chBuf := tl (chBuf (sub_of s i))\<rparr>) s" by (auto simp: receive_def split: list.splits)
  then show ?thesis
    using step_receive assms(1) by (intro bus_ok_quiet [OF assms(1)]) (auto simp: bus_ok_def fixed_def)
next
  case (step_AttachObserver obs ok)
  then have "s' = s \<or> (\<exists>ob. s' = s\<lparr>observer := ob\<rparr>)" by (auto simp: AttachObserver_def split: option.splits if_splits)
  moreover have "bus_ok (s\<lparr>observer := ob\<rparr>)" for ob
    by (rule bus_ok_quiet [OF assms(1)]) (use assms(1) in \<open>simp_all add: bus_ok_def sub_of_def\<close>)
  ultimately show ?thesis using assms(1) by auto
qed (use assms(1) in \<open>auto intro: bus_ok_Publish bus_ok_Subscribe bus_ok_sub_Close bus_ok_bus_close\<close>)

lemma bus_ok_init: "bus_init s \<Longrightarrow> bus_ok s"
  by (auto simp: bus_init_def NewMemoryBus_def bus_ok_def control_defs cache_ok_def counts_ok_def closing_done_def)

interpretation bus_inv: invariant_system bus_init bus_step bus_ok
  by unfold_locales (auto intro: bus_ok_init bus_ok_step)

end
