(* ===== verification/Bus_Close.thy ===== *)
theory Bus_Close
  imports Bus_Props
begin

text \<open>
  Closing and the event bus: when a send on a closed channel is excluded, that it is possible otherwise, and that
  closing the bus completes.
\<close>

subsection \<open>Sends are safe without blocking subscriptions or without separate closes\<close>

definition gentle :: "bus \<Rightarrow> bool" where
  "gentle s \<longleftrightarrow> (\<forall>i. i |\<in>| fmdom (objs s) \<longrightarrow> backpressure (sub_of s i) \<noteq> Block) \<or> closers s = fmempty"

fun parked :: "ppos \<Rightarrow> nat list option" where
  "parked (PBlocked i rest) = Some rest"
| "parked (PUnblock i rest) = Some rest"
| "parked (PRelock rest) = Some rest"
| "parked _ = None"

definition guarded :: "bus \<Rightarrow> ppos \<Rightarrow> bool" where
  "guarded s q \<longleftrightarrow> q \<noteq> PPanic \<and> (holds_read q \<longrightarrow> set (ahead q) \<subseteq> fset (subscribers s)) \<and>
     (\<forall>rest. parked q = Some rest \<longrightarrow> bclosed s \<or> set rest \<subseteq> fset (subscribers s))"

definition guard_ok :: "bus \<Rightarrow> bool" where
  "guard_ok s \<longleftrightarrow> (gentle s \<longrightarrow> (\<forall>t p. fmlookup (pubs s) t = Some p \<longrightarrow> guarded s (pos p)) \<and>
     (closers s = fmempty \<longrightarrow> (\<forall>i. i |\<in>| fmdom (objs s) \<longrightarrow> chClosed (sub_of s i) \<longrightarrow> closing_done (bcloser s))))"

lemma gentle_anti:
  assumes "gentle s'" "keeps_subs s s'" "closers s' = fmempty \<Longrightarrow> closers s = fmempty"
  shows "gentle s"
  using assms unfolding gentle_def keeps_subs_def by metis

lemma parked_block: "pub_ok s p \<Longrightarrow> parked (pos p) = Some rest \<Longrightarrow> \<exists>i. i |\<in>| fmdom (objs s) \<and> backpressure (sub_of s i) = Block"
  by (cases "pos p") (auto simp: pub_ok_def on_course_def dest: account_dom)

lemma guarded_moves:
  assumes ok: "bus_ok s" and g: "gentle s" "guard_ok s" and p: "fmlookup (pubs s) t = Some p"
    and st: "publish_step c p s = Some (p', s')"
  shows "guarded s (pos p')"
proof -
  have C: "control_ok s" and H: "cache_ok s" and N: "counts_ok s" and P: "pub_ok s p" using ok p by (auto simp: bus_ok_def)
  have G: "guarded s (pos p)" using g p by (simp add: guard_ok_def)
  have live: "\<not> chClosed (sub_of s i)" if "i |\<in>| subscribers s" for i
    using controlD(1,3) [OF C] that by blast
  show ?thesis
  proof (cases "pos p")
    case PFilled
    have "set l \<subseteq> fset (subscribers s)" if "lookupRoute (eSubject (penv p)) s = Some l" for l
      using H that by (auto simp: cache_ok_def lookupRoute_def split: if_splits)
    then show ?thesis using st PFilled
      by (auto simp: publish_step_def pub_route_def guarded_def split: if_splits option.splits)
  next
    case PMiss
    have "set (cOrder c) \<subseteq> fset (subscribers s)" if "enumerates (cOrder c) (subscribers s)"
      using enumerates_set [OF that] by blast
    then show ?thesis using st PMiss
      by (auto simp: publish_step_def pub_scan_def guarded_def Let_def split: if_splits)
  next
    case (PLoop rest)
    then show ?thesis using st G by (cases rest) (auto simp: publish_step_def guarded_def split: if_splits)
  next
    case (PSend i rest)
    then have "\<not> chClosed (sub_of s i)" using G live by (simp add: guarded_def)
    then show ?thesis using st G PSend
      by (auto simp: publish_step_def pub_send_def send_or_drop_def try_send_def guarded_def Let_def split: BackpressurePolicy.splits if_splits)
  next
    case (PRetry i rest)
    then have "\<not> chClosed (sub_of s i)" using G live by (simp add: guarded_def)
    then show ?thesis using st G PRetry
      by (auto simp: publish_step_def send_or_drop_def try_send_def guarded_def Let_def split: if_splits)
  next
    case (PBlocked i rest)
    then have b: "i |\<in>| fmdom (objs s)" "backpressure (sub_of s i) = Block" using P
      by (auto simp: pub_ok_def on_course_def dest: account_dom)
    then have e: "closers s = fmempty" using g(1) by (auto simp: gentle_def)
    have "inflight s > 0" using N fm_count_pos [OF p, of "\<lambda>p. in_flight (pos p)"] PBlocked by (simp add: counts_ok_def)
    then have "\<not> closing_done (bcloser s)" using N by (auto simp: counts_ok_def)
    then have "\<not> chClosed (sub_of s i)" using g b(1) e unfolding guard_ok_def by blast
    then show ?thesis using st G PBlocked
      by (auto simp: publish_step_def pub_select_def try_send_def guarded_def Let_def split: sel.splits if_splits)
  next
    case (PRelock rest)
    then show ?thesis using st G by (auto simp: publish_step_def pub_relock_def guarded_def split: if_splits)
  qed (use st G in \<open>simp_all add: publish_step_def pub_begin_def pub_evict_def pub_fire_def guarded_def Let_def split: if_splits\<close>,
    use G in \<open>auto simp: guarded_def\<close>)
qed

lemma guard_ok_publish:
  assumes ok: "bus_ok s" and g: "guard_ok s" and p: "fmlookup (pubs s) t = Some p"
    and st: "publish_step c p s = Some (p', s')"
  shows "guard_ok (s'\<lparr>pubs := fmupd t p' (pubs s)\<rparr>)"
proof -
  let ?s = "s'\<lparr>pubs := fmupd t p' (pubs s)\<rparr>"
  have P: "pub_ok s p" using ok p by (auto simp: bus_ok_def)
  have same: "same_subs s ?s" using publish_same_subs [OF st pub_ok_ahead [OF P]] by simp
  note fr = publish_frame [OF st]
  have "gentle s" if "gentle ?s"
    using gentle_anti [OF that keeps_subs_same [OF same]] fr by simp
  moreover have "guarded ?s q = guarded s q" for q by (simp add: guarded_def fr)
  ultimately show ?thesis
    using g guarded_moves [OF ok _ g p st] fr same_subs_dom [OF same] same_subs_of(4) [OF same]
    by (auto simp: guard_ok_def split: if_splits)
qed

text \<open>Steps of other goroutines.\<close>

lemma guard_ok_others:
  assumes ok: "bus_ok s" and g: "guard_ok s" and f: "pubs s' = pubs s" "keeps_subs s s'"
    "closers s' = fmempty \<Longrightarrow> closers s = fmempty"
    and subs: "no_readers s \<or> fset (subscribers s) \<subseteq> fset (subscribers s')"
    and shut: "closers s \<noteq> fmempty \<or> bclosed s' \<or> fset (subscribers s) \<subseteq> fset (subscribers s')" "bclosed s \<Longrightarrow> bclosed s'"
    and ch: "closers s' = fmempty \<Longrightarrow> (\<And>i. i |\<in>| fmdom (objs s) \<Longrightarrow> chClosed (sub_of s i) \<Longrightarrow> closing_done (bcloser s)) \<Longrightarrow>
      (\<And>i. i |\<in>| fmdom (objs s') \<Longrightarrow> chClosed (sub_of s' i) \<Longrightarrow> closing_done (bcloser s'))"
  shows "guard_ok s'"
  unfolding guard_ok_def
proof (intro impI conjI allI)
  assume g': "gentle s'"
  have gs: "gentle s" by (rule gentle_anti [OF g' f(2,3)])
  show "guarded s' (pos p)" if "fmlookup (pubs s') t = Some p" for t p
  proof -
    have p: "fmlookup (pubs s) t = Some p" "guarded s (pos p)" "pub_ok s p"
      using that f(1) g gs ok by (auto simp: guard_ok_def bus_ok_def)
    have "closers s = fmempty" if "parked (pos p) = Some rest" for rest
      using parked_block [OF p(3) that] gs by (auto simp: gentle_def)
    moreover have "\<not> holds_read (pos p)" if "no_readers s" using that p(1) by (simp add: no_readers_iff)
    ultimately show ?thesis using p(2) subs shut unfolding guarded_def by blast
  qed
  show "closing_done (bcloser s')" if "closers s' = fmempty" "i |\<in>| fmdom (objs s')" "chClosed (sub_of s' i)" for i
    using ch [OF that(1) _ that(2,3)] g gs f(3) [OF that(1)] by (auto simp: guard_ok_def)
qed

lemma guard_ok_sub_close:
  assumes ok: "bus_ok s" and g: "guard_ok s" and k: "fmlookup (closers s) t = Some k" and st: "sub_close_step k s = Some (k', s')"
  shows "guard_ok (s'\<lparr>closers := fmupd t k' (closers s)\<rparr>)"
proof (rule guard_ok_others [OF ok g])
  let ?s = "s'\<lparr>closers := fmupd t k' (closers s)\<rparr>"
  have i: "csub k |\<in>| fmdom (objs s)" using ok k controlD(6) by (auto simp: bus_ok_def)
  have ne: "closers s \<noteq> fmempty" "closers ?s \<noteq> fmempty" using k by auto
  show "pubs ?s = pubs s" "no_readers s \<or> fset (subscribers s) \<subseteq> fset (subscribers ?s)" "bclosed s \<Longrightarrow> bclosed ?s"
    using st by (auto simp: sub_close_step_def signalClose_def closeChan_def split: cpos.splits if_splits)
  show "keeps_subs s ?s"
    using st i by (auto simp: sub_close_step_def signalClose_def closeChan_def keeps_subs_def split: cpos.splits if_splits)
  show "closers s \<noteq> fmempty \<or> bclosed ?s \<or> fset (subscribers s) \<subseteq> fset (subscribers ?s)" using ne by simp
qed (use k in auto)

lemma guard_ok_bus_close:
  assumes ok: "bus_ok s" and g: "guard_ok s" and st: "bus_close_step order s = Some s'"
  shows "guard_ok s'"
proof (rule guard_ok_others [OF ok g])
  have i: "bcloser s = BSignal (i # js) subs \<or> bcloser s = BEach (i # js) \<Longrightarrow> i |\<in>| fmdom (objs s)" for i js subs
    using ok controlD(10,11) [of s i] by (auto simp: bus_ok_def)
  show "pubs s' = pubs s" "no_readers s \<or> fset (subscribers s) \<subseteq> fset (subscribers s')" "bclosed s \<Longrightarrow> bclosed s'"
    "closers s' = fmempty \<Longrightarrow> closers s = fmempty" "closers s \<noteq> fmempty \<or> bclosed s' \<or> fset (subscribers s) \<subseteq> fset (subscribers s')"
    using st by (auto simp: bus_close_step_def signalClose_def closeChan_def split: bclose.splits list.splits if_splits)
  show "keeps_subs s s'"
    using st i by (auto simp: bus_close_step_def signalClose_def closeChan_def keeps_subs_def split: bclose.splits list.splits if_splits)
  have "closing_done (bcloser s) \<Longrightarrow> closing_done (bcloser s')" "fmdom (objs s') = fmdom (objs s)"
    "\<not> closing_done (bcloser s) \<Longrightarrow> chClosed (sub_of s' i) = chClosed (sub_of s i)" for i
    using st i by (auto simp: bus_close_step_def signalClose_def closeChan_def closing_done_def finsert_absorb
      split: bclose.splits list.splits if_splits)
  then show "\<And>i. (\<And>i. i |\<in>| fmdom (objs s) \<Longrightarrow> chClosed (sub_of s i) \<Longrightarrow> closing_done (bcloser s)) \<Longrightarrow>
      i |\<in>| fmdom (objs s') \<Longrightarrow> chClosed (sub_of s' i) \<Longrightarrow> closing_done (bcloser s')"
    by metis
qed

lemma guard_ok_Subscribe:
  assumes ok: "bus_ok s" and g: "guard_ok s" and st: "Subscribe pattern opts s = (r, s')"
  shows "guard_ok s'"
  using st
proof (cases rule: Subscribe_cases)
  case (added i)
  have C: "control_ok s" using ok by (simp add: bus_ok_def)
  have n: "i |\<notin>| fmdom (objs s)" using controlD(2) [OF C, of i] added(2) by auto
  have o: "sub_of s' j = (if j = i then new_memSub pattern (sub_options opts) else sub_of s j)" for j
    using added by (simp add: sub_of_def)
  have f: "fmdom (objs s') = finsert i (fmdom (objs s))" "pubs s' = pubs s" "closers s' = closers s"
    "bclosed s' = bclosed s" "bcloser s' = bcloser s" "subscribers s' = finsert i (subscribers s)"
    using added(4) by simp_all
  have "keeps_subs s s'" using n f unfolding keeps_subs_def o by auto
  then show ?thesis
    by (rule guard_ok_others [OF ok g f(2)]) (auto simp: f o split: if_splits)
qed (use g in simp)

lemma guard_ok_step:
  assumes ok: "bus_ok s" and g: "guard_ok s" and st: "bus_step s s'"
  shows "guard_ok s'"
  using st
proof cases
  case step_work
  then show ?thesis using ok g by cases (auto intro: guard_ok_publish guard_ok_sub_close guard_ok_bus_close)
next
  case (step_Publish t env)
  then show ?thesis using g by (auto simp: guard_ok_def gentle_def guarded_def newPublisher_def)
next
  case (step_sub_Close t i)
  then show ?thesis
    by (intro guard_ok_others [OF ok g]) (auto simp: keeps_objs)
next
  case (step_receive i e)
  then have "s' = upd_sub i (\<lambda>m. m\<lparr>chBuf := tl (chBuf (sub_of s i))\<rparr>) s" by (auto simp: receive_def split: list.splits)
  then show ?thesis
    using step_receive by (intro guard_ok_others [OF ok g]) (auto simp: keeps_subs_def split: if_splits)
next
  case (step_AttachObserver obs r)
  then have "s' = s \<or> (\<exists>ob. s' = s\<lparr>observer := ob\<rparr>)" by (auto simp: AttachObserver_def split: option.splits if_splits)
  moreover have "guard_ok (s\<lparr>observer := ob\<rparr>)" for ob
    by (rule guard_ok_others [OF ok g]) (auto simp: keeps_objs sub_of_def)
  ultimately show ?thesis using g by auto
qed (use ok g in \<open>auto intro: guard_ok_Subscribe guard_ok_bus_close\<close>)

interpretation guard_inv: invariant_system bus_init bus_step "\<lambda>s. bus_ok s \<and> guard_ok s"
proof unfold_locales
  show "bus_init s \<Longrightarrow> bus_ok s \<and> guard_ok s" for s
    using bus_ok_init by (auto simp: bus_init_def NewMemoryBus_def guard_ok_def)
qed (auto intro: bus_ok_step guard_ok_step)

subsection \<open>Runs as scripts\<close>

datatype bus_action =
  DoPublish nat Envelope
| DoStep nat choice
| DoSubscribe string "SubOption list"
| DoSubClose nat nat
| DoCloser nat
| DoClose "nat list"

definition bus_do :: "bus_action \<Rightarrow> bus \<Rightarrow> bus option" where
  "bus_do a s =
     (if crashed s then None else
      case a of
        DoPublish t env \<Rightarrow>
          (case fmlookup (pubs s) t of None \<Rightarrow> Some (s\<lparr>pubs := fmupd t (newPublisher env) (pubs s)\<rparr>) | Some p \<Rightarrow> None)
      | DoStep t c \<Rightarrow>
          (case fmlookup (pubs s) t of
             None \<Rightarrow> None
           | Some p \<Rightarrow> (case publish_step c p s of None \<Rightarrow> None | Some (p', s') \<Rightarrow> Some (s'\<lparr>pubs := fmupd t p' (pubs s)\<rparr>)))
      | DoSubscribe pattern opts \<Rightarrow> if no_readers s then Some (snd (Subscribe pattern opts s)) else None
      | DoSubClose t i \<Rightarrow>
          if fmlookup (closers s) t = None \<and> i |\<in>| fmdom (objs s)
          then Some (s\<lparr>closers := fmupd t \<lparr>cpos = CRemove, csub = i\<rparr> (closers s)\<rparr>) else None
      | DoCloser t \<Rightarrow>
          (case fmlookup (closers s) t of
             None \<Rightarrow> None
           | Some k \<Rightarrow> (case sub_close_step k s of None \<Rightarrow> None | Some (k', s') \<Rightarrow> Some (s'\<lparr>closers := fmupd t k' (closers s)\<rparr>)))
      | DoClose order \<Rightarrow> bus_close_step order s)"

fun bus_script :: "bus_action list \<Rightarrow> bus \<Rightarrow> bus option" where
  "bus_script [] s = Some s"
| "bus_script (a # as) s = (case bus_do a s of None \<Rightarrow> None | Some s' \<Rightarrow> bus_script as s')"

lemma bus_do_step: "bus_do a s = Some s' \<Longrightarrow> bus_step s s'"
  by (cases a; cases "bcloser s = BIdle")
     (auto simp: bus_do_def intro: bus_step.intros bus_work.intros step_Subscribe [OF _ _ prod.collapse [symmetric]] split: if_splits option.splits)

lemma script_run: "bus_script as s = Some s' \<Longrightarrow> bus_step\<^sup>*\<^sup>* s s'"
  by (induction as arbitrary: s) (auto split: option.splits dest: bus_do_step intro: converse_rtranclp_into_rtranclp)

lemma script_reach:
  assumes "bus_script as (NewMemoryBus n obs) = Some s"
  shows "reach bus_init bus_step s"
proof -
  have "reach bus_init bus_step (NewMemoryBus n obs)" by (rule reach.intros) (auto simp: bus_init_def)
  with reach_run [OF script_run [OF assms]] show ?thesis .
qed

subsection \<open>Closing the bus completes\<close>

fun pweight :: "ppos \<Rightarrow> nat" where
  "pweight PStart = 1"
| "pweight PFilled = 1"
| "pweight (PBlocked i rest) = 5"
| "pweight (PUnblock i rest) = 4"
| "pweight (PGiveUp i) = 4"
| "pweight (PRelock rest) = 3"
| "pweight (PFire r) = 1"
| "pweight _ = 0"

fun cweight :: "cpos \<Rightarrow> nat" where
  "cweight CRemove = 4"
| "cweight CSignal = 3"
| "cweight CWait = 2"
| "cweight CClose = 1"
| "cweight CDone = 0"

fun bweight :: "bclose \<Rightarrow> nat" where
  "bweight (BSignal js subs) = length js + length subs + 4"
| "bweight (BWait subs) = length subs + 3"
| "bweight (BEach js) = length js + 1"
| "bweight _ = 0"

definition bus_weight :: "bus \<Rightarrow> nat" where
  "bus_weight s = fm_sum (\<lambda>p. pweight (pos p)) (pubs s) + fm_sum (\<lambda>k. cweight (cpos k)) (closers s) + bweight (bcloser s)"

lemma closed_pub: "bus_ok s \<Longrightarrow> bclosed s \<Longrightarrow> fmlookup (pubs s) t = Some p \<Longrightarrow> \<not> holds_read (pos p)"
  by (cases "pos p") (force simp: bus_ok_def pub_ok_def)+

lemma closed_readers: "bus_ok s \<Longrightarrow> bclosed s \<Longrightarrow> no_readers s"
  using closed_pub by (auto simp: no_readers_iff)

lemma work_decreases:
  assumes ok: "bus_ok s" and c: "bclosed s" and w: "bus_work s s'"
  shows "bus_weight s' < bus_weight s" "bclosed s'"
proof -
  have "bus_weight s' < bus_weight s \<and> bclosed s'"
    using w
  proof cases
    case (work_publish t p ch p' s1)
    note fr = publish_frame [OF work_publish(4)]
    have "pweight (pos p') < pweight (pos p)"
      using work_publish(4) closed_pub [OF ok c work_publish(3)] c
      by (cases "pos p") (auto simp: publish_step_def pub_begin_def pub_route_def pub_select_def pub_relock_def pub_fire_def
        split: sel.splits prod.splits send_result.splits if_splits)
    then show ?thesis
      using work_publish(1) fr c fm_sum_swap [OF work_publish(3), of "\<lambda>p. pweight (pos p)" p'] by (simp add: bus_weight_def)
  next
    case (work_sub_close t k k' s1)
    have "cweight (cpos k') < cweight (cpos k)" "pubs s1 = pubs s" "bcloser s1 = bcloser s" "bclosed s1 = bclosed s"
      using work_sub_close(4) by (auto simp: sub_close_step_def signalClose_def closeChan_def split: cpos.splits if_splits)
    then show ?thesis
      using work_sub_close(1) c fm_sum_swap [OF work_sub_close(3), of "\<lambda>k. cweight (cpos k)" k'] by (simp add: bus_weight_def)
  next
    case (work_bus_close order)
    then show ?thesis
      using c by (auto simp: bus_close_step_def bus_weight_def signalClose_def closeChan_def split: bclose.splits list.splits if_splits)
  qed
  then show "bus_weight s' < bus_weight s" "bclosed s'" by auto
qed

lemma publisher_works:
  assumes ok: "bus_ok s" and c: "bclosed s" and nc: "\<not> crashed s" and p: "fmlookup (pubs s) t = Some p"
    and b: "\<And>i rest. pos p = PBlocked i rest \<Longrightarrow> doneClosed (sub_of s i)" and r: "\<And>r. pos p \<noteq> PReturned r"
  shows "\<exists>s'. bus_work s s'"
proof -
  let ?ch = "\<lparr>cOrder = [], cSelect = SelDone, cDraw = 0, cFreshID = [], cNow = 0, cSpan = None, cDebug = False\<rparr>"
  have "\<exists>p' s'. publish_step ?ch p s = Some (p', s')"
    using closed_pub [OF ok c p] r nc p b
    by (cases "pos p") (auto simp: publish_step_def pub_select_def crashed_iff surj_pair)
  then show ?thesis using work_publish [OF nc p] by blast
qed

lemma closer_works:
  assumes ok: "bus_ok s" and c: "bclosed s" and nc: "\<not> crashed s" and k: "fmlookup (closers s) t = Some k"
    and w: "cpos k = CWait \<Longrightarrow> senders (sub_of s (csub k)) = 0" and d: "cpos k \<noteq> CDone"
  shows "\<exists>s'. bus_work s s'"
proof -
  have "\<exists>k' s'. sub_close_step k s = Some (k', s')"
    using w d closed_readers [OF ok c] by (cases "cpos k") (auto simp: sub_close_step_def)
  then show ?thesis using work_sub_close [OF nc k] by blast
qed

lemma blocked_done_or_works:
  assumes ok: "bus_ok s" and c: "bclosed s" and nc: "\<not> crashed s" and i: "i |\<in>| fmdom (objs s)"
    and sig: "to_signal (bcloser s) = []" and stuck: "\<nexists>s'. bus_work s s'"
  shows "doneClosed (sub_of s i)"
proof -
  have C: "control_ok s" using ok by (simp add: bus_ok_def)
  note D = controlD [OF C]
  have e: "subscribers s = {||}" using D(4,5) c by simp
  consider "past_remove (closers s) i" | "i \<in> set (snapshot (bcloser s))" | "chClosed (sub_of s i)" using D(13) [OF i] e by auto
  then show ?thesis
  proof cases
    case 1
    then obtain t k where k: "fmlookup (closers s) t = Some k" "csub k = i" "cpos k \<noteq> CRemove" by (auto simp: past_remove_def)
    then have "cpos k \<noteq> CSignal" using closer_works [OF ok c nc k(1)] stuck by fastforce
    then have "cpos k \<in> {CWait, CClose, CDone}" using k(3) by (cases "cpos k") auto
    then show ?thesis using D(8) [OF k(1)] k(2) by simp
  next
    case 2
    then show ?thesis using D(12) sig by simp
  next
    case 3
    then show ?thesis using D(3) [OF i] by simp
  qed
qed

text \<open>When no work is left and nothing panicked, everything has been closed.\<close>

lemma stuck_closed:
  assumes ok: "bus_ok s" and c: "bclosed s" and nc: "\<not> crashed s" and stuck: "\<nexists>s'. bus_work s s'"
  shows "bcloser s = BClosed" "\<And>t p. fmlookup (pubs s) t = Some p \<Longrightarrow> \<exists>r. pos p = PReturned r"
    "\<And>i. i |\<in>| fmdom (objs s) \<Longrightarrow> chClosed (sub_of s i)"
proof -
  have C: "control_ok s" and N: "counts_ok s" and P: "\<And>t p. fmlookup (pubs s) t = Some p \<Longrightarrow> pub_ok s p"
    using ok by (auto simp: bus_ok_def)
  note D = controlD [OF C]
  have bi: "bcloser s \<noteq> BIdle" using D(4) c by simp
  have no: "bus_close_step order s = None" for order
    using stuck work_bus_close [OF nc bi] by (cases "bus_close_step order s") auto
  have sig: "to_signal (bcloser s) = []"
    using no by (cases "bcloser s") (auto simp: bus_close_step_def split: list.splits)
  show ret: "\<exists>r. pos p = PReturned r" if "fmlookup (pubs s) t = Some p" for t p
  proof (rule ccontr)
    assume "\<nexists>r. pos p = PReturned r"
    moreover have "doneClosed (sub_of s i)" if "pos p = PBlocked i rest" for i rest
      using pub_ok_ahead [OF P [OF \<open>fmlookup (pubs s) t = Some p\<close>]] that
      by (intro blocked_done_or_works [OF ok c nc _ sig stuck]) auto
    ultimately show False using publisher_works [OF ok c nc that] stuck by blast
  qed
  then have "fm_count (\<lambda>p. in_flight (pos p)) (pubs s) = 0" "\<And>i. fm_count (\<lambda>p. sends_to i (pos p)) (pubs s) = 0"
    by (force simp: fm_count_zero)+
  then have z: "inflight s = 0" "\<And>i. i |\<in>| fmdom (objs s) \<Longrightarrow> senders (sub_of s i) = 0"
    using N nc by (auto simp: counts_ok_def)
  show b: "bcloser s = BClosed"
  proof (cases "bcloser s")
    case (BEach js)
    then have "js = [] \<or> (\<exists>i l. js = i # l \<and> senders (sub_of s i) = 0)" using z(2) D(11) by (cases js) auto
    then show ?thesis using no [of "[]"] BEach by (auto simp: bus_close_step_def)
  qed (use no [of "[]"] z(1) bi in \<open>auto simp: bus_close_step_def split: list.splits\<close>)
  show "chClosed (sub_of s i)" if i: "i |\<in>| fmdom (objs s)" for i
  proof (cases "past_remove (closers s) i")
    case True
    then obtain t k where k: "fmlookup (closers s) t = Some k" "csub k = i" by (auto simp: past_remove_def)
    then have "cpos k = CDone" using closer_works [OF ok c nc k(1)] stuck z(2) i by blast
    then show ?thesis using D(9) [OF k(1)] k(2) by simp
  next
    case False
    then show ?thesis using D(13) [OF i] D(5) bi b by simp
  qed
qed

lemma works_bounded:
  assumes "(bus_work ^^ k) s s'" "bus_ok s" "bclosed s"
  shows "k + bus_weight s' \<le> bus_weight s \<and> bus_ok s' \<and> bclosed s'"
  using assms(1)
proof (induction k arbitrary: s')
  case (Suc k)
  then obtain s1 where s1: "(bus_work ^^ k) s s1" "bus_work s1 s'" by auto
  then have "bus_ok s1" "bclosed s1" "k + bus_weight s1 \<le> bus_weight s" using Suc.IH by auto
  then show ?case using work_decreases [of s1 s'] bus_ok_step [OF _ step_work] s1(2) by fastforce
qed (use assms in simp)

subsection \<open>Publication reaches every subscription that stays\<close>

text \<open>A publication past its registration: it has not scanned yet, or it matched the subscription, or it was
  refused, or the subscription is gone.\<close>

definition reaches :: "nat \<Rightarrow> ppos \<Rightarrow> nat list \<Rightarrow> bool" where
  "reaches i q matched \<longleftrightarrow> (case q of PStart \<Rightarrow> False | PFilled \<Rightarrow> True | PMiss \<Rightarrow> True
     | PReturned BusClosed \<Rightarrow> True | _ \<Rightarrow> i \<in> set matched)"

definition tracked :: "nat \<Rightarrow> nat \<Rightarrow> Envelope \<Rightarrow> bus \<Rightarrow> bool" where
  "tracked t i env s \<longleftrightarrow> i |\<in>| fmdom (objs s) \<and> patternMatches (sub_of s i) (splitSubject (eSubject env)) \<and>
     (\<exists>p. fmlookup (pubs s) t = Some p \<and> penv p = env \<and> pos p \<noteq> PStart \<and> (i |\<in>| subscribers s \<longrightarrow> reaches i (pos p) (pmatched p)))"

lemma reaches_step:
  assumes ok: "bus_ok s" and st: "publish_step c p s = Some (p', s')" and r: "reaches i (pos p) (pmatched p)"
    and i: "i |\<in>| subscribers s" "patternMatches (sub_of s i) (splitSubject (eSubject (penv p)))"
  shows "reaches i (pos p') (pmatched p')"
proof -
  have H: "cache_ok s" using ok by (simp add: bus_ok_def)
  have hit: "i \<in> set l" if "lookupRoute (eSubject (penv p)) s = Some l" for l
    using H i that by (auto simp: cache_ok_def lookupRoute_def split: if_splits)
  have scan: "i \<in> set (cOrder c)" if "enumerates (cOrder c) (subscribers s)" using enumerates_set [OF that] i(1) by simp
  show ?thesis
  proof (cases "pos p")
    case (PLoop rest)
    then show ?thesis using st r by (cases rest) (auto simp: publish_step_def reaches_def drop_cb_def split: if_splits)
  next
    case PFilled
    then show ?thesis using st hit
      by (auto simp: publish_step_def pub_route_def reaches_def split: if_splits option.splits)
  next
    case PMiss
    then show ?thesis using st scan i(2) by (auto simp: publish_step_def pub_scan_def reaches_def Let_def split: if_splits)
  qed (use st r in \<open>auto simp: pub_defs reaches_def split: pub_splits pub_result.splits\<close>)
qed

lemma started_keeps:
  assumes "publish_step c p s = Some (p', s')" "pos p \<noteq> PStart"
  shows "penv p' = penv p \<and> pos p' \<noteq> PStart"
proof (cases "pos p")
  case (PLoop rest)
  then show ?thesis using assms by (cases rest) (auto simp: publish_step_def drop_cb_def split: if_splits)
qed (use assms in \<open>auto simp: pub_defs split: pub_splits\<close>)

lemma step_pubs:
  assumes ok: "bus_ok s" and st: "bus_step s s'"
  obtains (publish) t p c p' s1 where "fmlookup (pubs s) t = Some p" "publish_step c p s = Some (p', s1)"
      "s' = s1\<lparr>pubs := fmupd t p' (pubs s)\<rparr>"
  | (others) "\<And>t p. fmlookup (pubs s) t = Some p \<Longrightarrow> fmlookup (pubs s') t = Some p" "keeps_subs s s'"
      "\<And>i. i |\<in>| fmdom (objs s) \<Longrightarrow> i |\<in>| subscribers s' \<Longrightarrow> i |\<in>| subscribers s"
  using st
proof cases
  case step_work
  then show thesis
  proof cases
    case (work_publish t p c p' s1)
    then show thesis using publish by blast
  next
    case (work_sub_close t k k' s1)
    have "csub k |\<in>| fmdom (objs s)" using ok work_sub_close(3) controlD(6) by (auto simp: bus_ok_def)
    then show thesis
      using work_sub_close(1,4) by (intro others)
        (auto simp: sub_close_step_def signalClose_def closeChan_def keeps_subs_def split: cpos.splits if_splits)
  next
    case (work_bus_close order)
    have i: "bcloser s = BSignal (i # js) subs \<or> bcloser s = BEach (i # js) \<Longrightarrow> i |\<in>| fmdom (objs s)" for i js subs
      using ok controlD(10,11) [of s i] by (auto simp: bus_ok_def)
    then show thesis
      using work_bus_close(3) by (intro others)
        (auto simp: bus_close_step_def signalClose_def closeChan_def keeps_subs_def split: bclose.splits list.splits if_splits)
  qed
next
  case (step_Subscribe pattern opts r)
  have C: "control_ok s" using ok by (simp add: bus_ok_def)
  from step_Subscribe(3) show thesis
  proof (cases rule: Subscribe_cases)
    case (added i)
    have n: "i |\<notin>| fmdom (objs s)" using controlD(2) [OF C, of i] added(2) by auto
    have o: "sub_of s' j = (if j = i then new_memSub pattern (sub_options opts) else sub_of s j)" for j
      using added by (simp add: sub_of_def)
    have f: "fmdom (objs s') = finsert i (fmdom (objs s))" "pubs s' = pubs s" "subscribers s' = finsert i (subscribers s)"
      using added(4) by simp_all
    show thesis using n by (intro others) (auto simp: keeps_subs_def o f)
  qed (rule others, simp_all add: keeps_objs)
next
  case (step_Close order)
  then show thesis
    by (intro others) (auto simp: bus_close_step_def keeps_subs_def split: if_splits)
next
  case (step_receive i e)
  then have "s' = upd_sub i (\<lambda>m. m\<lparr>chBuf := tl (chBuf (sub_of s i))\<rparr>) s" by (auto simp: receive_def split: list.splits)
  then show thesis using step_receive by (intro others) (auto simp: keeps_subs_def)
next
  case (step_AttachObserver obs r)
  then have "s' = s \<or> (\<exists>ob. s' = s\<lparr>observer := ob\<rparr>)" by (auto simp: AttachObserver_def split: option.splits if_splits)
  then show thesis by (intro others) (auto simp: keeps_objs)
qed (rule others; auto simp: keeps_objs)+

lemma tracked_step:
  assumes ok: "bus_ok s" and tr: "tracked t i env s" and st: "bus_step s s'"
  shows "tracked t i env s'"
proof -
  obtain p where i: "i |\<in>| fmdom (objs s)" "patternMatches (sub_of s i) (splitSubject (eSubject env))"
    and p: "fmlookup (pubs s) t = Some p" "penv p = env" "pos p \<noteq> PStart"
      "i |\<in>| subscribers s \<Longrightarrow> reaches i (pos p) (pmatched p)"
    using tr by (auto simp: tracked_def)
  from ok st show ?thesis
  proof (cases rule: step_pubs)
    case (publish u q c q' s1)
    have same: "same_subs s s'"
      using publish_same_subs [OF publish(2) pub_ok_ahead] ok publish(1,3) by (auto simp: bus_ok_def)
    have m: "i |\<in>| fmdom (objs s')" "patternMatches (sub_of s' i) (splitSubject (eSubject env))" "subscribers s' = subscribers s"
      using i same_subs_of(1) [OF same i(1)] same_subs_dom [OF same] publish(3) publish_frame [OF publish(2)]
      by (auto simp: patternMatches_def)
    show ?thesis
    proof (cases "u = t")
      case True
      then have "q = p" using publish(1) p(1) by simp
      then show ?thesis
        using m p True i publish(3) started_keeps [OF publish(2)] reaches_step [OF ok publish(2)] by (auto simp: tracked_def)
    next
      case False
      then show ?thesis using m p publish(3) by (auto simp: tracked_def)
    qed
  next
    case others
    then show ?thesis
      using i p by (auto simp: tracked_def keeps_subs_def patternMatches_def)
  qed
qed

lemma tracked_run:
  assumes "bus_step\<^sup>*\<^sup>* s s'" "bus_ok s" "tracked t i env s"
  shows "bus_ok s' \<and> tracked t i env s'"
  using assms by (induction rule: rtranclp_induct) (auto intro: bus_ok_step tracked_step)

subsection \<open>A run\<close>

definition demo_choice :: choice where
  "demo_choice = \<lparr>cOrder = [1, 2], cSelect = SelSend, cDraw = 0, cFreshID = ''e1'', cNow = 1, cSpan = None, cDebug = False\<rparr>"

definition demo_event :: Envelope where
  "demo_event = \<lparr>eID = [], eSubject = ''run.1'', eTime = 0, eSource = [], eTraceID = [], eSpanID = [], eHeaders = fmempty, ePayload = []\<rparr>"

definition panic_script :: "bus_action list" where
  "panic_script =
     [DoSubscribe ''run.*'' [WithBackpressure Block], DoSubscribe ''run.>'' [], DoPublish 0 demo_event,
      DoStep 0 demo_choice, DoStep 0 demo_choice, DoStep 0 demo_choice, DoStep 0 demo_choice, DoStep 0 demo_choice,
      DoSubClose 0 2, DoCloser 0,
      DoStep 0 demo_choice, DoStep 0 demo_choice, DoStep 0 demo_choice, DoStep 0 demo_choice,
      DoCloser 0, DoCloser 0, DoCloser 0,
      DoStep 0 demo_choice]"

subsection \<open>Properties\<close>

text \<open>The route cache never goes stale: in every reachable state, whatever subscriptions, closes, publications
  and cache overflows led there, the subscriptions cached for a subject are exactly the current ones whose
  pattern matches it, each once, so a cached publication goes where a scan would send it.\<close>

theorem route_cache_coherent:
  assumes "reach bus_init bus_step s" "lookupRoute subj s = Some l"
  shows "distinct l \<and> set l = {i. i |\<in>| subscribers s \<and> patternMatches (sub_of s i) (splitSubject subj)}"
  using bus_inv.reach_invar [OF assms(1)] assms(2) by (simp add: bus_ok_def cache_ok_def lookupRoute_def split: if_splits)


text \<open>C25. Sending on a closed channel is impossible as long as no subscription makes its publishers block, or no
  subscription is closed on its own (by its owner or the end of its context) and only the whole bus is: no
  reachable state has a panicked publisher.\<close>

theorem bus_send_safe:
  assumes "reach bus_init bus_step s"
    and "(\<forall>i. i |\<in>| fmdom (objs s) \<longrightarrow> backpressure (sub_of s i) \<noteq> Block) \<or> closers s = fmempty"
  shows "\<not> crashed s"
  using guard_inv.reach_invar [OF assms(1)] assms(2)
  by (auto simp: guard_ok_def gentle_def guarded_def crashed_iff)



subsection \<open>Witnesses\<close>

theorem route_cache_coherent_witness:
  "\<exists>s. reach bus_init bus_step s \<and> lookupRoute ''run.1'' s = Some [1, 2] \<and>
    {1, 2} = {i. i |\<in>| subscribers s \<and> patternMatches (sub_of s i) (splitSubject ''run.1'')}"
proof -
  have "map_option (lookupRoute ''run.1'') (bus_script (take 6 panic_script) (NewMemoryBus None 0)) = Some (Some [1, 2])"
    by code_simp
  then obtain s where s: "bus_script (take 6 panic_script) (NewMemoryBus None 0) = Some s" "lookupRoute ''run.1'' s = Some [1, 2]"
    by auto
  then show ?thesis using script_reach [OF s(1)] route_cache_coherent [OF script_reach [OF s(1)] s(2)] by auto
qed

definition settle_script :: "bus_action list" where
  "settle_script = [DoSubscribe ''run.*'' [WithBackpressure DropOldest], DoSubscribe ''run.>'' [WithSampleRate 0, WithBackpressure Sample],
     DoPublish 0 demo_event, DoStep 0 demo_choice]"

definition settle_demo :: "bus \<Rightarrow> bus \<Rightarrow> bool" where
  "settle_demo s0 s \<longleftrightarrow>
     (case (fmlookup (pubs s0) 0, fmlookup (pubs s) 0) of
        (Some p0, Some p) \<Rightarrow> pos p0 = PFilled \<and> pos p = PReturned Published \<and>
          list_all (\<lambda>i. i |\<in>| subscribers s0 \<and> i |\<in>| subscribers s \<and>
            patternMatches (sub_of s0 i) (splitSubject (eSubject (penv p0))) \<and> predicateAllows (sub_of s i) (penv p)) [1, 2]
      | _ \<Rightarrow> False)"


definition closing_script :: "bus_action list" where
  "closing_script = settle_script @ [DoStep 0 demo_choice, DoStep 0 demo_choice, DoSubClose 0 1, DoStep 0 demo_choice]"

theorem bus_send_safe_witness:
  "\<exists>s. reach bus_init bus_step s \<and> closers s \<noteq> fmempty \<and> inflight s = 1 \<and> \<not> crashed s"
proof -
  have "map_option (\<lambda>s. fmlookup (closers s) 0 \<noteq> None \<and> inflight s = 1 \<and> fBall (fmdom (objs s)) (\<lambda>i. backpressure (sub_of s i) \<noteq> Block))
     (bus_script closing_script (NewMemoryBus None 0)) = Some True"
    by code_simp
  then obtain s where s: "bus_script closing_script (NewMemoryBus None 0) = Some s" "fmlookup (closers s) 0 \<noteq> None" "inflight s = 1"
      "fBall (fmdom (objs s)) (\<lambda>i. backpressure (sub_of s i) \<noteq> Block)"
    by auto
  have "\<not> crashed s" using bus_send_safe [OF script_reach [OF s(1)]] s(4) by auto
  then show ?thesis using s script_reach [OF s(1)] by auto
qed

definition shut_script :: "bus_action list" where
  "shut_script = [DoSubscribe ''run.>'' [], DoClose [1]]"

lemma close_works:
  "bcloser s \<noteq> BIdle \<Longrightarrow> bus_script (replicate k (DoClose [])) s = Some s' \<Longrightarrow> (bus_work ^^ k) s s'"
proof (induction k arbitrary: s)
  case (Suc k)
  then obtain s1 where s1: "bus_close_step [] s = Some s1" "\<not> crashed s" "bus_script (replicate k (DoClose [])) s1 = Some s'"
    by (auto simp: bus_do_def split: option.splits if_splits)
  then have "bcloser s1 \<noteq> BIdle" "bus_work s s1"
    using Suc.prems(1) work_bus_close [OF s1(2) Suc.prems(1) s1(1)]
    by (auto simp: bus_close_step_def split: bclose.splits list.splits if_splits)
  then show ?case using Suc.IH s1(3) relpowp_Suc_I2 by metis
qed simp


end
