(* ===== verification/Agent_Execute.thy ===== *)
theory Agent_Execute
  imports Graph_Execute
begin

text \<open>
  One turn of an agent: \<open>Execute\<close> of \<open>core/agent/execute.go\<close> with its options, the request and result types of
  \<open>execute_request.go\<close>, the hooks of \<open>lifecycle.go\<close> and \<open>LoadAndResume\<close>.

  The engine, the hooks and the context are arguments that act on a surrounding world \<open>'w\<close>. The model keeps a
  trace of every call \<open>Execute\<close> makes to them, so that the order of calls can be stated. An observer that panics
  is stopped and recovered by \<open>safeRun\<close>, so it is a function that returns. \<open>OnRunStart\<close> may change the request
  it gets by pointer; the other hooks treat request and result as read-only, as their contracts demand. An
  engine returns a board or nil, and leaves the board it was given in some state. \<open>ctx\<close> is the run-level
  bound that \<open>Execute\<close> put on the caller's context.

  A part of a message is its encoding: whether it is backed by a live stream, and draining that stream, are
  arguments, as are \<open>time.ParseDuration\<close>, \<open>crypto/rand\<close> and what \<open>errors.As\<close> finds as an \<open>InterruptedError\<close>.
\<close>

subsection \<open>Requests, identities and results\<close>

record AgentRequest =
  qTaskID :: string
  qContextID :: string
  qRunID :: string
  qParentRunID :: string
  qAttributes :: "(string, string) fmap"
  qMessage :: Message
  qInputs :: "(string, val) fmap"
  qOutputModes :: "string list option"

record Identity =
  iAgentID :: string
  iRunID :: string
  iParentRunID :: string
  iTaskID :: string
  iConversationID :: string

record EngineRun =
  erIdentity :: Identity
  erAttributes :: "(string, string) fmap"
  erToolAllowList :: "string list"
  erResumeFrom :: "Checkpoint option"

text \<open>The part of a run the graph engine reads.\<close>

definition graph_run :: "EngineRun \<Rightarrow> Run" where
  "graph_run r = \<lparr>rRunID = iRunID (erIdentity r), rAgentID = iAgentID (erIdentity r),
     rAttributes = erAttributes r, ResumeFrom = erResumeFrom r\<rparr>"

datatype RunStatus = RunCompleted | RunInterrupted | RunCanceled | RunFailed | RunAborted

record Artifact =
  artName :: string
  artParts :: "string list"

record Result =
  resTaskID :: string
  resRunID :: string
  resStatus :: RunStatus
  resCause :: string
  resMessages :: "Message list"
  resArtifacts :: "Artifact list"
  resCommitted :: bool
  resState :: "(string, val) fmap"
  resErr :: err
  resLastBoard :: Board
  resAttempts :: nat

record Decision =
  AcceptOutput :: bool
  DiscardOutput :: bool
  Revise :: bool
  Reason :: string
  dState :: "(string, val) fmap"

definition noDecision :: Decision where
  "noDecision = \<lparr>AcceptOutput = False, DiscardOutput = False, Revise = False, Reason = [], dState = fmempty\<rparr>"

subsection \<open>Hooks, engines and the world\<close>

type_synonym ctx = "int option"

record 'w Observer =
  OnRunStart :: "ctx \<Rightarrow> Identity \<Rightarrow> AgentRequest \<Rightarrow> 'w \<Rightarrow> AgentRequest \<times> 'w"
  OnInterrupt :: "ctx \<Rightarrow> Identity \<Rightarrow> Interrupt \<Rightarrow> 'w \<Rightarrow> 'w"
  OnRunRevise :: "ctx \<Rightarrow> Identity \<Rightarrow> Result \<Rightarrow> nat \<Rightarrow> 'w \<Rightarrow> 'w"
  OnRunEnd :: "ctx \<Rightarrow> Identity \<Rightarrow> Result \<Rightarrow> 'w \<Rightarrow> 'w"

type_synonym 'w Preparer = "ctx \<Rightarrow> Identity \<Rightarrow> AgentRequest \<Rightarrow> Board \<Rightarrow> 'w \<Rightarrow> (go_error + Board option) \<times> 'w"
type_synonym 'w Referee = "ctx \<Rightarrow> Identity \<Rightarrow> AgentRequest \<Rightarrow> Result \<Rightarrow> 'w \<Rightarrow> (go_error + Decision) \<times> 'w"
type_synonym 'w Committer = "ctx \<Rightarrow> Identity \<Rightarrow> AgentRequest \<Rightarrow> Result \<Rightarrow> 'w \<Rightarrow> err \<times> 'w"
type_synonym 'w CommitViewProvider =
  "ctx \<Rightarrow> Identity \<Rightarrow> AgentRequest \<Rightarrow> Result \<Rightarrow> 'w \<Rightarrow> (go_error + Board option) \<times> 'w"

datatype 'h Host = NoopHost | WiredHost 'h

type_synonym ('h, 'w) Engine = "ctx \<Rightarrow> EngineRun \<Rightarrow> 'h Host \<Rightarrow> Board \<Rightarrow> 'w \<Rightarrow> (Board option \<times> Board \<times> err) \<times> 'w"

record 'w runlib =
  ctxErr :: "ctx \<Rightarrow> 'w \<Rightarrow> err \<times> 'w"
  parseDuration :: "string \<Rightarrow> go_error + int"
  randRead :: "'w \<Rightarrow> (go_error + string) \<times> 'w"
  asInterrupted :: "go_error \<Rightarrow> Interrupt option"
  normalizePart :: "string \<Rightarrow> go_error + string"
  streamSource :: "string \<Rightarrow> bool"
  materializePart :: "ctx \<Rightarrow> string \<Rightarrow> 'w \<Rightarrow> (go_error + string list) \<times> 'w"
  keyOrder :: keyorder

datatype call =
  CallBefore nat
| ObsStart nat
| CallEngine EngineRun Board
| ObsInterrupt nat Interrupt
| CallAfter nat Result
| ObsRevise nat Result nat
| CallView Result
| CallCommit nat Result
| ObsEnd nat Result

record 'w rt =
  rtw :: 'w
  rtreq :: AgentRequest
  rtcalls :: "call list"

definition note_call :: "call \<Rightarrow> 'w \<Rightarrow> 'w rt \<Rightarrow> 'w rt" where
  "note_call c w st = st\<lparr>rtw := w, rtcalls := rtcalls st @ [c]\<rparr>"

subsection \<open>Options\<close>

record ('h, 'w) execConfig =
  rcPreparers :: "'w Preparer list"
  rcToolAllowList :: "string slice"
  rcHost :: "'h option"
  rcAttributes :: "(string, string) fmap"
  rcHooks :: "'w Observer list"
  rcAfters :: "'w Referee list"
  rcCommitters :: "'w Committer list"
  rcCommitViewProvider :: "'w CommitViewProvider option"
  rcResumeFrom :: "Checkpoint option"
  rcParentRunID :: string
  rcMaxRevise :: int
  rcRunTimeout :: int
  rcArtifactChannels :: "string list"

record Policy =
  polMaxRevise :: int
  polRunTimeout :: string
  polArtifactChannels :: "string list"

record ('h, 'w) Agent =
  agID :: string
  agTools :: "string list"
  agPolicy :: Policy
  agEngine :: "('h, 'w) Engine option"
  agPrepare :: "'w Preparer option list"
  agObserve :: "'w Observer option list"
  agReferees :: "'w Referee option list"
  agCommit :: "'w Committer option list"

type_synonym ('h, 'w) ExecuteOption = "('h, 'w) execConfig \<Rightarrow> ('h, 'w) execConfig"

definition blankConfig :: "('h, 'w) execConfig" where
  "blankConfig = \<lparr>rcPreparers = [], rcToolAllowList = Nil_slice, rcHost = None, rcAttributes = fmempty, rcHooks = [],
     rcAfters = [], rcCommitters = [], rcCommitViewProvider = None, rcResumeFrom = None, rcParentRunID = [],
     rcMaxRevise = 0, rcRunTimeout = 0, rcArtifactChannels = []\<rparr>"

definition non_nil :: "'a option list \<Rightarrow> 'a list" where
  "non_nil xs = List.map_filter id xs"

definition applyOptions :: "('h, 'w) Agent \<Rightarrow> ('h, 'w) ExecuteOption option list \<Rightarrow> ('h, 'w) execConfig" where
  "applyOptions ag opts =
     fold (\<lambda>opt rc. opt rc) (non_nil opts)
       (blankConfig\<lparr>rcMaxRevise := (if polMaxRevise (agPolicy ag) > 0 then polMaxRevise (agPolicy ag) else 0),
          rcArtifactChannels := polArtifactChannels (agPolicy ag),
          rcHooks := non_nil (agObserve ag), rcAfters := non_nil (agReferees ag),
          rcCommitters := non_nil (agCommit ag), rcPreparers := non_nil (agPrepare ag)\<rparr>)"

definition append_non_nil :: "'a option \<Rightarrow> 'a list \<Rightarrow> 'a list" where
  "append_non_nil p xs = (case p of None \<Rightarrow> xs | Some x \<Rightarrow> xs @ [x])"

definition WithPreparer :: "'w Preparer option \<Rightarrow> ('h, 'w) ExecuteOption" where
  "WithPreparer p rc = rc\<lparr>rcPreparers := append_non_nil p (rcPreparers rc)\<rparr>"

definition WithToolAllowList :: "string slice \<Rightarrow> ('h, 'w) ExecuteOption" where
  "WithToolAllowList names rc = rc\<lparr>rcToolAllowList := names\<rparr>"

definition WithHost :: "'h option \<Rightarrow> ('h, 'w) ExecuteOption" where
  "WithHost h rc = rc\<lparr>rcHost := h\<rparr>"

definition WithAttributes :: "(string, string) fmap \<Rightarrow> ('h, 'w) ExecuteOption" where
  "WithAttributes extra rc = rc\<lparr>rcAttributes := rcAttributes rc ++\<^sub>f extra\<rparr>"

definition WithObserver :: "'w Observer option \<Rightarrow> ('h, 'w) ExecuteOption" where
  "WithObserver ob rc = rc\<lparr>rcHooks := append_non_nil ob (rcHooks rc)\<rparr>"

definition WithCommitter :: "'w Committer option \<Rightarrow> ('h, 'w) ExecuteOption" where
  "WithCommitter c rc = rc\<lparr>rcCommitters := append_non_nil c (rcCommitters rc)\<rparr>"

definition WithCommitViewProvider :: "'w CommitViewProvider option \<Rightarrow> ('h, 'w) ExecuteOption" where
  "WithCommitViewProvider p rc = rc\<lparr>rcCommitViewProvider := p\<rparr>"

definition WithMaxRevise :: "int \<Rightarrow> ('h, 'w) ExecuteOption" where
  "WithMaxRevise n rc = rc\<lparr>rcMaxRevise := (if n < 0 then 0 else n)\<rparr>"

definition WithRunTimeout :: "int \<Rightarrow> ('h, 'w) ExecuteOption" where
  "WithRunTimeout d rc = (if d \<le> 0 then rc else rc\<lparr>rcRunTimeout := d\<rparr>)"

definition WithArtifactChannels :: "string list \<Rightarrow> ('h, 'w) ExecuteOption" where
  "WithArtifactChannels chans rc =
     rc\<lparr>rcArtifactChannels := rcArtifactChannels rc @ filter (\<lambda>c. \<not> (c = [] \<or> c = MainChannel)) chans\<rparr>"

definition WithParentRunID :: "string \<Rightarrow> ('h, 'w) ExecuteOption" where
  "WithParentRunID i rc = rc\<lparr>rcParentRunID := i\<rparr>"

definition WithResumeFrom :: "Checkpoint option \<Rightarrow> ('h, 'w) ExecuteOption" where
  "WithResumeFrom cp rc = rc\<lparr>rcResumeFrom := cp\<rparr>"

definition WithReferee :: "'w Referee option \<Rightarrow> ('h, 'w) ExecuteOption" where
  "WithReferee d rc = rc\<lparr>rcAfters := append_non_nil d (rcAfters rc)\<rparr>"

subsection \<open>Resolving the call\<close>

definition applyRunTimeout :: "'w runlib \<Rightarrow> string \<Rightarrow> int \<Rightarrow> go_error + ctx" where
  "applyRunTimeout lib policyTimeout override =
     (if override = 0 \<and> policyTimeout \<noteq> [] then
        (case parseDuration lib policyTimeout of
           Inl e \<Rightarrow> Inl (errf_w Validation ''agent: policy.run_timeout'' e)
         | Inr parsed \<Rightarrow>
             if parsed \<le> 0 then Inl (errf Validation ''agent: policy.run_timeout must be a positive duration'')
             else Inr (Some parsed))
      else if override \<le> 0 then Inr None else Inr (Some override))"

definition hex_digit :: "nat \<Rightarrow> char" where
  "hex_digit n = (if n < 10 then char_of (48 + n) else char_of (87 + n))"

definition mintRunID :: "'w runlib \<Rightarrow> 'w \<Rightarrow> (go_error + string) \<times> 'w" where
  "mintRunID lib w =
     (case randRead lib w of
        (Inl e, w1) \<Rightarrow> (Inl (Mark Internal (Wrapf ''agent: allocate run id'' e)), w1)
      | (Inr bs, w1) \<Rightarrow>
          (Inr (''run-'' @ concat (map (\<lambda>b. [hex_digit (of_char b div 16), hex_digit (of_char b mod 16)]) bs)), w1))"

definition resolveRunID :: "'w runlib \<Rightarrow> AgentRequest \<Rightarrow> ('h, 'w) execConfig \<Rightarrow> 'w \<Rightarrow> (go_error + string) \<times> 'w" where
  "resolveRunID lib req rc w =
     (case rcResumeFrom rc of
        Some cp \<Rightarrow>
          if cpExecID cp \<noteq> [] then (Inr (cpExecID cp), w)
          else if qRunID req \<noteq> [] then (Inr (qRunID req), w) else mintRunID lib w
      | None \<Rightarrow> if qRunID req \<noteq> [] then (Inr (qRunID req), w) else mintRunID lib w)"

definition buildIdentity :: "string \<Rightarrow> string \<Rightarrow> AgentRequest \<Rightarrow> ('h, 'w) execConfig \<Rightarrow> Identity" where
  "buildIdentity agentID runID req rc =
     \<lparr>iAgentID = agentID, iRunID = runID,
      iParentRunID = (if rcParentRunID rc = [] then qParentRunID req else rcParentRunID rc),
      iTaskID = qTaskID req, iConversationID = qContextID req\<rparr>"

definition resolveToolAllowList :: "('h, 'w) Agent \<Rightarrow> ('h, 'w) execConfig \<Rightarrow> string list" where
  "resolveToolAllowList ag rc =
     (case rcToolAllowList rc of Nil_slice \<Rightarrow> agTools ag | Slice names \<Rightarrow> names)"

definition hostOrDefault :: "'h option \<Rightarrow> 'h Host" where
  "hostOrDefault h = (case h of None \<Rightarrow> NoopHost | Some x \<Rightarrow> WiredHost x)"

text \<open>The digits of \<open>n\<close>, least significant last; the buffer of twenty bytes holds every \<open>int64\<close>.\<close>

fun itoa_digits :: "nat \<Rightarrow> string \<Rightarrow> string" where
  "itoa_digits n buf = (if n = 0 then buf else itoa_digits (n div 10) (char_of (48 + n mod 10) # buf))"

declare itoa_digits.simps [simp del]

definition itoa :: "nat \<Rightarrow> string" where
  "itoa n = (if n = 0 then ''0'' else itoa_digits n [])"

record ('h, 'w) runState =
  rsCtx :: ctx
  rsId :: Identity
  rsEng :: "('h, 'w) Engine"
  rsRc :: "('h, 'w) execConfig"
  rsHost :: "'h Host"
  rsObs :: "'w Observer list"
  rsTools :: "string list"
  rsMax :: nat

definition engineRun :: "('h, 'w) runState \<Rightarrow> AgentRequest \<Rightarrow> nat \<Rightarrow> EngineRun" where
  "engineRun r req n =
     \<lparr>erIdentity = rsId r,
      erAttributes = fmupd ''agent.attempt'' (itoa n) (qAttributes req ++\<^sub>f rcAttributes (rsRc r)),
      erToolAllowList = rsTools r,
      erResumeFrom = (if n = 1 then rcResumeFrom (rsRc r) else None)\<rparr>"

subsection \<open>Observers\<close>

fun start_all :: "ctx \<Rightarrow> Identity \<Rightarrow> 'w Observer list \<Rightarrow> nat \<Rightarrow> 'w rt \<Rightarrow> 'w rt" where
  "start_all c i [] k st = st"
| "start_all c i (ob # obs) k st =
     (case OnRunStart ob c i (rtreq st) (rtw st) of
        (req, w) \<Rightarrow> start_all c i obs (Suc k) (note_call (ObsStart k) w (st\<lparr>rtreq := req\<rparr>)))"

fun tell_all :: "(nat \<Rightarrow> call) \<Rightarrow> ('w Observer \<Rightarrow> 'w \<Rightarrow> 'w) \<Rightarrow> 'w Observer list \<Rightarrow> nat \<Rightarrow> 'w rt \<Rightarrow> 'w rt" where
  "tell_all c f [] k st = st"
| "tell_all c f (ob # obs) k st = tell_all c f obs (Suc k) (note_call (c k) (f ob (rtw st)) st)"

definition multi_OnRunStart :: "('h, 'w) runState \<Rightarrow> 'w rt \<Rightarrow> 'w rt" where
  "multi_OnRunStart r st = start_all (rsCtx r) (rsId r) (rsObs r) 0 st"

definition multi_OnInterrupt :: "('h, 'w) runState \<Rightarrow> Interrupt \<Rightarrow> 'w rt \<Rightarrow> 'w rt" where
  "multi_OnInterrupt r intr =
     tell_all (\<lambda>k. ObsInterrupt k intr) (\<lambda>ob. OnInterrupt ob (rsCtx r) (rsId r) intr) (rsObs r) 0"

definition multi_OnRunRevise :: "('h, 'w) runState \<Rightarrow> Result \<Rightarrow> nat \<Rightarrow> 'w rt \<Rightarrow> 'w rt" where
  "multi_OnRunRevise r res n =
     tell_all (\<lambda>k. ObsRevise k res n) (\<lambda>ob. OnRunRevise ob (rsCtx r) (rsId r) res n) (rsObs r) 0"

definition multi_OnRunEnd :: "('h, 'w) runState \<Rightarrow> Result \<Rightarrow> 'w rt \<Rightarrow> 'w rt" where
  "multi_OnRunEnd r res =
     tell_all (\<lambda>k. ObsEnd k res) (\<lambda>ob. OnRunEnd ob (rsCtx r) (rsId r) res) (rsObs r) 0"

subsection \<open>Seeding the board\<close>

definition defaultBoard :: "keyorder \<Rightarrow> AgentRequest \<Rightarrow> Board" where
  "defaultBoard ord req =
     fold (\<lambda>k b. case fmlookup (qInputs req) k of None \<Rightarrow> b | Some v \<Rightarrow> SetVar k v b)
       (ord (fmdom (qInputs req))) (AppendChannelMessage MainChannel (qMessage req) NewBoard)"

fun prepare_chain :: "('h, 'w) runState \<Rightarrow> 'w Preparer list \<Rightarrow> nat \<Rightarrow> Board \<Rightarrow> 'w rt \<Rightarrow> (go_error + Board option) \<times> 'w rt" where
  "prepare_chain r [] k board st = (Inr (Some board), st)"
| "prepare_chain r (p # ps) k board st =
     (case p (rsCtx r) (rsId r) (rtreq st) board (rtw st) of
        (res, w) \<Rightarrow>
        (let st1 = note_call (CallBefore k) w st in
         case res of
           Inl e \<Rightarrow> (Inl e, st1)
         | Inr None \<Rightarrow> (Inr None, st1)
         | Inr (Some b) \<Rightarrow> prepare_chain r ps (Suc k) b st1))"

definition seedBoard :: "'w runlib \<Rightarrow> ('h, 'w) runState \<Rightarrow> 'w rt \<Rightarrow> (go_error + Board option) \<times> 'w rt" where
  "seedBoard lib r st = prepare_chain r (rcPreparers (rsRc r)) 0 (defaultBoard (keyOrder lib) (rtreq st)) st"

subsection \<open>From the board to the result\<close>

text \<open>The loop of \<open>newAssistantMessages\<close>: \<open>end\<close> moves down over assistant messages, not below \<open>start\<close>.\<close>

fun walk_back :: "Message list \<Rightarrow> nat \<Rightarrow> nat \<Rightarrow> nat" where
  "walk_back main start 0 = 0"
| "walk_back main start (Suc e) =
     (if Suc e > start \<and> mrole (main ! e) = RoleAssistant then walk_back main start e else Suc e)"

definition newAssistantMessages :: "Board \<Rightarrow> nat \<Rightarrow> Message list" where
  "newAssistantMessages b start =
     (let main = elems (Channel b MainChannel);
          start' = (if start > length main then length main else start)
      in drop (walk_back main start' (length main)) main)"

fun collect_from :: "Board \<Rightarrow> string list \<Rightarrow> string list \<Rightarrow> Artifact list" where
  "collect_from b seen [] = []"
| "collect_from b seen (name # names) =
     (if List.member seen name then collect_from b seen names
      else let parts = concat (map mparts (elems (Channel b name))) in
           if parts = [] then collect_from b (name # seen) names
           else \<lparr>artName = name, artParts = parts\<rparr> # collect_from b (name # seen) names)"

definition collectArtifacts :: "Board \<Rightarrow> string list \<Rightarrow> Artifact list" where
  "collectArtifacts b chans = collect_from b [] chans"

definition materializeResult :: "Result \<Rightarrow> Board \<Rightarrow> string list \<Rightarrow> nat \<Rightarrow> Result" where
  "materializeResult res board artifactChannels seedLen =
     res\<lparr>resLastBoard := board, resMessages := newAssistantMessages board seedLen,
         resArtifacts := collectArtifacts board artifactChannels\<rparr>"

subsection \<open>Durable history\<close>

definition HasStreamSource :: "'w runlib \<Rightarrow> string list \<Rightarrow> bool" where
  "HasStreamSource lib parts =
     list_ex (\<lambda>p. case normalizePart lib p of Inl e \<Rightarrow> False | Inr q \<Rightarrow> streamSource lib q) parts"

fun materialize_parts :: "'w runlib \<Rightarrow> ctx \<Rightarrow> string list \<Rightarrow> 'w \<Rightarrow> (go_error + string list) \<times> 'w" where
  "materialize_parts lib c [] w = (Inr [], w)"
| "materialize_parts lib c (p # ps) w =
     (case normalizePart lib p of
        Inl e \<Rightarrow> (Inl (Wrapf ''materialize content'' e), w)
      | Inr q \<Rightarrow>
          (case materializePart lib c q w of
             (Inl e, w1) \<Rightarrow> (Inl e, w1)
           | (Inr qs, w1) \<Rightarrow>
               (case materialize_parts lib c ps w1 of
                  (Inl e, w2) \<Rightarrow> (Inl e, w2)
                | (Inr rs, w2) \<Rightarrow> (Inr (qs @ rs), w2))))"

definition MaterializeContent :: "'w runlib \<Rightarrow> ctx \<Rightarrow> string list \<Rightarrow> 'w \<Rightarrow> (go_error + string list) \<times> 'w" where
  "MaterializeContent lib c parts w =
     (if \<not> HasStreamSource lib parts then (Inr parts, w) else materialize_parts lib c parts w)"

fun materialize_msgs :: "'w runlib \<Rightarrow> ctx \<Rightarrow> Message list \<Rightarrow> 'w \<Rightarrow> (go_error + bool \<times> Message list) \<times> 'w" where
  "materialize_msgs lib c [] w = (Inr (False, []), w)"
| "materialize_msgs lib c (m # ms) w =
     (if \<not> HasStreamSource lib (mparts m) then
        (case materialize_msgs lib c ms w of
           (Inl e, w1) \<Rightarrow> (Inl e, w1)
         | (Inr (changed, ms'), w1) \<Rightarrow> (Inr (changed, m # ms'), w1))
      else case MaterializeContent lib c (mparts m) w of
        (Inl e, w1) \<Rightarrow> (Inl e, w1)
      | (Inr ps, w1) \<Rightarrow>
          (case materialize_msgs lib c ms w1 of
             (Inl e, w2) \<Rightarrow> (Inl e, w2)
           | (Inr (changed, ms'), w2) \<Rightarrow> (Inr (True, m\<lparr>mparts := ps\<rparr> # ms'), w2)))"

fun materialize_channels ::
  "'w runlib \<Rightarrow> ctx \<Rightarrow> (string, Message slice) fmap \<Rightarrow> string list \<Rightarrow> Board \<Rightarrow> 'w \<Rightarrow> err \<times> Board \<times> 'w" where
  "materialize_channels lib c chans [] board w = (None, board, w)"
| "materialize_channels lib c chans (name # names) board w =
     (case materialize_msgs lib c (elems (fmchan chans name)) w of
        (Inl e, w1) \<Rightarrow> (Some (Wrapf ''channel'' e), board, w1)
      | (Inr (changed, ms), w1) \<Rightarrow>
          materialize_channels lib c chans names (if changed then SetChannel name (Slice ms) board else board) w1)"

definition materializeHistory :: "'w runlib \<Rightarrow> ctx \<Rightarrow> Board \<Rightarrow> 'w \<Rightarrow> err \<times> Board \<times> 'w" where
  "materializeHistory lib c board w =
     (let chans = ChannelsCopy board in materialize_channels lib c chans (keyOrder lib (fmdom chans)) board w)"

subsection \<open>One attempt\<close>

definition applyEngineOutcome :: "'w runlib \<Rightarrow> ('h, 'w) runState \<Rightarrow> Result \<Rightarrow> err \<Rightarrow> 'w rt \<Rightarrow> Result \<times> 'w rt" where
  "applyEngineOutcome lib r res execErr st =
     (case execErr of
        None \<Rightarrow> (res\<lparr>resStatus := RunCompleted, resCommitted := True\<rparr>, st)
      | Some e \<Rightarrow>
          if Is Interrupted execErr then
            (case errors_As (asInterrupted lib) e of
               None \<Rightarrow> (res\<lparr>resStatus := RunInterrupted, resErr := execErr, resCommitted := False\<rparr>, st)
             | Some intr \<Rightarrow>
                 (res\<lparr>resStatus := RunInterrupted, resErr := execErr, resCause := intrCause intr, resCommitted := False\<rparr>,
                  multi_OnInterrupt r intr st))
          else if errors_Is e Canceled \<or> errors_Is e DeadlineExceeded then
            (res\<lparr>resStatus := RunCanceled, resErr := execErr, resCommitted := False\<rparr>, st)
          else if Is Aborted execErr then
            (res\<lparr>resStatus := RunAborted, resErr := execErr, resCommitted := False\<rparr>, st)
          else (res\<lparr>resStatus := RunFailed, resErr := execErr, resCommitted := False\<rparr>, st))"

definition merge_decision :: "Decision \<Rightarrow> Decision \<Rightarrow> Decision" where
  "merge_decision merged d =
     \<lparr>AcceptOutput = AcceptOutput merged \<or> AcceptOutput d, DiscardOutput = DiscardOutput merged \<or> DiscardOutput d,
      Revise = Revise merged \<or> Revise d,
      Reason = (if Reason merged = [] \<and> Reason d \<noteq> [] then Reason d else Reason merged),
      dState = dState merged ++\<^sub>f dState d\<rparr>"

fun composeReferees ::
  "('h, 'w) runState \<Rightarrow> Result \<Rightarrow> 'w Referee list \<Rightarrow> nat \<Rightarrow> Decision \<Rightarrow> 'w rt \<Rightarrow> (go_error + Decision) \<times> 'w rt" where
  "composeReferees r res [] k merged st = (Inr merged, st)"
| "composeReferees r res (f # fs) k merged st =
     (case f (rsCtx r) (rsId r) (rtreq st) res (rtw st) of
        (d, w) \<Rightarrow>
        (let st1 = note_call (CallAfter k res) w st in
         case d of
           Inl e \<Rightarrow> (Inl e, st1)
         | Inr d' \<Rightarrow> composeReferees r res fs (Suc k) (merge_decision merged d') st1))"

definition apply_decision :: "Decision \<Rightarrow> Result \<Rightarrow> Result" where
  "apply_decision d res =
     (let c = (if AcceptOutput d then True else resCommitted res);
          c' = (if DiscardOutput d then False else c);
          s = (if Reason d \<noteq> [] then fmupd ''finalize_reason'' (VString (Reason d)) (resState res) else resState res)
      in res\<lparr>resCommitted := c', resState := s ++\<^sub>f dState d\<rparr>)"

definition referees :: "('h, 'w) runState \<Rightarrow> Result \<Rightarrow> 'w rt \<Rightarrow> (Result \<times> Decision \<times> err) \<times> 'w rt" where
  "referees r res st =
     (if rcAfters (rsRc r) = [] then ((res, noDecision, None), st)
      else case composeReferees r res (rcAfters (rsRc r)) 0 noDecision st of
        (Inl e, st1) \<Rightarrow> ((res, noDecision, Some e), st1)
      | (Inr d, st1) \<Rightarrow> ((apply_decision d res, d, None), st1))"

text \<open>The referee that discards output interrupted for one of the given causes.\<close>

definition DiscardOnInterruptCauses :: "string \<Rightarrow> string list \<Rightarrow> 'w Referee" where
  "DiscardOnInterruptCauses reason causes c i req res w =
     (if resStatus res \<noteq> RunInterrupted then (Inr noDecision, w)
      else if resCause res = [] then (Inr noDecision, w)
      else if \<not> List.member causes (resCause res) then (Inr noDecision, w)
      else (Inr (noDecision\<lparr>DiscardOutput := True, Reason := reason\<rparr>), w))"

definition blankResult :: "('h, 'w) runState \<Rightarrow> AgentRequest \<Rightarrow> nat \<Rightarrow> Result" where
  "blankResult r req n =
     \<lparr>resTaskID = qTaskID req, resRunID = iRunID (rsId r), resStatus = RunFailed, resCause = [], resMessages = [],
      resArtifacts = [], resCommitted = False, resState = fmupd ''run_id'' (VString (iRunID (rsId r))) fmempty,
      resErr = None, resLastBoard = NewBoard, resAttempts = n\<rparr>"

text \<open>The engine call and the error the attempt is classified by.\<close>

definition call_engine :: "'w runlib \<Rightarrow> ('h, 'w) runState \<Rightarrow> EngineRun \<Rightarrow> Board \<Rightarrow> 'w rt \<Rightarrow> (Board \<times> err) \<times> 'w rt" where
  "call_engine lib r run board st =
     (case rsEng r (rsCtx r) run (rsHost r) board (rtw st) of
        ((returned, board', execErr), w) \<Rightarrow>
        (let st1 = note_call (CallEngine run board) w st;
             final = (case returned of None \<Rightarrow> board' | Some b \<Rightarrow> b)
         in case ctxErr lib (rsCtx r) w of
              (ce, w1) \<Rightarrow>
                ((final, if ce \<noteq> None \<and> \<not> Is Interrupted execErr then ce else execErr), st1\<lparr>rtw := w1\<rparr>)))"

definition attempt :: "'w runlib \<Rightarrow> ('h, 'w) runState \<Rightarrow> nat \<Rightarrow> 'w rt \<Rightarrow> (Result option \<times> Decision \<times> err) \<times> 'w rt" where
  "attempt lib r n st =
     (case seedBoard lib r st of
        (Inl e, st1) \<Rightarrow> ((None, noDecision, Some (Wrapf ''agent: seed board'' e)), st1)
      | (Inr None, st1) \<Rightarrow> ((None, noDecision, Some (errf Validation ''agent: Preparer chain returned nil board'')), st1)
      | (Inr (Some board), st1) \<Rightarrow>
          (let seedLen = ChannelLen board MainChannel;
               run = engineRun r (rtreq st1) n;
               st2 = multi_OnRunStart r st1
           in case call_engine lib r run board st2 of
                ((finalBoard, execErr), st3) \<Rightarrow>
                (let res = materializeResult (blankResult r (rtreq st3) n) finalBoard (rcArtifactChannels (rsRc r)) seedLen
                 in case applyEngineOutcome lib r res execErr st3 of
                      (res1, st4) \<Rightarrow>
                      (case referees r res1 st4 of
                         ((res2, d, e), st5) \<Rightarrow> ((Some res2, d, e), st5)))))"

subsection \<open>Finalizing\<close>

definition wrapped :: "string option \<Rightarrow> go_error \<Rightarrow> go_error" where
  "wrapped wrap e = (case wrap of None \<Rightarrow> e | Some m \<Rightarrow> Wrapf m e)"

definition run_fail ::
  "('h, 'w) runState \<Rightarrow> Result \<Rightarrow> string \<Rightarrow> string option \<Rightarrow> go_error \<Rightarrow> 'w rt \<Rightarrow> (Result \<times> err) \<times> 'w rt" where
  "run_fail r res reason wrap e st =
     (let res' = res\<lparr>resCommitted := False, resState := fmupd ''finalize_reason'' (VString reason) (resState res)\<rparr>
      in ((res', Some (wrapped wrap e)), multi_OnRunEnd r res' st))"

fun commitResult :: "('h, 'w) runState \<Rightarrow> Result \<Rightarrow> 'w Committer list \<Rightarrow> nat \<Rightarrow> 'w rt \<Rightarrow> err \<times> 'w rt" where
  "commitResult r res [] k st = (None, st)"
| "commitResult r res (f # fs) k st =
     (case f (rsCtx r) (rsId r) (rtreq st) res (rtw st) of
        (e, w) \<Rightarrow>
        (let st1 = note_call (CallCommit k res) w st in
         if e \<noteq> None then (e, st1) else commitResult r res fs (Suc k) st1))"

definition commitView ::
  "'w runlib \<Rightarrow> ('h, 'w) runState \<Rightarrow> 'w CommitViewProvider \<Rightarrow> Result \<Rightarrow> 'w rt \<Rightarrow> ((Result \<times> err) + Result) \<times> 'w rt" where
  "commitView lib r prov res st =
     (case prov (rsCtx r) (rsId r) (rtreq st) res (rtw st) of
        (view, w) \<Rightarrow>
        (let st1 = note_call (CallView res) w st in
         case view of
           Inl e \<Rightarrow>
             (case run_fail r res ''commit_view_failed'' (Some ''agent: provide commit view'') e st1 of
                (p, st2) \<Rightarrow> (Inl p, st2))
         | Inr None \<Rightarrow>
             (case run_fail r res ''commit_view_failed'' None
                     (errf Validation ''agent: CommitViewProvider returned nil board'') st1 of
                (p, st2) \<Rightarrow> (Inl p, st2))
         | Inr (Some b) \<Rightarrow>
             (case materializeHistory lib (rsCtx r) b (rtw st1) of
                (Some e, b', w2) \<Rightarrow>
                  (case run_fail r res ''commit_view_failed'' (Some ''agent: materialize commit view'') e (st1\<lparr>rtw := w2\<rparr>) of
                     (p, st2) \<Rightarrow> (Inl p, st2))
              | (None, b', w2) \<Rightarrow>
                  (Inr (materializeResult res b' (rcArtifactChannels (rsRc r)) 0), st1\<lparr>rtw := w2\<rparr>))))"

definition commit_phase :: "'w runlib \<Rightarrow> ('h, 'w) runState \<Rightarrow> Result \<Rightarrow> 'w rt \<Rightarrow> ((Result \<times> err) + Result) \<times> 'w rt" where
  "commit_phase lib r res st =
     (case (case rcCommitViewProvider (rsRc r) of
              None \<Rightarrow> (Inr res, st)
            | Some prov \<Rightarrow> commitView lib r prov res st) of
        (Inl p, st1) \<Rightarrow> (Inl p, st1)
      | (Inr commitRes, st1) \<Rightarrow>
          (case commitResult r commitRes (rcCommitters (rsRc r)) 0 st1 of
             (None, st2) \<Rightarrow> (Inr res, st2)
           | (Some e, st2) \<Rightarrow>
               (case run_fail r res ''commit_failed'' (Some ''agent: commit result'') e st2 of
                  (p, st3) \<Rightarrow> (Inl p, st3))))"

definition finalize :: "'w runlib \<Rightarrow> ('h, 'w) runState \<Rightarrow> Result \<Rightarrow> 'w rt \<Rightarrow> ((Result \<times> err) + Result) \<times> 'w rt" where
  "finalize lib r res st =
     (case ctxErr lib (rsCtx r) (rtw st) of
        (ce, w) \<Rightarrow>
        (let st1 = st\<lparr>rtw := w\<rparr>;
             res1 = (if ce \<noteq> None \<and> resStatus res \<noteq> RunInterrupted
                     then res\<lparr>resStatus := RunCanceled, resCause := [], resErr := ce, resCommitted := False\<rparr> else res)
         in if \<not> resCommitted res1 then (Inr res1, st1)
            else case materializeHistory lib (rsCtx r) (resLastBoard res1) (rtw st1) of
              (he, b, w2) \<Rightarrow>
              (let res2 = res1\<lparr>resLastBoard := b\<rparr>; st2 = st1\<lparr>rtw := w2\<rparr> in
               case he of
                 Some e \<Rightarrow>
                   (case run_fail r res2 ''history_materialize_failed'' (Some ''agent: materialize history'') e st2 of
                      (p, st3) \<Rightarrow> (Inl p, st3))
               | None \<Rightarrow> if rcCommitters (rsRc r) = [] then (Inr res2, st2) else commit_phase lib r res2 st2)))"

subsection \<open>Execute\<close>

text \<open>The revise loop: \<open>Inl\<close> when \<open>Execute\<close> returns from inside it.\<close>

function revise_loop ::
  "'w runlib \<Rightarrow> ('h, 'w) runState \<Rightarrow> nat \<Rightarrow> 'w rt \<Rightarrow> ((Result option \<times> err) + Result) \<times> 'w rt" where
  "revise_loop lib r n st =
     (case attempt lib r n st of
        ((None, d, e), st1) \<Rightarrow> (Inl (None, e), st1)
      | ((Some res, d, Some e), st1) \<Rightarrow>
          (case run_fail r res ''referee_failed'' None e st1 of
             ((res', e'), st2) \<Rightarrow> (Inl (Some res', e'), st2))
      | ((Some res, d, None), st1) \<Rightarrow>
          if \<not> Revise d \<or> resStatus res \<noteq> RunCompleted \<or> n \<ge> rsMax r then (Inr res, st1)
          else revise_loop lib r (Suc n) (multi_OnRunRevise r res (Suc n) st1))"
  by pat_completeness auto
termination revise_loop
  by (relation "measure (\<lambda>(lib, r, n, st). rsMax r - n)") auto

declare revise_loop.simps [simp del]

definition run_of :: "('h, 'w) Agent \<Rightarrow> ('h, 'w) Engine \<Rightarrow> AgentRequest \<Rightarrow> ('h, 'w) execConfig \<Rightarrow> ctx \<Rightarrow> string \<Rightarrow> ('h, 'w) runState" where
  "run_of ag eng req rc c runID =
     \<lparr>rsCtx = c, rsId = buildIdentity (agID ag) runID req rc, rsEng = eng, rsRc = rc,
      rsHost = hostOrDefault (rcHost rc), rsObs = rcHooks rc, rsTools = resolveToolAllowList ag rc,
      rsMax = nat (max (rcMaxRevise rc) 1)\<rparr>"

definition run_agent :: "'w runlib \<Rightarrow> ('h, 'w) runState \<Rightarrow> 'w rt \<Rightarrow> (Result option \<times> err) \<times> 'w rt" where
  "run_agent lib r st =
     (case revise_loop lib r 1 st of
        (Inl p, st1) \<Rightarrow> (p, st1)
      | (Inr res, st1) \<Rightarrow>
          (case finalize lib r res st1 of
             (Inl (res', e), st2) \<Rightarrow> ((Some res', e), st2)
           | (Inr res', st2) \<Rightarrow> ((Some res', None), multi_OnRunEnd r res' st2)))"

definition agent_Execute ::
  "'w runlib \<Rightarrow> ('h, 'w) Agent \<Rightarrow> ('h, 'w) Engine option \<Rightarrow> AgentRequest \<Rightarrow> ('h, 'w) ExecuteOption option list \<Rightarrow> 'w \<Rightarrow>
   (Result option \<times> err) \<times> 'w rt" where
  "agent_Execute lib ag eng req opts w =
     (let st = \<lparr>rtw = w, rtreq = req, rtcalls = []\<rparr> in
      case (case eng of None \<Rightarrow> agEngine ag | Some x \<Rightarrow> Some x) of
        None \<Rightarrow> ((None, Some (errf Validation ''agent: nil engine'')), st)
      | Some engine \<Rightarrow>
          if agID ag = [] then ((None, Some (errf Validation ''agent: Agent.ID is empty'')), st)
          else let rc = applyOptions ag opts in
            case applyRunTimeout lib (polRunTimeout (agPolicy ag)) (rcRunTimeout rc) of
              Inl e \<Rightarrow> ((None, Some e), st)
            | Inr c \<Rightarrow>
                (case resolveRunID lib req rc w of
                   (Inl e, w1) \<Rightarrow> ((None, Some e), st\<lparr>rtw := w1\<rparr>)
                 | (Inr runID, w1) \<Rightarrow> run_agent lib (run_of ag engine req rc c runID) (st\<lparr>rtw := w1\<rparr>)))"

subsection \<open>Resuming\<close>

text \<open>An engine seen by \<open>AsResumer\<close>: the probe it implements, if any, and the engine it wraps, if any.\<close>

datatype resume_chain = Layer "(Checkpoint \<Rightarrow> err) option" "resume_chain option"

fun AsResumer :: "resume_chain \<Rightarrow> (Checkpoint \<Rightarrow> err) option" where
  "AsResumer (Layer (Some canResume) inner) = Some canResume"
| "AsResumer (Layer None None) = None"
| "AsResumer (Layer None (Some inner)) = AsResumer inner"

definition IsResumable :: "resume_chain \<Rightarrow> bool" where
  "IsResumable eng \<longleftrightarrow> AsResumer eng \<noteq> None"

record ResumeContext =
  rxAttempt :: int
  rxStartedAt :: int
  rxSignal :: string
  rxCheckpointAt :: int

record loadAndResumeOpts =
  loSignal :: string
  loAttempt :: int
  loStartedAt :: int
  loFreshAllowed :: bool

definition WithResumeSignal :: "string \<Rightarrow> loadAndResumeOpts \<Rightarrow> loadAndResumeOpts" where
  "WithResumeSignal s lo = (if s \<noteq> [] then lo\<lparr>loSignal := s\<rparr> else lo)"

definition WithResumeAttempt :: "int \<Rightarrow> loadAndResumeOpts \<Rightarrow> loadAndResumeOpts" where
  "WithResumeAttempt n lo = (if n > 0 then lo\<lparr>loAttempt := n\<rparr> else lo)"

definition WithResumeStartedAt :: "int \<Rightarrow> loadAndResumeOpts \<Rightarrow> loadAndResumeOpts" where
  "WithResumeStartedAt t lo = (if t \<noteq> 0 then lo\<lparr>loStartedAt := t\<rparr> else lo)"

definition WithFreshStartAllowed :: "bool \<Rightarrow> loadAndResumeOpts \<Rightarrow> loadAndResumeOpts" where
  "WithFreshStartAllowed allowed lo = lo\<lparr>loFreshAllowed := allowed\<rparr>"

text \<open>\<open>Inl\<close>: what it returns before the engine runs; \<open>Inr\<close>: the engine's own outcome, of type \<open>'r\<close>.\<close>

definition LoadAndResume ::
  "(string \<Rightarrow> bool) \<Rightarrow> ('w \<Rightarrow> int \<times> 'w) \<Rightarrow> (resume_chain \<times> (ResumeContext \<Rightarrow> Run \<Rightarrow> Board option \<Rightarrow> 'w \<Rightarrow> 'r)) option \<Rightarrow>
   (string \<Rightarrow> 'w \<Rightarrow> (go_error + Checkpoint option) \<times> 'w) option \<Rightarrow> Run \<Rightarrow> Board option \<Rightarrow>
   (loadAndResumeOpts \<Rightarrow> loadAndResumeOpts) list \<Rightarrow> 'w \<Rightarrow> (Board option \<times> err \<times> 'w) + 'r" where
  "LoadAndResume jv clock eng store run board opts w =
     (case eng of
        None \<Rightarrow> Inl (board, Some (Plain ''agent.LoadAndResume: nil engine''), w)
      | Some (chain, exec) \<Rightarrow>
          if rRunID run = [] then
            Inl (board, mark_as Validation (Some (Plain ''agent.LoadAndResume: Run.RunID is required'')), w)
          else
            let o1 = fold (\<lambda>f lo. f lo) opts
                      \<lparr>loSignal = ''manual'', loAttempt = 1, loStartedAt = 0, loFreshAllowed = True\<rparr>;
                (o2, w1) = (if loStartedAt o1 = 0 then case clock w of (t, w1) \<Rightarrow> (o1\<lparr>loStartedAt := t\<rparr>, w1) else (o1, w))
            in case (case store of None \<Rightarrow> (Inr None, w1) | Some load \<Rightarrow> load (rRunID run) w1) of
                 (Inl e, w2) \<Rightarrow> Inl (board, Some (Wrapf ''agent.LoadAndResume: load'' e), w2)
               | (Inr None, w2) \<Rightarrow>
                   if \<not> loFreshAllowed o2 then
                     Inl (board, mark_as NotFound (Some (Plain ''agent.LoadAndResume: no checkpoint for run'')), w2)
                   else Inr (exec \<lparr>rxAttempt = loAttempt o2, rxStartedAt = loStartedAt o2, rxSignal = loSignal o2,
                                   rxCheckpointAt = 0\<rparr> run board w2)
               | (Inr (Some cp), w2) \<Rightarrow>
                   (case Checkpoint_Validate jv cp of
                      Some e \<Rightarrow> Inl (board, Some (Wrapf ''agent.LoadAndResume: checkpoint'' e), w2)
                    | None \<Rightarrow>
                        if cpExecID cp \<noteq> rRunID run then
                          Inl (board, mark_as Validation
                            (Some (Plain ''agent.LoadAndResume: checkpoint exec_id does not match run'')), w2)
                        else case (case AsResumer chain of None \<Rightarrow> None | Some canResume \<Rightarrow> canResume cp) of
                          Some e \<Rightarrow> Inl (board, Some (Wrapf ''agent.LoadAndResume: CanResume'' e), w2)
                        | None \<Rightarrow>
                            Inr (exec
                              \<lparr>rxAttempt = max (loAttempt o2) 2,
                               rxStartedAt = (if cpOriginalStartedAt cp = 0 then loStartedAt o2 else cpOriginalStartedAt cp),
                               rxSignal = loSignal o2, rxCheckpointAt = cpTimestamp cp\<rparr>
                              (run\<lparr>ResumeFrom := Some cp\<rparr>) board w2)))"

text \<open>The graph engine as \<open>LoadAndResume\<close> calls it: the start time comes from the resume context.\<close>

definition resumed_env :: "ResumeContext \<Rightarrow> 'h env \<Rightarrow> 'h env" where
  "resumed_env rx env = env\<lparr>resumeStartedAt := (if rxStartedAt rx = 0 then None else Some (rxStartedAt rx))\<rparr>"

definition graph_exec ::
  "'h env \<Rightarrow> ('h world) Graph \<Rightarrow> ResumeContext \<Rightarrow> Run \<Rightarrow> Board option \<Rightarrow> 'h world \<Rightarrow> (err \<times> Board \<times> 'h world) option" where
  "graph_exec env g rx run board w = Execute (resumed_env rx env) g run board w"

lemma resumed_env_fields [simp]:
  "startNodeFromContext (resumed_env rx env) = startNodeFromContext env" "ejson (resumed_env rx env) = ejson env"
  "eexpr (resumed_env rx env) = eexpr env"
  by (simp_all add: resumed_env_def)

lemma start_point_resumed [simp]: "start_point (resumed_env rx env) g run b = start_point env g run b"
  unfolding start_point_def resumed_env_fields ..

lemma graph_exec_from:
  assumes "start_point env g run (case board of None \<Rightarrow> NewBoard | Some b \<Rightarrow> b) = Inr (fr, it, b2)"
  shows "\<exists>started cw w2. graph_exec env g rx run board w = map_option (end_run (resumed_env rx env))
    (wave_loop (resumed_env rx env) g run started \<lparr>frontier = fr, iters = it, writer = cw, lboard = b2, lworld = w2\<rparr>)"
  by (cases "now (resumed_env rx env) (whost w)")
    (simp only: graph_exec_def Execute_def Let_def start_point_resumed assms sum.case prod.case, intro exI, rule refl)

lemma LoadAndResume_resumes:
  assumes "load (rRunID run) = (\<lambda>w. (Inr (Some cp), w))" "rRunID run \<noteq> []" "Checkpoint_Validate jv cp = None"
    and "cpExecID cp = rRunID run" "\<And>probe. AsResumer chain = Some probe \<Longrightarrow> probe cp = None"
  shows "\<exists>rx w2. LoadAndResume jv clock (Some (chain, exec)) (Some load) run board opts w =
    Inr (exec rx (run\<lparr>ResumeFrom := Some cp\<rparr>) board w2)"
proof -
  have "(case AsResumer chain of None \<Rightarrow> None | Some canResume \<Rightarrow> canResume cp) = None"
    using assms(5) by (auto split: option.split)
  then show ?thesis using assms(1-4) by (simp add: LoadAndResume_def Let_def split: prod.split) blast
qed

text \<open>A loadable record of the run that the graph accepts puts the engine's loop at its start point.\<close>

lemma LoadAndResume_graph:
  assumes "load (rRunID run) = (\<lambda>w. (Inr (Some cp), w))" "rRunID run \<noteq> []" "Checkpoint_Validate jv cp = None"
    and "cpExecID cp = rRunID run" "CanResume g cp = None" "AsResumer chain \<in> {None, Some (CanResume g)}"
    and "start_point env g (run\<lparr>ResumeFrom := Some cp\<rparr>) (case board of None \<Rightarrow> NewBoard | Some b \<Rightarrow> b) = Inr (fr, it, b2)"
  shows "\<exists>rx started cw w2.
    LoadAndResume jv clock (Some (chain, graph_exec env g)) (Some load) run board opts w =
      Inr (map_option (end_run (resumed_env rx env))
        (wave_loop (resumed_env rx env) g (run\<lparr>ResumeFrom := Some cp\<rparr>) started
           \<lparr>frontier = fr, iters = it, writer = cw, lboard = b2, lworld = w2\<rparr>))"
proof -
  have "probe cp = None" if "AsResumer chain = Some probe" for probe using assms(5,6) that by auto
  then obtain rx w2 where "LoadAndResume jv clock (Some (chain, graph_exec env g)) (Some load) run board opts w =
      Inr (graph_exec env g rx (run\<lparr>ResumeFrom := Some cp\<rparr>) board w2)"
    using LoadAndResume_resumes [of load run cp jv chain, OF assms(1-4)] by blast
  with graph_exec_from [OF assms(7), of rx w2] show ?thesis by (metis (no_types))
qed

end
