(* ===== verification/Agent_Turn.thy ===== *)
theory Agent_Turn
  imports Agent_Execute
begin

text \<open>
  What \<open>Execute\<close> of \<open>Agent_Execute\<close> guarantees: which calls it makes to engine and hooks and in what order, when
  committers run and what a committed result means, and which messages and artifacts a result carries.
\<close>

subsection \<open>The calls each step makes\<close>

abbreviation everyone :: "('h, 'w) runState \<Rightarrow> nat list" where
  "everyone r \<equiv> [0..<length (rsObs r)]"

lemma note_call_fields [simp]:
  "rtw (note_call c w st) = w" "rtreq (note_call c w st) = rtreq st" "rtcalls (note_call c w st) = rtcalls st @ [c]"
  by (simp_all add: note_call_def)

lemma upt_shift: "[k..<Suc (k + n)] = k # [Suc k..<Suc (k + n)]"
  by (simp add: upt_conv_Cons del: upt_Suc)

lemma start_all_calls: "rtcalls (start_all c i obs k st) = rtcalls st @ map ObsStart [k..<k + length obs]"
  by (induction c i obs k st rule: start_all.induct) (auto split: prod.split simp: upt_shift simp del: upt_Suc)

lemma tell_all_calls: "rtcalls (tell_all c f obs k st) = rtcalls st @ map c [k..<k + length obs]"
  by (induction c f obs k st rule: tell_all.induct) (auto simp: upt_shift simp del: upt_Suc)

lemma multi_calls [simp]:
  "rtcalls (multi_OnRunStart r st) = rtcalls st @ map ObsStart (everyone r)"
  "rtcalls (multi_OnInterrupt r intr st) = rtcalls st @ map (\<lambda>k. ObsInterrupt k intr) (everyone r)"
  "rtcalls (multi_OnRunRevise r res n st) = rtcalls st @ map (\<lambda>k. ObsRevise k res n) (everyone r)"
  "rtcalls (multi_OnRunEnd r res st) = rtcalls st @ map (\<lambda>k. ObsEnd k res) (everyone r)"
  by (simp_all add: multi_OnRunStart_def multi_OnInterrupt_def multi_OnRunRevise_def multi_OnRunEnd_def start_all_calls tell_all_calls)

lemma prepare_chain_calls:
  "prepare_chain r ps k b st = (out, st') \<Longrightarrow> rtreq st' = rtreq st \<and> (\<exists>ks. rtcalls st' = rtcalls st @ map CallBefore ks)"
proof (induction r ps k b st arbitrary: out st' rule: prepare_chain.induct)
  case (1 r k b st)
  then show ?case by (auto intro: exI [of _ "[]"])
next
  case (2 r p ps k b st)
  obtain res w where p: "p (rsCtx r) (rsId r) (rtreq st) b (rtw st) = (res, w)" by fastforce
  show ?case
  proof (cases "\<exists>b'. res = Inr (Some b')")
    case True
    then obtain b' where res: "res = Inr (Some b')" by blast
    from 2(1) [OF p [symmetric] refl res refl] 2(2) obtain ks where
      "rtreq st' = rtreq st" "rtcalls st' = rtcalls st @ map CallBefore (k # ks)"
      by (fastforce simp: p res)
    then show ?thesis by blast
  next
    case False
    then have "st' = note_call (CallBefore k) w st" using 2(2) by (auto simp: p Let_def split: sum.splits option.splits)
    then show ?thesis by (auto intro: exI [of _ "[k]"])
  qed
qed

lemma composeReferees_calls:
  "composeReferees r res fs k m st = (out, st') \<Longrightarrow>
   \<exists>ks. rtcalls st' = rtcalls st @ map (\<lambda>k. CallAfter k res) ks"
proof (induction r res fs k m st arbitrary: out st' rule: composeReferees.induct)
  case (1 r res k m st)
  then show ?case by (auto intro: exI [of _ "[]"])
next
  case (2 r res f fs k m st)
  obtain d w where f: "f (rsCtx r) (rsId r) (rtreq st) res (rtw st) = (d, w)" by fastforce
  show ?case
  proof (cases d)
    case (Inl e)
    then show ?thesis using 2(2) by (auto simp: f intro: exI [of _ "[k]"])
  next
    case (Inr d')
    from 2(1) [OF f [symmetric] refl Inr] 2(2) obtain ks where
      "rtcalls st' = rtcalls st @ map (\<lambda>k. CallAfter k res) (k # ks)" by (fastforce simp: f Inr)
    then show ?thesis by blast
  qed
qed

lemma commitResult_calls:
  assumes "commitResult r res fs k st = (e, st')"
  shows "\<exists>m. rtcalls st' = rtcalls st @ map (\<lambda>k. CallCommit k res) [k..<k + m] \<and> m \<le> length fs \<and>
    (e = None \<longrightarrow> m = length fs)"
  using assms
proof (induction r res fs k st arbitrary: e st' rule: commitResult.induct)
  case (1 r res k st)
  then show ?case by simp
next
  case (2 r res f fs k st)
  obtain d w where f: "f (rsCtx r) (rsId r) (rtreq st) res (rtw st) = (d, w)" by fastforce
  show ?case
  proof (cases d)
    case None
    from 2(1) [OF f [symmetric] refl] 2(2) None obtain m where
      "rtcalls st' = rtcalls st @ CallCommit k res # map (\<lambda>k. CallCommit k res) [Suc k..<Suc k + m]"
      "m \<le> length fs" "e = None \<longrightarrow> m = length fs" by (auto simp: f)
    then show ?thesis by (intro exI [of _ "Suc m"]) (auto simp: upt_conv_Cons)
  next
    case (Some x)
    then show ?thesis using 2(2) by (auto simp: f intro!: exI [of _ 1])
  qed
qed

lemma applyEngineOutcome_calls:
  assumes "applyEngineOutcome lib r res x st = (res', st')"
  shows "\<exists>ii. rtcalls st' = rtcalls st @ concat (map (\<lambda>i. map (\<lambda>k. ObsInterrupt k i) (everyone r)) ii) \<and> length ii \<le> 1 \<and>
      (ii \<noteq> [] \<longrightarrow> resStatus res' = RunInterrupted)" (is ?A)
    and "resAttempts res' = resAttempts res" "resCommitted res' \<longleftrightarrow> resStatus res' = RunCompleted"
proof -
  consider "st' = st" | intr where "st' = multi_OnInterrupt r intr st" "resStatus res' = RunInterrupted"
    using assms by (auto simp: applyEngineOutcome_def split: option.splits if_splits)
  then show ?A
  proof cases
    case 1
    then show ?thesis by (intro exI [of _ "[]"]) simp
  next
    case 2
    then show ?thesis by (intro exI [of _ "[intr]"]) simp
  qed
qed (use assms in \<open>auto simp: applyEngineOutcome_def split: option.splits if_splits\<close>)

text \<open>The calls of an attempt that got as far as a result.\<close>

definition attempt_calls :: "('h, 'w) runState \<Rightarrow> nat \<Rightarrow> Interrupt list \<Rightarrow> call list \<Rightarrow> bool" where
  "attempt_calls r n ii cs \<longleftrightarrow>
     (\<exists>ks req b ks' res. cs = map CallBefore ks @ map ObsStart (everyone r) @ [CallEngine (engineRun r req n) b] @
        concat (map (\<lambda>i. map (\<lambda>k. ObsInterrupt k i) (everyone r)) ii) @ map (\<lambda>k. CallAfter k res) ks')"

lemma referees_calls:
  assumes "referees r res st = ((res', d, e), st')"
  shows "\<exists>ks. rtcalls st' = rtcalls st @ map (\<lambda>k. CallAfter k res) ks" (is ?A)
    and "resAttempts res' = resAttempts res" "resStatus res' = resStatus res"
    and "resCommitted res' \<longrightarrow> resCommitted res \<or> AcceptOutput d" "rcAfters (rsRc r) = [] \<longrightarrow> res' = res"
proof -
  show ?A
  proof (cases "rcAfters (rsRc r) = []")
    case True
    then show ?thesis using assms by (auto simp: referees_def intro: exI [of _ "[]"])
  next
    case False
    then show ?thesis using assms
      by (auto simp: referees_def split: prod.splits sum.splits dest!: composeReferees_calls)
  qed
qed (use assms in \<open>auto simp: referees_def apply_decision_def Let_def split: if_splits prod.splits sum.splits\<close>)

lemma attempt_no_result:
  assumes "attempt lib r n st = ((None, d, e), st')"
  shows "e \<noteq> None \<and> (\<exists>ks. rtcalls st' = rtcalls st @ map CallBefore ks)"
  using assms
  by (auto simp: attempt_def seedBoard_def Let_def dest: prepare_chain_calls split: prod.splits sum.splits option.splits)

lemma attempt_result:
  assumes "attempt lib r n st = ((Some res, d, e), st')"
  shows "resAttempts res = n" "rcAfters (rsRc r) = [] \<longrightarrow> resCommitted res \<longrightarrow> resStatus res = RunCompleted"
    "\<exists>ii cs. rtcalls st' = rtcalls st @ cs \<and> attempt_calls r n ii cs \<and> length ii \<le> 1 \<and>
       (ii \<noteq> [] \<longrightarrow> resStatus res = RunInterrupted)"
proof -
  obtain board st1 fb x st3 res1 st4 where
    seed: "seedBoard lib r st = (Inr (Some board), st1)" and
    eng: "call_engine lib r (engineRun r (rtreq st1) n) board (multi_OnRunStart r st1) = ((fb, x), st3)" and
    oc: "applyEngineOutcome lib r (materializeResult (blankResult r (rtreq st3) n) fb (rcArtifactChannels (rsRc r))
        (ChannelLen board MainChannel)) x st3 = (res1, st4)" and
    rf: "referees r res1 st4 = ((res, d, e), st')"
    using assms by (auto simp: attempt_def Let_def split: prod.splits sum.splits option.splits)
  obtain ks where ks: "rtcalls st1 = rtcalls st @ map CallBefore ks"
    using prepare_chain_calls [OF seed [unfolded seedBoard_def]] by blast
  have c3: "rtcalls st3 = rtcalls st1 @ map ObsStart (everyone r) @ [CallEngine (engineRun r (rtreq st1) n) board]"
    using eng by (auto simp: call_engine_def Let_def split: prod.splits)
  obtain ii where ii: "rtcalls st4 = rtcalls st3 @ concat (map (\<lambda>i. map (\<lambda>k. ObsInterrupt k i) (everyone r)) ii)"
    "length ii \<le> 1" "ii \<noteq> [] \<longrightarrow> resStatus res1 = RunInterrupted"
    using applyEngineOutcome_calls(1) [OF oc] by blast
  obtain ks' where ks': "rtcalls st' = rtcalls st4 @ map (\<lambda>k. CallAfter k res1) ks'"
    using referees_calls(1) [OF rf] by blast
  show "resAttempts res = n"
    using referees_calls(2) [OF rf] applyEngineOutcome_calls(2) [OF oc] by (simp add: materializeResult_def blankResult_def)
  show "rcAfters (rsRc r) = [] \<longrightarrow> resCommitted res \<longrightarrow> resStatus res = RunCompleted"
    using referees_calls(5) [OF rf] applyEngineOutcome_calls(3) [OF oc] by auto
  have "attempt_calls r n ii (map CallBefore ks @ map ObsStart (everyone r) @ [CallEngine (engineRun r (rtreq st1) n) board] @
      concat (map (\<lambda>i. map (\<lambda>k. ObsInterrupt k i) (everyone r)) ii) @ map (\<lambda>k. CallAfter k res1) ks')"
    unfolding attempt_calls_def by blast
  moreover have "ii \<noteq> [] \<longrightarrow> resStatus res = RunInterrupted" using ii(3) referees_calls(3) [OF rf] by simp
  ultimately show "\<exists>ii cs. rtcalls st' = rtcalls st @ cs \<and> attempt_calls r n ii cs \<and> length ii \<le> 1 \<and>
       (ii \<noteq> [] \<longrightarrow> resStatus res = RunInterrupted)"
    using ks c3 ii(1,2) ks' by (intro exI conjI) (assumption | simp)+
qed

subsection \<open>The revise loop\<close>

text \<open>The calls of the attempts that were revised, up to the one about to start, with their results.\<close>

inductive rounds :: "('h, 'w) runState \<Rightarrow> nat \<Rightarrow> call list \<Rightarrow> Result list \<Rightarrow> bool" for r where
  no_round: "rounds r 1 [] []"
| next_round: "rounds r n cs rs \<Longrightarrow> attempt_calls r n [] c1 \<Longrightarrow> resStatus res = RunCompleted \<Longrightarrow> resAttempts res = n \<Longrightarrow>
    n < rsMax r \<Longrightarrow> rounds r (Suc n) (cs @ c1 @ map (\<lambda>k. ObsRevise k res (Suc n)) (everyone r)) (rs @ [res])"

lemma rounds_count: "rounds r n cs rs \<Longrightarrow> n = Suc (length rs)"
  by (induction rule: rounds.induct) auto

lemma rounds_bound: "rounds r n cs rs \<Longrightarrow> 1 \<le> rsMax r \<Longrightarrow> n \<le> rsMax r"
  by (induction rule: rounds.induct) auto

text \<open>How the loop ends: without a result, with a failed referee, or with the result to finalize.\<close>

definition loop_end :: "('h, 'w) runState \<Rightarrow> (Result option \<times> err) + Result \<Rightarrow> nat \<Rightarrow> call list \<Rightarrow> call list \<Rightarrow> bool" where
  "loop_end r out n cs tr \<longleftrightarrow>
     (case out of
        Inl (None, e) \<Rightarrow> e \<noteq> None \<and> (\<exists>ks. tr = cs @ map CallBefore ks)
      | Inl (Some res, e) \<Rightarrow>
          (\<exists>ii c1. e \<noteq> None \<and> \<not> resCommitted res \<and> resAttempts res = n \<and> attempt_calls r n ii c1 \<and> length ii \<le> 1 \<and>
             (ii \<noteq> [] \<longrightarrow> resStatus res = RunInterrupted) \<and>
             tr = cs @ c1 @ map (\<lambda>k. ObsEnd k res) (everyone r))
      | Inr res \<Rightarrow>
          (\<exists>ii c1. resAttempts res = n \<and> (rcAfters (rsRc r) = [] \<longrightarrow> resCommitted res \<longrightarrow> resStatus res = RunCompleted) \<and>
             attempt_calls r n ii c1 \<and> length ii \<le> 1 \<and>
             (ii \<noteq> [] \<longrightarrow> resStatus res = RunInterrupted) \<and> tr = cs @ c1))"

lemma revise_loop_rounds:
  assumes "revise_loop lib r n st = (out, st')" "rounds r n (rtcalls st) rs"
  shows "\<exists>n' cs rs'. rounds r n' cs rs' \<and> loop_end r out n' cs (rtcalls st')"
  using assms
proof (induction lib r n st arbitrary: rs out st' rule: revise_loop.induct)
  case (1 lib r n st)
  obtain ro d e st1 where at: "attempt lib r n st = ((ro, d, e), st1)" by (metis prod.exhaust)
  show ?case
  proof (cases ro)
    case None
    then have "out = Inl (None, e)" "st' = st1" using 1(2) by (auto simp: revise_loop.simps [of lib r n st] at)
    then have "loop_end r out n (rtcalls st) (rtcalls st')"
      using attempt_no_result [OF at [unfolded None]] by (simp add: loop_end_def)
    then show ?thesis using 1(3) by blast
  next
    case (Some res)
    note at = at [unfolded Some]
    from attempt_result(3) [OF at] obtain ii c1 where c1: "rtcalls st1 = rtcalls st @ c1" "attempt_calls r n ii c1"
      "length ii \<le> 1" "ii \<noteq> [] \<longrightarrow> resStatus res = RunInterrupted" by blast
    note na = attempt_result(1) [OF at]
    consider (failed) x where "e = Some x"
      | (ended) "e = None" "\<not> Revise d \<or> resStatus res \<noteq> RunCompleted \<or> n \<ge> rsMax r"
      | (again) "e = None" "Revise d" "resStatus res = RunCompleted" "n < rsMax r" by force
    then show ?thesis
    proof cases
      case failed
      let ?res = "res\<lparr>resCommitted := False, resState := fmupd ''finalize_reason'' (VString ''referee_failed'') (resState res)\<rparr>"
      from failed have "out = Inl (Some ?res, Some x)" "st' = multi_OnRunEnd r ?res st1"
        using 1(2) by (auto simp: revise_loop.simps [of lib r n st] at run_fail_def Let_def wrapped_def)
      then have "loop_end r out n (rtcalls st) (rtcalls st')"
        unfolding loop_end_def using c1 na by (simp, intro exI [of _ ii] conjI exI [of _ c1]) simp_all
      then show ?thesis using 1(3) by blast
    next
      case ended
      then have "out = Inr res" "st' = st1" using 1(2) by (auto simp: revise_loop.simps [of lib r n st] at)
      then have "loop_end r out n (rtcalls st) (rtcalls st')" using c1 na attempt_result(2) [OF at] by (auto simp: loop_end_def)
      then show ?thesis using 1(3) by blast
    next
      case again
      let ?st2 = "multi_OnRunRevise r res (Suc n) st1"
      have "ii = []" using c1(4) again(3) by auto
      with 1(3) c1 na again have "rounds r (Suc n) (rtcalls ?st2) (rs @ [res])"
        using next_round [OF 1(3), of c1 res] by simp
      moreover have "revise_loop lib r (Suc n) ?st2 = (out, st')"
        using 1(2) again by (simp add: revise_loop.simps [of lib r n st] at)
      ultimately show ?thesis using 1(1) [OF at [symmetric] refl refl refl again(1)] again by auto
    qed
  qed
qed

subsection \<open>Finalizing\<close>

lemma commitView_calls:
  assumes "commitView lib r prov res st = (out, st')"
  shows "case out of
      Inl (res', e) \<Rightarrow> e \<noteq> None \<and> \<not> resCommitted res' \<and> resAttempts res' = resAttempts res \<and> resStatus res' = resStatus res \<and>
        rtcalls st' = rtcalls st @ CallView res # map (\<lambda>k. ObsEnd k res') (everyone r)
    | Inr v \<Rightarrow> resCommitted v = resCommitted res \<and> resRunID v = resRunID res \<and> rtcalls st' = rtcalls st @ [CallView res]"
  using assms
  by (auto simp: commitView_def run_fail_def Let_def materializeResult_def split: prod.splits sum.splits option.splits)

text \<open>Committers work on a committed result, all of them when the result stays committed.\<close>

definition final_end :: "('h, 'w) runState \<Rightarrow> Result \<Rightarrow> (Result \<times> err) + Result \<Rightarrow> call list \<Rightarrow> bool" where
  "final_end r res out cs \<longleftrightarrow>
     (\<exists>vs v m. set vs \<subseteq> range CallView \<and> m \<le> length (rcCommitters (rsRc r)) \<and> (0 < m \<longrightarrow> resCommitted v \<and> resCommitted res) \<and>
        (case out of
           Inl (res', e) \<Rightarrow> e \<noteq> None \<and> \<not> resCommitted res' \<and> resAttempts res' = resAttempts res \<and>
             (resStatus res = RunInterrupted \<longrightarrow> resStatus res' = RunInterrupted) \<and>
             cs = vs @ map (\<lambda>k. CallCommit k v) [0..<m] @ map (\<lambda>k. ObsEnd k res') (everyone r)
         | Inr res' \<Rightarrow> resAttempts res' = resAttempts res \<and>
             (resStatus res = RunInterrupted \<longrightarrow> resStatus res' = RunInterrupted) \<and>
             (resCommitted res' \<longrightarrow> m = length (rcCommitters (rsRc r)) \<and> resCommitted res \<and> resStatus res' = resStatus res) \<and>
             (rcCommitViewProvider (rsRc r) = None \<and> 0 < m \<longrightarrow> v = res') \<and>
             cs = vs @ map (\<lambda>k. CallCommit k v) [0..<m]))"

lemma run_fail_final:
  assumes "run_fail r res reason wrap e st = (p, st')"
  shows "\<exists>cs. rtcalls st' = rtcalls st @ cs \<and> final_end r res (Inl p) cs"
  using assms
  by (intro exI [of _ "map (\<lambda>k. ObsEnd k (fst p)) (everyone r)"])
    (auto simp: run_fail_def Let_def final_end_def intro!: exI [of _ "[]"] exI [of _ 0])

lemma commit_phase_calls:
  assumes "commit_phase lib r res st = (out, st')" "resCommitted res"
  shows "\<exists>cs. rtcalls st' = rtcalls st @ cs \<and> final_end r res out cs"
proof -
  obtain vo st1 where vo: "(case rcCommitViewProvider (rsRc r) of None \<Rightarrow> (Inr res, st)
      | Some prov \<Rightarrow> commitView lib r prov res st) = (vo, st1)" by fastforce
  show ?thesis
  proof (cases vo)
    case (Inl p)
    then obtain prov where "rcCommitViewProvider (rsRc r) = Some prov" "commitView lib r prov res st = (Inl p, st1)"
      using vo by (auto split: option.splits)
    with commitView_calls [OF this(2)] show ?thesis using assms(1)
      by (intro exI [of _ "CallView res # map (\<lambda>k. ObsEnd k (fst p)) (everyone r)"])
        (auto simp: commit_phase_def vo Inl final_end_def split: prod.splits intro!: exI [of _ "[CallView res]"] exI [of _ 0])
  next
    case (Inr v)
    then obtain vs where vs: "set vs \<subseteq> range CallView" "rtcalls st1 = rtcalls st @ vs" "resCommitted v"
      "rcCommitViewProvider (rsRc r) = None \<longrightarrow> v = res"
    proof (cases "rcCommitViewProvider (rsRc r)")
      case None
      then show ?thesis using that [of "[]"] vo Inr assms(2) by simp
    next
      case (Some prov)
      then show ?thesis using that [of "[CallView res]"] vo Inr assms(2) commitView_calls [of lib r prov res st vo st1] by auto
    qed
    obtain e st2 where ce: "commitResult r v (rcCommitters (rsRc r)) 0 st1 = (e, st2)" by fastforce
    from commitResult_calls [OF ce] obtain m where m: "rtcalls st2 = rtcalls st1 @ map (\<lambda>k. CallCommit k v) [0..<m]"
      "m \<le> length (rcCommitters (rsRc r))" "e = None \<longrightarrow> m = length (rcCommitters (rsRc r))" by auto
    show ?thesis
    proof (cases e)
      case None
      then have "out = Inr res" "st' = st2" using assms(1) by (auto simp: commit_phase_def vo Inr ce)
      then show ?thesis using vs m assms(2) None
        by (intro exI [of _ "vs @ map (\<lambda>k. CallCommit k v) [0..<m]"])
          (simp add: final_end_def, intro exI [of _ vs] exI [of _ v] conjI; simp)
    next
      case (Some x)
      let ?res = "res\<lparr>resCommitted := False, resState := fmupd ''finalize_reason'' (VString ''commit_failed'') (resState res)\<rparr>"
      have "out = Inl (?res, Some (Wrapf ''agent: commit result'' x))" "st' = multi_OnRunEnd r ?res st2"
        using assms(1) Some by (auto simp: commit_phase_def vo Inr ce run_fail_def wrapped_def Let_def)
      then show ?thesis using vs m assms(2)
        by (intro exI [of _ "vs @ map (\<lambda>k. CallCommit k v) [0..<m] @ map (\<lambda>k. ObsEnd k ?res) (everyone r)"])
          (auto simp: final_end_def)
    qed
  qed
qed

lemma finalize_calls:
  assumes "finalize lib r res st = (out, st')"
  shows "\<exists>cs. rtcalls st' = rtcalls st @ cs \<and> final_end r res out cs"
proof -
  obtain ce w where ce: "ctxErr lib (rsCtx r) (rtw st) = (ce, w)" by fastforce
  let ?st1 = "st\<lparr>rtw := w\<rparr>"
  show ?thesis
  proof (cases "ce \<noteq> None \<and> resStatus res \<noteq> RunInterrupted \<or> \<not> resCommitted res")
    case True
    then show ?thesis using assms
      by (auto simp: finalize_def ce Let_def final_end_def split: if_splits intro!: exI [of _ "[]"])
  next
    case False
    obtain he b w2 where he: "materializeHistory lib (rsCtx r) (resLastBoard res) w = (he, b, w2)" by (metis prod_cases3)
    let ?res2 = "res\<lparr>resLastBoard := b\<rparr>" and ?st2 = "?st1\<lparr>rtw := w2\<rparr>"
    have fe: "final_end r ?res2 out cs \<Longrightarrow> final_end r res out cs" for cs by (cases out) (auto simp: final_end_def split_beta)
    show ?thesis
    proof (cases "he = None \<and> rcCommitters (rsRc r) \<noteq> []")
      case True
      then have "commit_phase lib r ?res2 ?st2 = (out, st')"
        using assms False by (auto simp: finalize_def ce Let_def he)
      from commit_phase_calls [OF this] False fe show ?thesis by auto
    next
      case hist: False
      show ?thesis
      proof (cases he)
        case None
        then show ?thesis using assms False hist
          by (auto simp: finalize_def ce Let_def he final_end_def split: if_splits intro!: exI [of _ "[]"])
      next
        case (Some x)
        obtain p where "run_fail r ?res2 ''history_materialize_failed'' (Some ''agent: materialize history'') x ?st2 = (p, st')"
          "out = Inl p"
          using assms False by (auto simp: finalize_def ce Let_def he Some split: prod.splits if_splits)
        with run_fail_final [OF this(1)] fe show ?thesis by auto
      qed
    qed
  qed
qed

subsection \<open>The shape of a run\<close>

definition last_calls :: "('h, 'w) runState \<Rightarrow> nat \<Rightarrow> Result \<Rightarrow> err \<Rightarrow> call list \<Rightarrow> bool" where
  "last_calls r n res e tr \<longleftrightarrow>
     (\<exists>ii c1 vs v m. attempt_calls r n ii c1 \<and> length ii \<le> 1 \<and> (ii \<noteq> [] \<longrightarrow> resStatus res = RunInterrupted) \<and>
        set vs \<subseteq> range CallView \<and> m \<le> length (rcCommitters (rsRc r)) \<and> (0 < m \<longrightarrow> resCommitted v) \<and>
        (resCommitted res \<longrightarrow> e = None \<and> m = length (rcCommitters (rsRc r))) \<and>
        (rcAfters (rsRc r) = [] \<longrightarrow> resCommitted res \<longrightarrow> resStatus res = RunCompleted) \<and>
        (rcCommitViewProvider (rsRc r) = None \<and> 0 < m \<and> e = None \<longrightarrow> v = res) \<and>
        resAttempts res = n \<and> tr = c1 @ vs @ map (\<lambda>k. CallCommit k v) [0..<m] @ map (\<lambda>k. ObsEnd k res) (everyone r))"

lemma last_callsE:
  assumes "last_calls r n res e tr"
  obtains ii c1 vs v m where "attempt_calls r n ii c1" "length ii \<le> 1" "ii \<noteq> [] \<longrightarrow> resStatus res = RunInterrupted"
    "set vs \<subseteq> range CallView" "m \<le> length (rcCommitters (rsRc r))" "0 < m \<longrightarrow> resCommitted v"
    "resCommitted res \<longrightarrow> e = None \<and> m = length (rcCommitters (rsRc r))"
    "rcAfters (rsRc r) = [] \<longrightarrow> resCommitted res \<longrightarrow> resStatus res = RunCompleted"
    "rcCommitViewProvider (rsRc r) = None \<and> 0 < m \<and> e = None \<longrightarrow> v = res" "resAttempts res = n"
    "tr = c1 @ vs @ map (\<lambda>k. CallCommit k v) [0..<m] @ map (\<lambda>k. ObsEnd k res) (everyone r)"
  using assms unfolding last_calls_def by (elim exE conjE) (rule that; assumption)

lemma run_agent_shape:
  assumes "run_agent lib r st = ((ro, e), st')" "rtcalls st = []"
  shows "\<exists>n cs rs tr. rounds r n cs rs \<and> rtcalls st' = cs @ tr \<and>
    (case ro of None \<Rightarrow> e \<noteq> None \<and> set tr \<subseteq> range CallBefore | Some res \<Rightarrow> last_calls r n res e tr)"
proof -
  obtain out st1 where lp: "revise_loop lib r 1 st = (out, st1)" by fastforce
  note lp' = lp [unfolded One_nat_def]
  from revise_loop_rounds [OF lp, of "[]"] assms(2) no_round [of r]
  obtain n cs rs where rd: "rounds r n cs rs" and le: "loop_end r out n cs (rtcalls st1)" by auto
  show ?thesis
  proof (cases out)
    case (Inl p)
    then have p: "p = (ro, e)" "st' = st1" using assms(1) by (auto simp: run_agent_def lp')
    show ?thesis
    proof (cases ro)
      case None
      then obtain ks where "e \<noteq> None" "rtcalls st' = cs @ map CallBefore ks" using le p Inl by (auto simp: loop_end_def)
      then show ?thesis using rd None
        by (intro exI [of _ n] exI [of _ cs] exI [of _ rs] exI [of _ "map CallBefore ks"]) auto
    next
      case (Some res)
      then obtain ii c1 where "e \<noteq> None" "\<not> resCommitted res" "resAttempts res = n" "attempt_calls r n ii c1" "length ii \<le> 1"
        "ii \<noteq> [] \<longrightarrow> resStatus res = RunInterrupted" "rtcalls st' = cs @ c1 @ map (\<lambda>k. ObsEnd k res) (everyone r)"
        using le p Inl by (auto simp: loop_end_def)
      then have "last_calls r n res e (c1 @ map (\<lambda>k. ObsEnd k res) (everyone r))"
        unfolding last_calls_def by (intro exI [of _ ii] exI [of _ c1] exI [of _ "[]"] exI [of _ res] exI [of _ 0]) simp
      then show ?thesis
        using \<open>rtcalls st' = _\<close> rd Some
        by (intro exI [of _ n] exI [of _ cs] exI [of _ rs] exI [of _ "c1 @ map (\<lambda>k. ObsEnd k res) (everyone r)"]) simp
    qed
  next
    case (Inr res)
    then obtain ii c1 where acc: "rcAfters (rsRc r) = [] \<longrightarrow> resCommitted res \<longrightarrow> resStatus res = RunCompleted"
      and c1: "resAttempts res = n" "attempt_calls r n ii c1" "length ii \<le> 1"
      "ii \<noteq> [] \<longrightarrow> resStatus res = RunInterrupted" "rtcalls st1 = cs @ c1" using le by (auto simp: loop_end_def)
    obtain fo st2 where fo: "finalize lib r res st1 = (fo, st2)" by fastforce
    then obtain fs where fs: "rtcalls st2 = rtcalls st1 @ fs" "final_end r res fo fs" using finalize_calls by blast
    from fs(2) obtain vs v m where vs: "set vs \<subseteq> range CallView" "m \<le> length (rcCommitters (rsRc r))" "0 < m \<longrightarrow> resCommitted v"
      and sel: "case fo of
           Inl (res', e) \<Rightarrow> e \<noteq> None \<and> \<not> resCommitted res' \<and> resAttempts res' = resAttempts res \<and>
             (resStatus res = RunInterrupted \<longrightarrow> resStatus res' = RunInterrupted) \<and>
             fs = vs @ map (\<lambda>k. CallCommit k v) [0..<m] @ map (\<lambda>k. ObsEnd k res') (everyone r)
         | Inr res' \<Rightarrow> resAttempts res' = resAttempts res \<and>
             (resStatus res = RunInterrupted \<longrightarrow> resStatus res' = RunInterrupted) \<and>
             (resCommitted res' \<longrightarrow> m = length (rcCommitters (rsRc r)) \<and> resCommitted res \<and> resStatus res' = resStatus res) \<and>
             (rcCommitViewProvider (rsRc r) = None \<and> 0 < m \<longrightarrow> v = res') \<and>
             fs = vs @ map (\<lambda>k. CallCommit k v) [0..<m]"
      unfolding final_end_def by blast
    let ?tr = "\<lambda>res'. c1 @ vs @ map (\<lambda>k. CallCommit k v) [0..<m] @ map (\<lambda>k. ObsEnd k res') (everyone r)"
    obtain res' where res': "ro = Some res'" "rtcalls st' = cs @ ?tr res'" "resAttempts res' = n"
      "ii \<noteq> [] \<longrightarrow> resStatus res' = RunInterrupted" "resCommitted res' \<longrightarrow> e = None \<and> m = length (rcCommitters (rsRc r))"
      "rcCommitViewProvider (rsRc r) = None \<and> 0 < m \<and> e = None \<longrightarrow> v = res'"
      "rcAfters (rsRc r) = [] \<longrightarrow> resCommitted res' \<longrightarrow> resStatus res' = RunCompleted"
    proof (cases fo)
      case (Inl q)
      obtain res' e' where q: "q = (res', e')" by fastforce
      then have "ro = Some res'" "e = e'" "st' = st2" using assms(1) by (simp_all add: run_agent_def lp' Inr fo Inl)
      then show ?thesis using sel that [of res'] c1 acc fs(1) by (auto simp: Inl q)
    next
      case fin: (Inr res')
      then have "ro = Some res'" "e = None" "st' = multi_OnRunEnd r res' st2"
        using assms(1) by (simp_all add: run_agent_def lp' Inr fo)
      then show ?thesis using sel that [of res'] c1 acc fs(1) by (auto simp: fin)
    qed
    have "last_calls r n res' e (?tr res')"
      unfolding last_calls_def using c1(2,3) vs res'
      by (intro exI [of _ ii] exI [of _ c1] exI [of _ vs] exI [of _ v] exI [of _ m]) simp
    then show ?thesis
      by (intro exI [of _ n] exI [of _ cs] exI [of _ rs] exI [of _ "?tr res'"]) (simp add: rd res'(1,2))
  qed
qed

text \<open>An executed call reaches the run only with an engine and an agent id.\<close>

lemma agent_Execute_cases:
  assumes "agent_Execute lib ag eng req opts w = ((ro, e), st)"
  obtains (refused) "ro = None" "e \<noteq> None" "rtcalls st = []"
  | (ran) engine c runID w1 where
      "run_agent lib (run_of ag engine req (applyOptions ag opts) c runID) \<lparr>rtw = w1, rtreq = req, rtcalls = []\<rparr> = ((ro, e), st)"
      "resolveRunID lib req (applyOptions ag opts) w = (Inr runID, w1)"
      "Some engine = (case eng of None \<Rightarrow> agEngine ag | Some x \<Rightarrow> Some x)"
  using assms
  by (auto simp: agent_Execute_def Let_def split: option.splits if_splits sum.splits prod.splits)

lemma rsMax_pos [simp]: "1 \<le> rsMax (run_of ag engine req rc c runID)" "0 < rsMax (run_of ag engine req rc c runID)"
  by (simp_all add: run_of_def)

lemma run_of_fields [simp]:
  "rsObs (run_of ag engine req rc c runID) = rcHooks rc" "rsRc (run_of ag engine req rc c runID) = rc"
  "rsMax (run_of ag engine req rc c runID) = nat (max (rcMaxRevise rc) 1)"
  "iRunID (rsId (run_of ag engine req rc c runID)) = runID"
  by (simp_all add: run_of_def buildIdentity_def)

subsection \<open>What an observer sees\<close>

fun seen_by :: "nat \<Rightarrow> call \<Rightarrow> bool" where
  "seen_by j (ObsStart k) \<longleftrightarrow> k = j"
| "seen_by j (ObsInterrupt k i) \<longleftrightarrow> k = j"
| "seen_by j (ObsRevise k res n) \<longleftrightarrow> k = j"
| "seen_by j (ObsEnd k res) \<longleftrightarrow> k = j"
| "seen_by j _ \<longleftrightarrow> False"

abbreviation seen :: "nat \<Rightarrow> call list \<Rightarrow> call list" where
  "seen j \<equiv> filter (seen_by j)"

lemma filter_upt: "filter (\<lambda>k. k = j) [0..<n] = (if j < n then [j] else [])"
  by (induction n) auto

lemma seen_everyone:
  assumes "\<And>k. seen_by j (c k) \<longleftrightarrow> k = j" "j < length (rsObs r)"
  shows "seen j (map c (everyone r)) = [c j]"
  using assms by (simp add: filter_map o_def filter_upt)

lemma seen_nobody: "(\<And>x. \<not> seen_by j (c x)) \<Longrightarrow> seen j (map c xs) = []"
  by (simp add: filter_map o_def)

lemma seen_attempt:
  assumes "attempt_calls r n ii cs" "j < length (rsObs r)"
  shows "seen j cs = ObsStart j # map (ObsInterrupt j) ii"
proof -
  have "seen j (concat (map (\<lambda>i. map (\<lambda>k. ObsInterrupt k i) (everyone r)) ii)) = map (ObsInterrupt j) ii"
    by (induction ii) (simp_all add: seen_everyone [OF _ assms(2), of "\<lambda>k. ObsInterrupt k _"])
  then show ?thesis using assms by (auto simp: attempt_calls_def seen_everyone seen_nobody)
qed

lemma seen_rounds:
  assumes "rounds r n cs rs" "j < length (rsObs r)"
  shows "seen j cs = concat (map (\<lambda>res. [ObsStart j, ObsRevise j res (Suc (resAttempts res))]) rs) \<and>
    map resAttempts rs = [1..<n] \<and> (\<forall>res \<in> set rs. resStatus res = RunCompleted)"
  using assms(1)
proof (induction rule: rounds.induct)
  case no_round
  then show ?case by simp
next
  case (next_round n cs rs c1 res)
  then show ?case using assms(2) rounds_count [OF next_round(1)]
    by (auto simp: seen_attempt seen_everyone [of j "\<lambda>k. ObsRevise k _ _"])
qed

text \<open>C12. The lifecycle an observer sees, whatever engine and hooks do: one start and one revise call for each
  attempt that was revised, in order, at most \<open>MaxRevise - 1\<close> of them; then, when \<open>Execute\<close> returns a result,
  one start, at most one interrupt call (and then the result is interrupted) and exactly one end call, the last,
  with the very result the caller gets; when it returns no result, nothing more.\<close>

theorem observer_lifecycle:
  assumes "agent_Execute lib ag eng req opts w = ((ro, e), st)" "j < length (rcHooks (applyOptions ag opts))"
  shows "\<exists>rs tl. seen j (rtcalls st) = concat (map (\<lambda>res. [ObsStart j, ObsRevise j res (Suc (resAttempts res))]) rs) @ tl \<and>
    int (length rs) < max (rcMaxRevise (applyOptions ag opts)) 1 \<and>
    map resAttempts rs = [1..<Suc (length rs)] \<and> (\<forall>res \<in> set rs. resStatus res = RunCompleted) \<and>
    (case ro of
       None \<Rightarrow> e \<noteq> None \<and> tl = []
     | Some res \<Rightarrow> resAttempts res = Suc (length rs) \<and>
         (tl = [ObsStart j, ObsEnd j res] \<or>
          (\<exists>intr. tl = [ObsStart j, ObsInterrupt j intr, ObsEnd j res] \<and> resStatus res = RunInterrupted)))"
  using assms(1)
proof (cases rule: agent_Execute_cases)
  case refused
  then show ?thesis by (intro exI [of _ "[]"]) simp
next
  case (ran engine c runID w1)
  let ?r = "run_of ag engine req (applyOptions ag opts) c runID"
  have j: "j < length (rsObs ?r)" using assms(2) by simp
  from run_agent_shape [OF ran(1)] obtain n cs rs tr where rd: "rounds ?r n cs rs" and tr: "rtcalls st = cs @ tr"
    and ro: "case ro of None \<Rightarrow> e \<noteq> None \<and> set tr \<subseteq> range CallBefore | Some res \<Rightarrow> last_calls ?r n res e tr" by auto
  note n = rounds_count [OF rd] rounds_bound [OF rd rsMax_pos(1)]
  have rs: "int (length rs) < max (rcMaxRevise (applyOptions ag opts)) 1" using n by simp
  show ?thesis
  proof (cases ro)
    case None
    then have "seen j tr = []" using ro by (auto simp: filter_empty_conv subset_iff image_iff)
    then show ?thesis using seen_rounds [OF rd j] tr rs ro None n(1) by (intro exI [of _ rs] exI [of _ "[]"]) simp
  next
    case (Some res)
    then have "last_calls ?r n res e tr" using ro by simp
    then obtain ii c1 vs v m where l: "attempt_calls ?r n ii c1" "length ii \<le> 1" "ii \<noteq> [] \<longrightarrow> resStatus res = RunInterrupted"
      "set vs \<subseteq> range CallView" "resAttempts res = n"
      "tr = c1 @ vs @ map (\<lambda>k. CallCommit k v) [0..<m] @ map (\<lambda>k. ObsEnd k res) (everyone ?r)"
      by (rule last_callsE)
    have "seen j vs = []" using l(4) by (auto simp: filter_empty_conv subset_iff image_iff)
    then have "seen j tr = ObsStart j # map (ObsInterrupt j) ii @ [ObsEnd j res]"
      unfolding l(6) using seen_attempt [OF l(1) j] seen_everyone [OF _ j, of "\<lambda>k. ObsEnd k res"] by (simp add: seen_nobody)
    then show ?thesis using seen_rounds [OF rd j] tr rs l(2,3,5) n(1) Some
      by (intro exI [of _ rs] exI [of _ "seen j tr"]) (cases ii; auto)
  qed
qed

subsection \<open>What the engine is given\<close>

fun engine_run :: "call \<Rightarrow> EngineRun option" where
  "engine_run (CallEngine run b) = Some run"
| "engine_run _ = None"

definition engine_runs :: "call list \<Rightarrow> EngineRun list" where
  "engine_runs cs = List.map_filter engine_run cs"

lemma engine_runs_simps [simp]:
  "engine_runs [] = []" "engine_runs (xs @ ys) = engine_runs xs @ engine_runs ys"
  "engine_runs (c # cs) = (case engine_run c of None \<Rightarrow> engine_runs cs | Some run \<Rightarrow> run # engine_runs cs)"
  by (auto simp: engine_runs_def List.map_filter_simps List.map_filter_def split: option.splits)

lemma engine_runs_none: "(\<And>c. c \<in> set cs \<Longrightarrow> engine_run c = None) \<Longrightarrow> engine_runs cs = []"
  by (induction cs) auto

lemma engine_runs_map [simp]: "(\<And>x. engine_run (f x) = None) \<Longrightarrow> engine_runs (map f xs) = []"
  by (rule engine_runs_none) auto

lemma engine_runs_attempt: "attempt_calls r n ii cs \<Longrightarrow> \<exists>req. engine_runs cs = [engineRun r req n]"
proof -
  assume "attempt_calls r n ii cs"
  moreover have "engine_runs (concat (map (\<lambda>i. map (\<lambda>k. ObsInterrupt k i) (everyone r)) ii)) = []"
    by (rule engine_runs_none) auto
  ultimately show ?thesis by (auto simp: attempt_calls_def)
qed

definition numbered_runs :: "('h, 'w) runState \<Rightarrow> EngineRun list \<Rightarrow> bool" where
  "numbered_runs r es \<longleftrightarrow> (\<forall>i < length es. \<exists>req. es ! i = engineRun r req (Suc i))"

lemma numbered_runs_snoc:
  "numbered_runs r es \<Longrightarrow> e = engineRun r req (Suc (length es)) \<Longrightarrow> numbered_runs r (es @ [e])"
  by (auto simp: numbered_runs_def nth_append less_Suc_eq)

lemma engine_runs_rounds:
  assumes "rounds r n cs rs"
  shows "numbered_runs r (engine_runs cs) \<and> Suc (length (engine_runs cs)) = n"
  using assms
proof (induction rule: rounds.induct)
  case no_round
  then show ?case by (simp add: numbered_runs_def)
next
  case (next_round n cs rs c1 res)
  then obtain req where "engine_runs c1 = [engineRun r req n]" using engine_runs_attempt by blast
  then show ?case using next_round by (auto intro!: numbered_runs_snoc)
qed

lemma run_agent_engine:
  assumes "run_agent lib r st = ((ro, e), st')" "rtcalls st = []" "1 \<le> rsMax r"
  shows "numbered_runs r (engine_runs (rtcalls st'))" "length (engine_runs (rtcalls st')) \<le> rsMax r"
    "ro = Some res \<Longrightarrow> resAttempts res = length (engine_runs (rtcalls st'))"
proof -
  from run_agent_shape [OF assms(1,2)] obtain n cs rs tr where rd: "rounds r n cs rs" and tr: "rtcalls st' = cs @ tr"
    and ro: "case ro of None \<Rightarrow> e \<noteq> None \<and> set tr \<subseteq> range CallBefore | Some res \<Rightarrow> last_calls r n res e tr" by auto
  note er = engine_runs_rounds [OF rd] rounds_bound [OF rd assms(3)]
  have "engine_runs tr = [] \<and> ro = None \<or> (\<exists>req res. engine_runs tr = [engineRun r req n] \<and> ro = Some res \<and> resAttempts res = n)"
  proof (cases ro)
    case None
    then have "engine_runs tr = []" using ro by (auto intro!: engine_runs_none)
    then show ?thesis using None by simp
  next
    case (Some res)
    then have "last_calls r n res e tr" using ro by simp
    then obtain ii c1 vs v m where l: "attempt_calls r n ii c1" "set vs \<subseteq> range CallView" "resAttempts res = n"
      "tr = c1 @ vs @ map (\<lambda>k. CallCommit k v) [0..<m] @ map (\<lambda>k. ObsEnd k res) (everyone r)" by (rule last_callsE)
    have "engine_runs vs = []" using l(2) by (auto intro!: engine_runs_none)
    then show ?thesis using engine_runs_attempt [OF l(1)] l(3,4) Some by auto
  qed
  then show "numbered_runs r (engine_runs (rtcalls st'))" "length (engine_runs (rtcalls st')) \<le> rsMax r"
    "ro = Some res \<Longrightarrow> resAttempts res = length (engine_runs (rtcalls st'))"
    using er tr by (auto intro!: numbered_runs_snoc)
qed

text \<open>What the engine is given: \<open>Execute\<close> calls it at most \<open>max MaxRevise 1\<close> times, as often as the result's
  \<open>Attempts\<close> says, always under one identity; a checkpoint to resume from fixes the run id and is passed to
  the first call only; call \<open>i\<close> carries its number as an attribute, and apart from that the attributes of the
  options win.\<close>

theorem engine_calls:
  assumes "agent_Execute lib ag eng req opts w = ((ro, e), st)" "rc = applyOptions ag opts"
  shows "int (length (engine_runs (rtcalls st))) \<le> max (rcMaxRevise rc) 1 \<and>
    (\<forall>res. ro = Some res \<longrightarrow> resAttempts res = length (engine_runs (rtcalls st))) \<and>
    (\<exists>ident :: Identity. iAgentID ident = agID ag \<and>
       (\<forall>cp. rcResumeFrom rc = Some cp \<and> cpExecID cp \<noteq> [] \<longrightarrow> iRunID ident = cpExecID cp) \<and>
       (\<forall>i run. i < length (engine_runs (rtcalls st)) \<and> run = engine_runs (rtcalls st) ! i \<longrightarrow>
          erIdentity run = ident \<and> erResumeFrom run = (if i = 0 then rcResumeFrom rc else None) \<and>
          fmlookup (erAttributes run) ''agent.attempt'' = Some (itoa (Suc i)) \<and>
          (\<forall>k v. fmlookup (rcAttributes rc) k = Some v \<and> k \<noteq> ''agent.attempt'' \<longrightarrow> fmlookup (erAttributes run) k = Some v)))"
  using assms(1)
proof (cases rule: agent_Execute_cases)
  case refused
  have "\<exists>ident :: Identity. iAgentID ident = agID ag \<and>
      (\<forall>cp. rcResumeFrom rc = Some cp \<and> cpExecID cp \<noteq> [] \<longrightarrow> iRunID ident = cpExecID cp)"
    by (rule exI [of _ "\<lparr>iAgentID = agID ag, iRunID = (case rcResumeFrom rc of None \<Rightarrow> [] | Some cp \<Rightarrow> cpExecID cp),
        iParentRunID = [], iTaskID = [], iConversationID = []\<rparr>"]) auto
  then show ?thesis using refused by simp
next
  case (ran engine c runID w1)
  let ?r = "run_of ag engine req rc c runID"
  note re = run_agent_engine [OF ran(1) _ rsMax_pos(1), folded assms(2)]
  have "iAgentID (rsId ?r) = agID ag \<and> (\<forall>cp. rcResumeFrom rc = Some cp \<and> cpExecID cp \<noteq> [] \<longrightarrow> iRunID (rsId ?r) = cpExecID cp)"
    using ran(2) by (auto simp: run_of_def buildIdentity_def resolveRunID_def assms(2))
  moreover have "\<forall>i run. i < length (engine_runs (rtcalls st)) \<and> run = engine_runs (rtcalls st) ! i \<longrightarrow>
      erIdentity run = rsId ?r \<and> erResumeFrom run = (if i = 0 then rcResumeFrom rc else None) \<and>
      fmlookup (erAttributes run) ''agent.attempt'' = Some (itoa (Suc i)) \<and>
      (\<forall>k v. fmlookup (rcAttributes rc) k = Some v \<and> k \<noteq> ''agent.attempt'' \<longrightarrow> fmlookup (erAttributes run) k = Some v)"
    using re(1) by (fastforce simp: numbered_runs_def engineRun_def fmlookup_dom_iff)
  moreover have "int (length (engine_runs (rtcalls st))) \<le> max (rcMaxRevise rc) 1"
    using re(2) by (simp del: rsMax_pos add: le_nat_iff)
  moreover have "\<forall>res. ro = Some res \<longrightarrow> resAttempts res = length (engine_runs (rtcalls st))" using re(3) by simp
  ultimately show ?thesis by blast
qed

subsection \<open>What is committed\<close>

fun is_commit :: "call \<Rightarrow> bool" where
  "is_commit (CallCommit k v) \<longleftrightarrow> True"
| "is_commit _ \<longleftrightarrow> False"

lemma commit_free_attempt: "attempt_calls r n ii cs \<Longrightarrow> filter is_commit cs = []"
  by (auto simp: attempt_calls_def filter_empty_conv)

lemma commit_free_rounds: "rounds r n cs rs \<Longrightarrow> filter is_commit cs = []"
  by (induction rule: rounds.induct) (auto simp: commit_free_attempt filter_empty_conv)

text \<open>C13. Committers and the committed flag: committers see one and the same accepted result, each at most once
  and in order, after the last call to the engine and before the observers hear of the end. A result that
  \<open>Execute\<close> returns as committed comes without an error, after all committers accepted it, and without
  referees only a completed run is committed; with no commit view it is the result they were given. A run
  without a result commits nothing.\<close>

theorem commit_discipline:
  assumes "agent_Execute lib ag eng req opts w = ((ro, e), st)" "rc = applyOptions ag opts"
  shows "\<exists>pre v m post. rtcalls st = pre @ map (\<lambda>k. CallCommit k v) [0..<m] @ post \<and>
    filter is_commit pre = [] \<and> set post \<subseteq> (\<Union>res \<in> set_option ro. range (\<lambda>k. ObsEnd k res)) \<and>
    m \<le> length (rcCommitters rc) \<and> (0 < m \<longrightarrow> resCommitted v) \<and>
    (case ro of
       None \<Rightarrow> m = 0 \<and> e \<noteq> None
     | Some res \<Rightarrow>
         (resCommitted res \<longrightarrow> e = None \<and> m = length (rcCommitters rc)) \<and>
         (rcAfters rc = [] \<longrightarrow> resCommitted res \<longrightarrow> resStatus res = RunCompleted) \<and>
         (rcCommitViewProvider rc = None \<and> 0 < m \<and> e = None \<longrightarrow> v = res))"
  using assms(1)
proof (cases rule: agent_Execute_cases)
  case refused
  then show ?thesis by (intro exI [of _ "[]"] exI [of _ undefined] exI [of _ 0]) simp
next
  case (ran engine c runID w1)
  let ?r = "run_of ag engine req rc c runID"
  from run_agent_shape [OF ran(1)[folded assms(2)]] obtain n cs rs tr where rd: "rounds ?r n cs rs" and tr: "rtcalls st = cs @ tr"
    and ro: "case ro of None \<Rightarrow> e \<noteq> None \<and> set tr \<subseteq> range CallBefore | Some res \<Rightarrow> last_calls ?r n res e tr" by auto
  show ?thesis
  proof (cases ro)
    case None
    then have "filter is_commit tr = []" using ro by (auto simp: filter_empty_conv)
    then show ?thesis using tr ro commit_free_rounds [OF rd] None
      by (intro exI [of _ "cs @ tr"] exI [of _ undefined] exI [of _ 0] exI [of _ "[]"]) simp
  next
    case (Some res)
    then have "last_calls ?r n res e tr" using ro by simp
    then obtain ii c1 vs v m where l: "attempt_calls ?r n ii c1" "set vs \<subseteq> range CallView"
      "m \<le> length (rcCommitters (rsRc ?r))" "0 < m \<longrightarrow> resCommitted v"
      "resCommitted res \<longrightarrow> e = None \<and> m = length (rcCommitters (rsRc ?r))"
      "rcAfters (rsRc ?r) = [] \<longrightarrow> resCommitted res \<longrightarrow> resStatus res = RunCompleted"
      "rcCommitViewProvider (rsRc ?r) = None \<and> 0 < m \<and> e = None \<longrightarrow> v = res"
      "tr = c1 @ vs @ map (\<lambda>k. CallCommit k v) [0..<m] @ map (\<lambda>k. ObsEnd k res) (everyone ?r)" by (rule last_callsE)
    have "filter is_commit vs = []" using l(2) by (auto simp: filter_empty_conv)
    moreover have "set (map (\<lambda>k. ObsEnd k res) (everyone ?r)) \<subseteq> range (\<lambda>k. ObsEnd k res)" by auto
    ultimately show ?thesis using tr l(3-) commit_free_rounds [OF rd] commit_free_attempt [OF l(1)] Some
      by (intro exI [of _ "cs @ c1 @ vs"] exI [of _ v] exI [of _ m] exI [of _ "map (\<lambda>k. ObsEnd k res) (everyone ?r)"]) simp
  qed
qed

subsection \<open>Messages and artifacts\<close>

lemma walk_back_spec:
  "e \<le> length main \<Longrightarrow> start \<le> e \<Longrightarrow>
   drop (walk_back main start e) (take e main) = rev (takeWhile (\<lambda>m. mrole m = RoleAssistant) (rev (drop start (take e main))))"
proof (induction main start e rule: walk_back.induct)
  case (1 main start)
  then show ?case by simp
next
  case (2 main start e)
  have wb: "walk_back main start k \<le> k" for k by (induction k) auto
  have t: "take (Suc e) main = take e main @ [main ! e]" using 2(2) by (simp add: take_Suc_conv_app_nth)
  show ?case
  proof (cases "start \<le> e \<and> mrole (main ! e) = RoleAssistant")
    case True
    then show ?thesis using 2 t wb [of e] by auto
  next
    case False
    then show ?thesis using 2(2,3) t by (cases "start \<le> e") auto
  qed
qed

lemma collect_from_spec:
  "collect_from b old xs = map (\<lambda>n. \<lparr>artName = n, artParts = concat (map mparts (elems (Channel b n)))\<rparr>)
     (filter (\<lambda>n. concat (map mparts (elems (Channel b n))) \<noteq> []) (dedup_from old xs))"
  by (induction b old xs rule: collect_from.induct) (auto simp: Let_def)

text \<open>What a result shows of a board: its messages are the longest block of assistant messages at the end of
  the main channel that lies after the seed, and it has one artifact, with all parts in order, for each listed
  channel that holds a part, in the order of first listing.\<close>

theorem result_contents:
  "resMessages (materializeResult res b chans seedLen) =
     rev (takeWhile (\<lambda>m. mrole m = RoleAssistant) (rev (drop seedLen (elems (Channel b MainChannel))))) \<and>
   resArtifacts (materializeResult res b chans seedLen) =
     map (\<lambda>n. \<lparr>artName = n, artParts = concat (map mparts (elems (Channel b n)))\<rparr>)
       (filter (\<lambda>n. \<exists>m \<in> set (elems (Channel b n)). mparts m \<noteq> []) (dedupIDs chans))"
proof -
  let ?main = "elems (Channel b MainChannel)"
  have "newAssistantMessages b seedLen = rev (takeWhile (\<lambda>m. mrole m = RoleAssistant) (rev (drop seedLen ?main)))"
    using walk_back_spec [of "length ?main" ?main "min seedLen (length ?main)"]
    by (auto simp: newAssistantMessages_def Let_def min_def)
  then show ?thesis by (simp add: materializeResult_def collectArtifacts_def collect_from_spec dedupIDs_def)
qed

subsection \<open>A demonstration call\<close>

definition demo_lib :: "nat runlib" where
  "demo_lib = \<lparr>ctxErr = (\<lambda>c w. (None, w)), parseDuration = (\<lambda>s. Inl (Plain s)), randRead = (\<lambda>w. (Inr ''12345678'', w)),
     asInterrupted = (\<lambda>e. None), normalizePart = Inr, streamSource = (\<lambda>p. False),
     materializePart = (\<lambda>c p w. (Inr [p], w)), keyOrder = sorted_keys\<rparr>"

definition demo_observer :: "nat Observer" where
  "demo_observer = \<lparr>OnRunStart = (\<lambda>c i req w. (req, w)), OnInterrupt = (\<lambda>c i x w. w), OnRunRevise = (\<lambda>c i res n w. w),
     OnRunEnd = (\<lambda>c i res w. w)\<rparr>"

definition demo_request :: AgentRequest where
  "demo_request = \<lparr>qTaskID = ''t'', qContextID = [], qRunID = ''run-1'', qParentRunID = [], qAttributes = fmempty,
     qMessage = \<lparr>mrole = RoleUser, mparts = [''hi'']\<rparr>, qInputs = fmempty, qOutputModes = None\<rparr>"

text \<open>The engine answers and counts its calls in the world; the referee asks for a revision of the first answer.\<close>

definition demo_engine :: "(unit, nat) Engine" where
  "demo_engine c run h b w =
     ((None, AppendChannelMessage MainChannel \<lparr>mrole = RoleAssistant, mparts = [''answer'']\<rparr> b, None), Suc w)"

definition demo_referee :: "nat Referee" where
  "demo_referee c i req res w = (Inr (noDecision\<lparr>Revise := w \<le> 1\<rparr>), w)"

definition demo_committer :: "nat Committer" where
  "demo_committer c i req res w = (None, w)"

definition demo_agent :: "(unit, nat) Agent" where
  "demo_agent = \<lparr>agID = ''a'', agTools = [], agPolicy = \<lparr>polMaxRevise = 3, polRunTimeout = [], polArtifactChannels = []\<rparr>,
     agEngine = Some demo_engine, agPrepare = [], agObserve = [None, Some demo_observer], agReferees = [Some demo_referee],
     agCommit = [Some demo_committer]\<rparr>"

definition demo_call :: "(Result option \<times> err) \<times> nat rt" where
  "demo_call = agent_Execute demo_lib demo_agent None demo_request [] 0"

lemma demo_call_eq:
  "agent_Execute demo_lib demo_agent None demo_request [] 0 = ((fst (fst demo_call), snd (fst demo_call)), snd demo_call)"
  by (simp add: demo_call_def)

lemma demo_call_result:
  "map_option (\<lambda>res. (resAttempts res, resStatus res, resCommitted res)) (fst (fst demo_call)) = Some (2, RunCompleted, True)"
  "length (rcHooks (applyOptions demo_agent [])) = 1" "length (rcCommitters (applyOptions demo_agent [])) = 1"
  unfolding demo_call_def by code_simp+

theorem observer_lifecycle_witness:
  "\<exists>res r1. fst (fst demo_call) = Some res \<and>
     seen 0 (rtcalls (snd demo_call)) = [ObsStart 0, ObsRevise 0 r1 2, ObsStart 0, ObsEnd 0 res]"
proof -
  obtain res where res: "fst (fst demo_call) = Some res" "resAttempts res = 2" "resStatus res = RunCompleted"
    using demo_call_result(1) by auto
  have "0 < length (rcHooks (applyOptions demo_agent []))" using demo_call_result(2) by simp
  from observer_lifecycle [OF demo_call_eq this] res obtain rs tl where
    tr: "seen 0 (rtcalls (snd demo_call)) = concat (map (\<lambda>res. [ObsStart 0, ObsRevise 0 res (Suc (resAttempts res))]) rs) @ tl"
    and rs: "map resAttempts rs = [1..<Suc (length rs)]" "length rs = 1" and tl: "tl = [ObsStart 0, ObsEnd 0 res]" by auto
  from rs(2) obtain r1 where "rs = [r1]" by (auto simp: length_Suc_conv)
  then show ?thesis using tr rs(1) tl res(1) by auto
qed

theorem engine_calls_witness:
  "length (engine_runs (rtcalls (snd demo_call))) = 2 \<and>
   fmlookup (erAttributes (engine_runs (rtcalls (snd demo_call)) ! 1)) ''agent.attempt'' = Some (itoa 2)"
proof -
  have "\<exists>res. fst (fst demo_call) = Some res \<and> resAttempts res = 2" using demo_call_result(1) by auto
  with engine_calls [OF demo_call_eq refl] show ?thesis by (auto simp: numeral_2_eq_2)
qed

theorem commit_discipline_witness:
  "\<exists>pre res post. fst (fst demo_call) = Some res \<and> rtcalls (snd demo_call) = pre @ CallCommit 0 res # post \<and>
     filter is_commit pre = [] \<and> set post \<subseteq> range (\<lambda>k. ObsEnd k res)"
proof -
  obtain res where res: "fst (fst demo_call) = Some res" "resCommitted res" using demo_call_result(1) by auto
  have "rcCommitViewProvider (applyOptions demo_agent []) = None"
    by (simp add: applyOptions_def non_nil_def List.map_filter_simps blankConfig_def demo_agent_def)
  with commit_discipline [OF demo_call_eq refl] res demo_call_result(3) show ?thesis by fastforce
qed

text \<open>A preparer that builds the first board and then fails.\<close>

definition demo_preparer :: "nat Preparer" where
  "demo_preparer c i req b w = (if w = 0 then Inr (Some b) else Inl (Plain ''history''), w)"

definition demo_agent2 :: "(unit, nat) Agent" where
  "demo_agent2 = demo_agent\<lparr>agPrepare := [Some demo_preparer]\<rparr>"

definition demo_call2 :: "(Result option \<times> err) \<times> nat rt" where
  "demo_call2 = agent_Execute demo_lib demo_agent2 (Some demo_engine) demo_request [Some (WithMaxRevise 2)] 0"

fun unpaired :: "call list \<Rightarrow> bool" where
  "unpaired [ObsStart i, ObsRevise j res n] \<longleftrightarrow> i = 0 \<and> j = 0 \<and> n = 2"
| "unpaired _ \<longleftrightarrow> False"

lemma unpairedD: "unpaired cs \<Longrightarrow> \<exists>res. cs = [ObsStart 0, ObsRevise 0 res 2]"
  by (cases cs rule: unpaired.cases) auto

text \<open>A revised run can end without its end call: when a referee asks for a revision and the preparers then fail
  to build the board of the next attempt, \<open>Execute\<close> returns no result and the error, and an observer that saw
  the start and the revise call hears nothing more, although \<open>OnRunEnd\<close> is documented to fire exactly once.\<close>

theorem revise_seed_unpaired:
  "\<exists>(ag :: (unit, nat) Agent) res e st. agent_Execute demo_lib ag (Some demo_engine) demo_request [Some (WithMaxRevise 2)] 0 =
     ((None, Some e), st) \<and> seen 0 (rtcalls st) = [ObsStart 0, ObsRevise 0 res 2]"
proof -
  have "Option.is_none (fst (fst demo_call2)) \<and> \<not> Option.is_none (snd (fst demo_call2)) \<and>
      unpaired (seen 0 (rtcalls (snd demo_call2)))"
    unfolding demo_call2_def by code_simp
  then obtain res e st where "demo_call2 = ((None, Some e), st)" "seen 0 (rtcalls st) = [ObsStart 0, ObsRevise 0 res 2]"
    using unpairedD [of "seen 0 (rtcalls (snd demo_call2))"] by (metis Option.is_none_def option.exhaust prod.collapse)
  then show ?thesis unfolding demo_call2_def by blast
qed

end
