(* ===== verification/Delegation_Service.thy ===== *)
theory Delegation_Service
  imports Delegation Agent_Execute Finite_Counting
begin

text \<open>
  The local delegation service, \<open>LocalService\<close> of \<open>core/delegation/service.go\<close>: synchronous delegation, submission to
  an asynchronous backend, the idempotency cache with its in-flight calls, the concurrency slots, the stream
  escrow, the workers that claim and complete work, and closing.

  Every goroutine inside the service is a value with its position: a call of \<open>Delegate\<close>, \<open>Run\<close> or \<open>Get\<close>, a worker, the two
  background sweepers, and \<open>Close\<close>. A step of \<open>svc_step\<close> is one action between two points where another goroutine
  can run; a section under a mutex is one step. What the service asks of others (the directory, the backend, the
  session manager, an agent's run, the clock, random ids) is answered by an argument of the step, so the theorems
  hold for all answers. A context may be cancelled at any moment: where the code waits, a step takes the
  cancellation branch with any error. The two attachments of a stream (the sinks of a session) are values.

  Text of a message is obtained by the argument \<open>ct\<close> (\<open>Content.Text\<close>), since parts are their encodings.
\<close>

subsection \<open>Responses\<close>

definition SessionIDMetadataKey :: string where
  "SessionIDMetadataKey = ''delegation.session_id''"

definition ParentRunMetadataKey :: string where
  "ParentRunMetadataKey = ''delegation.parent_run''"

definition CallIDMetadataKey :: string where
  "CallIDMetadataKey = ''delegation.call_id''"

definition noResponse :: Response where
  "noResponse = \<lparr>pID = [], pStatus = UnknownStatus [], pOutput = [], pError = [], pMetadata = fmempty\<rparr>"

text \<open>\<open>Result.Text\<close>: the text of the last assistant message that has any.\<close>

fun text_back :: "(string list \<Rightarrow> string) \<Rightarrow> Message list \<Rightarrow> string" where
  "text_back ct [] = []"
| "text_back ct (m # ms) =
     (if mrole m \<noteq> RoleAssistant then text_back ct ms
      else if ct (mparts m) \<noteq> [] then ct (mparts m) else text_back ct ms)"

definition Result_Text :: "(string list \<Rightarrow> string) \<Rightarrow> Result \<Rightarrow> string" where
  "Result_Text ct r = text_back ct (rev (resMessages r))"

definition responseFromAgent :: "(string list \<Rightarrow> string) \<Rightarrow> string \<Rightarrow> Result option \<Rightarrow> Response" where
  "responseFromAgent ct newID result =
     (case result of
        None \<Rightarrow> \<lparr>pID = newID, pStatus = StatusFailed, pOutput = [], pError = ''agent returned no result'', pMetadata = fmempty\<rparr>
      | Some r \<Rightarrow>
          (let i = (if resRunID r = [] then newID else resRunID r);
               md = (if resRunID r \<noteq> [] then fmupd RunIDMetadataKey (resRunID r) fmempty else fmempty)
           in case resStatus r of
                RunCompleted \<Rightarrow>
                  \<lparr>pID = i, pStatus = StatusSucceeded, pOutput = Result_Text ct r, pError = [], pMetadata = md\<rparr>
              | RunInterrupted \<Rightarrow>
                  \<lparr>pID = i, pStatus = StatusCanceled, pOutput = [],
                   pError = (case resErr r of None \<Rightarrow> [] | Some e \<Rightarrow> error_string e), pMetadata = md\<rparr>
              | RunCanceled \<Rightarrow>
                  \<lparr>pID = i, pStatus = StatusCanceled, pOutput = [],
                   pError = (case resErr r of None \<Rightarrow> [] | Some e \<Rightarrow> error_string e), pMetadata = md\<rparr>
              | _ \<Rightarrow>
                  \<lparr>pID = i, pStatus = StatusFailed, pOutput = [],
                   pError = (case resErr r of None \<Rightarrow> ''agent execution ended with status'' | Some e \<Rightarrow> error_string e),
                   pMetadata = md\<rparr>))"

definition responseFromTurn :: "(string list \<Rightarrow> string) \<Rightarrow> string \<Rightarrow> Result option \<Rightarrow> string \<Rightarrow> Response" where
  "responseFromTurn ct newID result contextID =
     (let r = responseFromAgent ct newID result in r\<lparr>pMetadata := fmupd SessionIDMetadataKey contextID (pMetadata r)\<rparr>)"

definition canceledResponse :: "string \<Rightarrow> string \<Rightarrow> err \<Rightarrow> Response" where
  "canceledResponse newID i cause =
     \<lparr>pID = (if i = [] then newID else i), pStatus = StatusCanceled, pOutput = [],
      pError = (case cause of None \<Rightarrow> [] | Some e \<Rightarrow> error_string e), pMetadata = fmempty\<rparr>"

definition canceledOrFailedResponse :: "string \<Rightarrow> go_error \<Rightarrow> Response" where
  "canceledOrFailedResponse newID e =
     (if Is Aborted (Some e) \<or> Is Timeout (Some e) \<or> errors_Is e Canceled \<or> errors_Is e DeadlineExceeded
      then canceledResponse newID [] (Some e)
      else \<lparr>pID = newID, pStatus = StatusFailed, pOutput = [], pError = error_string e, pMetadata = fmempty\<rparr>)"

definition normalizeResponse :: "string \<Rightarrow> Response \<Rightarrow> go_error + Response" where
  "normalizeResponse i response =
     (let r = response\<lparr>pID := i\<rparr>;
          out = (case pStatus r of
                   StatusAccepted \<Rightarrow> Inr (r\<lparr>pOutput := [], pError := []\<rparr>)
                 | StatusRunning \<Rightarrow> Inr (r\<lparr>pOutput := [], pError := []\<rparr>)
                 | StatusSucceeded \<Rightarrow> Inr (r\<lparr>pError := []\<rparr>)
                 | StatusFailed \<Rightarrow> Inr (if pError r = [] then r\<lparr>pError := ''delegation failed''\<rparr> else r)
                 | StatusCanceled \<Rightarrow> Inr (r\<lparr>pOutput := []\<rparr>)
                 | UnknownStatus _ \<Rightarrow> Inl (errf Internal ''local delegation: async backend returned invalid status''))
      in case out of
           Inl e \<Rightarrow> Inl e
         | Inr r' \<Rightarrow>
             (case Response_Validate r' of
                Some e \<Rightarrow> Inl (Mark Internal (Wrapf ''local delegation: invalid async backend response'' e))
              | None \<Rightarrow> Inr r'))"

subsection \<open>Requests\<close>

definition sameRequest :: "Request \<Rightarrow> Request \<Rightarrow> bool" where
  "sameRequest left right \<longleftrightarrow> rMode left = rMode right \<and> rTarget left = rTarget right \<and> Input left = Input right \<and>
     IdempotencyKey left = IdempotencyKey right \<and> rMetadata left = rMetadata right \<and> Attributes left = Attributes right"

definition idempotencyConflict :: "string \<Rightarrow> go_error" where
  "idempotencyConflict key =
     errf Conflict ''local delegation: idempotency key was already used for a different request''"

definition lineageAttributes :: "string \<Rightarrow> metadata" where
  "lineageAttributes callID = (if callID = [] then fmempty else fmupd AttrToolCallID callID fmempty)"

definition injectDelegationLineage :: "metadata \<Rightarrow> string \<Rightarrow> string \<Rightarrow> metadata" where
  "injectDelegationLineage md parentRunID callID =
     (let m0 = fmdrop RunIDMetadataKey (fmdrop CallIDMetadataKey (fmdrop ParentRunMetadataKey md));
          m1 = (if parentRunID \<noteq> [] then fmupd ParentRunMetadataKey parentRunID m0 else m0)
      in if callID \<noteq> [] then fmupd CallIDMetadataKey callID m1 else m1)"

definition metadataInputs :: "AsyncRequest \<Rightarrow> (string, val) fmap" where
  "metadataInputs req = fmmap VString (rMetadata (aRequest req))"

definition sameDelegationRequest :: "(string list \<Rightarrow> string) \<Rightarrow> AgentRequest \<Rightarrow> AgentRequest \<Rightarrow> bool" where
  "sameDelegationRequest ct a b \<longleftrightarrow>
     mrole (qMessage a) = mrole (qMessage b) \<and> ct (mparts (qMessage a)) = ct (mparts (qMessage b)) \<and>
     withoutLineageAttributes (qAttributes a) = withoutLineageAttributes (qAttributes b) \<and> qInputs a = qInputs b"

definition checkDepth :: "int \<Rightarrow> int \<Rightarrow> err" where
  "checkDepth maxDepth depth =
     (if depth \<le> 0 then Some (errf Validation ''local delegation: depth must be positive'')
      else if depth > maxDepth then Some (errf PolicyDenied ''local delegation: maximum depth exceeded'')
      else None)"

text \<open>Delays in milliseconds.\<close>

definition workerRetryInitial :: int where "workerRetryInitial = 10"

definition workerRetryMax :: int where "workerRetryMax = 250"

definition completeMaxAttempts :: nat where "completeMaxAttempts = 3"

fun retry_from :: "nat \<Rightarrow> int \<Rightarrow> int" where
  "retry_from 0 delay = delay"
| "retry_from (Suc n) delay = (if delay \<ge> workerRetryMax div 2 then workerRetryMax else retry_from n (delay * 2))"

definition retryDelay :: "nat \<Rightarrow> int" where
  "retryDelay failures = retry_from failures workerRetryInitial"

subsection \<open>Stream attachments\<close>

record SinkSpec =
  spID :: string
  spSink :: string
  spQueueSize :: int
  spDeliveryTimeout :: int
  spVisibility :: string
  spAuthority :: string
  spAckMode :: string
  spMaxUnacked :: int

definition inheritedSinkSpecs :: "SinkSpec list \<Rightarrow> SinkSpec list" where
  "inheritedSinkSpecs specs = map (\<lambda>s. s\<lparr>spAuthority := [], spAckMode := [], spMaxUnacked := 0\<rparr>) specs"

text \<open>\<open>Duration.Milliseconds\<close> truncates towards zero.\<close>

definition millis :: "int \<Rightarrow> int" where
  "millis d = (if d < 0 then - ((- d) div 1000000) else d div 1000000)"

definition streamPolicySnapshotOf :: "SinkSpec \<Rightarrow> StreamPolicySnapshot" where
  "streamPolicySnapshotOf s =
     \<lparr>Visibility = spVisibility s, Authority = spAuthority s, AckMode = spAckMode s, MaxUnacked = spMaxUnacked s,
      QueueSize = spQueueSize s, DeliveryTimeout = millis (spDeliveryTimeout s)\<rparr>"

definition StreamTargetKindBus :: string where
  "StreamTargetKindBus = ''bus''"

fun export_from :: "(SinkSpec \<Rightarrow> StreamTarget option) \<Rightarrow> (StreamTarget \<times> SinkSpec) option \<Rightarrow> SinkSpec list \<Rightarrow> (StreamTarget \<times> SinkSpec) option" where
  "export_from ex first [] = first"
| "export_from ex first (s # specs) =
     (case ex s of
        None \<Rightarrow> export_from ex first specs
      | Some t \<Rightarrow>
          if stKind t = StreamTargetKindBus then Some (t, s)
          else export_from ex (case first of None \<Rightarrow> Some (t, s) | Some f \<Rightarrow> Some f) specs)"

definition exportStreamTarget ::
  "(SinkSpec \<Rightarrow> StreamTarget option) option \<Rightarrow> SinkSpec list \<Rightarrow> (StreamTarget \<times> SinkSpec) option" where
  "exportStreamTarget exporter specs = (case exporter of None \<Rightarrow> None | Some ex \<Rightarrow> export_from ex None specs)"

text \<open>A stream policy of a context: whether it is inheritable, and its sinks.\<close>

type_synonym policy = "bool \<times> SinkSpec list"

definition asyncStreamSpecs :: "policy option \<Rightarrow> SinkSpec list option" where
  "asyncStreamSpecs p =
     (case p of None \<Rightarrow> None
      | Some (inheritable, sinks) \<Rightarrow> if \<not> inheritable \<or> sinks = [] then None else Some (inheritedSinkSpecs sinks))"

record streamEscrowEntry =
  esSpecs :: "SinkSpec list"
  esExpires :: int

type_synonym escrow = "(string, streamEscrowEntry) fmap"

definition sweepStreamEscrowLocked :: "int \<Rightarrow> escrow \<Rightarrow> escrow" where
  "sweepStreamEscrowLocked tm m = fmfilter (\<lambda>ref. case fmlookup m ref of None \<Rightarrow> False | Some e \<Rightarrow> \<not> tm > esExpires e) m"

definition storeStreamEscrow :: "int \<Rightarrow> int \<Rightarrow> string \<Rightarrow> SinkSpec list \<Rightarrow> escrow \<Rightarrow> escrow" where
  "storeStreamEscrow ttl tm ref specs m =
     fmupd ref \<lparr>esSpecs = specs, esExpires = tm + ttl\<rparr> (sweepStreamEscrowLocked tm m)"

definition takeStreamEscrow :: "int \<Rightarrow> int \<Rightarrow> string \<Rightarrow> escrow \<Rightarrow> SinkSpec list option \<times> escrow" where
  "takeStreamEscrow ttl tm ref m =
     (if ref = [] then (None, m)
      else let m1 = sweepStreamEscrowLocked tm m in
        case fmlookup m1 ref of
          None \<Rightarrow> (None, m1)
        | Some e \<Rightarrow> (Some (esSpecs e), fmupd ref (e\<lparr>esExpires := tm + ttl\<rparr>) m1))"

definition rearmStreamEscrow :: "int \<Rightarrow> int \<Rightarrow> string \<Rightarrow> SinkSpec list \<Rightarrow> escrow \<Rightarrow> escrow" where
  "rearmStreamEscrow ttl tm ref specs m =
     (if ref = [] then m
      else case fmlookup m ref of
        Some e \<Rightarrow> fmupd ref (e\<lparr>esExpires := tm + ttl\<rparr>) m
      | None \<Rightarrow> fmupd ref \<lparr>esSpecs = specs, esExpires = tm + ttl\<rparr> m)"

definition releaseStreamEscrow :: "string \<Rightarrow> escrow \<Rightarrow> escrow" where
  "releaseStreamEscrow ref m = (if ref = [] then m else fmdrop ref m)"

definition streamRefOf :: "StreamRef option \<Rightarrow> string" where
  "streamRefOf r = (case r of None \<Rightarrow> [] | Some x \<Rightarrow> srRef x)"

text \<open>The worker side of an attachment; \<open>resolver\<close> answers with a sink handle, \<open>Some None\<close> being a nil sink.\<close>

definition inheritAsyncStreams ::
  "int \<Rightarrow> int \<Rightarrow> (StreamTarget \<Rightarrow> go_error + string option) option \<Rightarrow> AsyncRequest \<Rightarrow> policy option \<Rightarrow> escrow \<Rightarrow> policy option \<times> escrow" where
  "inheritAsyncStreams ttl tm resolver req p m =
     (case aStream req of
        None \<Rightarrow> (p, m)
      | Some sr \<Rightarrow>
          (case takeStreamEscrow ttl tm (srRef sr) m of
             (Some specs, m1) \<Rightarrow> (Some (True, specs), m1)
           | (None, m1) \<Rightarrow>
               (case (resolver, srTarget sr) of
                  (Some resolve, Some t) \<Rightarrow>
                    (case resolve t of
                       Inr (Some sink) \<Rightarrow>
                         (Some (True, inheritedSinkSpecs
                            [\<lparr>spID = stID t, spSink = sink, spQueueSize = QueueSize (srPolicy sr),
                              spDeliveryTimeout = DeliveryTimeout (srPolicy sr) * 1000000,
                              spVisibility = Visibility (srPolicy sr), spAuthority = Authority (srPolicy sr),
                              spAckMode = AckMode (srPolicy sr), spMaxUnacked = MaxUnacked (srPolicy sr)\<rparr>]), m1)
                     | _ \<Rightarrow> (p, m1))
                | _ \<Rightarrow> (p, m1))))"

subsection \<open>Running a delegation\<close>

text \<open>What is fixed when the service is built; \<open>cfProvider\<close> is the persistence its session provider declares.\<close>

record svccfg =
  cfMaxConcurrency :: nat
  cfMaxDepth :: int
  cfRetention :: int
  cfAsyncRetention :: int
  cfEscrowTTL :: int
  cfBackend :: bool
  cfWorkSource :: bool
  cfProvider :: "bool option"
  cfInitializer :: bool
  cfManager :: bool
  cfResolver :: "(StreamTarget \<Rightarrow> go_error + string option) option"
  cfExporter :: "(SinkSpec \<Rightarrow> StreamTarget option) option"
  cfText :: "string list \<Rightarrow> string"
  cfTextPart :: "string \<Rightarrow> string"

text \<open>What \<open>runAt\<close> is told: by the directory, the session provider, manager and session, the agent, the context
  and the id generators.\<close>

record runAns =
  anLookup :: err
  anContextID :: "go_error + string"
  anLease :: err
  anInit :: err
  anParked :: "go_error + AgentRequest option"
  anResume :: err
  anStart :: err
  anRunID :: string
  anWait :: "go_error + Result option"
  anTerminal :: bool
  anWaitAgain :: "go_error + Result option"
  anExecute :: "Result option \<times> err"
  anCtxErr :: err
  anNewID :: string
  anNewContextID :: string

record callctx =
  cxCaller :: string
  cxDepth :: int
  cxLeased :: bool
  cxRunID :: string
  cxCallID :: string
  cxPolicy :: "policy option"

text \<open>The part of \<open>runAt\<close> before a slot is taken: \<open>Some\<close> is an early return.\<close>

definition runAt_admit :: "svccfg \<Rightarrow> AsyncRequest \<Rightarrow> runAns \<Rightarrow> (Response \<times> err) option" where
  "runAt_admit cfg req an =
     (case checkDepth (cfMaxDepth cfg) (Depth req) of
        Some e \<Rightarrow> Some (noResponse, Some e)
      | None \<Rightarrow>
        (case anLookup an of
           Some e \<Rightarrow> Some (noResponse, Some e)
         | None \<Rightarrow>
           (case cfProvider cfg of
              None \<Rightarrow> None
            | Some persistent \<Rightarrow>
                (case anContextID an of
                   Inl e \<Rightarrow> Some (noResponse, Some e)
                 | Inr c \<Rightarrow>
                     if trim_space c = [] then
                       Some (noResponse, Some (errf Validation ''local delegation: session provider returned an empty context id''))
                     else None))))"

definition contextID_of :: "svccfg \<Rightarrow> runAns \<Rightarrow> string" where
  "contextID_of cfg an =
     (case cfProvider cfg of
        Some persistent \<Rightarrow> (case anContextID an of Inl e \<Rightarrow> [] | Inr c \<Rightarrow> c)
      | None \<Rightarrow> if cfManager cfg then anNewContextID an else [])"

definition delegatedRequest :: "svccfg \<Rightarrow> callctx \<Rightarrow> AsyncRequest \<Rightarrow> string \<Rightarrow> AgentRequest" where
  "delegatedRequest cfg cx req contextID =
     (let callID = (if CallID req \<noteq> [] then CallID req else cxCallID cx) in
      \<lparr>qTaskID = [], qContextID = contextID, qRunID = [],
       qParentRunID = (if ParentRunID req \<noteq> [] then ParentRunID req else cxRunID cx),
       qAttributes = mergeRunAttributes (lineageAttributes callID) (Attributes (aRequest req)),
       qMessage = \<lparr>mrole = RoleUser, mparts = [cfTextPart cfg (Input (aRequest req))]\<rparr>,
       qInputs = metadataInputs req, qOutputModes = None\<rparr>)"

definition runAtLegacy :: "svccfg \<Rightarrow> AsyncRequest \<Rightarrow> runAns \<Rightarrow> Response \<times> err" where
  "runAtLegacy cfg req an =
     (if cfInitializer cfg \<and> cfProvider cfg = None then
        (noResponse, Some (errf Validation ''local delegation: session initializer requires a session identity''))
      else if cfInitializer cfg \<and> anInit an \<noteq> None then
        (noResponse, map_option (Wrapf ''local delegation: initialize session'') (anInit an))
      else case anExecute an of
        (res, None) \<Rightarrow> (responseFromAgent (cfText cfg) (anNewID an) res, None)
      | (res, Some e) \<Rightarrow>
          if anCtxErr an \<noteq> None then (canceledResponse (anNewID an) [] (anCtxErr an), None) else (noResponse, Some e))"

definition waitTurnCancelOnDone :: "runAns \<Rightarrow> go_error + Result option" where
  "waitTurnCancelOnDone an =
     (case anWait an of
        Inr r \<Rightarrow> Inr r
      | Inl e \<Rightarrow>
          if anTerminal an then anWaitAgain an
          else case anWaitAgain an of
            Inr r \<Rightarrow> Inr r
          | Inl e' \<Rightarrow> Inl (Wrapf ''local delegation: wait for canceled turn'' e'))"

definition resumes_parked :: "svccfg \<Rightarrow> AgentRequest \<Rightarrow> runAns \<Rightarrow> bool" where
  "resumes_parked cfg request an \<longleftrightarrow> cfProvider cfg = Some True \<and>
     (case anParked an of
        Inr (Some parked) \<Rightarrow> sameDelegationRequest (cfText cfg) request parked \<and> anResume an = None
      | _ \<Rightarrow> False)"

definition runAtSession :: "svccfg \<Rightarrow> callctx \<Rightarrow> AsyncRequest \<Rightarrow> runAns \<Rightarrow> Response \<times> err" where
  "runAtSession cfg cx req an =
     (case anLease an of
        Some e \<Rightarrow> (noResponse, Some e)
      | None \<Rightarrow>
        if cfInitializer cfg \<and> anInit an \<noteq> None then
          (noResponse, map_option (Wrapf ''local delegation: initialize session'') (anInit an))
        else if \<not> resumes_parked cfg (delegatedRequest cfg cx req (contextID_of cfg an)) an \<and> anStart an \<noteq> None then
          (noResponse, anStart an)
        else case waitTurnCancelOnDone an of
          Inl e \<Rightarrow>
            (let r = canceledOrFailedResponse (anNewID an) e in
             (if anRunID an \<noteq> [] then r\<lparr>pMetadata := fmupd RunIDMetadataKey (anRunID an) fmempty\<rparr> else r, None))
        | Inr result \<Rightarrow> (responseFromTurn (cfText cfg) (anNewID an) result (contextID_of cfg an), None))"

definition runAt_execute :: "svccfg \<Rightarrow> callctx \<Rightarrow> AsyncRequest \<Rightarrow> runAns \<Rightarrow> Response \<times> err" where
  "runAt_execute cfg cx req an = (if cfManager cfg then runAtSession cfg cx req an else runAtLegacy cfg req an)"

subsection \<open>The state of the service\<close>

text \<open>The exported operations: \<open>Delegate\<close>, \<open>Run\<close> (a work item of a queue outside this service) and \<open>Get\<close>.\<close>

datatype opkind = OpDelegate | OpRun AsyncRequest | OpGet string

datatype opos =
  OBegin
| OKey
| OStatus
| OWait nat
| OLookup
| OSubmit AsyncRequest "(string \<times> SinkSpec list) option"
| ORearm string "SinkSpec list" string
| OAdmit
| OSlot
| OExec bool
| OReturn Response err
| OLeave Response err
| ODone Response err

record delegation_op =
  oKind :: opkind
  oReq :: Request
  oCtx :: callctx
  oLead :: "nat option"
  oPos :: opos

record idempotencyCall =
  coReq :: Request
  coDone :: bool
  coResp :: Response
  coErr :: err

record idempotencyResult =
  icReq :: Request
  icResp :: Response
  icExpires :: int

datatype wpos =
  WClaim nat
| WPause nat
| WAdmit Work
| WSlot Work
| WExec Work
| WSettle Work Response err
| WComplete Work Response "go_error list"
| WBackoff Work Response "go_error list"
| WRelease Work err
| WRecord go_error
| WHalt
| WStopped

datatype clpos = CIdle | CCancel | CWorkers | CActive | CClosed

record svc =
  idempotencyCache :: "(string, idempotencyResult) fmap"
  idempotencyCalls :: "(string, nat) fmap"
  callobjs :: "(nat, idempotencyCall) fmap"
  nextCall :: nat
  slotsUsed :: nat
  sclosed :: bool
  workersStarted :: bool
  activeN :: nat
  workerCanceled :: bool
  streamEscrow :: "escrow option"
  sclock :: int
  ops :: "(nat, delegation_op) fmap"
  workers :: "(nat, wpos) fmap"
  janitorUp :: bool
  sweeperUp :: bool
  closePos :: clpos
  workerErrs :: "go_error list"
  panicked :: bool

definition NewService :: "int \<Rightarrow> svc" where
  "NewService t =
     \<lparr>idempotencyCache = fmempty, idempotencyCalls = fmempty, callobjs = fmempty, nextCall = 0, slotsUsed = 0,
      sclosed = False, workersStarted = False, activeN = 0, workerCanceled = False, streamEscrow = Some fmempty, sclock = t,
      ops = fmempty, workers = fmempty, janitorUp = True, sweeperUp = True, closePos = CIdle, workerErrs = [],
      panicked = False\<rparr>"

text \<open>Writing to the escrow after \<open>Close\<close> set it to nil would panic; reading and deleting would not.\<close>

definition escrow_write :: "(escrow \<Rightarrow> escrow) \<Rightarrow> svc \<Rightarrow> svc" where
  "escrow_write f s =
     (case streamEscrow s of None \<Rightarrow> s\<lparr>panicked := True\<rparr> | Some m \<Rightarrow> s\<lparr>streamEscrow := Some (f m)\<rparr>)"

definition escrow_drop :: "(escrow \<Rightarrow> escrow) \<Rightarrow> svc \<Rightarrow> svc" where
  "escrow_drop f s = s\<lparr>streamEscrow := map_option f (streamEscrow s)\<rparr>"

subsection \<open>A call of Delegate, Run or Get\<close>

definition op_at :: "opos \<Rightarrow> delegation_op \<Rightarrow> delegation_op" where
  "op_at p op = op\<lparr>oPos := p\<rparr>"

definition fails :: "go_error \<Rightarrow> delegation_op \<Rightarrow> delegation_op" where
  "fails e op = op_at (OReturn noResponse (Some e)) op"

definition op_check :: "delegation_op \<Rightarrow> err" where
  "op_check op =
     (case oKind op of
        OpDelegate \<Rightarrow> Request_Validate (oReq op)
      | OpRun req \<Rightarrow>
          (case Request_Validate (aRequest req) of
             Some e \<Rightarrow> Some e
           | None \<Rightarrow>
               if rMode (aRequest req) \<noteq> ModeAsync
               then Some (errf Validation ''local delegation runner: work mode must be async'') else None)
      | OpGet i \<Rightarrow> if i = [] then Some (errf Validation ''local delegation: delegation id is required'') else None)"

definition first_pos :: "delegation_op \<Rightarrow> opos" where
  "first_pos op = (case oKind op of OpDelegate \<Rightarrow> OKey | OpRun req \<Rightarrow> OAdmit | OpGet i \<Rightarrow> OStatus)"

definition begin_op :: "delegation_op \<Rightarrow> svc \<Rightarrow> delegation_op \<times> svc" where
  "begin_op op s =
     (case op_check op of
        Some e \<Rightarrow> (op_at (ODone noResponse (Some e)) op, s)
      | None \<Rightarrow>
          if sclosed s then
            (op_at (ODone noResponse (Some (errf NotAvailable ''local delegation: service is closed''))) op, s)
          else (op_at (first_pos op) op, s\<lparr>activeN := Suc (activeN s)\<rparr>))"

definition expireIdempotencyResults :: "int \<Rightarrow> (string, idempotencyResult) fmap \<Rightarrow> (string, idempotencyResult) fmap" where
  "expireIdempotencyResults t m = fmfilter (\<lambda>k. case fmlookup m k of None \<Rightarrow> False | Some r \<Rightarrow> t < icExpires r) m"

definition call_of :: "svc \<Rightarrow> nat \<Rightarrow> idempotencyCall" where
  "call_of s c = the (fmlookup (callobjs s) c)"

text \<open>The first critical section of \<open>delegateIdempotent\<close>.\<close>

definition key_op :: "delegation_op \<Rightarrow> svc \<Rightarrow> delegation_op \<times> svc" where
  "key_op op s =
     (let key = IdempotencyKey (oReq op) in
      if key = [] then (op_at OLookup op, s)
      else
        let s1 = s\<lparr>idempotencyCache := expireIdempotencyResults (sclock s) (idempotencyCache s)\<rparr> in
        case fmlookup (idempotencyCache s1) key of
          Some result \<Rightarrow>
            if \<not> sameRequest (icReq result) (oReq op) then (fails (idempotencyConflict key) op, s1)
            else (op_at (OReturn (icResp result) None) op, s1)
        | None \<Rightarrow>
            (case fmlookup (idempotencyCalls s1) key of
               Some c \<Rightarrow>
                 if \<not> sameRequest (coReq (call_of s1 c)) (oReq op) then (fails (idempotencyConflict key) op, s1)
                 else (op_at (OWait c) op, s1)
             | None \<Rightarrow>
                 (op_at OLookup (op\<lparr>oLead := Some (nextCall s1)\<rparr>),
                  s1\<lparr>idempotencyCalls := fmupd key (nextCall s1) (idempotencyCalls s1),
                     callobjs := fmupd (nextCall s1) \<lparr>coReq = oReq op, coDone = False, coResp = noResponse, coErr = None\<rparr> (callobjs s1),
                     nextCall := Suc (nextCall s1)\<rparr>)))"

definition cacheIdempotencyResult :: "svccfg \<Rightarrow> string \<Rightarrow> Request \<Rightarrow> Response \<Rightarrow> svc \<Rightarrow> svc" where
  "cacheIdempotencyResult cfg key req response s =
     (let retention = (if rMode req = ModeAsync then cfAsyncRetention cfg else cfRetention cfg) in
      s\<lparr>idempotencyCache := fmupd key \<lparr>icReq = req, icResp = response, icExpires = sclock s + retention\<rparr> (idempotencyCache s)\<rparr>)"

text \<open>Returning from \<open>delegate\<close>; a leader publishes its result in the second critical section.\<close>

definition publish_op :: "svccfg \<Rightarrow> Response \<Rightarrow> err \<Rightarrow> delegation_op \<Rightarrow> svc \<Rightarrow> delegation_op \<times> svc" where
  "publish_op cfg r e op s =
     (case oLead op of
        None \<Rightarrow> (op_at (OLeave r e) op, s)
      | Some c \<Rightarrow>
          (let key = IdempotencyKey (oReq op);
               s1 = s\<lparr>idempotencyCalls := fmdrop key (idempotencyCalls s),
                      callobjs := fmupd c (call_of s c\<lparr>coDone := True, coResp := r, coErr := e\<rparr>) (callobjs s)\<rparr>
           in (op_at (OLeave r e) op, if e = None then cacheIdempotencyResult cfg key (coReq (call_of s c)) r s1 else s1)))"

definition syncRequest :: "delegation_op \<Rightarrow> AsyncRequest" where
  "syncRequest op =
     \<lparr>aRequest = oReq op, Caller = cxCaller (oCtx op), Depth = cxDepth (oCtx op) + 1,
      ParentRunID = cxRunID (oCtx op), CallID = cxCallID (oCtx op), aStream = None\<rparr>"

definition asyncRequest :: "delegation_op \<Rightarrow> AsyncRequest" where
  "asyncRequest op =
     (let req = oReq op; cx = oCtx op in
      (syncRequest op)\<lparr>aRequest := req\<lparr>rMetadata := injectDelegationLineage (rMetadata req) (cxRunID cx) (cxCallID cx)\<rparr>\<rparr>)"

text \<open>\<open>delegate\<close> after the directory answered: a synchronous run goes on to \<open>runAt\<close>, an asynchronous one stores its
  stream attachment under a fresh reference and submits.\<close>

definition delegate_op :: "svccfg \<Rightarrow> err \<Rightarrow> string \<Rightarrow> delegation_op \<Rightarrow> svc \<Rightarrow> delegation_op \<times> svc" where
  "delegate_op cfg found newID op s =
     (case found of
        Some e \<Rightarrow> (fails e op, s)
      | None \<Rightarrow>
        (case rMode (oReq op) of
           ModeSync \<Rightarrow> (op_at OAdmit op, s)
         | ModeAsync \<Rightarrow>
             if \<not> cfBackend cfg then (fails (UnsupportedMode ''async'') op, s)
             else (case checkDepth (cfMaxDepth cfg) (cxDepth (oCtx op) + 1) of
                Some e \<Rightarrow> (fails e op, s)
              | None \<Rightarrow>
                (case asyncStreamSpecs (cxPolicy (oCtx op)) of
                   None \<Rightarrow> (op_at (OSubmit (asyncRequest op) None) op, s)
                 | Some specs \<Rightarrow>
                     (let ref = ''escrow-'' @ newID;
                          stream = (case exportStreamTarget (cfExporter cfg) specs of
                              None \<Rightarrow> \<lparr>srRef = ref, srPolicy = streamPolicySnapshotOf (hd specs), srTarget = None\<rparr>
                            | Some (t, spec) \<Rightarrow> \<lparr>srRef = ref, srPolicy = streamPolicySnapshotOf spec, srTarget = Some t\<rparr>)
                      in (op_at (OSubmit ((asyncRequest op)\<lparr>aStream := Some stream\<rparr>) (Some (ref, specs))) op,
                          escrow_write (storeStreamEscrow (cfEscrowTTL cfg) (sclock s) ref specs) s))))
         | UnknownMode m \<Rightarrow> (fails (UnsupportedMode m) op, s)))"

definition accepted :: "string \<Rightarrow> Response" where
  "accepted i = \<lparr>pID = i, pStatus = StatusAccepted, pOutput = [], pError = [], pMetadata = fmempty\<rparr>"

definition submit_op :: "go_error + string \<Rightarrow> (string \<times> SinkSpec list) option \<Rightarrow> delegation_op \<Rightarrow> svc \<Rightarrow> delegation_op \<times> svc" where
  "submit_op answer esc op s =
     (let failed = (\<lambda>e. (fails e op, case esc of None \<Rightarrow> s | Some (ref, specs) \<Rightarrow> escrow_drop (releaseStreamEscrow ref) s)) in
      case answer of
        Inl e \<Rightarrow> failed e
      | Inr i \<Rightarrow>
          if i = [] then failed (errf Internal ''local delegation: async backend returned an empty id'')
          else (case esc of
                  None \<Rightarrow> (op_at (OReturn (accepted i) None) op, s)
                | Some (ref, specs) \<Rightarrow> (op_at (ORearm ref specs i) op, s)))"

definition rearm_op :: "svccfg \<Rightarrow> string \<Rightarrow> SinkSpec list \<Rightarrow> string \<Rightarrow> delegation_op \<Rightarrow> svc \<Rightarrow> delegation_op \<times> svc" where
  "rearm_op cfg ref specs i op s =
     (op_at (OReturn (accepted i) None) op, escrow_write (rearmStreamEscrow (cfEscrowTTL cfg) (sclock s) ref specs) s)"

text \<open>The work item that \<open>runAt\<close> gets, and whether the caller's slot is reused.\<close>

definition run_request :: "delegation_op \<Rightarrow> AsyncRequest" where
  "run_request op = (case oKind op of OpRun req \<Rightarrow> req | _ \<Rightarrow> syncRequest op)"

definition reuse_slot :: "delegation_op \<Rightarrow> bool" where
  "reuse_slot op \<longleftrightarrow> (case oKind op of OpDelegate \<Rightarrow> cxLeased (oCtx op) | _ \<Rightarrow> False)"

definition inherit_work :: "svccfg \<Rightarrow> AsyncRequest \<Rightarrow> svc \<Rightarrow> policy option \<times> svc" where
  "inherit_work cfg req s =
     (case streamEscrow s of
        None \<Rightarrow> (fst (inheritAsyncStreams (cfEscrowTTL cfg) (sclock s) (cfResolver cfg) req None fmempty), s)
      | Some m \<Rightarrow>
          (case inheritAsyncStreams (cfEscrowTTL cfg) (sclock s) (cfResolver cfg) req None m of
             (p, m') \<Rightarrow> (p, s\<lparr>streamEscrow := Some m'\<rparr>)))"

text \<open>The depth check comes before the stream attachment is taken.\<close>

definition inherit_checked :: "svccfg \<Rightarrow> AsyncRequest \<Rightarrow> svc \<Rightarrow> svc" where
  "inherit_checked cfg req s =
     (if checkDepth (cfMaxDepth cfg) (Depth req) = None then snd (inherit_work cfg req s) else s)"

definition admit_op :: "svccfg \<Rightarrow> runAns \<Rightarrow> delegation_op \<Rightarrow> svc \<Rightarrow> delegation_op \<times> svc" where
  "admit_op cfg an op s =
     (case runAt_admit cfg (run_request op) an of
        Some (r, e) \<Rightarrow> op_at (OReturn r e) op
      | None \<Rightarrow> if reuse_slot op then op_at (OExec False) op else op_at OSlot op,
      inherit_checked cfg (run_request op) s)"

definition exec_op :: "svccfg \<Rightarrow> runAns \<Rightarrow> bool \<Rightarrow> delegation_op \<Rightarrow> svc \<Rightarrow> delegation_op \<times> svc" where
  "exec_op cfg an holds op s =
     (case runAt_execute cfg (oCtx op) (run_request op) an of
        (r, e) \<Rightarrow> (op_at (OReturn r e) op, if holds then s\<lparr>slotsUsed := slotsUsed s - 1\<rparr> else s))"

text \<open>\<open>Get\<close> with the backend's answer.\<close>

definition status_op :: "svccfg \<Rightarrow> go_error + Response \<Rightarrow> delegation_op \<Rightarrow> delegation_op" where
  "status_op cfg answer op =
     (let i = (case oKind op of OpGet i \<Rightarrow> i | _ \<Rightarrow> []) in
      if \<not> cfBackend cfg then fails (RequestNotFound i) op
      else case answer of
        Inl e \<Rightarrow> fails e op
      | Inr r \<Rightarrow> (case normalizeResponse i r of Inl e \<Rightarrow> fails e op | Inr r' \<Rightarrow> op_at (OReturn r' None) op))"

datatype opans =
  ANone
| ACancel go_error string
| ALookup err string
| ASubmit "go_error + string"
| AStatus "go_error + Response"
| ARun runAns

definition op_step :: "svccfg \<Rightarrow> opans \<Rightarrow> delegation_op \<Rightarrow> svc \<Rightarrow> (delegation_op \<times> svc) option" where
  "op_step cfg a op s =
     (case oPos op of
        OBegin \<Rightarrow> Some (begin_op op s)
      | OKey \<Rightarrow> Some (key_op op s)
      | OStatus \<Rightarrow> (case a of AStatus answer \<Rightarrow> Some (status_op cfg answer op, s) | _ \<Rightarrow> None)
      | OWait c \<Rightarrow>
          (case a of
             ACancel e i \<Rightarrow> Some (fails e op, s)
           | _ \<Rightarrow> if coDone (call_of s c) then Some (op_at (OReturn (coResp (call_of s c)) (coErr (call_of s c))) op, s) else None)
      | OLookup \<Rightarrow> (case a of ALookup found newID \<Rightarrow> Some (delegate_op cfg found newID op s) | _ \<Rightarrow> None)
      | OSubmit req esc \<Rightarrow> (case a of ASubmit answer \<Rightarrow> Some (submit_op answer esc op s) | _ \<Rightarrow> None)
      | ORearm ref specs i \<Rightarrow> Some (rearm_op cfg ref specs i op s)
      | OAdmit \<Rightarrow> (case a of ARun an \<Rightarrow> Some (admit_op cfg an op s) | _ \<Rightarrow> None)
      | OSlot \<Rightarrow>
          (case a of
             ACancel e i \<Rightarrow> Some (op_at (OReturn (canceledResponse i [] (Some e)) None) op, s)
           | _ \<Rightarrow> if slotsUsed s < cfMaxConcurrency cfg
                  then Some (op_at (OExec True) op, s\<lparr>slotsUsed := Suc (slotsUsed s)\<rparr>) else None)
      | OExec holds \<Rightarrow> (case a of ARun an \<Rightarrow> Some (exec_op cfg an holds op s) | _ \<Rightarrow> None)
      | OReturn r e \<Rightarrow> Some (publish_op cfg r e op s)
      | OLeave r e \<Rightarrow> Some (op_at (ODone r e) op, s\<lparr>activeN := activeN s - 1\<rparr>)
      | ODone r e \<Rightarrow> None)"

subsection \<open>Workers\<close>

text \<open>What a delegated turn starts with: whether it is ephemeral, and its inherited sinks.\<close>

definition delegationStartOptions :: "bool \<Rightarrow> policy option \<Rightarrow> bool \<times> SinkSpec list" where
  "delegationStartOptions persistent p =
     (\<not> persistent,
      case p of None \<Rightarrow> [] | Some (inheritable, sinks) \<Rightarrow> if inheritable then inheritedSinkSpecs sinks else [])"

definition workerCtx :: callctx where
  "workerCtx = \<lparr>cxCaller = [], cxDepth = 0, cxLeased = False, cxRunID = [], cxCallID = [], cxPolicy = None\<rparr>"

definition admit_work :: "svccfg \<Rightarrow> runAns \<Rightarrow> Work \<Rightarrow> svc \<Rightarrow> wpos \<times> svc" where
  "admit_work cfg an work s =
     (case runAt_admit cfg (wRequest work) an of
        Some (r, e) \<Rightarrow> WSettle work r e
      | None \<Rightarrow> WSlot work,
      inherit_checked cfg (wRequest work) s)"

text \<open>The response a worker reports: cancelled when its context ended, failed on an error, always under the
  work's id.\<close>

definition settled_response :: "Work \<Rightarrow> err \<Rightarrow> Response \<Rightarrow> err \<Rightarrow> Response" where
  "settled_response work ce r e =
     (let r1 = (if ce \<noteq> None then canceledResponse [] (wID work) ce
                else case e of None \<Rightarrow> r
                     | Some x \<Rightarrow> \<lparr>pID = wID work, pStatus = StatusFailed, pOutput = [], pError = error_string x, pMetadata = fmempty\<rparr>)
      in r1\<lparr>pID := wID work\<rparr>)"

definition complete_error :: "go_error list \<Rightarrow> go_error" where
  "complete_error errs = Wrapf ''local delegation: complete work'' (Join errs)"

definition recordWorkerError :: "go_error \<Rightarrow> svc \<Rightarrow> svc" where
  "recordWorkerError e s = s\<lparr>workerErrs := workerErrs s @ [e], sclosed := True\<rparr>"

datatype wans =
  KNone
| KStop
| KClaim "go_error + Work"
| KRun runAns
| KCancel go_error string
| KCtx err
| KComplete err

definition worker_step :: "svccfg \<Rightarrow> wans \<Rightarrow> wpos \<Rightarrow> svc \<Rightarrow> (wpos \<times> svc) option" where
  "worker_step cfg a w s =
     (case w of
        WClaim f \<Rightarrow>
          (case a of
             KClaim (Inl e) \<Rightarrow> Some (if workerCanceled s \<or> Is NotAvailable (Some e) then WStopped else WPause f, s)
           | KClaim (Inr work) \<Rightarrow> Some (WAdmit work, s)
           | _ \<Rightarrow> None)
      | WPause f \<Rightarrow> if a = KStop then (if workerCanceled s then Some (WStopped, s) else None) else Some (WClaim (Suc f), s)
      | WAdmit work \<Rightarrow> (case a of KRun an \<Rightarrow> Some (admit_work cfg an work s) | _ \<Rightarrow> None)
      | WSlot work \<Rightarrow>
          (case a of
             KCancel e i \<Rightarrow> Some (WSettle work (canceledResponse i [] (Some e)) None, s)
           | _ \<Rightarrow> if slotsUsed s < cfMaxConcurrency cfg then Some (WExec work, s\<lparr>slotsUsed := Suc (slotsUsed s)\<rparr>) else None)
      | WExec work \<Rightarrow>
          (case a of
             KRun an \<Rightarrow>
               (case runAt_execute cfg workerCtx (wRequest work) an of
                  (r, e) \<Rightarrow> Some (WSettle work r e, s\<lparr>slotsUsed := slotsUsed s - 1\<rparr>))
           | _ \<Rightarrow> None)
      | WSettle work r e \<Rightarrow> (case a of KCtx ce \<Rightarrow> Some (WComplete work (settled_response work ce r e) [], s) | _ \<Rightarrow> None)
      | WComplete work r errs \<Rightarrow>
          (case a of
             KComplete None \<Rightarrow> Some (WRelease work None, s)
           | KComplete (Some e) \<Rightarrow>
               Some (if Suc (length errs) < completeMaxAttempts then WBackoff work r (errs @ [e])
                     else WRelease work (Some (complete_error (errs @ [e]))), s)
           | _ \<Rightarrow> None)
      | WBackoff work r errs \<Rightarrow>
          if a = KStop then (if workerCanceled s then Some (WRelease work (Some (complete_error errs)), s) else None)
          else Some (WComplete work r errs, s)
      | WRelease work ce \<Rightarrow>
          Some (case ce of None \<Rightarrow> WClaim 0 | Some e \<Rightarrow> WRecord e,
                escrow_drop (releaseStreamEscrow (streamRefOf (aStream (wRequest work)))) s)
      | WRecord e \<Rightarrow> Some (WHalt, recordWorkerError e s)
      | WHalt \<Rightarrow> Some (WStopped, s\<lparr>workerCanceled := True\<rparr>)
      | WStopped \<Rightarrow> None)"

definition Start :: "svccfg \<Rightarrow> svc \<Rightarrow> err \<times> svc" where
  "Start cfg s =
     (if sclosed s then (Some (errf NotAvailable ''local delegation: service is closed''), s)
      else if \<not> cfWorkSource cfg \<or> workersStarted s then (None, s)
      else (None, s\<lparr>workersStarted := True,
                    workers := fmap_of_list (map (\<lambda>i. (i, WClaim 0)) [0..<cfMaxConcurrency cfg])\<rparr>))"

subsection \<open>Closing and the step relation\<close>

definition all_stopped :: "svc \<Rightarrow> bool" where
  "all_stopped s \<longleftrightarrow> fmpred (\<lambda>i w. w = WStopped) (workers s) \<and> \<not> janitorUp s \<and> \<not> sweeperUp s"

definition close_step :: "svc \<Rightarrow> svc option" where
  "close_step s =
     (case closePos s of
        CIdle \<Rightarrow> Some (s\<lparr>sclosed := True, closePos := CCancel\<rparr>)
      | CCancel \<Rightarrow> Some (s\<lparr>workerCanceled := True, closePos := CWorkers\<rparr>)
      | CWorkers \<Rightarrow> if all_stopped s then Some (s\<lparr>closePos := CActive\<rparr>) else None
      | CActive \<Rightarrow> if activeN s = 0 then Some (s\<lparr>streamEscrow := None, closePos := CClosed\<rparr>) else None
      | CClosed \<Rightarrow> None)"

fun executing :: "opos \<Rightarrow> bool" where
  "executing (OExec h) \<longleftrightarrow> True"
| "executing _ \<longleftrightarrow> False"

inductive svc_step :: "svccfg \<Rightarrow> svc \<Rightarrow> svc \<Rightarrow> bool" for cfg where
  svc_call: "fmlookup (ops s) i = None \<Longrightarrow> oPos op = OBegin \<Longrightarrow> oLead op = None \<Longrightarrow>
    svc_step cfg s (s\<lparr>ops := fmupd i op (ops s)\<rparr>)"
| svc_op: "fmlookup (ops s) i = Some op \<Longrightarrow> op_step cfg a op s = Some (op', s') \<Longrightarrow>
    svc_step cfg s (s'\<lparr>ops := fmupd i op' (ops s)\<rparr>)"
| svc_worker: "fmlookup (workers s) i = Some w \<Longrightarrow> worker_step cfg a w s = Some (w', s') \<Longrightarrow>
    svc_step cfg s (s'\<lparr>workers := fmupd i w' (workers s)\<rparr>)"
| svc_start: "svc_step cfg s (snd (Start cfg s))"
| svc_tick: "sclock s \<le> t \<Longrightarrow> svc_step cfg s (s\<lparr>sclock := t\<rparr>)"
| svc_janitor: "janitorUp s \<Longrightarrow> t \<le> sclock s \<Longrightarrow>
    svc_step cfg s (s\<lparr>idempotencyCache := expireIdempotencyResults t (idempotencyCache s)\<rparr>)"
| svc_janitor_stop: "workerCanceled s \<Longrightarrow> svc_step cfg s (s\<lparr>janitorUp := False\<rparr>)"
| svc_sweep: "sweeperUp s \<Longrightarrow> svc_step cfg s (escrow_drop (sweepStreamEscrowLocked (sclock s)) s)"
| svc_sweep_stop: "workerCanceled s \<Longrightarrow> svc_step cfg s (s\<lparr>sweeperUp := False\<rparr>)"
| svc_close: "close_step s = Some s' \<Longrightarrow> svc_step cfg s s'"

definition svc_init :: "svc \<Rightarrow> bool" where
  "svc_init s \<longleftrightarrow> (\<exists>t. s = NewService t)"

end
