(* ===== verification/Delegation_Safety.thy ===== *)
theory Delegation_Safety
  imports Delegation_Service
begin

text \<open>
  Invariants of the delegation service over every interleaving: each idempotency key has at most one leader and what
  followers and the cache answer is what a leader returned (\<open>lead_inv\<close>), the slot semaphore and the wait
  group count the goroutines they stand for (\<open>count_inv\<close>), and closing leaves nothing behind (\<open>close_inv\<close>).
\<close>

subsection \<open>What one action changes\<close>

lemma escrow_write_fields [simp]:
  "idempotencyCache (escrow_write f s) = idempotencyCache s" "idempotencyCalls (escrow_write f s) = idempotencyCalls s"
  "callobjs (escrow_write f s) = callobjs s" "nextCall (escrow_write f s) = nextCall s" "slotsUsed (escrow_write f s) = slotsUsed s"
  "sclosed (escrow_write f s) = sclosed s" "activeN (escrow_write f s) = activeN s" "workersStarted (escrow_write f s) = workersStarted s"
  "workerCanceled (escrow_write f s) = workerCanceled s" "sclock (escrow_write f s) = sclock s" "ops (escrow_write f s) = ops s"
  "workers (escrow_write f s) = workers s" "janitorUp (escrow_write f s) = janitorUp s" "sweeperUp (escrow_write f s) = sweeperUp s"
  "closePos (escrow_write f s) = closePos s" "(streamEscrow (escrow_write f s) = None) = (streamEscrow s = None)"
  "streamEscrow s \<noteq> None \<Longrightarrow> panicked (escrow_write f s) = panicked s"
  by (auto simp: escrow_write_def split: option.split)

lemma escrow_drop_fields [simp]:
  "idempotencyCache (escrow_drop f s) = idempotencyCache s" "idempotencyCalls (escrow_drop f s) = idempotencyCalls s"
  "callobjs (escrow_drop f s) = callobjs s" "nextCall (escrow_drop f s) = nextCall s" "slotsUsed (escrow_drop f s) = slotsUsed s"
  "sclosed (escrow_drop f s) = sclosed s" "activeN (escrow_drop f s) = activeN s" "workersStarted (escrow_drop f s) = workersStarted s"
  "workerCanceled (escrow_drop f s) = workerCanceled s" "sclock (escrow_drop f s) = sclock s" "ops (escrow_drop f s) = ops s"
  "workers (escrow_drop f s) = workers s" "janitorUp (escrow_drop f s) = janitorUp s" "sweeperUp (escrow_drop f s) = sweeperUp s"
  "closePos (escrow_drop f s) = closePos s" "(streamEscrow (escrow_drop f s) = None) = (streamEscrow s = None)"
  "panicked (escrow_drop f s) = panicked s"
  by (auto simp: escrow_drop_def)

lemma op_at_fields [simp]:
  "oPos (op_at p op) = p" "oKind (op_at p op) = oKind op" "oKind (fails e op) = oKind op" "oReq (op_at p op) = oReq op" "oCtx (op_at p op) = oCtx op" "oLead (op_at p op) = oLead op"
  "oPos (fails e op) = OReturn noResponse (Some e)" "oReq (fails e op) = oReq op" "oCtx (fails e op) = oCtx op"
  "oLead (fails e op) = oLead op"
  by (simp_all add: op_at_def fails_def)

lemma cacheIdempotencyResult_fields [simp]:
  "ops (cacheIdempotencyResult cfg k q r s) = ops s" "workers (cacheIdempotencyResult cfg k q r s) = workers s"
  "idempotencyCalls (cacheIdempotencyResult cfg k q r s) = idempotencyCalls s" "callobjs (cacheIdempotencyResult cfg k q r s) = callobjs s"
  "nextCall (cacheIdempotencyResult cfg k q r s) = nextCall s" "slotsUsed (cacheIdempotencyResult cfg k q r s) = slotsUsed s"
  "sclosed (cacheIdempotencyResult cfg k q r s) = sclosed s" "activeN (cacheIdempotencyResult cfg k q r s) = activeN s"
  "workersStarted (cacheIdempotencyResult cfg k q r s) = workersStarted s" "workerCanceled (cacheIdempotencyResult cfg k q r s) = workerCanceled s"
  "streamEscrow (cacheIdempotencyResult cfg k q r s) = streamEscrow s" "sclock (cacheIdempotencyResult cfg k q r s) = sclock s"
  "janitorUp (cacheIdempotencyResult cfg k q r s) = janitorUp s" "sweeperUp (cacheIdempotencyResult cfg k q r s) = sweeperUp s"
  "closePos (cacheIdempotencyResult cfg k q r s) = closePos s" "panicked (cacheIdempotencyResult cfg k q r s) = panicked s"
  by (simp_all add: cacheIdempotencyResult_def Let_def)

lemma inherit_checked_fields [simp]:
  "idempotencyCache (inherit_checked cfg req s) = idempotencyCache s" "idempotencyCalls (inherit_checked cfg req s) = idempotencyCalls s"
  "callobjs (inherit_checked cfg req s) = callobjs s" "nextCall (inherit_checked cfg req s) = nextCall s" "slotsUsed (inherit_checked cfg req s) = slotsUsed s"
  "sclosed (inherit_checked cfg req s) = sclosed s" "activeN (inherit_checked cfg req s) = activeN s" "workersStarted (inherit_checked cfg req s) = workersStarted s"
  "workerCanceled (inherit_checked cfg req s) = workerCanceled s" "sclock (inherit_checked cfg req s) = sclock s" "ops (inherit_checked cfg req s) = ops s"
  "workers (inherit_checked cfg req s) = workers s" "janitorUp (inherit_checked cfg req s) = janitorUp s" "sweeperUp (inherit_checked cfg req s) = sweeperUp s"
  "closePos (inherit_checked cfg req s) = closePos s" "(streamEscrow (inherit_checked cfg req s) = None) = (streamEscrow s = None)"
  "panicked (inherit_checked cfg req s) = panicked s"
  by (auto simp: inherit_checked_def inherit_work_def split: option.split prod.split)

lemmas op_defs = begin_op_def status_op_def key_op_def delegate_op_def submit_op_def rearm_op_def admit_op_def exec_op_def publish_op_def

lemma op_step_frame:
  assumes "op_step cfg a op s = Some (op', s')"
  shows "ops s' = ops s \<and> workers s' = workers s \<and> sclosed s' = sclosed s \<and> workerCanceled s' = workerCanceled s \<and>
    workersStarted s' = workersStarted s \<and> closePos s' = closePos s \<and> janitorUp s' = janitorUp s \<and> sweeperUp s' = sweeperUp s \<and>
    sclock s' = sclock s \<and> (streamEscrow s' = None \<longleftrightarrow> streamEscrow s = None) \<and> oKind op' = oKind op \<and> oReq op' = oReq op \<and> oCtx op' = oCtx op"
  using assms
  by (cases "oPos op")
    (auto simp: op_step_def op_defs Let_def split: option.splits if_splits prod.splits sum.splits opans.splits Mode.splits)

lemma worker_step_frame:
  assumes "worker_step cfg a w s = Some (w', s')"
  shows "ops s' = ops s \<and> workers s' = workers s \<and> idempotencyCache s' = idempotencyCache s \<and> callobjs s' = callobjs s \<and>
    idempotencyCalls s' = idempotencyCalls s \<and> nextCall s' = nextCall s \<and> activeN s' = activeN s \<and> sclock s' = sclock s \<and>
    workersStarted s' = workersStarted s \<and> closePos s' = closePos s \<and> janitorUp s' = janitorUp s \<and> sweeperUp s' = sweeperUp s \<and>
    (streamEscrow s' = None \<longleftrightarrow> streamEscrow s = None) \<and> panicked s' = panicked s \<and> (sclosed s \<longrightarrow> sclosed s') \<and>
    (workerCanceled s \<longrightarrow> workerCanceled s')"
  using assms
  by (cases w)
    (auto simp: worker_step_def admit_work_def recordWorkerError_def Let_def
      split: option.splits if_splits prod.splits sum.splits wans.splits)

end
