(* ===== verification/Delegation_Keys.thy ===== *)
theory Delegation_Keys
  imports Delegation_Safety
begin

text \<open>
  Idempotency keys of the delegation service. Of the calls in flight under one key exactly one, the leader, goes on to
  \<open>delegate\<close>; the others wait for its call object. The invariant \<open>lead_inv\<close> ties the map of calls, the call objects and
  the cache to the leaders they came from.
\<close>

subsection \<open>The invariant\<close>

definition op_key :: "delegation_op \<Rightarrow> string" where
  "op_key op = (case oKind op of OpDelegate \<Rightarrow> IdempotencyKey (oReq op) | _ \<Rightarrow> [])"

fun leading :: "opos \<Rightarrow> bool" where
  "leading OLookup \<longleftrightarrow> True"
| "leading (OSubmit req esc) \<longleftrightarrow> True"
| "leading (ORearm ref specs i) \<longleftrightarrow> True"
| "leading OAdmit \<longleftrightarrow> True"
| "leading OSlot \<longleftrightarrow> True"
| "leading (OExec h) \<longleftrightarrow> True"
| "leading (OReturn r e) \<longleftrightarrow> True"
| "leading _ \<longleftrightarrow> False"

definition settled_by :: "svc \<Rightarrow> nat \<Rightarrow> Request \<Rightarrow> Response \<Rightarrow> bool" where
  "settled_by s c req r \<longleftrightarrow> (\<exists>co. fmlookup (callobjs s) c = Some co \<and> coDone co \<and> coErr co = None \<and> coResp co = r \<and> coReq co = req)"

definition answered :: "svc \<Rightarrow> Request \<Rightarrow> Response \<Rightarrow> bool" where
  "answered s req r \<longleftrightarrow> (\<exists>c q. settled_by s c q r \<and> sameRequest q req)"

definition lead_ok :: "svc \<Rightarrow> delegation_op \<Rightarrow> nat \<Rightarrow> bool" where
  "lead_ok s op c \<longleftrightarrow> op_key op \<noteq> [] \<and>
     (\<exists>co. fmlookup (callobjs s) c = Some co \<and> coReq co = oReq op \<and>
        (if leading (oPos op) then \<not> coDone co \<and> fmlookup (idempotencyCalls s) (op_key op) = Some c
         else coDone co \<and> (oPos op = OLeave (coResp co) (coErr co) \<or> oPos op = ODone (coResp co) (coErr co))))"

definition free_ok :: "svc \<Rightarrow> delegation_op \<Rightarrow> bool" where
  "free_ok s op \<longleftrightarrow>
     (case oPos op of
        OBegin \<Rightarrow> True
      | OKey \<Rightarrow> oKind op = OpDelegate
      | OWait c \<Rightarrow> oKind op = OpDelegate \<and> op_key op \<noteq> [] \<and>
          (\<exists>co. fmlookup (callobjs s) c = Some co \<and> sameRequest (coReq co) (oReq op))
      | OReturn r e \<Rightarrow> op_key op \<noteq> [] \<and> e = None \<longrightarrow> answered s (oReq op) r
      | OLeave r e \<Rightarrow> op_key op \<noteq> [] \<and> e = None \<longrightarrow> answered s (oReq op) r
      | ODone r e \<Rightarrow> op_key op \<noteq> [] \<and> e = None \<longrightarrow> answered s (oReq op) r
      | _ \<Rightarrow> op_key op = [])"

definition op_ok :: "svc \<Rightarrow> delegation_op \<Rightarrow> bool" where
  "op_ok s op \<longleftrightarrow> (case oLead op of None \<Rightarrow> free_ok s op | Some c \<Rightarrow> lead_ok s op c)"

definition lead_inv :: "svc \<Rightarrow> bool" where
  "lead_inv s \<longleftrightarrow>
     (\<forall>i op. fmlookup (ops s) i = Some op \<longrightarrow> op_ok s op) \<and>
     (\<forall>i j a b c. fmlookup (ops s) i = Some a \<longrightarrow> fmlookup (ops s) j = Some b \<longrightarrow> oLead a = Some c \<longrightarrow> oLead b = Some c \<longrightarrow> i = j) \<and>
     (\<forall>k c. fmlookup (idempotencyCalls s) k = Some c \<longrightarrow>
        (\<exists>i op. fmlookup (ops s) i = Some op \<and> oLead op = Some c \<and> leading (oPos op) \<and> op_key op = k)) \<and>
     (\<forall>c co. fmlookup (callobjs s) c = Some co \<longrightarrow> c < nextCall s \<and> (\<exists>i op. fmlookup (ops s) i = Some op \<and> oLead op = Some c)) \<and>
     (\<forall>k r. fmlookup (idempotencyCache s) k = Some r \<longrightarrow>
        IdempotencyKey (icReq r) = k \<and> (\<exists>c. settled_by s c (icReq r) (icResp r))) \<and>
     (\<forall>k c. fmlookup (idempotencyCalls s) k = Some c \<longrightarrow> fmlookup (idempotencyCache s) k = None)"

lemma lead_invD:
  assumes "lead_inv s"
  shows lead_ops: "fmlookup (ops s) i = Some op \<Longrightarrow> op_ok s op"
    and lead_unique: "fmlookup (ops s) i = Some a \<Longrightarrow> fmlookup (ops s) j = Some b \<Longrightarrow> oLead a = Some c \<Longrightarrow> oLead b = Some c \<Longrightarrow> i = j"
    and lead_calls: "fmlookup (idempotencyCalls s) k = Some c \<Longrightarrow>
      \<exists>i op. fmlookup (ops s) i = Some op \<and> oLead op = Some c \<and> leading (oPos op) \<and> op_key op = k"
    and lead_objs: "fmlookup (callobjs s) c = Some co \<Longrightarrow> c < nextCall s \<and> (\<exists>i op. fmlookup (ops s) i = Some op \<and> oLead op = Some c)"
    and lead_cache: "fmlookup (idempotencyCache s) k = Some r \<Longrightarrow>
      IdempotencyKey (icReq r) = k \<and> (\<exists>c. settled_by s c (icReq r) (icResp r))"
    and lead_disjoint: "fmlookup (idempotencyCalls s) k = Some c \<Longrightarrow> fmlookup (idempotencyCache s) k = None"
  using assms unfolding lead_inv_def by blast+

lemma lead_invI:
  assumes "\<And>i op. fmlookup (ops s) i = Some op \<Longrightarrow> op_ok s op"
    and "\<And>i j a b c. fmlookup (ops s) i = Some a \<Longrightarrow> fmlookup (ops s) j = Some b \<Longrightarrow> oLead a = Some c \<Longrightarrow> oLead b = Some c \<Longrightarrow> i = j"
    and "\<And>k c. fmlookup (idempotencyCalls s) k = Some c \<Longrightarrow>
      \<exists>i op. fmlookup (ops s) i = Some op \<and> oLead op = Some c \<and> leading (oPos op) \<and> op_key op = k"
    and "\<And>c co. fmlookup (callobjs s) c = Some co \<Longrightarrow> c < nextCall s \<and> (\<exists>i op. fmlookup (ops s) i = Some op \<and> oLead op = Some c)"
    and "\<And>k r. fmlookup (idempotencyCache s) k = Some r \<Longrightarrow>
      IdempotencyKey (icReq r) = k \<and> (\<exists>c. settled_by s c (icReq r) (icResp r))"
    and "\<And>k c. fmlookup (idempotencyCalls s) k = Some c \<Longrightarrow> fmlookup (idempotencyCache s) k = None"
  shows "lead_inv s"
  using assms unfolding lead_inv_def by blast

text \<open>Call objects only ever go from pending to done, under the same request.\<close>

definition grows :: "svc \<Rightarrow> svc \<Rightarrow> bool" where
  "grows s s' \<longleftrightarrow> (\<forall>c co. fmlookup (callobjs s) c = Some co \<longrightarrow>
     (\<exists>co'. fmlookup (callobjs s') c = Some co' \<and> coReq co' = coReq co \<and> (coDone co \<longrightarrow> co' = co)))"

lemma grows_same: "callobjs s' = callobjs s \<Longrightarrow> grows s s'"
  by (simp add: grows_def)

lemma grows_settled: "grows s s' \<Longrightarrow> settled_by s c q r \<Longrightarrow> settled_by s' c q r"
  unfolding grows_def settled_by_def by blast

lemma grows_answered: "grows s s' \<Longrightarrow> answered s q r \<Longrightarrow> answered s' q r"
  unfolding answered_def by (blast intro: grows_settled)

lemma grows_free:
  assumes "grows s s'" "free_ok s op"
  shows "free_ok s' op"
proof (cases "oPos op")
  case (OWait c)
  then show ?thesis using assms unfolding grows_def free_ok_def by fastforce
qed (use assms in \<open>auto simp: free_ok_def intro: grows_answered\<close>)

lemma sameRequest_simps [simp]: "sameRequest q q" "sameRequest q q' \<Longrightarrow> IdempotencyKey q = IdempotencyKey q'"
  by (simp_all add: sameRequest_def)

lemma op_ok_same:
  "callobjs s' = callobjs s \<Longrightarrow> idempotencyCalls s' = idempotencyCalls s \<Longrightarrow> op_ok s' op = op_ok s op"
  by (simp add: op_ok_def free_ok_def lead_ok_def answered_def settled_by_def split: option.split opos.split)

subsection \<open>Steps that only move one call\<close>

lemma lead_inv_move:
  assumes inv: "lead_inv s"
    and same: "callobjs s' = callobjs s" "idempotencyCalls s' = idempotencyCalls s" "nextCall s' = nextCall s"
    and cache: "\<And>k r. fmlookup (idempotencyCache s') k = Some r \<Longrightarrow> fmlookup (idempotencyCache s) k = Some r"
    and ops: "ops s' = fmupd i op' (ops s)"
    and old: "fmlookup (ops s) i = Some op \<or> fmlookup (ops s) i = None \<and> oLead op' = None \<and> op = op'"
    and op': "oLead op' = oLead op" "op_key op' = op_key op" "op_ok s op'"
      "oLead op \<noteq> None \<Longrightarrow> leading (oPos op) \<Longrightarrow> leading (oPos op')"
  shows "lead_inv s'"
proof (rule lead_invI)
  note ok = op_ok_same [OF same(1,2)]
  have lead: "\<exists>b. fmlookup (ops s) j = Some b \<and> oLead b = oLead a" if "fmlookup (ops s') j = Some a" "oLead a \<noteq> None" for j a
    using that old op'(1) by (auto simp: ops split: if_splits)
  have keep: "\<exists>j b. fmlookup (ops s') j = Some b \<and> oLead b = Some c \<and> (leading (oPos a) \<longrightarrow> leading (oPos b)) \<and> op_key b = op_key a"
    if "fmlookup (ops s) j = Some a" "oLead a = Some c" for j a c
  proof (cases "j = i")
    case True
    then have "a = op" using that(1) old by auto
    then show ?thesis using op' that(2) by (intro exI [of _ i] exI [of _ op']) (simp add: ops)
  next
    case False
    then show ?thesis using that by (intro exI [of _ j] exI [of _ a]) (simp add: ops)
  qed
  show "op_ok s' a" if "fmlookup (ops s') j = Some a" for j a
    using that op'(3) lead_ops [OF inv] by (auto simp: ok ops split: if_splits)
  show "j = k" if "fmlookup (ops s') j = Some a" "fmlookup (ops s') k = Some b" "oLead a = Some c" "oLead b = Some c" for j k a b c
    using lead [OF that(1)] lead [OF that(2)] that(3,4) lead_unique [OF inv] by auto
  show "\<exists>j a. fmlookup (ops s') j = Some a \<and> oLead a = Some c \<and> leading (oPos a) \<and> op_key a = k"
    if "fmlookup (idempotencyCalls s') k = Some c" for k c
    using lead_calls [OF inv] that keep unfolding same by metis
  show "c < nextCall s' \<and> (\<exists>j a. fmlookup (ops s') j = Some a \<and> oLead a = Some c)" if "fmlookup (callobjs s') c = Some co" for c co
    using lead_objs [OF inv] that keep unfolding same by metis
  show "IdempotencyKey (icReq r) = k \<and> (\<exists>c. settled_by s' c (icReq r) (icResp r))"
    if "fmlookup (idempotencyCache s') k = Some r" for k r
    using lead_cache [OF inv cache [OF that]] grows_settled [OF grows_same [OF same(1)]] by blast
  show "fmlookup (idempotencyCache s') k = None" if "fmlookup (idempotencyCalls s') k = Some c" for k c
    using lead_disjoint [OF inv] that cache unfolding same by (metis option.exhaust option.distinct(1))
qed

lemma lead_inv_frame:
  assumes inv: "lead_inv s"
    and same: "callobjs s' = callobjs s" "idempotencyCalls s' = idempotencyCalls s" "nextCall s' = nextCall s" "ops s' = ops s"
    and cache: "\<And>k r. fmlookup (idempotencyCache s') k = Some r \<Longrightarrow> fmlookup (idempotencyCache s) k = Some r"
  shows "lead_inv s'"
proof (rule lead_invI)
  show "IdempotencyKey (icReq r) = k \<and> (\<exists>c. settled_by s' c (icReq r) (icResp r))"
    if "fmlookup (idempotencyCache s') k = Some r" for k r
    using lead_cache [OF inv cache [OF that]] grows_settled [OF grows_same [OF same(1)]] by blast
  show "fmlookup (idempotencyCache s') k = None" if "fmlookup (idempotencyCalls s') k = Some c" for k c
    using lead_disjoint [OF inv] that cache unfolding same by (metis option.exhaust option.distinct(1))
qed (use lead_ops [OF inv] lead_unique [OF inv] lead_calls [OF inv] lead_objs [OF inv]
      in \<open>simp_all add: same op_ok_same [OF same(1,2)]\<close>)

lemma expire_sub: "fmlookup (expireIdempotencyResults t m) k = Some r \<Longrightarrow> fmlookup m k = Some r \<and> t < icExpires r"
  by (auto simp: expireIdempotencyResults_def split: if_splits option.splits)

lemma op_key_eq: "oKind op' = oKind op \<Longrightarrow> oReq op' = oReq op \<Longrightarrow> op_key op' = op_key op"
  by (simp add: op_key_def split: opkind.split)

lemma op_key_at [simp]: "op_key (op_at p op) = op_key op" "op_key (fails e op) = op_key op"
  by (simp_all add: op_key_def split: opkind.split)

definition publishing :: "delegation_op \<Rightarrow> bool" where
  "publishing op \<longleftrightarrow> oLead op \<noteq> None \<and> (case oPos op of OReturn r e \<Rightarrow> True | _ \<Rightarrow> False)"

lemma op_step_quiet_fields:
  assumes "op_step cfg a op s = Some (op', s')" "oPos op \<noteq> OKey" "\<not> publishing op"
  shows "callobjs s' = callobjs s \<and> idempotencyCalls s' = idempotencyCalls s \<and> nextCall s' = nextCall s \<and>
    idempotencyCache s' = idempotencyCache s \<and> oLead op' = oLead op"
  using assms
  by (cases "oPos op")
    (auto simp: op_step_def publishing_def op_defs Let_def split: option.splits if_splits prod.splits sum.splits opans.splits Mode.splits)

lemma op_step_lead:
  assumes "op_step cfg a op s = Some (op', s')" "lead_ok s op c" "oLead op = Some c" "\<not> publishing op"
  shows "lead_ok s op' c \<and> (leading (oPos op) \<longrightarrow> leading (oPos op'))"
  using assms
  by (cases "oPos op")
    (auto simp: op_step_def lead_ok_def publishing_def op_defs Let_def split: option.splits if_splits prod.splits sum.splits opans.splits Mode.splits)

lemma call_done_answered:
  "fmlookup (callobjs s) c = Some co \<Longrightarrow> sameRequest (coReq co) q \<Longrightarrow> coDone co \<Longrightarrow> coErr co = None \<Longrightarrow> answered s q (coResp co)"
  unfolding answered_def settled_by_def by blast

lemma op_step_free:
  assumes "op_step cfg a op s = Some (op', s')" "free_ok s op" "oLead op = None" "oPos op \<noteq> OKey"
  shows "free_ok s op'"
proof (cases "oPos op")
  case OBegin
  then show ?thesis
    using assms(1) by (auto simp: op_step_def begin_op_def free_ok_def first_pos_def op_key_def split: option.splits if_splits opkind.splits)
next
  case (OWait c)
  then show ?thesis
    using assms by (auto simp: op_step_def free_ok_def call_of_def intro: call_done_answered split: opans.splits if_splits)
qed (use assms in \<open>auto simp: op_step_def free_ok_def op_defs Let_def
       split: option.splits if_splits prod.splits sum.splits opans.splits Mode.splits\<close>)

subsection \<open>Becoming a leader and publishing\<close>

lemma lead_fresh:
  assumes "lead_inv s"
  shows "fmlookup (callobjs s) (nextCall s) = None"
    and "fmlookup (ops s) j = Some a \<Longrightarrow> oLead a \<noteq> Some (nextCall s)"
proof -
  show none: "fmlookup (callobjs s) (nextCall s) = None"
    using lead_objs [OF assms, of "nextCall s"] by (cases "fmlookup (callobjs s) (nextCall s)") auto
  show "oLead a \<noteq> Some (nextCall s)" if "fmlookup (ops s) j = Some a"
    using lead_ops [OF assms that] none by (auto simp: op_ok_def lead_ok_def split: option.splits)
qed

lemma lead_inv_new:
  assumes inv: "lead_inv s" and old: "fmlookup (ops s) i = Some op" "oLead op = None"
    and key: "op_key op = key" "key \<noteq> []" "fmlookup (idempotencyCalls s) key = None" "fmlookup (idempotencyCache s') key = None"
    and new: "callobjs s' = fmupd (nextCall s) \<lparr>coReq = oReq op, coDone = False, coResp = noResponse, coErr = None\<rparr> (callobjs s)"
      "idempotencyCalls s' = fmupd key (nextCall s) (idempotencyCalls s)" "nextCall s' = Suc (nextCall s)"
    and cache: "\<And>k r. fmlookup (idempotencyCache s') k = Some r \<Longrightarrow> fmlookup (idempotencyCache s) k = Some r"
    and ops: "ops s' = fmupd i op' (ops s)"
    and op': "oLead op' = Some (nextCall s)" "op_key op' = key" "oReq op' = oReq op" "leading (oPos op')"
  shows "lead_inv s'"
proof (rule lead_invI)
  note fresh = lead_fresh [OF inv]
  have g: "grows s s'" using fresh(1) by (auto simp: grows_def new)
  have ne: "c \<noteq> nextCall s" if "fmlookup (callobjs s) c = Some co" for c co using that fresh(1) by auto
  have keep: "fmlookup (ops s') j = Some a" if "fmlookup (ops s) j = Some a" "oLead a = Some c" for j a c
    using that old by (auto simp: ops)
  show "op_ok s' a" if a: "fmlookup (ops s') j = Some a" for j a
  proof (cases "j = i")
    case True
    then show ?thesis using a op' key(2) by (simp add: ops op_ok_def lead_ok_def new)
  next
    case False
    then have "op_ok s a" using a lead_ops [OF inv] by (simp add: ops)
    then show ?thesis
      using grows_free [OF g] ne key(3) by (auto simp: op_ok_def lead_ok_def new split: option.splits)
  qed
  show "j = k" if "fmlookup (ops s') j = Some a" "fmlookup (ops s') k = Some b" "oLead a = Some c" "oLead b = Some c" for j k a b c
    using that op'(1) fresh(2) lead_unique [OF inv] by (auto simp: ops split: if_splits)
  show "\<exists>j a. fmlookup (ops s') j = Some a \<and> oLead a = Some c \<and> leading (oPos a) \<and> op_key a = k"
    if "fmlookup (idempotencyCalls s') k = Some c" for k c
  proof (cases "k = key")
    case True
    then show ?thesis using that op' by (intro exI [of _ i] exI [of _ op']) (simp add: ops new)
  next
    case False
    then have "fmlookup (idempotencyCalls s) k = Some c" using that by (simp add: new)
    from lead_calls [OF inv this] show ?thesis using keep by blast
  qed
  show "c < nextCall s' \<and> (\<exists>j a. fmlookup (ops s') j = Some a \<and> oLead a = Some c)" if "fmlookup (callobjs s') c = Some co" for c co
  proof (cases "c = nextCall s")
    case True
    then show ?thesis using op'(1) by (auto simp: new ops intro: exI [of _ i])
  next
    case False
    then have "fmlookup (callobjs s) c = Some co" using that by (simp add: new)
    then show ?thesis using lead_objs [OF inv] keep by (fastforce simp: new)
  qed
  show "IdempotencyKey (icReq r) = k \<and> (\<exists>c. settled_by s' c (icReq r) (icResp r))"
    if "fmlookup (idempotencyCache s') k = Some r" for k r
    using lead_cache [OF inv cache [OF that]] grows_settled [OF g] by blast
  show "fmlookup (idempotencyCache s') k = None" if "fmlookup (idempotencyCalls s') k = Some c" for k c
    using lead_disjoint [OF inv, of k c] that cache key(4)
    by (cases "k = key"; cases "fmlookup (idempotencyCache s') k") (auto simp: new)
qed

lemma lead_inv_publish:
  assumes inv: "lead_inv s" and old: "fmlookup (ops s) i = Some op" "oLead op = Some c" "leading (oPos op)"
    and obj: "fmlookup (callobjs s) c = Some co"
    and new: "callobjs s' = fmupd c (co\<lparr>coDone := True, coResp := r, coErr := e\<rparr>) (callobjs s)"
      "idempotencyCalls s' = fmdrop (op_key op) (idempotencyCalls s)" "nextCall s' = nextCall s"
    and cache: "\<And>k x. fmlookup (idempotencyCache s') k = Some x \<Longrightarrow> fmlookup (idempotencyCache s) k = Some x \<or>
      e = None \<and> k = op_key op \<and> icReq x = coReq co \<and> icResp x = r"
    and ops: "ops s' = fmupd i (op_at (OLeave r e) op) (ops s)"
  shows "lead_inv s'"
proof (rule lead_invI)
  have ok: "op_key op \<noteq> []" "coReq co = oReq op" "\<not> coDone co" "fmlookup (idempotencyCalls s) (op_key op) = Some c"
    using lead_ops [OF inv old(1)] old(2,3) obj by (auto simp: op_ok_def lead_ok_def)
  have g: "grows s s'" using obj ok(3) by (auto simp: grows_def new)
  have ne: "d \<noteq> c" if "fmlookup (ops s) j = Some a" "oLead a = Some d" "j \<noteq> i" for j a d
    using lead_unique [OF inv that(1) old(1) that(2)] old(2) that(3) by blast
  have settled: "settled_by s' c (coReq co) r" if "e = None" using that by (simp add: settled_by_def new)
  have key: "IdempotencyKey (coReq co) = op_key op" using ok(1) unfolding ok(2) by (cases "oKind op") (simp_all add: op_key_def)
  show "op_ok s' a" if a: "fmlookup (ops s') j = Some a" for j a
  proof (cases "j = i")
    case True
    then show ?thesis using a ok(1,2) old(2) by (auto simp: ops op_ok_def lead_ok_def new)
  next
    case False
    then have j: "fmlookup (ops s) j = Some a" using a by (simp add: ops)
    then show ?thesis
      using lead_ops [OF inv j] grows_free [OF g] ne [OF j _ False] ok(4)
      by (auto simp: op_ok_def lead_ok_def new split: option.splits)
  qed
  show "j = k" if "fmlookup (ops s') j = Some a" "fmlookup (ops s') k = Some b" "oLead a = Some d" "oLead b = Some d" for j k a b d
  proof -
    have "\<exists>a. fmlookup (ops s) j = Some a \<and> oLead a = Some d" if "fmlookup (ops s') j = Some a" "oLead a = Some d" for j a
      using that old by (cases "j = i") (auto simp: ops)
    then show ?thesis using that lead_unique [OF inv] by blast
  qed
  show "\<exists>j a. fmlookup (ops s') j = Some a \<and> oLead a = Some d \<and> leading (oPos a) \<and> op_key a = k"
    if "fmlookup (idempotencyCalls s') k = Some d" for k d
  proof -
    have k: "k \<noteq> op_key op" "fmlookup (idempotencyCalls s) k = Some d" using that by (auto simp: new split: if_splits)
    from lead_calls [OF inv k(2)] obtain j a where a: "fmlookup (ops s) j = Some a" "oLead a = Some d" "leading (oPos a)" "op_key a = k"
      by blast
    then show ?thesis using k(1) old(1) by (intro exI [of _ j] exI [of _ a]) (auto simp: ops)
  qed
  show "d < nextCall s' \<and> (\<exists>j a. fmlookup (ops s') j = Some a \<and> oLead a = Some d)" if "fmlookup (callobjs s') d = Some x" for d x
  proof -
    have "\<exists>y. fmlookup (callobjs s) d = Some y" using that obj by (auto simp: new split: if_splits)
    then obtain j a where "d < nextCall s" "fmlookup (ops s) j = Some a" "oLead a = Some d" using lead_objs [OF inv] by blast
    then show ?thesis using old by (cases "j = i") (auto simp: ops new intro: exI [of _ j])
  qed
  show "IdempotencyKey (icReq x) = k \<and> (\<exists>c. settled_by s' c (icReq x) (icResp x))"
    if "fmlookup (idempotencyCache s') k = Some x" for k x
    using cache [OF that] lead_cache [OF inv, of k x] grows_settled [OF g] settled key by metis
  show "fmlookup (idempotencyCache s') k = None" if "fmlookup (idempotencyCalls s') k = Some d" for k d
    using lead_disjoint [OF inv, of k d] that cache [of k]
    by (cases "fmlookup (idempotencyCache s') k") (auto simp: new split: if_splits)
qed

subsection \<open>Every step keeps the invariant\<close>

lemma key_op_inv:
  assumes inv: "lead_inv s" and op: "fmlookup (ops s) i = Some op" "oPos op = OKey" and k: "key_op op s = (op', s')"
  shows "lead_inv (s'\<lparr>ops := fmupd i op' (ops s)\<rparr>)"
proof -
  let ?key = "IdempotencyKey (oReq op)"
  let ?cache = "expireIdempotencyResults (sclock s) (idempotencyCache s)"
  have free: "oLead op = None" "oKind op = OpDelegate"
    using lead_ops [OF inv op(1)] op(2) by (auto simp: op_ok_def lead_ok_def free_ok_def split: option.splits)
  then have kk: "op_key op = ?key" by (simp add: op_key_def)
  have mv: "lead_inv t" if "callobjs t = callobjs s" "idempotencyCalls t = idempotencyCalls s" "nextCall t = nextCall s"
    "ops t = fmupd i b (ops s)" "idempotencyCache t = ?cache \<or> idempotencyCache t = idempotencyCache s"
    "oLead b = None" "op_key b = op_key op" "op_ok s b" for b t
  proof (rule lead_inv_move [OF inv that(1-3) _ that(4) _ _ that(7,8)])
    show "fmlookup (idempotencyCache s) k = Some x" if "fmlookup (idempotencyCache t) k = Some x" for k x
      using that \<open>idempotencyCache t = ?cache \<or> idempotencyCache t = idempotencyCache s\<close> expire_sub by metis
  qed (use that(6) free(1) op(1) in simp_all)
  show ?thesis
  proof (cases "?key = []")
    case True
    then show ?thesis using k free kk
      by (auto simp: key_op_def op_ok_def free_ok_def intro!: mv)
  next
    case ne: False
    show ?thesis
    proof (cases "fmlookup ?cache ?key")
      case (Some x)
      have "sameRequest (icReq x) (oReq op) \<Longrightarrow> answered s (oReq op) (icResp x)"
        using lead_cache [OF inv] expire_sub [OF Some] unfolding answered_def by blast
      then show ?thesis using k ne Some free kk
        by (auto simp: key_op_def Let_def op_ok_def free_ok_def fails_def intro!: mv split: if_splits)
    next
      case nc: None
      show ?thesis
      proof (cases "fmlookup (idempotencyCalls s) ?key")
        case (Some c)
        obtain j a where "fmlookup (ops s) j = Some a" "oLead a = Some c" using lead_calls [OF inv Some] by blast
        from lead_ops [OF inv this(1)] this(2) obtain co where "fmlookup (callobjs s) c = Some co"
          by (auto simp: op_ok_def lead_ok_def)
        then show ?thesis using k ne nc Some free kk
          by (auto simp: key_op_def Let_def op_ok_def free_ok_def fails_def call_of_def intro!: mv split: if_splits)
      next
        case None
        with k ne nc have eqs: "op' = op_at OLookup (op\<lparr>oLead := Some (nextCall s)\<rparr>)"
          "callobjs s' = fmupd (nextCall s) \<lparr>coReq = oReq op, coDone = False, coResp = noResponse, coErr = None\<rparr> (callobjs s)"
          "idempotencyCalls s' = fmupd ?key (nextCall s) (idempotencyCalls s)" "nextCall s' = Suc (nextCall s)"
          "idempotencyCache s' = ?cache"
          by (auto simp: key_op_def Let_def)
        have "op_key (op\<lparr>oLead := Some (nextCall s)\<rparr>) = ?key" using free(2) by (simp add: op_key_def)
        then show ?thesis
          using eqs nc by (intro lead_inv_new [OF inv op(1) free(1) kk ne None, where op' = op']) (auto dest: expire_sub)
      qed
    qed
  qed
qed

lemma publish_op_inv:
  assumes inv: "lead_inv s" and op: "fmlookup (ops s) i = Some op" "publishing op" and st: "op_step cfg a op s = Some (op', s')"
  shows "lead_inv (s'\<lparr>ops := fmupd i op' (ops s)\<rparr>)"
proof -
  obtain r e c where pos: "oPos op = OReturn r e" "oLead op = Some c"
    using op(2) by (auto simp: publishing_def split: opos.splits)
  then have l: "leading (oPos op)" by simp
  obtain co where ok: "op_key op \<noteq> []" "fmlookup (callobjs s) c = Some co"
    using lead_ops [OF inv op(1)] pos by (auto simp: op_ok_def lead_ok_def)
  have kk: "IdempotencyKey (oReq op) = op_key op" using ok(1) by (cases "oKind op") (simp_all add: op_key_def)
  have eqs: "op' = op_at (OLeave r e) op" "callobjs s' = fmupd c (co\<lparr>coDone := True, coResp := r, coErr := e\<rparr>) (callobjs s)"
    "idempotencyCalls s' = fmdrop (op_key op) (idempotencyCalls s)" "nextCall s' = nextCall s"
    using st by (auto simp: op_step_def pos publish_op_def Let_def call_of_def ok kk split: if_splits)
  have cache: "fmlookup (idempotencyCache s) k = Some x \<or> e = None \<and> k = op_key op \<and> icReq x = coReq co \<and> icResp x = r"
    if "fmlookup (idempotencyCache s') k = Some x" for k x
    using st that
    by (auto simp: op_step_def pos publish_op_def Let_def call_of_def ok kk cacheIdempotencyResult_def split: if_splits)
  show ?thesis
    by (rule lead_inv_publish [OF inv op(1) pos(2) l ok(2)]) (use eqs cache in auto)
qed

lemma op_inv:
  assumes inv: "lead_inv s" and op: "fmlookup (ops s) i = Some op" and st: "op_step cfg a op s = Some (op', s')"
  shows "lead_inv (s'\<lparr>ops := fmupd i op' (ops s)\<rparr>)"
proof (cases "oPos op = OKey")
  case True
  then show ?thesis using key_op_inv [OF inv op] st by (auto simp: op_step_def)
next
  case nk: False
  show ?thesis
  proof (cases "publishing op")
    case True
    then show ?thesis using publish_op_inv [OF inv op _ st] by blast
  next
    case np: False
    note q = op_step_quiet_fields [OF st nk np] and f = op_step_frame [OF st]
    have "op_ok s op' \<and> (oLead op \<noteq> None \<longrightarrow> leading (oPos op) \<longrightarrow> leading (oPos op'))"
      using lead_ops [OF inv op] op_step_lead [OF st _ _ np] op_step_free [OF st _ _ nk] q
      by (cases "oLead op") (auto simp: op_ok_def)
    then show ?thesis
      by (intro lead_inv_move [OF inv, of _ i op' op]) (use q f op op_key_eq [of op' op] in simp_all)
  qed
qed

lemma lead_inv_step:
  assumes "lead_inv s" "svc_step cfg s s'"
  shows "lead_inv s'"
  using assms(2)
proof cases
  case (svc_call i op)
  then show ?thesis
    by (auto intro!: lead_inv_move [OF assms(1), of _ i op op] simp: op_ok_def free_ok_def)
next
  case (svc_op i op a op' t)
  then show ?thesis using op_inv [OF assms(1)] by blast
next
  case (svc_worker i w a w' t)
  then show ?thesis using worker_step_frame [OF svc_worker(3)] by (auto intro: lead_inv_frame [OF assms(1)])
next
  case svc_start
  then show ?thesis by (auto simp: Start_def intro!: lead_inv_frame [OF assms(1)])
next
  case (svc_janitor t)
  then show ?thesis by (auto intro!: lead_inv_frame [OF assms(1)] dest: expire_sub)
next
  case svc_close
  then show ?thesis by (auto simp: close_step_def intro!: lead_inv_frame [OF assms(1)] split: clpos.splits if_splits)
qed (auto intro!: lead_inv_frame [OF assms(1)])

interpretation keys: invariant_system svc_init "svc_step cfg" lead_inv for cfg
proof unfold_locales
  show "lead_inv s" if "svc_init s" for s
    using that by (auto simp: svc_init_def NewService_def lead_inv_def)
  show "lead_inv t" if "lead_inv s" "svc_step cfg s t" for s t
    by (rule lead_inv_step [OF that])
qed

end
