(* ===== verification/Delegation_Close.thy ===== *)
theory Delegation_Close
  imports Delegation_Safety
begin

text \<open>
  Counting and closing. The slot semaphore holds one token for every run that took one and never more than the
  configured bound, the wait group \<open>active\<close> counts the admitted calls (\<open>count_inv\<close>), and \<open>Close\<close> passes its stages in
  order: once it has returned, no call, worker or sweeper is left and the escrow is gone, and before that nobody can
  write to a nil escrow map (\<open>close_inv\<close>).
\<close>

subsection \<open>Counting\<close>

fun active :: "opos \<Rightarrow> bool" where
  "active OBegin \<longleftrightarrow> False"
| "active (ODone r e) \<longleftrightarrow> False"
| "active _ \<longleftrightarrow> True"

definition holding :: "delegation_op \<Rightarrow> bool" where
  "holding op \<longleftrightarrow> oPos op = OExec True"

definition working :: "wpos \<Rightarrow> bool" where
  "working w \<longleftrightarrow> (case w of WExec work \<Rightarrow> True | _ \<Rightarrow> False)"

definition op_admitted :: "delegation_op \<Rightarrow> bool" where
  "op_admitted op \<longleftrightarrow> active (oPos op)"

definition count_inv :: "svccfg \<Rightarrow> svc \<Rightarrow> bool" where
  "count_inv cfg s \<longleftrightarrow> slotsUsed s = fm_count holding (ops s) + fm_count working (workers s) \<and>
     slotsUsed s \<le> cfMaxConcurrency cfg \<and> activeN s = fm_count op_admitted (ops s) \<and>
     (\<not> workersStarted s \<longrightarrow> workers s = fmempty)"

lemma op_step_slots:
  assumes "op_step cfg a op s = Some (op', s')" "holding op \<Longrightarrow> 0 < slotsUsed s"
  shows "slotsUsed s' + (if holding op then 1 else 0) = slotsUsed s + (if holding op' then 1 else 0) \<and>
    (slotsUsed s \<le> cfMaxConcurrency cfg \<longrightarrow> slotsUsed s' \<le> cfMaxConcurrency cfg)"
  using assms
  by (cases "oPos op")
    (auto simp: op_step_def holding_def op_defs first_pos_def Let_def
      split: option.splits if_splits prod.splits sum.splits opans.splits Mode.splits opkind.splits)

lemma op_step_active:
  assumes "op_step cfg a op s = Some (op', s')" "op_admitted op \<Longrightarrow> 0 < activeN s"
  shows "activeN s' + (if op_admitted op then 1 else 0) = activeN s + (if op_admitted op' then 1 else 0)"
  using assms
  by (cases "oPos op")
    (auto simp: op_step_def op_admitted_def op_defs first_pos_def Let_def
      split: option.splits if_splits prod.splits sum.splits opans.splits Mode.splits opkind.splits)

lemma worker_step_slots:
  assumes "worker_step cfg a w s = Some (w', s')" "working w \<Longrightarrow> 0 < slotsUsed s"
  shows "slotsUsed s' + (if working w then 1 else 0) = slotsUsed s + (if working w' then 1 else 0) \<and>
    (slotsUsed s \<le> cfMaxConcurrency cfg \<longrightarrow> slotsUsed s' \<le> cfMaxConcurrency cfg)"
  using assms
  by (cases w)
    (auto simp: worker_step_def working_def admit_work_def recordWorkerError_def
      split: option.splits if_splits prod.splits sum.splits wans.splits)

lemma count_inv_op:
  assumes inv: "count_inv cfg s" and op: "fmlookup (ops s) i = Some op" and st: "op_step cfg a op s = Some (op', s')"
  shows "count_inv cfg (s'\<lparr>ops := fmupd i op' (ops s)\<rparr>)"
proof -
  have "0 < slotsUsed s" if "holding op" using inv that fm_count_pos [OF op, of holding] by (simp add: count_inv_def)
  moreover have "0 < activeN s" if "op_admitted op" using inv that fm_count_pos [OF op, of op_admitted] by (simp add: count_inv_def)
  ultimately show ?thesis
    using inv op_step_frame [OF st] op_step_slots [OF st] op_step_active [OF st] fm_count_upd [OF op, of holding op']
      fm_count_upd [OF op, of op_admitted op']
    by (auto simp: count_inv_def)
qed

lemma count_inv_worker:
  assumes inv: "count_inv cfg s" and w: "fmlookup (workers s) i = Some w" and st: "worker_step cfg a w s = Some (w', s')"
  shows "count_inv cfg (s'\<lparr>workers := fmupd i w' (workers s)\<rparr>)"
proof -
  have "0 < slotsUsed s" if "working w" using inv that fm_count_pos [OF w, of working] by (simp add: count_inv_def)
  moreover have "workersStarted s" using inv w by (auto simp: count_inv_def)
  ultimately show ?thesis
    using inv worker_step_frame [OF st] worker_step_slots [OF st] fm_count_upd [OF w, of working w']
    by (auto simp: count_inv_def)
qed

lemma count_inv_frame:
  "count_inv cfg s \<Longrightarrow> slotsUsed t = slotsUsed s \<Longrightarrow> ops t = ops s \<Longrightarrow> workers t = workers s \<Longrightarrow> activeN t = activeN s \<Longrightarrow>
    workersStarted t = workersStarted s \<Longrightarrow> count_inv cfg t"
  by (simp add: count_inv_def)

lemma start_no_work: "fm_count working (fmap_of_list (map (\<lambda>i. (i, WClaim 0)) xs)) = 0"
  by (auto simp: fm_count_zero fmlookup_of_list working_def dest!: map_of_SomeD)

lemma count_inv_step:
  assumes "count_inv cfg s" "svc_step cfg s s'"
  shows "count_inv cfg s'"
  using assms(2)
proof cases
  case (svc_call i op)
  then show ?thesis using assms(1) by (simp add: count_inv_def fm_count_new holding_def op_admitted_def)
next
  case (svc_op i op a op' t)
  then show ?thesis using count_inv_op [OF assms(1)] by blast
next
  case (svc_worker i w a w' t)
  then show ?thesis using count_inv_worker [OF assms(1)] by blast
next
  case svc_start
  then show ?thesis using assms(1) start_no_work by (auto simp: Start_def count_inv_def)
next
  case svc_close
  then show ?thesis using assms(1) by (auto simp: close_step_def count_inv_def split: clpos.splits if_splits)
qed (auto intro: count_inv_frame [OF assms(1)])

subsection \<open>Closing\<close>

definition close_inv :: "svc \<Rightarrow> bool" where
  "close_inv s \<longleftrightarrow>
     (closePos s \<noteq> CIdle \<longrightarrow> sclosed s) \<and>
     (closePos s \<in> {CWorkers, CActive, CClosed} \<longrightarrow> workerCanceled s) \<and>
     (closePos s \<in> {CActive, CClosed} \<longrightarrow> all_stopped s) \<and>
     (streamEscrow s = None \<longleftrightarrow> closePos s = CClosed) \<and>
     (closePos s = CClosed \<longrightarrow> activeN s = 0) \<and> \<not> panicked s"

lemma op_step_panic:
  assumes "op_step cfg a op s = Some (op', s')" "op_admitted op \<Longrightarrow> streamEscrow s \<noteq> None"
  shows "panicked s' = panicked s"
  using assms
  by (cases "oPos op")
    (auto simp: op_step_def op_admitted_def op_defs Let_def
      split: option.splits if_splits prod.splits sum.splits opans.splits Mode.splits)

lemma op_step_refused:
  assumes "op_step cfg a op s = Some (op', s')" "sclosed s" "\<not> op_admitted op"
  shows "\<not> op_admitted op'" "activeN s' = activeN s" "\<exists>e. oPos op' = ODone noResponse (Some e)"
  using assms
  by (cases "oPos op"; auto simp: op_step_def op_admitted_def begin_op_def split: option.splits if_splits)+

lemma all_stopped_frame:
  "all_stopped s \<Longrightarrow> workers t = workers s \<Longrightarrow> (janitorUp t \<longrightarrow> janitorUp s) \<Longrightarrow> (sweeperUp t \<longrightarrow> sweeperUp s) \<Longrightarrow> all_stopped t"
  by (auto simp: all_stopped_def)

lemma close_inv_op:
  assumes inv: "close_inv s" and cnt: "count_inv cfg s" and op: "fmlookup (ops s) i = Some op"
    and st: "op_step cfg a op s = Some (op', s')"
  shows "close_inv (s'\<lparr>ops := fmupd i op' (ops s)\<rparr>)"
proof -
  note f = op_step_frame [OF st]
  have act: "closePos s \<noteq> CClosed" if "op_admitted op"
    using inv cnt that fm_count_pos [OF op, of op_admitted] by (auto simp: close_inv_def count_inv_def)
  then have "panicked s' = panicked s" using op_step_panic [OF st] inv by (auto simp: close_inv_def)
  moreover have "activeN s' = 0" if "closePos s = CClosed"
    using that act op_step_refused(2) [OF st] inv by (auto simp: close_inv_def)
  ultimately show ?thesis using inv f by (auto simp: close_inv_def all_stopped_def)
qed

lemma close_inv_worker:
  assumes inv: "close_inv s" and w: "fmlookup (workers s) i = Some w" and st: "worker_step cfg a w s = Some (w', s')"
  shows "close_inv (s'\<lparr>workers := fmupd i w' (workers s)\<rparr>)"
proof -
  have "w \<noteq> WStopped" using st by (auto simp: worker_step_def)
  then have "\<not> all_stopped s" using w by (auto simp: all_stopped_def fmpred_iff)
  then show ?thesis using inv worker_step_frame [OF st] by (auto simp: close_inv_def)
qed

lemma close_inv_frame:
  assumes "close_inv s" "closePos t = closePos s" "sclosed t = sclosed s" "workerCanceled t = workerCanceled s"
    "streamEscrow t = None \<longleftrightarrow> streamEscrow s = None" "activeN t = activeN s" "panicked t = panicked s"
    "all_stopped s \<Longrightarrow> all_stopped t"
  shows "close_inv t"
  using assms by (auto simp: close_inv_def)

lemma close_inv_close: "close_inv s \<Longrightarrow> close_step s = Some t \<Longrightarrow> close_inv t"
  by (cases "closePos s") (auto simp: close_step_def close_inv_def all_stopped_def split: if_splits)

lemma close_inv_step:
  assumes "close_inv s" "count_inv cfg s" "svc_step cfg s s'"
  shows "close_inv s'"
  using assms(3)
proof cases
  case (svc_op i op a op' t)
  then show ?thesis using close_inv_op [OF assms(1,2)] by blast
next
  case (svc_worker i w a w' t)
  then show ?thesis using close_inv_worker [OF assms(1)] by blast
next
  case svc_start
  then show ?thesis using assms(1) by (auto simp: Start_def close_inv_def)
next
  case svc_close
  then show ?thesis using close_inv_close [OF assms(1)] by blast
qed (auto intro!: close_inv_frame [OF assms(1)] intro: all_stopped_frame)

text \<open>Only a call made inside a run that holds a slot executes without one of its own.\<close>

definition lease_inv :: "svc \<Rightarrow> bool" where
  "lease_inv s \<longleftrightarrow> (\<forall>i op. fmlookup (ops s) i = Some op \<longrightarrow> oPos op = OExec False \<longrightarrow> reuse_slot op)"

lemma reuse_slot_cong: "oKind a = oKind b \<Longrightarrow> oCtx a = oCtx b \<Longrightarrow> reuse_slot a = reuse_slot b"
  by (simp add: reuse_slot_def split: opkind.split)

lemma op_step_lease:
  assumes "op_step cfg a op s = Some (op', s')" "oPos op' = OExec False"
  shows "reuse_slot op"
  using assms
  by (cases "oPos op")
    (auto simp: op_step_def op_defs first_pos_def Let_def
      split: option.splits if_splits prod.splits sum.splits opans.splits Mode.splits opkind.splits)

lemma lease_inv_step:
  assumes "lease_inv s" "svc_step cfg s s'"
  shows "lease_inv s'"
  using assms(2)
proof cases
  case (svc_op i op a op' t)
  then show ?thesis
    using assms(1) op_step_lease [OF svc_op(3)] op_step_frame [OF svc_op(3)] reuse_slot_cong [of op' op] by (auto simp: lease_inv_def)
next
  case (svc_worker i w a w' t)
  then show ?thesis using assms(1) worker_step_frame [OF svc_worker(3)] by (simp add: lease_inv_def)
next
  case svc_start
  then show ?thesis using assms(1) by (simp add: Start_def lease_inv_def)
next
  case svc_close
  then show ?thesis using assms(1) by (auto simp: close_step_def lease_inv_def split: clpos.splits if_splits)
qed (use assms(1) in \<open>auto simp: lease_inv_def\<close>)

definition safe_inv :: "svccfg \<Rightarrow> svc \<Rightarrow> bool" where
  "safe_inv cfg s \<longleftrightarrow> count_inv cfg s \<and> close_inv s \<and> lease_inv s"

interpretation safety: invariant_system svc_init "svc_step cfg" "safe_inv cfg" for cfg
proof unfold_locales
  show "safe_inv cfg s" if "svc_init s" for s
    using that by (auto simp: svc_init_def NewService_def safe_inv_def count_inv_def close_inv_def lease_inv_def)
  show "safe_inv cfg t" if "safe_inv cfg s" "svc_step cfg s t" for s t
    using that count_inv_step close_inv_step lease_inv_step unfolding safe_inv_def by blast
qed

end
