(* ===== verification/Delegation_Live.thy ===== *)
theory Delegation_Live
  imports Delegation_Keys Delegation_Close
begin

text \<open>
  Liveness of the delegation service: a call takes a bounded number of steps of its own, an unfinished call always leaves
  somebody able to go on, and \<open>Close\<close> can always be brought to its end.
\<close>

subsection \<open>Progress of calls\<close>

text \<open>How many steps of its own a call has left at most.\<close>

fun steps_left :: "opos \<Rightarrow> nat" where
  "steps_left OBegin = 9"
| "steps_left OKey = 8"
| "steps_left OStatus = 8"
| "steps_left OLookup = 7"
| "steps_left (OSubmit req esc) = 6"
| "steps_left (ORearm ref specs i) = 5"
| "steps_left OAdmit = 6"
| "steps_left OSlot = 5"
| "steps_left (OExec h) = 4"
| "steps_left (OWait c) = 4"
| "steps_left (OReturn r e) = 3"
| "steps_left (OLeave r e) = 2"
| "steps_left (ODone r e) = 1"

lemma op_step_left: "op_step cfg a op s = Some (op', s') \<Longrightarrow> steps_left (oPos op') < steps_left (oPos op)"
  by (cases "oPos op")
    (auto simp: op_step_def op_defs first_pos_def Let_def
      split: option.splits if_splits prod.splits sum.splits opans.splits Mode.splits opkind.splits)

lemma working_iff: "working w \<longleftrightarrow> (\<exists>work. w = WExec work)"
  by (cases w) (simp_all add: working_def)

definition moves :: "svccfg \<Rightarrow> svc \<Rightarrow> delegation_op \<Rightarrow> bool" where
  "moves cfg s op \<longleftrightarrow> (\<exists>a. (\<forall>e x. a \<noteq> ACancel e x) \<and> op_step cfg a op s \<noteq> None)"

lemma moves_own:
  assumes "\<And>c. oPos op \<noteq> OWait c" "oPos op \<noteq> OSlot" "\<And>r e. oPos op \<noteq> ODone r e"
  shows "moves cfg s op"
proof -
  have "op_step cfg ANone op s \<noteq> None \<or> op_step cfg (ALookup None []) op s \<noteq> None \<or> op_step cfg (ASubmit (Inr [])) op s \<noteq> None \<or>
    op_step cfg (AStatus (Inr noResponse)) op s \<noteq> None \<or> op_step cfg (ARun undefined) op s \<noteq> None"
    using assms by (cases "oPos op") (auto simp: op_step_def)
  then show ?thesis unfolding moves_def by blast
qed

lemma full_slots_held:
  assumes "count_inv cfg s" "0 < cfMaxConcurrency cfg" "\<not> slotsUsed s < cfMaxConcurrency cfg"
  shows "(\<exists>i op. fmlookup (ops s) i = Some op \<and> holding op) \<or> (\<exists>i work. fmlookup (workers s) i = Some (WExec work))"
proof -
  have "fm_count holding (ops s) \<noteq> 0 \<or> fm_count working (workers s) \<noteq> 0" using assms by (auto simp: count_inv_def)
  then show ?thesis unfolding fm_count_zero working_iff by blast
qed

text \<open>Some call can go on, or a worker's run is under way.\<close>

definition progress :: "svccfg \<Rightarrow> svc \<Rightarrow> bool" where
  "progress cfg s \<longleftrightarrow> (\<exists>j b. fmlookup (ops s) j = Some b \<and> moves cfg s b) \<or> (\<exists>j work. fmlookup (workers s) j = Some (WExec work))"

lemma progress_leader:
  assumes inv: "safe_inv cfg s" "0 < cfMaxConcurrency cfg"
    and op: "fmlookup (ops s) i = Some op" "\<And>c. oPos op \<noteq> OWait c" "\<And>r e. oPos op \<noteq> ODone r e"
  shows "progress cfg s"
proof (cases "oPos op = OSlot")
  case False
  then show ?thesis using op moves_own unfolding progress_def by blast
next
  case slot: True
  show ?thesis
  proof (cases "slotsUsed s < cfMaxConcurrency cfg")
    case True
    then have "moves cfg s op" unfolding moves_def using slot by (intro exI [of _ ANone]) (simp add: op_step_def)
    then show ?thesis using op(1) unfolding progress_def by blast
  next
    case False
    have "moves cfg s b" if "holding b" for b using that by (intro moves_own) (auto simp: holding_def)
    then show ?thesis using full_slots_held [OF _ inv(2) False] inv(1) unfolding progress_def safe_inv_def by blast
  qed
qed

lemma progress_call:
  assumes inv: "safe_inv cfg s" "lead_inv s" "0 < cfMaxConcurrency cfg"
    and op: "fmlookup (ops s) i = Some op" "\<And>r e. oPos op \<noteq> ODone r e"
  shows "progress cfg s"
proof (cases "\<exists>c. oPos op = OWait c")
  case False
  then show ?thesis using progress_leader [OF inv(1,3) op(1)] op(2) by blast
next
  case True
  then obtain c where c: "oPos op = OWait c" by blast
  then obtain co where co: "fmlookup (callobjs s) c = Some co"
    using lead_ops [OF inv(2) op(1)] by (auto simp: op_ok_def free_ok_def lead_ok_def split: option.splits)
  show ?thesis
  proof (cases "coDone co")
    case True
    then have "moves cfg s op" unfolding moves_def using c co by (intro exI [of _ ANone]) (simp add: op_step_def call_of_def)
    then show ?thesis using op(1) unfolding progress_def by blast
  next
    case False
    obtain j l where l: "fmlookup (ops s) j = Some l" "oLead l = Some c" using lead_objs [OF inv(2) co] by blast
    then have "leading (oPos l)" using lead_ops [OF inv(2) l(1)] co False by (auto simp: op_ok_def lead_ok_def split: if_splits)
    then show ?thesis by (intro progress_leader [OF inv(1,3) l(1)]) auto
  qed
qed

subsection \<open>Close completes\<close>

fun worker_left :: "wpos \<Rightarrow> nat" where
  "worker_left (WClaim f) = 1"
| "worker_left (WPause f) = 1"
| "worker_left (WAdmit work) = 7"
| "worker_left (WSlot work) = 6"
| "worker_left (WExec work) = 6"
| "worker_left (WSettle work r e) = 5"
| "worker_left (WComplete work r errs) = 4"
| "worker_left (WBackoff work r errs) = 4"
| "worker_left (WRelease work e) = 3"
| "worker_left (WRecord e) = 2"
| "worker_left WHalt = 1"
| "worker_left WStopped = 0"

lemma worker_can_stop:
  assumes "workerCanceled s" "w \<noteq> WStopped"
  shows "\<exists>a w' s'. worker_step cfg a w s = Some (w', s') \<and> worker_left w' < worker_left w"
proof (cases w)
  case (WClaim f)
  then show ?thesis using assms by (intro exI [of _ "KClaim (Inl Canceled)"]) (simp add: worker_step_def)
next
  case (WPause f)
  then show ?thesis using assms by (intro exI [of _ KStop]) (simp add: worker_step_def)
next
  case (WAdmit work)
  then show ?thesis
    by (intro exI [of _ "KRun undefined"]) (auto simp: worker_step_def admit_work_def split: option.split)
next
  case (WSlot work)
  then show ?thesis by (intro exI [of _ "KCancel Canceled []"]) (simp add: worker_step_def)
next
  case (WExec work)
  then show ?thesis by (intro exI [of _ "KRun undefined"]) (auto simp: worker_step_def split: prod.split)
next
  case (WSettle work r e)
  then show ?thesis by (intro exI [of _ "KCtx None"]) (simp add: worker_step_def)
next
  case (WComplete work r errs)
  then show ?thesis by (intro exI [of _ "KComplete None"]) (simp add: worker_step_def)
next
  case (WBackoff work r errs)
  then show ?thesis using assms by (intro exI [of _ KStop]) (simp add: worker_step_def)
next
  case (WRelease work e)
  then show ?thesis by (intro exI [of _ KNone]) (auto simp: worker_step_def split: option.split)
qed (use assms in \<open>auto simp: worker_step_def\<close>)

text \<open>What stays while the workers run to their end.\<close>

definition same_calls :: "svc \<Rightarrow> svc \<Rightarrow> bool" where
  "same_calls s t \<longleftrightarrow> ops t = ops s \<and> workerCanceled t \<and> closePos t = closePos s"

lemma worker_stops:
  assumes "workerCanceled s" "fmlookup (workers s) i = Some w"
  shows "\<exists>t. (svc_step cfg)\<^sup>*\<^sup>* s t \<and> same_calls s t \<and> workers t = fmupd i WStopped (workers s)"
  using assms
proof (induction "worker_left w" arbitrary: s w rule: less_induct)
  case less
  show ?case
  proof (cases "w = WStopped")
    case True
    then have "fmupd i WStopped (workers s) = workers s" using less.prems(2) by (intro fmap_ext) auto
    then show ?thesis using less.prems(1) by (intro exI [of _ s]) (simp add: same_calls_def)
  next
    case False
    from worker_can_stop [OF less.prems(1) this] obtain a w' s' where
      st: "worker_step cfg a w s = Some (w', s')" and lt: "worker_left w' < worker_left w" by blast
    let ?u = "s'\<lparr>workers := fmupd i w' (workers s)\<rparr>"
    note f = worker_step_frame [OF st]
    have step: "svc_step cfg s ?u" by (rule svc_worker [OF less.prems(2) st])
    have "\<exists>t. (svc_step cfg)\<^sup>*\<^sup>* ?u t \<and> same_calls ?u t \<and> workers t = fmupd i WStopped (workers ?u)"
      by (rule less.hyps [OF lt]) (use f less.prems in simp_all)
    then obtain t where "(svc_step cfg)\<^sup>*\<^sup>* ?u t" "same_calls ?u t" "workers t = fmupd i WStopped (workers ?u)" by blast
    then show ?thesis
      using converse_rtranclp_into_rtranclp [of "svc_step cfg", OF step] f by (intro exI [of _ t]) (auto simp: same_calls_def)
  qed
qed

lemma workers_stop:
  assumes "workerCanceled s"
  shows "\<exists>t. (svc_step cfg)\<^sup>*\<^sup>* s t \<and> same_calls s t \<and> (\<forall>i w. fmlookup (workers t) i = Some w \<longrightarrow> w = WStopped)"
  using assms
proof (induction "fm_count (\<lambda>w. w \<noteq> WStopped) (workers s)" arbitrary: s rule: less_induct)
  case less
  show ?case
  proof (cases "\<exists>i w. fmlookup (workers s) i = Some w \<and> w \<noteq> WStopped")
    case False
    then show ?thesis using less.prems by (intro exI [of _ s]) (auto simp: same_calls_def)
  next
    case True
    then obtain i w where w: "fmlookup (workers s) i = Some w" "w \<noteq> WStopped" by blast
    from worker_stops [OF less.prems w(1)] obtain t where
      t: "(svc_step cfg)\<^sup>*\<^sup>* s t" "same_calls s t" "workers t = fmupd i WStopped (workers s)" by blast
    have "fm_count (\<lambda>w. w \<noteq> WStopped) (workers t) < fm_count (\<lambda>w. w \<noteq> WStopped) (workers s)"
      using fm_count_upd [OF w(1), of "\<lambda>w. w \<noteq> WStopped" WStopped] w(2) by (simp add: t(3))
    from less.hyps [OF this] t(2) obtain u where "(svc_step cfg)\<^sup>*\<^sup>* t u" "same_calls t u"
      "\<forall>i w. fmlookup (workers u) i = Some w \<longrightarrow> w = WStopped" by (auto simp: same_calls_def)
    then show ?thesis using t(1,2) by (intro exI [of _ u]) (auto simp: same_calls_def)
  qed
qed

lemma all_stop:
  assumes "workerCanceled s"
  shows "\<exists>t. (svc_step cfg)\<^sup>*\<^sup>* s t \<and> same_calls s t \<and> all_stopped t"
proof -
  from workers_stop [OF assms] obtain t where
    t: "(svc_step cfg)\<^sup>*\<^sup>* s t" "same_calls s t" "\<forall>i w. fmlookup (workers t) i = Some w \<longrightarrow> w = WStopped" by blast
  let ?v = "t\<lparr>janitorUp := False\<rparr>\<lparr>sweeperUp := False\<rparr>"
  have "svc_step cfg t (t\<lparr>janitorUp := False\<rparr>)" using t(2) by (intro svc_janitor_stop) (simp add: same_calls_def)
  moreover have "svc_step cfg (t\<lparr>janitorUp := False\<rparr>) ?v" using t(2) by (intro svc_sweep_stop) (simp add: same_calls_def)
  ultimately have "(svc_step cfg)\<^sup>*\<^sup>* s ?v" using t(1) by (meson rtranclp.rtrancl_into_rtrancl)
  then show ?thesis using t(2,3) by (intro exI [of _ ?v]) (simp add: same_calls_def all_stopped_def fmpred_iff)
qed

definition calls_left :: "svc \<Rightarrow> nat" where
  "calls_left s = (\<Sum>i\<in>fset (fmdom (ops s)). steps_left (oPos (the (fmlookup (ops s) i))))"

lemma calls_left_step:
  assumes op: "fmlookup (ops s) i = Some op" and lt: "steps_left (oPos op') < steps_left (oPos op)" and t: "ops t = fmupd i op' (ops s)"
  shows "calls_left t < calls_left s"
proof -
  have i: "i \<in> fset (fmdom (ops s))" using op by (simp add: fmdomI)
  then have d: "fset (fmdom (ops t)) = fset (fmdom (ops s))" by (auto simp: t)
  have "(\<Sum>j\<in>fset (fmdom (ops s)) - {i}. steps_left (oPos (the (fmlookup (ops t) j)))) =
    (\<Sum>j\<in>fset (fmdom (ops s)) - {i}. steps_left (oPos (the (fmlookup (ops s) j))))"
    by (rule sum.cong) (auto simp: t)
  then show ?thesis
    using lt op unfolding calls_left_def d
    by (simp add: sum.remove [OF finite_fset i] t)
qed

lemma calls_finish:
  assumes "reach svc_init (svc_step cfg) s" "0 < cfMaxConcurrency cfg" "all_stopped s" "closePos s = CActive"
  shows "\<exists>t. (svc_step cfg)\<^sup>*\<^sup>* s t \<and> closePos t = CActive \<and> (\<forall>i op. fmlookup (ops t) i = Some op \<longrightarrow> (\<exists>r e. oPos op = ODone r e))"
  using assms
proof (induction "calls_left s" arbitrary: s rule: less_induct)
  case less
  show ?case
  proof (cases "\<exists>i op. fmlookup (ops s) i = Some op \<and> (\<forall>r e. oPos op \<noteq> ODone r e)")
    case False
    then show ?thesis using less.prems(4) by blast
  next
    case True
    then obtain i op where "fmlookup (ops s) i = Some op" "\<And>r e. oPos op \<noteq> ODone r e" by blast
    from progress_call [OF safety.reach_invar [OF less.prems(1)] keys.reach_invar [OF less.prems(1)] less.prems(2) this]
    have "progress cfg s" .
    moreover have "fmlookup (workers s) j \<noteq> Some (WExec work)" for j work
      using less.prems(3) by (auto simp: all_stopped_def fmpred_iff)
    ultimately obtain j b a b' s' where b: "fmlookup (ops s) j = Some b" "op_step cfg a b s = Some (b', s')"
      unfolding progress_def moves_def by auto
    let ?u = "s'\<lparr>ops := fmupd j b' (ops s)\<rparr>"
    have step: "svc_step cfg s ?u" by (rule svc_op [OF b])
    have lt: "calls_left ?u < calls_left s" by (rule calls_left_step [OF b(1) op_step_left [OF b(2)]]) simp
    have "all_stopped ?u" "closePos ?u = CActive" using op_step_frame [OF b(2)] less.prems(3,4) by (simp_all add: all_stopped_def)
    from less.hyps [OF lt reach_step [OF less.prems(1) step] less.prems(2) this]
    show ?thesis using converse_rtranclp_into_rtranclp [of "svc_step cfg", OF step] by blast
  qed
qed

lemma close_from_active:
  assumes "reach svc_init (svc_step cfg) s" "0 < cfMaxConcurrency cfg" "closePos s = CActive"
  shows "\<exists>t. (svc_step cfg)\<^sup>*\<^sup>* s t \<and> closePos t = CClosed"
proof -
  have "all_stopped s" using safety.reach_invar [OF assms(1)] assms(3) by (simp add: safe_inv_def close_inv_def)
  from calls_finish [OF assms(1,2) this assms(3)] obtain t where t: "(svc_step cfg)\<^sup>*\<^sup>* s t" "closePos t = CActive"
    "\<forall>i op. fmlookup (ops t) i = Some op \<longrightarrow> (\<exists>r e. oPos op = ODone r e)" by blast
  have "fm_count op_admitted (ops t) = 0" using t(3) by (force simp: fm_count_zero op_admitted_def)
  then have "activeN t = 0" using safety.reach_invar [OF reach_run [OF t(1) assms(1)]] by (simp add: safe_inv_def count_inv_def)
  then have "svc_step cfg t (t\<lparr>streamEscrow := None, closePos := CClosed\<rparr>)" using t(2) by (intro svc_close) (simp add: close_step_def)
  then show ?thesis using t(1) by (intro exI [of _ "t\<lparr>streamEscrow := None, closePos := CClosed\<rparr>"]) simp
qed

lemma close_from_workers:
  assumes "reach svc_init (svc_step cfg) s" "0 < cfMaxConcurrency cfg" "closePos s = CWorkers"
  shows "\<exists>t. (svc_step cfg)\<^sup>*\<^sup>* s t \<and> closePos t = CClosed"
proof -
  have "workerCanceled s" using safety.reach_invar [OF assms(1)] assms(3) by (simp add: safe_inv_def close_inv_def)
  from all_stop [OF this] obtain t where t: "(svc_step cfg)\<^sup>*\<^sup>* s t" "same_calls s t" "all_stopped t" by blast
  have "svc_step cfg t (t\<lparr>closePos := CActive\<rparr>)" using t(2,3) assms(3) by (intro svc_close) (simp add: close_step_def same_calls_def)
  then have run: "(svc_step cfg)\<^sup>*\<^sup>* s (t\<lparr>closePos := CActive\<rparr>)" using t(1) by simp
  from close_from_active [OF reach_run [OF run assms(1)] assms(2)] show ?thesis using run by (auto dest: rtranclp_trans)
qed

lemma close_completes:
  assumes "reach svc_init (svc_step cfg) s" "0 < cfMaxConcurrency cfg"
  shows "\<exists>t. (svc_step cfg)\<^sup>*\<^sup>* s t \<and> closePos t = CClosed"
proof -
  have cancel: "\<exists>t. (svc_step cfg)\<^sup>*\<^sup>* u t \<and> closePos t = CClosed" if "reach svc_init (svc_step cfg) u" "closePos u = CCancel" for u
  proof -
    have step: "svc_step cfg u (u\<lparr>workerCanceled := True, closePos := CWorkers\<rparr>)"
      using that(2) by (intro svc_close) (simp add: close_step_def)
    from close_from_workers [OF reach_step [OF that(1) step] assms(2)] show ?thesis
      using converse_rtranclp_into_rtranclp [of "svc_step cfg", OF step] by auto
  qed
  show ?thesis
  proof (cases "closePos s")
    case CIdle
    then have step: "svc_step cfg s (s\<lparr>sclosed := True, closePos := CCancel\<rparr>)" by (intro svc_close) (simp add: close_step_def)
    from cancel [OF reach_step [OF assms(1) step]] show ?thesis
      using converse_rtranclp_into_rtranclp [of "svc_step cfg", OF step] by auto
  qed (use cancel close_from_workers close_from_active assms in blast)+
qed

end
