(* ===== verification/Delegation_Props.thy ===== *)
theory Delegation_Props
  imports Delegation_Live
begin

text \<open>
  What the delegation service promises its callers, over every interleaving of calls, workers, sweepers and \<open>Close\<close>:
  one execution per idempotency key at a time, answers that replay within the retention, bounded concurrency, calls
  that do not block each other for ever, and a close after which nothing is left. Concrete runs are scripts of actions.
\<close>

subsection \<open>Where a call works on its request\<close>

fun delegating :: "opos \<Rightarrow> bool" where
  "delegating OLookup \<longleftrightarrow> True"
| "delegating (OSubmit req esc) \<longleftrightarrow> True"
| "delegating (ORearm ref specs i) \<longleftrightarrow> True"
| "delegating OAdmit \<longleftrightarrow> True"
| "delegating OSlot \<longleftrightarrow> True"
| "delegating (OExec h) \<longleftrightarrow> True"
| "delegating _ \<longleftrightarrow> False"

lemma delegating_leader:
  assumes "lead_inv s" "fmlookup (ops s) i = Some op" "delegating (oPos op)" "op_key op \<noteq> []"
  shows "\<exists>c. oLead op = Some c \<and> fmlookup (idempotencyCalls s) (op_key op) = Some c"
proof (cases "oLead op")
  case None
  then show ?thesis using lead_ops [OF assms(1,2)] assms(3,4) by (cases "oPos op") (auto simp: op_ok_def free_ok_def)
next
  case (Some c)
  moreover have "leading (oPos op)" using assms(3) by (cases "oPos op") auto
  ultimately show ?thesis using lead_ops [OF assms(1,2)] by (auto simp: op_ok_def lead_ok_def)
qed

lemma op_key_delegate [simp]: "oKind op = OpDelegate \<Longrightarrow> op_key op = IdempotencyKey (oReq op)"
  by (simp add: op_key_def)

text \<open>C7. Single flight. Of all the calls of Delegate under one idempotency key, at most one is past the
  idempotency section and working on the request, from the directory lookup to the end of the agent's run or of the
  submission, in every reachable state.\<close>

theorem single_flight:
  assumes "reach svc_init (svc_step cfg) s"
    and "fmlookup (ops s) i = Some a" "oKind a = OpDelegate" "delegating (oPos a)" "IdempotencyKey (oReq a) \<noteq> []"
    and "fmlookup (ops s) j = Some b" "oKind b = OpDelegate" "delegating (oPos b)" "IdempotencyKey (oReq b) = IdempotencyKey (oReq a)"
  shows "i = j"
proof -
  note inv = keys.reach_invar [OF assms(1)]
  from delegating_leader [OF inv assms(2,4)] delegating_leader [OF inv assms(6,8)] assms(3,5,7,9)
  obtain c where "oLead a = Some c" "oLead b = Some c" by auto
  then show ?thesis using lead_unique [OF inv assms(2,6)] by blast
qed

text \<open>C17. Every successful answer under an idempotency key is the answer of a leader: when a call of Delegate with a key
  returns without an error, some call that worked on an equal request itself has returned, or is about to return, exactly this
  response without an error.\<close>

theorem idempotent_answers:
  assumes "reach svc_init (svc_step cfg) s"
    and "fmlookup (ops s) i = Some op" "oKind op = OpDelegate" "IdempotencyKey (oReq op) \<noteq> []" "oPos op = ODone r None"
  shows "\<exists>j l. fmlookup (ops s) j = Some l \<and> oLead l \<noteq> None \<and> sameRequest (oReq l) (oReq op) \<and>
    (oPos l = OLeave r None \<or> oPos l = ODone r None)"
proof (cases "oLead op")
  case (Some c)
  then show ?thesis using assms(2,5) by (intro exI [of _ i] exI [of _ op]) simp
next
  case None
  note inv = keys.reach_invar [OF assms(1)]
  from lead_ops [OF inv assms(2)] None assms(3-5) have "answered s (oReq op) r" by (simp add: op_ok_def free_ok_def)
  then obtain c co where co: "fmlookup (callobjs s) c = Some co" "coDone co" "coErr co = None" "coResp co = r" "sameRequest (coReq co) (oReq op)"
    by (auto simp: answered_def settled_by_def)
  obtain j l where l: "fmlookup (ops s) j = Some l" "oLead l = Some c" using lead_objs [OF inv co(1)] by blast
  have "lead_ok s l c" using lead_ops [OF inv l(1)] l(2) by (simp add: op_ok_def)
  then have "coReq co = oReq l" "oPos l = OLeave r None \<or> oPos l = ODone r None"
    using co by (auto simp: lead_ok_def split: if_splits)
  then show ?thesis using l co(5) by (intro exI [of _ j] exI [of _ l]) simp
qed

subsection \<open>The retention window\<close>

lemma cache_kept_op:
  assumes inv: "lead_inv s" and x: "fmlookup (idempotencyCache s) k = Some x" "sclock s < icExpires x"
    and op: "fmlookup (ops s) i = Some op" and st: "op_step cfg a op s = Some (op', s')"
  shows "fmlookup (idempotencyCache s') k = Some x"
proof (cases "oPos op = OKey \<or> publishing op")
  case False
  then show ?thesis using op_step_quiet_fields [OF st] x(1) by auto
next
  case True
  have keep: "fmlookup (expireIdempotencyResults (sclock s) (idempotencyCache s)) k = Some x"
    using x by (simp add: expireIdempotencyResults_def)
  show ?thesis
  proof (cases "oPos op = OKey")
    case True
    then show ?thesis using st keep x(1)
      by (auto simp: op_step_def key_op_def Let_def split: if_splits option.splits)
  next
    case False
    then obtain r e c where p: "oPos op = OReturn r e" "oLead op = Some c"
      using True by (auto simp: publishing_def split: opos.splits)
    then have l: "op_key op \<noteq> []" "fmlookup (idempotencyCalls s) (op_key op) = Some c"
      using lead_ops [OF inv op] by (auto simp: op_ok_def lead_ok_def)
    have "IdempotencyKey (oReq op) \<noteq> k"
      using lead_disjoint [OF inv l(2)] x(1) l(1) by (cases "oKind op") (auto simp: op_key_def)
    then show ?thesis using st x(1)
      by (auto simp: op_step_def p publish_op_def Let_def cacheIdempotencyResult_def split: if_splits)
  qed
qed

lemma cache_kept_step:
  assumes inv: "lead_inv s" and x: "fmlookup (idempotencyCache s) k = Some x" "sclock s < icExpires x"
    and st: "svc_step cfg s s'"
  shows "fmlookup (idempotencyCache s') k = Some x"
  using st
proof cases
  case (svc_op i op a op' t)
  then show ?thesis using cache_kept_op [OF inv x] by simp
next
  case (svc_worker i w a w' t)
  then show ?thesis using worker_step_frame [OF svc_worker(3)] x(1) by simp
next
  case svc_start
  then show ?thesis using x(1) by (simp add: Start_def)
next
  case (svc_janitor t)
  then show ?thesis using x by (simp add: expireIdempotencyResults_def)
next
  case svc_close
  then show ?thesis using x(1) by (auto simp: close_step_def split: clpos.splits if_splits)
qed (use x(1) in simp_all)

lemma clock_mono: "svc_step cfg s s' \<Longrightarrow> sclock s \<le> sclock s'"
  by (erule svc_step.cases)
    (auto simp: Start_def close_step_def dest!: op_step_frame worker_step_frame split: clpos.splits if_splits)

lemma cache_kept_run:
  assumes run: "(svc_step cfg)\<^sup>*\<^sup>* s t" and "lead_inv s" "fmlookup (idempotencyCache s) k = Some x" "sclock t < icExpires x"
  shows "fmlookup (idempotencyCache t) k = Some x \<and> lead_inv t"
  using run assms(4)
proof (induction rule: rtranclp_induct)
  case base
  then show ?case using assms by simp
next
  case (step t u)
  then have "sclock t < icExpires x" using clock_mono by fastforce
  then show ?case using step cache_kept_step lead_inv_step by blast
qed

text \<open>C9. Replay. Once an answer is cached under a key, then until it expires, whatever happens in between, a call of
  Delegate under this key is not executed: it gets the cached response when its request is the same one, and the conflict
  error when it is not.\<close>

theorem replay_window:
  assumes "reach svc_init (svc_step cfg) s" "fmlookup (idempotencyCache s) (IdempotencyKey (oReq op)) = Some x"
    and "(svc_step cfg)\<^sup>*\<^sup>* s t" "sclock t < icExpires x"
    and "oPos op = OKey" "IdempotencyKey (oReq op) \<noteq> []" "op_step cfg a op t = Some (op', t')"
  shows "oPos op' = (if sameRequest (icReq x) (oReq op) then OReturn (icResp x) None
                     else OReturn noResponse (Some (idempotencyConflict (IdempotencyKey (oReq op)))))"
proof -
  have "fmlookup (idempotencyCache t) (IdempotencyKey (oReq op)) = Some x"
    using cache_kept_run [OF assms(3) keys.reach_invar [OF assms(1)] assms(2,4)] by blast
  then have "fmlookup (expireIdempotencyResults (sclock t) (idempotencyCache t)) (IdempotencyKey (oReq op)) = Some x"
    using assms(4) by (simp add: expireIdempotencyResults_def)
  then show ?thesis using assms(5-7) by (auto simp: op_step_def key_op_def Let_def fails_def split: if_splits)
qed

subsection \<open>Slots, progress and closing\<close>

lemma holding_counts:
  assumes "safe_inv cfg s"
  shows "{i. \<exists>op. fmlookup (ops s) i = Some op \<and> executing (oPos op) \<and> \<not> reuse_slot op} \<subseteq> {i. \<exists>op. fmlookup (ops s) i = Some op \<and> holding op}"
proof
  fix i
  assume "i \<in> {i. \<exists>op. fmlookup (ops s) i = Some op \<and> executing (oPos op) \<and> \<not> reuse_slot op}"
  then obtain op where op: "fmlookup (ops s) i = Some op" "executing (oPos op)" "\<not> reuse_slot op" by blast
  then obtain h where "oPos op = OExec h" by (cases "oPos op") auto
  moreover have "h" using op calculation assms by (cases h) (auto simp: safe_inv_def lease_inv_def)
  ultimately show "i \<in> {i. \<exists>op. fmlookup (ops s) i = Some op \<and> holding op}" using op(1) by (auto simp: holding_def)
qed

text \<open>C18. At no time do more runs of agents go on than the configured concurrency, counting the synchronous calls that
  are not nested in a run of this service, the work items run for outside queues and the work of the service's own
  workers. A nested synchronous call reuses its caller's slot and is the only kind that is not counted.\<close>

theorem slots_bounded:
  assumes "reach svc_init (svc_step cfg) s"
  shows "card {i. \<exists>op. fmlookup (ops s) i = Some op \<and> executing (oPos op) \<and> \<not> reuse_slot op} +
    card {i. \<exists>work. fmlookup (workers s) i = Some (WExec work)} \<le> cfMaxConcurrency cfg"
proof -
  note inv = safety.reach_invar [OF assms]
  have "card {i. \<exists>op. fmlookup (ops s) i = Some op \<and> executing (oPos op) \<and> \<not> reuse_slot op} \<le> fm_count holding (ops s)"
    unfolding fm_count_def by (rule card_mono [OF fm_finite holding_counts [OF inv]])
  moreover have "{i. \<exists>work. fmlookup (workers s) i = Some (WExec work)} = {i. \<exists>w. fmlookup (workers s) i = Some w \<and> working w}"
    by (auto simp: working_iff)
  ultimately show ?thesis using inv by (simp add: safe_inv_def count_inv_def fm_count_def)
qed

text \<open>The service never blocks itself: in every reachable state with an unfinished call of Delegate, Run or Get, some
  call can take its next step without any context being cancelled, or a worker is inside an agent's run, whose end gives its
  slot back. Each step of a call brings it nearer to its return: it takes at most eight.\<close>

theorem service_progress:
  assumes "reach svc_init (svc_step cfg) s" "0 < cfMaxConcurrency cfg"
    and "fmlookup (ops s) i = Some op" "\<And>r e. oPos op \<noteq> ODone r e"
  shows "(\<exists>j b a b' s'. fmlookup (ops s) j = Some b \<and> (\<forall>e x. a \<noteq> ACancel e x) \<and> op_step cfg a b s = Some (b', s') \<and>
      steps_left (oPos b') < steps_left (oPos b) \<and> steps_left (oPos b) \<le> 9) \<or>
    (\<exists>j work. fmlookup (workers s) j = Some (WExec work))"
proof -
  have "progress cfg s" by (rule progress_call [OF safety.reach_invar [OF assms(1)] keys.reach_invar [OF assms(1)] assms(2-4)])
  then show ?thesis
  proof (unfold progress_def, elim disjE exE conjE)
    fix j b
    assume "fmlookup (ops s) j = Some b" "moves cfg s b"
    then obtain a b' s' where "\<forall>e x. a \<noteq> ACancel e x" "op_step cfg a b s = Some (b', s')" by (auto simp: moves_def)
    moreover have "steps_left p \<le> 9" for p by (cases p) auto
    ultimately show ?thesis using \<open>fmlookup (ops s) j = Some b\<close> op_step_left by blast
  qed blast
qed

text \<open>C16. Nobody ever writes to the escrow map after Close dropped it, and once Close has returned nothing is left: every call is
  over or still at its first check, all workers and both sweepers have stopped, no slot is taken, and a call that comes
  later is refused with an error without touching the state.\<close>

theorem service_close_quiesces:
  assumes "reach svc_init (svc_step cfg) s"
  shows "\<not> panicked s \<and> (closePos s = CClosed \<longrightarrow>
    (\<forall>i op. fmlookup (ops s) i = Some op \<longrightarrow> \<not> active (oPos op)) \<and>
    (\<forall>i w. fmlookup (workers s) i = Some w \<longrightarrow> w = WStopped) \<and> \<not> janitorUp s \<and> \<not> sweeperUp s \<and> slotsUsed s = 0 \<and>
    (\<forall>i op a op' s'. fmlookup (ops s) i = Some op \<longrightarrow> op_step cfg a op s = Some (op', s') \<longrightarrow>
       s' = s \<and> (\<exists>e. oPos op' = ODone noResponse (Some e))))"
proof -
  note inv = safety.reach_invar [OF assms]
  have quiet: "\<not> op_admitted op" if "closePos s = CClosed" "fmlookup (ops s) i = Some op" for i op
    using inv that fm_count_zero [of op_admitted "ops s"] by (auto simp: safe_inv_def count_inv_def close_inv_def)
  have stop: "all_stopped s" if "closePos s = CClosed" using inv that by (simp add: safe_inv_def close_inv_def)
  have slots: "slotsUsed s = 0" if "closePos s = CClosed"
  proof -
    have "\<not> holding op" if "\<not> op_admitted op" for op using that by (auto simp: holding_def op_admitted_def)
    then have "fm_count holding (ops s) = 0" using quiet [OF that] unfolding fm_count_zero by blast
    moreover have "fm_count working (workers s) = 0" using stop [OF that] by (auto simp: fm_count_zero working_iff all_stopped_def fmpred_iff)
    ultimately show ?thesis using inv by (simp add: safe_inv_def count_inv_def)
  qed
  have refused: "s' = s \<and> (\<exists>e. oPos op' = ODone noResponse (Some e))"
    if "closePos s = CClosed" "fmlookup (ops s) i = Some op" "op_step cfg a op s = Some (op', s')" for i op a op' s'
    using quiet [OF that(1,2)] inv that(1,3)
    by (cases "oPos op") (auto simp: safe_inv_def close_inv_def op_step_def begin_op_def op_admitted_def split: option.splits if_splits)
  show ?thesis
    using inv quiet stop slots refused unfolding safe_inv_def close_inv_def all_stopped_def op_admitted_def fmpred_iff by blast
qed


subsection \<open>Retries and status\<close>

lemma retry_from_min: "0 < d \<Longrightarrow> d \<le> workerRetryMax \<Longrightarrow> retry_from n d = min workerRetryMax (d * 2 ^ n)"
proof (induction n arbitrary: d)
  case (Suc n)
  show ?case
  proof (cases "workerRetryMax div 2 \<le> d")
    case True
    have "(1::int) \<le> 2 ^ n" by simp
    then have "d * 2 \<le> d * 2 ^ Suc n" using Suc.prems(1) by simp
    moreover have "workerRetryMax \<le> d * 2" using True by (simp add: workerRetryMax_def)
    ultimately show ?thesis using True by simp
  next
    case False
    then have "d * 2 \<le> workerRetryMax" by (simp add: workerRetryMax_def)
    then show ?thesis using Suc.IH [of "d * 2"] Suc.prems(1) False by (simp add: mult.assoc)
  qed
qed simp

text \<open>The doubling loop of \<open>retryDelay\<close> is the capped exponential: 10 ms, doubled with every failure, at most 250 ms.\<close>

lemma retryDelay_capped: "retryDelay n = min 250 (10 * 2 ^ n)"
  using retry_from_min [of 10 n] by (simp add: retryDelay_def workerRetryInitial_def workerRetryMax_def)

text \<open>What \<open>Get\<close> returns is valid, carries the id it was asked for, and normalising it again changes nothing.\<close>

lemma normalized_status:
  assumes "normalizeResponse i r = Inr r'"
  shows "Response_Validate r' = None \<and> pID r' = i \<and> normalizeResponse i r' = Inr r'"
  using assms
  by (cases r; cases "pStatus r") (auto simp: normalizeResponse_def Let_def split: option.splits if_splits)

subsection \<open>Scripts\<close>

datatype svc_act =
  DoCall nat delegation_op
| DoOp nat opans
| DoWorker nat wans
| DoStart
| DoTick int
| DoSweep
| DoStop
| DoClose

definition svc_do :: "svccfg \<Rightarrow> svc_act \<Rightarrow> svc \<Rightarrow> svc option" where
  "svc_do cfg act s =
     (case act of
        DoCall i op \<Rightarrow>
          if fmlookup (ops s) i = None \<and> (case oPos op of OBegin \<Rightarrow> True | _ \<Rightarrow> False) \<and> oLead op = None
          then Some (s\<lparr>ops := fmupd i op (ops s)\<rparr>) else None
      | DoOp i a \<Rightarrow>
          (case fmlookup (ops s) i of None \<Rightarrow> None
           | Some op \<Rightarrow> (case op_step cfg a op s of None \<Rightarrow> None | Some (op', s') \<Rightarrow> Some (s'\<lparr>ops := fmupd i op' (ops s)\<rparr>)))
      | DoWorker i a \<Rightarrow>
          (case fmlookup (workers s) i of None \<Rightarrow> None
           | Some w \<Rightarrow> (case worker_step cfg a w s of None \<Rightarrow> None | Some (w', s') \<Rightarrow> Some (s'\<lparr>workers := fmupd i w' (workers s)\<rparr>)))
      | DoStart \<Rightarrow> Some (snd (Start cfg s))
      | DoTick t \<Rightarrow> if sclock s \<le> t then Some (s\<lparr>sclock := t\<rparr>) else None
      | DoSweep \<Rightarrow> if sweeperUp s then Some (escrow_drop (sweepStreamEscrowLocked (sclock s)) s) else None
      | DoStop \<Rightarrow> if workerCanceled s then Some (s\<lparr>janitorUp := False\<rparr>\<lparr>sweeperUp := False\<rparr>) else None
      | DoClose \<Rightarrow> close_step s)"

fun svc_script :: "svccfg \<Rightarrow> svc_act list \<Rightarrow> svc \<Rightarrow> svc option" where
  "svc_script cfg [] s = Some s"
| "svc_script cfg (a # as) s = (case svc_do cfg a s of None \<Rightarrow> None | Some s' \<Rightarrow> svc_script cfg as s')"

lemma svc_do_run: "svc_do cfg act s = Some t \<Longrightarrow> (svc_step cfg)\<^sup>*\<^sup>* s t"
proof (cases act)
  case DoStop
  assume "svc_do cfg act s = Some t"
  then have "workerCanceled s" "t = s\<lparr>janitorUp := False\<rparr>\<lparr>sweeperUp := False\<rparr>" using DoStop by (auto simp: svc_do_def split: if_splits)
  then show ?thesis
    using svc_janitor_stop [of s cfg] svc_sweep_stop [of "s\<lparr>janitorUp := False\<rparr>" cfg] by (simp add: converse_rtranclp_into_rtranclp)
qed (auto simp: svc_do_def intro!: r_into_rtranclp intro: svc_step.intros split: if_splits option.splits opos.splits)

lemma svc_script_run: "svc_script cfg as s = Some t \<Longrightarrow> (svc_step cfg)\<^sup>*\<^sup>* s t"
  by (induction as arbitrary: s) (auto split: option.splits dest!: svc_do_run intro: rtranclp_trans)

lemma svc_script_reach: "svc_script cfg as (NewService 0) = Some s \<Longrightarrow> reach svc_init (svc_step cfg) s"
  by (erule reach_run [OF svc_script_run], rule reach_init) (auto simp: svc_init_def)

subsection \<open>Concrete runs\<close>

text \<open>One slot, an asynchronous backend, no sessions.\<close>

definition svc_demo :: svccfg where
  "svc_demo =
     \<lparr>cfMaxConcurrency = 1, cfMaxDepth = 4, cfRetention = 100, cfAsyncRetention = 100, cfEscrowTTL = 1000,
      cfBackend = True, cfWorkSource = True, cfProvider = None, cfInitializer = False, cfManager = False,
      cfResolver = None, cfExporter = None, cfText = concat, cfTextPart = (\<lambda>t. t)\<rparr>"

definition svc_req :: "Mode \<Rightarrow> string \<Rightarrow> Request" where
  "svc_req m k = \<lparr>rMode = m, rTarget = ''coder'', Input = ''go'', rMetadata = fmempty, Attributes = fmempty, IdempotencyKey = k\<rparr>"

definition svc_sinks :: "SinkSpec list" where
  "svc_sinks = [\<lparr>spID = ''ui'', spSink = ''s'', spQueueSize = 8, spDeliveryTimeout = 500000, spVisibility = [],
     spAuthority = [], spAckMode = [], spMaxUnacked = 0\<rparr>]"

definition svc_ctx :: callctx where
  "svc_ctx = \<lparr>cxCaller = [], cxDepth = 0, cxLeased = False, cxRunID = [], cxCallID = [], cxPolicy = Some (True, svc_sinks)\<rparr>"

definition svc_opn :: "Mode \<Rightarrow> string \<Rightarrow> delegation_op" where
  "svc_opn m k = \<lparr>oKind = OpDelegate, oReq = svc_req m k, oCtx = svc_ctx, oLead = None, oPos = OBegin\<rparr>"

text \<open>The answers of a run in which nothing fails except, perhaps, the execution itself.\<close>

definition svc_run :: "err \<Rightarrow> err \<Rightarrow> runAns" where
  "svc_run e ce =
     \<lparr>anLookup = None, anContextID = Inr [], anLease = None, anInit = None, anParked = Inr None, anResume = None,
      anStart = None, anRunID = [], anWait = Inr None, anTerminal = False, anWaitAgain = Inr None, anExecute = (None, e),
      anCtxErr = ce, anNewID = ''n1'', anNewContextID = ''c1''\<rparr>"

text \<open>Two calls under one key: the first leads and executes, the second waits.\<close>

definition flight_script :: "svc_act list" where
  "flight_script =
     [DoCall 0 (svc_opn ModeSync ''k1''), DoCall 1 (svc_opn ModeSync ''k1''), DoOp 0 ANone, DoOp 1 ANone, DoOp 0 ANone, DoOp 1 ANone,
      DoOp 0 (ALookup None []), DoOp 0 (ARun (svc_run None None)), DoOp 0 ANone]"

text \<open>The first returns, its answer is cached, and the second returns the same.\<close>

definition answer_script :: "svc_act list" where
  "answer_script = flight_script @
     [DoOp 0 (ARun (svc_run None None)), DoOp 0 ANone, DoOp 1 ANone, DoOp 1 ANone, DoOp 0 ANone, DoOp 1 ANone]"

definition close_script :: "svc_act list" where
  "close_script = [DoStart] @ answer_script @
     [DoCall 2 (svc_opn ModeSync ''k2''), DoClose, DoClose, DoWorker 0 (KClaim (Inl Canceled)), DoStop, DoClose, DoClose]"

definition demo_state :: "svc_act list \<Rightarrow> svc" where
  "demo_state as = (case svc_script svc_demo as (NewService 0) of Some s \<Rightarrow> s | None \<Rightarrow> NewService 0)"

lemma demo_state_reach: "reach svc_init (svc_step svc_demo) (demo_state as)"
proof (cases "svc_script svc_demo as (NewService 0)")
  case None
  then show ?thesis by (auto simp: demo_state_def svc_init_def intro!: reach_init)
next
  case (Some s)
  then show ?thesis using svc_script_reach by (simp add: demo_state_def)
qed

definition op_of :: "nat \<Rightarrow> svc \<Rightarrow> delegation_op" where
  "op_of i s = (case fmlookup (ops s) i of Some op \<Rightarrow> op | None \<Rightarrow> svc_opn ModeSync [])"

lemma op_of_some: "fmlookup (ops s) i \<noteq> None \<Longrightarrow> fmlookup (ops s) i = Some (op_of i s)"
  by (auto simp: op_of_def)

lemma flight_facts:
  "fmlookup (ops (demo_state flight_script)) 0 \<noteq> None \<and> oKind (op_of 0 (demo_state flight_script)) = OpDelegate"
  "delegating (oPos (op_of 0 (demo_state flight_script)))" "IdempotencyKey (oReq (op_of 0 (demo_state flight_script))) = ''k1''"
  "oPos (op_of 1 (demo_state flight_script)) = OWait 0" "fmlookup (ops (demo_state flight_script)) 1 \<noteq> None"
  "oPos (op_of 0 (demo_state flight_script)) = OExec True"
  by code_simp+

theorem single_flight_witness:
  "{j. \<exists>b. fmlookup (ops (demo_state flight_script)) j = Some b \<and> oKind b = OpDelegate \<and> delegating (oPos b) \<and>
      IdempotencyKey (oReq b) = ''k1''} = {0}"
proof (intro set_eqI iffI)
  fix j :: nat
  assume "j \<in> {j. \<exists>b. fmlookup (ops (demo_state flight_script)) j = Some b \<and> oKind b = OpDelegate \<and> delegating (oPos b) \<and>
      IdempotencyKey (oReq b) = ''k1''}"
  then obtain b where b: "fmlookup (ops (demo_state flight_script)) j = Some b" "oKind b = OpDelegate" "delegating (oPos b)"
    "IdempotencyKey (oReq b) = ''k1''" by blast
  show "j \<in> {0}"
    using single_flight [OF demo_state_reach op_of_some [of "demo_state flight_script" 0] _ _ _ b(1-3)] b(4) flight_facts by auto
next
  fix j :: nat
  assume "j \<in> {0}"
  then show "j \<in> {j. \<exists>b. fmlookup (ops (demo_state flight_script)) j = Some b \<and> oKind b = OpDelegate \<and> delegating (oPos b) \<and>
      IdempotencyKey (oReq b) = ''k1''}"
    using flight_facts op_of_some [of "demo_state flight_script" 0] by auto
qed

lemma answer_facts:
  "fmlookup (ops (demo_state answer_script)) 1 \<noteq> None" "oKind (op_of 1 (demo_state answer_script)) = OpDelegate"
  "IdempotencyKey (oReq (op_of 1 (demo_state answer_script))) \<noteq> []" "oLead (op_of 1 (demo_state answer_script)) = None"
  "oPos (op_of 1 (demo_state answer_script)) = ODone (responseFromAgent concat ''n1'' None) None"
  by code_simp+

theorem idempotent_answers_witness:
  "\<exists>j l. fmlookup (ops (demo_state answer_script)) j = Some l \<and> oLead l \<noteq> None \<and>
    sameRequest (oReq l) (oReq (op_of 1 (demo_state answer_script))) \<and>
    (oPos l = OLeave (responseFromAgent concat ''n1'' None) None \<or> oPos l = ODone (responseFromAgent concat ''n1'' None) None)"
  by (rule idempotent_answers [OF demo_state_reach op_of_some [OF answer_facts(1)] answer_facts(2,3,5)])

text \<open>The cached answer, fifty time units later, and a third call at the idempotency section.\<close>

definition cached :: idempotencyResult where
  "cached = \<lparr>icReq = svc_req ModeSync ''k1'', icResp = responseFromAgent concat ''n1'' None, icExpires = 100\<rparr>"

definition later_script :: "svc_act list" where
  "later_script = [DoTick 50, DoCall 2 (svc_opn ModeSync ''k1''), DoOp 2 ANone]"

lemma later_run: "(svc_step svc_demo)\<^sup>*\<^sup>* (demo_state answer_script) (demo_state (answer_script @ later_script))"
proof -
  have "svc_script svc_demo later_script (demo_state answer_script) = Some (demo_state (answer_script @ later_script))" by code_simp
  then show ?thesis by (rule svc_script_run)
qed

lemma later_facts:
  "fmlookup (idempotencyCache (demo_state answer_script)) ''k1'' = Some cached" "sclock (demo_state (answer_script @ later_script)) = 50"
  "oPos (op_of 2 (demo_state (answer_script @ later_script))) = OKey" "oReq (op_of 2 (demo_state (answer_script @ later_script))) = svc_req ModeSync ''k1''"
  "op_step svc_demo ANone (op_of 2 (demo_state (answer_script @ later_script))) (demo_state (answer_script @ later_script)) \<noteq> None"
  by code_simp+

theorem replay_window_witness:
  "\<exists>op' t'. op_step svc_demo ANone (op_of 2 (demo_state (answer_script @ later_script))) (demo_state (answer_script @ later_script)) = Some (op', t') \<and>
    oPos op' = OReturn (responseFromAgent concat ''n1'' None) None"
proof -
  obtain op' t' where st: "op_step svc_demo ANone (op_of 2 (demo_state (answer_script @ later_script))) (demo_state (answer_script @ later_script)) = Some (op', t')"
    using later_facts(5) by auto
  have k: "IdempotencyKey (svc_req ModeSync ''k1'') = ''k1''" "icReq cached = svc_req ModeSync ''k1''"
    "icResp cached = responseFromAgent concat ''n1'' None" "icExpires cached = 100"
    by (simp_all add: svc_req_def cached_def)
  have "oPos op' = OReturn (responseFromAgent concat ''n1'' None) None"
    using replay_window [OF demo_state_reach _ later_run _ later_facts(3) _ st, of cached] later_facts(1,2,4) k by simp
  then show ?thesis using st by blast
qed

theorem slots_bounded_witness:
  "card {i. \<exists>op. fmlookup (ops (demo_state flight_script)) i = Some op \<and> executing (oPos op) \<and> \<not> reuse_slot op} +
    card {i. \<exists>work. fmlookup (workers (demo_state flight_script)) i = Some (WExec work)} \<le> 1"
  using slots_bounded [OF demo_state_reach, of flight_script] by (simp add: svc_demo_def)

theorem service_progress_witness:
  "(\<exists>j b a b' s'. fmlookup (ops (demo_state flight_script)) j = Some b \<and> (\<forall>e x. a \<noteq> ACancel e x) \<and>
      op_step svc_demo a b (demo_state flight_script) = Some (b', s') \<and> steps_left (oPos b') < steps_left (oPos b) \<and> steps_left (oPos b) \<le> 9) \<or>
    (\<exists>j work. fmlookup (workers (demo_state flight_script)) j = Some (WExec work))"
  by (rule service_progress [OF demo_state_reach _ op_of_some [OF flight_facts(5)]]) (use flight_facts(4) in \<open>simp_all add: svc_demo_def\<close>)

lemma close_facts:
  "closePos (demo_state close_script) = CClosed" "fmlookup (ops (demo_state close_script)) 2 \<noteq> None"
  "op_step svc_demo ANone (op_of 2 (demo_state close_script)) (demo_state close_script) \<noteq> None"
  by code_simp+

theorem service_close_quiesces_witness:
  "\<not> panicked (demo_state close_script) \<and>
   (\<exists>op' e. op_step svc_demo ANone (op_of 2 (demo_state close_script)) (demo_state close_script) = Some (op', demo_state close_script) \<and>
      oPos op' = ODone noResponse (Some e))"
proof -
  obtain op' s' where st: "op_step svc_demo ANone (op_of 2 (demo_state close_script)) (demo_state close_script) = Some (op', s')"
    using close_facts(3) by auto
  then show ?thesis
    using service_close_quiesces [OF demo_state_reach, of close_script] close_facts(1) op_of_some [OF close_facts(2)] by blast
qed


subsection \<open>Two consequences of the code\<close>

text \<open>A submission with a stream attachment, up to the answer of the backend.\<close>

definition submit_script :: "svc_act list" where
  "submit_script = [DoStart, DoCall 0 (svc_opn ModeAsync []), DoOp 0 ANone, DoOp 0 ANone, DoOp 0 (ALookup None ''r1'')]"

definition submitted :: Work where
  "submitted = \<lparr>wID = ''w1'', LeaseToken = ''t1'',
     wRequest = (case oPos (op_of 0 (demo_state submit_script)) of OSubmit req esc \<Rightarrow> req | _ \<Rightarrow> syncRequest (svc_opn ModeAsync []))\<rparr>"

text \<open>A worker claims and completes the item before the submitter comes to \<open>rearmStreamEscrow\<close>.\<close>

definition leak_script :: "svc_act list" where
  "leak_script = submit_script @
     [DoOp 0 (ASubmit (Inr ''w1'')), DoWorker 0 (KClaim (Inr submitted)), DoWorker 0 (KRun (svc_run None None)), DoWorker 0 KNone,
      DoWorker 0 (KRun (svc_run None None)), DoWorker 0 (KCtx None), DoWorker 0 (KComplete None)]"

definition rearm_script :: "svc_act list" where
  "rearm_script = [DoWorker 0 KNone, DoOp 0 ANone, DoOp 0 ANone, DoOp 0 ANone]"

lemma leak_facts:
  "fmlookup (workers (demo_state leak_script)) 0 = Some (WRelease submitted None)"
  "streamRefOf (aStream (wRequest submitted)) = ''escrow-r1''"
  "map_option (\<lambda>m. fmlookup m ''escrow-r1'') (streamEscrow (demo_state (leak_script @ [DoWorker 0 KNone]))) = Some None"
  "fmlookup (workers (demo_state (leak_script @ rearm_script))) 0 = Some (WClaim 0)"
  "oPos (op_of 0 (demo_state (leak_script @ rearm_script))) = ODone (accepted ''w1'') None"
  "fmlookup (ops (demo_state (leak_script @ rearm_script))) 0 \<noteq> None"
  "map_option (\<lambda>m. fmlookup m ''escrow-r1'' \<noteq> None) (streamEscrow (demo_state (leak_script @ rearm_script))) = Some True"
  by code_simp+

text \<open>C38. A stream attachment can outlive its work: when a worker claims and completes an item before the submitting call
  reaches rearmStreamEscrow, the worker's release comes first and the submitter stores the entry again. The call has
  returned, the worker waits for other work, and nothing but the expiry sweep will remove the entry.\<close>

theorem escrow_outlives_work:
  "\<exists>s t work. reach svc_init (svc_step svc_demo) s \<and> fmlookup (workers s) 0 = Some (WRelease work None) \<and>
     (svc_step svc_demo)\<^sup>*\<^sup>* s t \<and> fmlookup (workers t) 0 = Some (WClaim 0) \<and>
     (\<exists>op. fmlookup (ops t) 0 = Some op \<and> oPos op = ODone (accepted (wID work)) None) \<and>
     (\<exists>m x. streamEscrow t = Some m \<and> fmlookup m (streamRefOf (aStream (wRequest work))) = Some x)"
proof -
  let ?s = "demo_state leak_script" and ?t = "demo_state (leak_script @ rearm_script)"
  have "svc_script svc_demo rearm_script ?s = Some ?t" by code_simp
  then have run: "(svc_step svc_demo)\<^sup>*\<^sup>* ?s ?t" by (rule svc_script_run)
  have i: "wID submitted = ''w1''" by (simp add: submitted_def)
  obtain m x where m: "streamEscrow ?t = Some m" "fmlookup m ''escrow-r1'' = Some x" using leak_facts(7) by auto
  show ?thesis
    by (intro exI [of _ ?s] exI [of _ ?t] exI [of _ submitted] conjI exI [of _ m] exI [of _ x] exI [of _ "op_of 0 ?t"])
      (simp_all only: demo_state_reach leak_facts(1,2,4,5) run i m op_of_some [OF leak_facts(6)])
qed

text \<open>A call whose context ends while it waits for a slot answers with a cancelled response and no error, and that is
  cached and replayed to the next call under the key.\<close>

definition cancel_script :: "svc_act list" where
  "cancel_script =
     [DoCall 0 (svc_opn ModeSync ''k1''), DoOp 0 ANone, DoOp 0 ANone, DoOp 0 (ALookup None []), DoOp 0 (ARun (svc_run None None)),
      DoOp 0 (ACancel Canceled ''n1''), DoOp 0 ANone, DoOp 0 ANone,
      DoCall 1 (svc_opn ModeSync ''k1''), DoOp 1 ANone, DoOp 1 ANone, DoOp 1 ANone, DoOp 1 ANone]"

text \<open>A cancelled answer is replayed: after a call under an idempotency key was cancelled while it waited for a slot, without
  any execution, a later call under the same key with the same request is answered with the cancelled response as well,
  although its own context is alive and slots are free.\<close>

theorem canceled_answer_replayed:
  "\<exists>s op r. reach svc_init (svc_step svc_demo) s \<and> fmlookup (ops s) 1 = Some op \<and> oLead op = None \<and> oPos op = ODone r None \<and>
     pStatus r = StatusCanceled \<and> slotsUsed s = 0"
proof -
  let ?s = "demo_state cancel_script"
  have f: "fmlookup (ops ?s) 1 \<noteq> None" "oLead (op_of 1 ?s) = None" "slotsUsed ?s = 0"
    "oPos (op_of 1 ?s) = ODone (canceledResponse ''n1'' [] (Some Canceled)) None"
    "pStatus (canceledResponse ''n1'' [] (Some Canceled)) = StatusCanceled" by code_simp+
  show ?thesis
    by (intro exI [of _ ?s] exI [of _ "op_of 1 ?s"] exI [of _ "canceledResponse ''n1'' [] (Some Canceled)"] conjI)
      (simp_all only: demo_state_reach f op_of_some [OF f(1)])
qed

end
