(* ===== verification/Delegation_Backend.thy ===== *)
theory Delegation_Backend
  imports Delegation_Props Kanban_Props
begin

text \<open>
  The delegation service on the kanban backend: what its workers report is what the board accepts. A response that
  the board refuses is retried, and after the last attempt it stops the whole service.
\<close>

subsection \<open>What workers report\<close>

definition shaped :: "Response \<Rightarrow> bool" where
  "shaped r \<longleftrightarrow> Terminal (pStatus r) \<and> (pStatus r = StatusSucceeded \<longrightarrow> pError r = []) \<and> (pStatus r = StatusCanceled \<longrightarrow> pOutput r = [])"

definition report_ok :: "wpos \<Rightarrow> bool" where
  "report_ok w \<longleftrightarrow>
     (case w of
        WSettle work r e \<Rightarrow> e = None \<longrightarrow> shaped r
      | WComplete work r errs \<Rightarrow> shaped r \<and> pID r = wID work \<and> length errs < completeMaxAttempts
      | WBackoff work r errs \<Rightarrow> shaped r \<and> pID r = wID work \<and> length errs < completeMaxAttempts
      | _ \<Rightarrow> True)"

definition report_inv :: "svc \<Rightarrow> bool" where
  "report_inv s \<longleftrightarrow> (\<forall>i w. fmlookup (workers s) i = Some w \<longrightarrow> report_ok w)"

lemma canceled_shaped: "shaped (canceledResponse n i e)"
  by (simp add: shaped_def canceledResponse_def Terminal_def)

lemma agent_shaped: "shaped (responseFromAgent ct n res)"
  by (auto simp: shaped_def responseFromAgent_def Terminal_def Let_def split: option.split RunStatus.split)

lemma shaped_meta [simp]: "shaped (r\<lparr>pMetadata := m\<rparr>) = shaped r" "shaped (r\<lparr>pID := i\<rparr>) = shaped r"
  by (simp_all add: shaped_def)

lemma canceled_or_failed_shaped: "shaped (canceledOrFailedResponse n e)"
  by (simp add: canceledOrFailedResponse_def canceled_shaped) (simp add: shaped_def Terminal_def)

lemma execute_shaped: "runAt_execute cfg cx req an = (r, None) \<Longrightarrow> shaped r"
  by (auto simp: runAt_execute_def runAtSession_def runAtLegacy_def responseFromTurn_def Let_def
      canceled_shaped agent_shaped canceled_or_failed_shaped split: if_splits option.splits sum.splits prod.splits)

lemma admit_fails: "runAt_admit cfg req an = Some (r, e) \<Longrightarrow> e \<noteq> None"
  by (cases e) (simp_all add: runAt_admit_def split: option.splits sum.splits if_splits)

lemma settled_shaped: "e = None \<longrightarrow> shaped r \<Longrightarrow> shaped (settled_response work ce r e) \<and> pID (settled_response work ce r e) = wID work"
  by (cases e) (auto simp: settled_response_def Let_def canceled_shaped, auto simp: shaped_def Terminal_def)

lemma report_step:
  assumes "worker_step cfg a w s = Some (w', s')" "report_ok w"
  shows "report_ok w'"
  using assms
  by (cases w)
    (auto simp: worker_step_def report_ok_def admit_work_def canceled_shaped settled_shaped completeMaxAttempts_def
      dest: execute_shaped admit_fails split: option.splits if_splits prod.splits sum.splits wans.splits)

interpretation reports: invariant_system svc_init "svc_step cfg" report_inv for cfg
proof unfold_locales
  show "report_inv s" if "svc_init s" for s using that by (auto simp: svc_init_def NewService_def report_inv_def)
  show "report_inv t" if inv: "report_inv s" and st: "svc_step cfg s t" for s t
    using st
  proof cases
    case (svc_op i op a op' u)
    then show ?thesis using inv op_step_frame [OF svc_op(3)] by (simp add: report_inv_def)
  next
    case (svc_worker i w a w' u)
    then show ?thesis using inv report_step [OF svc_worker(3)] worker_step_frame [OF svc_worker(3)] by (auto simp: report_inv_def)
  next
    case svc_start
    then show ?thesis using inv
      by (auto simp: Start_def report_inv_def report_ok_def fmlookup_of_list split: if_splits dest!: map_of_SomeD)
  next
    case svc_close
    then show ?thesis using inv by (auto simp: close_step_def report_inv_def split: clpos.splits if_splits)
  qed (use inv in \<open>auto simp: report_inv_def\<close>)
qed

subsection \<open>What the board accepts\<close>

lemma shaped_valid:
  assumes "shaped r" "trim_space (pID r) \<noteq> []" "pStatus r = StatusFailed \<Longrightarrow> trim_space (pError r) \<noteq> []"
  shows "Response_Validate r = None"
  using assms by (cases "pStatus r") (auto simp: shaped_def Response_Validate_def RStatus_Validate_def Terminal_def)

text \<open>C10. The board accepts what a worker reports. In every reachable state of the service, a response that a worker is about to
  complete its work with is terminal, carries the id of the work, and is sent at most three times; on every reachable kanban
  board that still knows the lease the completion succeeds and the status then is this response, and on any other
  board it changes nothing. The one exception is a failure whose error text is blank.\<close>

theorem worker_report_accepted:
  assumes "reach svc_init (svc_step cfg) s" "fmlookup (workers s) i = Some (WComplete work r errs)"
    and "trim_space (wID work) \<noteq> []" "LeaseToken work \<noteq> []" "\<not> (pStatus r = StatusFailed \<and> trim_space (pError r) = [])"
    and "reach kinit (kstep (hashed h)) (t, b)"
  shows "length errs < completeMaxAttempts \<and>
    (\<exists>b'. Complete (hashed h) None tm (wID work) (LeaseToken work) r b = (None, b') \<and>
       (if fmlookup (leases b) (wID work) = Some (LeaseToken work) then Board_Status None tm (wID work) b' = Inr r else b' = b))"
proof -
  have "report_ok (WComplete work r errs)" using reports.reach_invar [OF assms(1)] assms(2) unfolding report_inv_def by blast
  then have ok: "shaped r" "pID r = wID work" "length errs < completeMaxAttempts" by (simp_all add: report_ok_def)
  have K: "kinv (hashed h) b" using board_sys.reach_invar [OF assms(6)] by simp
  have same: "r\<lparr>pID := wID work\<rparr> = r" using ok(2) by simp
  have v: "Response_Validate r = None" "Terminal (pStatus r)"
    using shaped_valid [OF ok(1)] ok(2) assms(3,5) ok(1) by (auto simp: shaped_def)
  have ne: "wID work \<noteq> []" using assms(3) by (auto simp: trim_space_def)
  show ?thesis
  proof (cases "fmlookup (leases b) (wID work) = Some (LeaseToken work)")
    case True
    then show ?thesis using complete_current [OF K True assms(4), of r tm] v same ok(3) by auto
  next
    case False
    then have "Complete (hashed h) None tm (wID work) (LeaseToken work) r b = (None, b)"
      using ne assms(4) by (simp add: Complete_def split: option.split)
    then show ?thesis using False ok(3) by simp
  qed
qed

text \<open>The worker's moves after a run that failed with error \<open>x\<close> when the backend answers every completion with \<open>e\<close>.\<close>

definition refused_moves :: "go_error \<Rightarrow> wans list" where
  "refused_moves e = [KCtx None, KComplete (Some e), KNone, KComplete (Some e), KNone, KComplete (Some e), KNone, KNone, KNone]"

text \<open>C37. A blank error stops the service. When a run fails with an error whose text is blank, the kanban board refuses the
  completion as invalid each time, its card stays claimed, and after the third attempt the worker closes the whole service: new calls
  are refused and the other workers are cancelled.\<close>

theorem blank_failure_stops_service:
  assumes "fmlookup (workers s) i = Some (WSettle work r (Some x))" "trim_space (error_string x) = []"
    and "reach kinit (kstep (hashed h)) (t, b)" "fmlookup (leases b) (wID work) = Some (LeaseToken work)"
    and "wID work \<noteq> []" "LeaseToken work \<noteq> []"
  shows "\<exists>e u. Complete (hashed h) None tm (wID work) (LeaseToken work) (settled_response work None r (Some x)) b = (Some e, b) \<and>
    svc_script cfg (map (DoWorker i) (refused_moves e)) s = Some u \<and>
    sclosed u \<and> workerCanceled u \<and> fmlookup (workers u) i = Some WStopped"
proof -
  obtain p where p: "fmlookup (index b) (wID work) = Some p" "cStatus (card_at b p) = StatusClaimed"
    using board_sys.reach_invar [OF assms(3)] assms(4) by (auto simp: kinv_def sinv_def lease_ok_def)
  let ?r = "settled_response work None r (Some x)"
  have "\<exists>e. Response_Validate (?r\<lparr>pID := wID work\<rparr>) = Some e"
    using assms(2) by (simp add: settled_response_def Response_Validate_def RStatus_Validate_def Terminal_def)
  then obtain e where "Complete (hashed h) None tm (wID work) (LeaseToken work) ?r b = (Some e, b)"
    using p assms(4-6) by (auto simp: Complete_def)
  moreover have "\<exists>u. svc_script cfg (map (DoWorker i) (refused_moves e)) s = Some u \<and> sclosed u \<and> workerCanceled u \<and>
    fmlookup (workers u) i = Some WStopped"
    using assms(1) by (simp add: refused_moves_def svc_do_def worker_step_def completeMaxAttempts_def recordWorkerError_def)
  ultimately show ?thesis by blast
qed

subsection \<open>Concrete runs\<close>

definition card_work :: Work where
  "card_work = \<lparr>wID = ''a1'', LeaseToken = ''t1'', wRequest = demo_req\<rparr>"

text \<open>The worker claims the card of the board \<open>demo_claimed\<close> and runs it; \<open>e\<close> is how the run fails.\<close>

definition card_script :: "err \<Rightarrow> svc_act list" where
  "card_script e = DoStart # map (DoWorker 0) [KClaim (Inr card_work), KRun (svc_run e None), KNone, KRun (svc_run e None)]"

lemma card_facts:
  "fmlookup (workers (demo_state (card_script None @ [DoWorker 0 (KCtx None)]))) 0 =
     Some (WComplete card_work ((responseFromAgent concat ''n1'' None)\<lparr>pID := ''a1''\<rparr>) [])"
  "fmlookup (workers (demo_state (card_script (Some (Plain [])))) ) 0 = Some (WSettle card_work noResponse (Some (Plain [])))"
  "trim_space (pError (responseFromAgent concat ''n1'' None)) \<noteq> []" "wID card_work = ''a1''" "LeaseToken card_work = ''t1''"
  "trim_space ''a1'' \<noteq> []" "trim_space (error_string (Plain [])) = []"
  by code_simp+

lemma card_lease: "fmlookup (leases demo_claimed) ''a1'' = Some ''t1''"
  by (simp add: demo_claimed_eq)

theorem worker_report_accepted_witness:
  "\<exists>b'. Complete (hashed (\<lambda>_. ''h'')) None 2 ''a1'' ''t1'' ((responseFromAgent concat ''n1'' None)\<lparr>pID := ''a1''\<rparr>) demo_claimed = (None, b') \<and>
    Board_Status None 2 ''a1'' b' = Inr ((responseFromAgent concat ''n1'' None)\<lparr>pID := ''a1''\<rparr>)"
  using worker_report_accepted [OF demo_state_reach card_facts(1) _ _ _ demo_reach(2), of 2] card_facts(3-6) card_lease by simp

theorem blank_failure_stops_service_witness:
  "\<exists>e u. Complete (hashed (\<lambda>_. ''h'')) None 2 ''a1'' ''t1'' (settled_response card_work None noResponse (Some (Plain []))) demo_claimed = (Some e, demo_claimed) \<and>
    svc_script svc_demo (map (DoWorker 0) (refused_moves e)) (demo_state (card_script (Some (Plain [])))) = Some u \<and> sclosed u"
  using blank_failure_stops_service [OF card_facts(2,7) demo_reach(2), of 2 svc_demo] card_facts(4,5) card_lease by auto

end
