(* ===== verification/Runtime_Registry.thy ===== *)
theory Runtime_Registry
  imports Delegation
begin

text \<open>
  The live views of agents: the registry of dynamically registered agents (\<open>core/runtime/registry.go\<close>), the tool
  catalogue keyed by agent (\<open>core/runtime/dynamic.go\<close>) and the directory of delegation targets that merges the
  deployment with a live or frozen dynamic view (\<open>core/delegation/directory.go\<close>). An agent instance is its identity and the
  fields the views read. What a deployment holds (\<open>deploy.Result\<close>) is a record; an assembly is its identity.
\<close>

subsection \<open>Instances, deployments and the registry\<close>

record agentInst =
  aiNo :: nat
  aiID :: string
  aiDescription :: string
  aiName :: string

record deployment =
  dpNo :: nat
  dpBus :: nat
  dpAgents :: "(string, agentInst) fmap"
  dpAssemblies :: "(string, nat) fmap"

definition dp_AgentNames :: "deployment \<Rightarrow> string list" where
  "dp_AgentNames r = sorted_list_of_fset (fmdom (dpAgents r))"

definition Resolve_assembly :: "deployment \<Rightarrow> string \<Rightarrow> go_error + nat" where
  "Resolve_assembly r name =
     (case fmlookup (dpAssemblies r) name of
        Some a \<Rightarrow> Inr a
      | None \<Rightarrow> Inl (errf Validation ''deploy: resource is not a tool assembly''))"

record dynamicAgentEntry =
  deInstance :: agentInst
  deDefinition :: string
  deToolAssembly :: string

record AgentRegistry =
  ragents :: "(string, dynamicAgentEntry) fmap"
  rdeployed :: deployment

definition newAgentRegistry :: "deployment \<Rightarrow> AgentRegistry" where
  "newAgentRegistry d = \<lparr>ragents = fmempty, rdeployed = d\<rparr>"

definition registry_Agent :: "AgentRegistry \<Rightarrow> string \<Rightarrow> agentInst option" where
  "registry_Agent r i =
     (case fmlookup (ragents r) i of Some e \<Rightarrow> Some (deInstance e) | None \<Rightarrow> fmlookup (dpAgents (rdeployed r)) i)"

definition registry_AgentNames :: "AgentRegistry \<Rightarrow> string list" where
  "registry_AgentNames r = sorted_list_of_fset (fmdom (ragents r) |\<union>| fmdom (dpAgents (rdeployed r)))"

definition Dynamic :: "AgentRegistry \<Rightarrow> string \<Rightarrow> agentInst option" where
  "Dynamic r i = map_option deInstance (fmlookup (ragents r) i)"

definition DynamicNames :: "AgentRegistry \<Rightarrow> string list" where
  "DynamicNames r = sorted_list_of_fset (fmdom (ragents r))"

definition registry_Replace :: "(string, dynamicAgentEntry) fmap \<Rightarrow> deployment \<Rightarrow> AgentRegistry \<Rightarrow> AgentRegistry" where
  "registry_Replace es d r = r\<lparr>ragents := es, rdeployed := d\<rparr>"

definition dynamicInstances :: "(string, dynamicAgentEntry) fmap \<Rightarrow> (string, agentInst) fmap" where
  "dynamicInstances es = fmmap deInstance es"

definition registry_Put :: "string \<Rightarrow> dynamicAgentEntry \<Rightarrow> AgentRegistry \<Rightarrow> err \<times> AgentRegistry" where
  "registry_Put i e r =
     (if i = [] then (Some (errf Validation ''runtime: agent registry Put requires an id and a non-nil agent''), r)
      else if fmlookup (ragents r) i \<noteq> None then (Some (errf Conflict ''runtime: agent is already registered''), r)
      else (None, r\<lparr>ragents := fmupd i e (ragents r)\<rparr>))"

definition registry_Delete :: "string \<Rightarrow> AgentRegistry \<Rightarrow> dynamicAgentEntry option \<times> AgentRegistry" where
  "registry_Delete i r =
     (case fmlookup (ragents r) i of
        None \<Rightarrow> (None, r)
      | Some e \<Rightarrow> (Some e, r\<lparr>ragents := fmdrop i (ragents r)\<rparr>))"

definition validateAgentID :: "string \<Rightarrow> err" where
  "validateAgentID name =
     (if name = [] \<or> trim_space name \<noteq> name
      then Some (errf Validation ''runtime: agent id must be non-empty and must not have surrounding whitespace'') else None)"

subsection \<open>The tool catalogue\<close>

definition dynamicCatalogDefaultAgent :: string where
  "dynamicCatalogDefaultAgent = ''default''"

text \<open>A nil assembly can be stored under a name; it counts as no assembly.\<close>

record catalogRegistry =
  assemblies :: "(string, nat option) fmap"
  catDef :: "nat option"

definition newCatalogRegistry :: "(string, nat) fmap \<Rightarrow> catalogRegistry" where
  "newCatalogRegistry m =
     \<lparr>assemblies = fmmap Some (fmdrop dynamicCatalogDefaultAgent m), catDef = fmlookup m dynamicCatalogDefaultAgent\<rparr>"

definition NewCatalog :: "catalogRegistry option \<Rightarrow> agentInst option \<Rightarrow> go_error + nat option" where
  "NewCatalog cat inst =
     (case cat of
        None \<Rightarrow> Inr None
      | Some c \<Rightarrow>
        (case inst of
           None \<Rightarrow> Inl (errf Internal ''runtime dynamic catalog: nil agent instance'')
         | Some a \<Rightarrow>
             (let own = (case fmlookup (assemblies c) (aiID a) of Some x \<Rightarrow> x | None \<Rightarrow> None);
                  asm = (case own of Some x \<Rightarrow> Some x | None \<Rightarrow> catDef c)
              in case asm of
                   None \<Rightarrow> Inl (errf Internal ''runtime dynamic catalog: agent has no tool assembly'')
                 | Some x \<Rightarrow> Inr (Some x))))"

definition catalog_Set :: "string \<Rightarrow> nat option \<Rightarrow> catalogRegistry \<Rightarrow> catalogRegistry" where
  "catalog_Set i a c =
     (if i = [] then c
      else if i = dynamicCatalogDefaultAgent then c\<lparr>catDef := a\<rparr>
      else c\<lparr>assemblies := fmupd i a (assemblies c)\<rparr>)"

definition catalog_Delete :: "string \<Rightarrow> catalogRegistry \<Rightarrow> catalogRegistry" where
  "catalog_Delete i c =
     (if i = [] \<or> i = dynamicCatalogDefaultAgent then c else c\<lparr>assemblies := fmdrop i (assemblies c)\<rparr>)"

definition hasDefault :: "catalogRegistry \<Rightarrow> bool" where
  "hasDefault c \<longleftrightarrow> catDef c \<noteq> None"

text \<open>\<open>resolveDynamicCatalogAssemblies\<close>: \<open>tools\<close> and \<open>agents\<close> in the orders the two maps are ranged over.\<close>

definition resolve_tools :: "deployment \<Rightarrow> (string \<times> string) list \<Rightarrow> go_error + (string, nat) fmap" where
  "resolve_tools result tools =
     fold (\<lambda>(agent, res) acc.
       (case acc of
          Inl e \<Rightarrow> Inl e
        | Inr m \<Rightarrow>
            (case Resolve_assembly result res of
               Inl e \<Rightarrow> Inl (Wrapf ''runtime config dynamic_catalog.tools'' e)
             | Inr a \<Rightarrow> Inr (fmupd agent a m)))) tools (Inr fmempty)"

definition resolveDynamicCatalogAssemblies ::
  "string list \<Rightarrow> deployment \<Rightarrow> (string \<times> string) list \<Rightarrow> go_error + (string, nat) fmap" where
  "resolveDynamicCatalogAssemblies agents result tools =
     (if \<exists>k\<in>fst ` set tools. k \<noteq> dynamicCatalogDefaultAgent \<and> k \<notin> set agents then
        Inl (errf Validation ''runtime config dynamic_catalog.tools: no such deployed agent'')
      else if (\<exists>a\<in>set agents. a \<notin> fst ` set tools) \<and> dynamicCatalogDefaultAgent \<notin> fst ` set tools then
        Inl (errf Validation ''runtime config dynamic_catalog.tools: agent has no tool resource and no default'')
      else resolve_tools result tools)"

subsection \<open>The directory of delegation targets\<close>

record LocalDirectory =
  dirBound :: bool
  dirTargets :: "Target list"
  dirByID :: "(string, Target) fmap"
  dirLookup :: "(string, agentInst) fmap"
  dirSource :: bool
  dirDynamic :: bool
  dirFrozen :: "(string, agentInst option) fmap option"

definition NewDirectory :: LocalDirectory where
  "NewDirectory = \<lparr>dirBound = False, dirTargets = [], dirByID = fmempty, dirLookup = fmempty, dirSource = False,
     dirDynamic = False, dirFrozen = None\<rparr>"

definition target_id :: "string \<Rightarrow> agentInst \<Rightarrow> string" where
  "target_id name a = (if aiID a = [] then name else aiID a)"

definition targetFromAgent :: "string \<Rightarrow> agentInst \<Rightarrow> Target" where
  "targetFromAgent name a =
     \<lparr>tID = target_id name a, Description = aiDescription a, Modes = [ModeSync, ModeAsync],
      tMetadata = (if aiName a \<noteq> [] then fmupd ''name'' (aiName a) fmempty else fmempty)\<rparr>"

fun bind_targets ::
  "(string \<Rightarrow> agentInst option) \<Rightarrow> string list \<Rightarrow> Target list \<Rightarrow> (string, Target) fmap \<Rightarrow> (string, agentInst) fmap \<Rightarrow>
     go_error + Target list \<times> (string, Target) fmap \<times> (string, agentInst) fmap" where
  "bind_targets get [] ts byID lk = Inr (ts, byID, lk)"
| "bind_targets get (name # names) ts byID lk =
     (case get name of
        None \<Rightarrow> Inl (errf Internal ''local delegation directory: deploy result listed missing agent'')
      | Some a \<Rightarrow>
          if fmlookup byID (target_id name a) \<noteq> None then Inl (errf Conflict ''local delegation directory: duplicate target id'')
          else bind_targets get names (ts @ [targetFromAgent name a]) (fmupd (target_id name a) (targetFromAgent name a) byID)
                 (fmupd (target_id name a) a lk))"

definition Bind :: "string list \<Rightarrow> (string \<Rightarrow> agentInst option) \<Rightarrow> LocalDirectory \<Rightarrow> err \<times> LocalDirectory" where
  "Bind names get d =
     (if dirBound d then (None, d)
      else case bind_targets get names [] fmempty fmempty of
        Inl e \<Rightarrow> (Some e, d)
      | Inr (ts, byID, lk) \<Rightarrow> (None, d\<lparr>dirTargets := ts, dirByID := byID, dirLookup := lk, dirBound := True\<rparr>))"

definition BindTargetSource :: "LocalDirectory \<Rightarrow> err \<times> LocalDirectory" where
  "BindTargetSource d =
     (if dirSource d then (Some (errf Conflict ''local delegation directory: target source already bound''), d)
      else (None, d\<lparr>dirSource := True, dirDynamic := True\<rparr>))"

definition FreezeTargets :: "(string, agentInst option) fmap \<Rightarrow> LocalDirectory \<Rightarrow> LocalDirectory" where
  "FreezeTargets m d = d\<lparr>dirFrozen := Some m, dirDynamic := False\<rparr>"

definition UnfreezeTargets :: "LocalDirectory \<Rightarrow> LocalDirectory" where
  "UnfreezeTargets d = d\<lparr>dirFrozen := None, dirDynamic := dirSource d\<rparr>"

text \<open>A dynamic view: the names it lists and the instances it resolves, \<open>None\<close> for a missing or a nil one.\<close>

type_synonym view = "string list \<times> (string \<Rightarrow> agentInst option)"

definition registry_view :: "AgentRegistry \<Rightarrow> view" where
  "registry_view r = (DynamicNames r, Dynamic r)"

definition frozen_view :: "(string, agentInst option) fmap \<Rightarrow> view" where
  "frozen_view m = (sorted_list_of_fset (fmdom m), \<lambda>i. case fmlookup m i of Some x \<Rightarrow> x | None \<Rightarrow> None)"

definition current_view :: "view \<Rightarrow> LocalDirectory \<Rightarrow> view" where
  "current_view live d =
     (case dirFrozen d of Some m \<Rightarrow> frozen_view m | None \<Rightarrow> if dirDynamic d then live else ([], \<lambda>i. None))"

fun dynamic_targets :: "(string, Target) fmap \<Rightarrow> (string \<Rightarrow> agentInst option) \<Rightarrow> string list \<Rightarrow> Target list" where
  "dynamic_targets byID get [] = []"
| "dynamic_targets byID get (name # names) =
     (case get name of
        None \<Rightarrow> dynamic_targets byID get names
      | Some a \<Rightarrow>
          if fmlookup byID (target_id name a) \<noteq> None then dynamic_targets byID get names
          else targetFromAgent name a # dynamic_targets byID get names)"

definition dynamicTargetsLocked :: "view \<Rightarrow> LocalDirectory \<Rightarrow> Target list" where
  "dynamicTargetsLocked live d = dynamic_targets (dirByID d) (snd (current_view live d)) (fst (current_view live d))"

definition dynamicTargetLocked :: "view \<Rightarrow> LocalDirectory \<Rightarrow> string \<Rightarrow> Target option" where
  "dynamicTargetLocked live d i = map_option (targetFromAgent i) (snd (current_view live d) i)"

definition not_bound :: go_error where
  "not_bound = errf NotAvailable ''local delegation directory: not bound''"

definition dir_List :: "view \<Rightarrow> LocalDirectory \<Rightarrow> go_error + Target list" where
  "dir_List live d = (if \<not> dirBound d then Inl not_bound else Inr (dirTargets d @ dynamicTargetsLocked live d))"

definition dir_Get :: "view \<Rightarrow> LocalDirectory \<Rightarrow> string \<Rightarrow> go_error + Target" where
  "dir_Get live d i =
     (if \<not> dirBound d then Inl not_bound
      else case dynamicTargetLocked live d i of
        Some t \<Rightarrow> Inr t
      | None \<Rightarrow> (case fmlookup (dirByID d) i of None \<Rightarrow> Inl (TargetNotFound i) | Some t \<Rightarrow> Inr t))"

definition dir_Lookup :: "view \<Rightarrow> LocalDirectory \<Rightarrow> string \<Rightarrow> go_error + agentInst" where
  "dir_Lookup live d i =
     (if \<not> dirBound d then Inl not_bound
      else case snd (current_view live d) i of
        Some a \<Rightarrow> Inr a
      | None \<Rightarrow> (case fmlookup (dirLookup d) i of None \<Rightarrow> Inl (TargetNotFound i) | Some a \<Rightarrow> Inr a))"

subsection \<open>Bound directories\<close>

text \<open>What \<open>Bind\<close> establishes: one target per id, and the two indexes hold exactly the listed targets.\<close>

definition indexed :: "Target list \<Rightarrow> (string, Target) fmap \<Rightarrow> (string, agentInst) fmap \<Rightarrow> bool" where
  "indexed ts byID lk \<longleftrightarrow> distinct (map tID ts) \<and> (\<forall>t\<in>set ts. fmlookup byID (tID t) = Some t) \<and>
     (\<forall>i t. fmlookup byID i = Some t \<longrightarrow> t \<in> set ts \<and> tID t = i \<and> (\<exists>a. fmlookup lk i = Some a \<and> targetFromAgent i a = t)) \<and>
     (\<forall>i a. fmlookup lk i = Some a \<longrightarrow> fmlookup byID i = Some (targetFromAgent i a))"

definition dir_ok :: "LocalDirectory \<Rightarrow> bool" where
  "dir_ok d \<longleftrightarrow> dirBound d \<and> indexed (dirTargets d) (dirByID d) (dirLookup d)"

lemma target_id_target: "targetFromAgent (target_id name a) a = targetFromAgent name a"
  by (auto simp: targetFromAgent_def target_id_def)

lemma tID_target [simp]: "tID (targetFromAgent name a) = target_id name a"
  by (simp add: targetFromAgent_def)

lemma indexed_add:
  assumes "indexed ts byID lk" "fmlookup byID (target_id name a) = None"
  shows "indexed (ts @ [targetFromAgent name a]) (fmupd (target_id name a) (targetFromAgent name a) byID) (fmupd (target_id name a) a lk)"
proof -
  let ?t = "targetFromAgent name a" and ?i = "target_id name a"
  have old: "distinct (map tID ts)" "\<And>t. t \<in> set ts \<Longrightarrow> fmlookup byID (tID t) = Some t"
    "\<And>i t. fmlookup byID i = Some t \<Longrightarrow> t \<in> set ts \<and> tID t = i \<and> (\<exists>b. fmlookup lk i = Some b \<and> targetFromAgent i b = t)"
    "\<And>i b. fmlookup lk i = Some b \<Longrightarrow> fmlookup byID i = Some (targetFromAgent i b)"
    using assms(1) unfolding indexed_def by blast+
  have ne: "tID t \<noteq> ?i" if "t \<in> set ts" for t using old(2) [OF that] assms(2) by auto
  show ?thesis unfolding indexed_def
  proof (intro conjI ballI allI impI)
    have "?i \<notin> set (map tID ts)" using ne by force
    then show "distinct (map tID (ts @ [?t]))" using old(1) by simp
    show "fmlookup (fmupd ?i ?t byID) (tID t) = Some t" if "t \<in> set (ts @ [?t])" for t using that ne [of t] old(2) [of t] by auto
    show "fmlookup (fmupd ?i ?t byID) i = Some (targetFromAgent i b)" if "fmlookup (fmupd ?i a lk) i = Some b" for i b
      using that old(4) target_id_target [of name a] by (auto split: if_splits)
    fix i t
    assume t: "fmlookup (fmupd ?i ?t byID) i = Some t"
    show "t \<in> set (ts @ [?t])" "tID t = i" using t old(3) by (auto split: if_splits)
    show "\<exists>b. fmlookup (fmupd ?i a lk) i = Some b \<and> targetFromAgent i b = t"
      using t old(3) [of i t] target_id_target [of name a] by (cases "i = ?i") auto
  qed
qed

lemma bind_targets_ok:
  "bind_targets get names ts byID lk = Inr (ts', byID', lk') \<Longrightarrow> indexed ts byID lk \<Longrightarrow> indexed ts' byID' lk'"
  by (induction get names ts byID lk rule: bind_targets.induct) (auto intro: indexed_add split: option.splits if_splits)

lemma Bind_ok:
  assumes "Bind names get d = (None, d')" "\<not> dirBound d"
  shows "dir_ok d'"
proof -
  obtain ts byID lk where b: "bind_targets get names [] fmempty fmempty = Inr (ts, byID, lk)"
    "d' = d\<lparr>dirTargets := ts, dirByID := byID, dirLookup := lk, dirBound := True\<rparr>"
    using assms by (auto simp: Bind_def split: sum.splits)
  have "indexed [] fmempty fmempty" by (simp add: indexed_def)
  from bind_targets_ok [OF b(1) this] show ?thesis by (simp add: dir_ok_def b(2))
qed

lemma Bind_frozen: "dirFrozen (snd (Bind names get d)) = dirFrozen d"
  by (simp add: Bind_def split: sum.split prod.split)

lemma dir_ok_views [simp]:
  "dir_ok (FreezeTargets m d) = dir_ok d" "dir_ok (UnfreezeTargets d) = dir_ok d" "dir_ok (snd (BindTargetSource d)) = dir_ok d"
  by (simp_all add: dir_ok_def FreezeTargets_def UnfreezeTargets_def BindTargetSource_def)

lemma dynamic_targets_set:
  "t \<in> set (dynamic_targets byID get names) \<longleftrightarrow>
     (\<exists>n a. n \<in> set names \<and> get n = Some a \<and> fmlookup byID (target_id n a) = None \<and> t = targetFromAgent n a)"
  by (induction names) (auto split: option.splits)

lemma dynamic_targets_ids:
  assumes "\<And>n a. get n = Some a \<Longrightarrow> target_id n a = n"
  shows "map tID (dynamic_targets byID get names) = filter (\<lambda>n. get n \<noteq> None \<and> fmlookup byID n = None) names"
  using assms by (induction names) (auto split: option.splits)

subsection \<open>Providers of dynamic targets\<close>

text \<open>What the directory relies on: a provider lists every target it resolves, once, under the id the target has.\<close>

locale target_provider =
  fixes ok :: "'s \<Rightarrow> bool"
    and view_of :: "'s \<Rightarrow> view"
  assumes names_distinct: "ok s \<Longrightarrow> distinct (fst (view_of s))"
    and names_complete: "ok s \<Longrightarrow> snd (view_of s) n = Some a \<Longrightarrow> n \<in> set (fst (view_of s))"
    and names_own: "ok s \<Longrightarrow> snd (view_of s) n = Some a \<Longrightarrow> target_id n a = n"
begin

lemma list_get_lookup:
  assumes d: "dir_ok d" and v: "current_view live d = view_of s" "ok s"
    and apart: "\<And>n. snd (view_of s) n \<noteq> None \<Longrightarrow> fmlookup (dirByID d) n = None"
  shows "\<exists>ts. dir_List live d = Inr ts \<and> distinct (map tID ts) \<and> (\<forall>t\<in>set ts. dir_Get live d (tID t) = Inr t) \<and>
    (\<forall>i a. dir_Lookup live d i = Inr a \<longrightarrow> (\<exists>t\<in>set ts. tID t = i \<and> targetFromAgent i a = t)) \<and>
    (\<forall>t\<in>set ts. \<exists>a. dir_Lookup live d (tID t) = Inr a \<and> targetFromAgent (tID t) a = t)"
proof -
  let ?g = "snd (view_of s)" and ?ns = "fst (view_of s)"
  let ?ts = "dirTargets d @ dynamic_targets (dirByID d) ?g ?ns"
  have b: "dirBound d" using d by (simp add: dir_ok_def)
  have L: "dir_List live d = Inr ?ts" using b v(1) by (simp add: dir_List_def dynamicTargetsLocked_def)
  have own: "target_id n a = n" if "?g n = Some a" for n a using names_own [OF v(2) that] .
  have ids: "map tID (dynamic_targets (dirByID d) ?g ?ns) = filter (\<lambda>n. ?g n \<noteq> None \<and> fmlookup (dirByID d) n = None) ?ns"
    by (rule dynamic_targets_ids) (rule own)
  have byID: "fmlookup (dirByID d) (tID t) = Some t" if "t \<in> set (dirTargets d)" for t
    using d that unfolding dir_ok_def indexed_def by blast
  have "set (map tID (dirTargets d)) \<inter> set (filter (\<lambda>n. ?g n \<noteq> None \<and> fmlookup (dirByID d) n = None) ?ns) = {}"
    using byID by fastforce
  moreover have "distinct (map tID (dirTargets d))" using d by (simp add: dir_ok_def indexed_def)
  ultimately have "distinct (map tID ?ts)"
    using names_distinct [OF v(2)] unfolding map_append ids distinct_append by simp
  moreover have res: "\<exists>a. dir_Lookup live d (tID t) = Inr a \<and> targetFromAgent (tID t) a = t \<and> dir_Get live d (tID t) = Inr t"
    if t: "t \<in> set ?ts" for t
  proof (cases "t \<in> set (dirTargets d)")
    case True
    note e = byID [OF this]
    then have n: "?g (tID t) = None" using apart by force
    obtain a where "fmlookup (dirLookup d) (tID t) = Some a" "targetFromAgent (tID t) a = t"
      using e d unfolding dir_ok_def indexed_def by blast
    then show ?thesis using b v(1) n e by (simp add: dir_Lookup_def dir_Get_def dynamicTargetLocked_def)
  next
    case False
    then obtain n a where n: "?g n = Some a" "t = targetFromAgent n a" using t by (auto simp: dynamic_targets_set)
    then have "tID t = n" using own by simp
    then show ?thesis using b v(1) n by (simp add: dir_Lookup_def dir_Get_def dynamicTargetLocked_def)
  qed
  moreover have "\<exists>t\<in>set ?ts. tID t = i \<and> targetFromAgent i a = t" if l: "dir_Lookup live d i = Inr a" for i a
  proof (cases "?g i")
    case None
    then have "fmlookup (dirLookup d) i = Some a" using l b v(1) by (auto simp: dir_Lookup_def split: option.splits)
    then have "targetFromAgent i a \<in> set (dirTargets d) \<and> tID (targetFromAgent i a) = i"
      using d unfolding dir_ok_def indexed_def by blast
    then show ?thesis by auto
  next
    case (Some x)
    then have "x = a" using l b v(1) by (simp add: dir_Lookup_def)
    then show ?thesis
      using Some own [OF Some] names_complete [OF v(2) Some] apart [of i] by (intro bexI [of _ "targetFromAgent i a"]) (auto simp: dynamic_targets_set)
  qed
  ultimately show ?thesis using L by blast
qed

end

text \<open>A registry whose agents carry the names they are registered under, which is what \<open>BindAgent\<close> builds.\<close>

definition reg_ok :: "AgentRegistry \<Rightarrow> bool" where
  "reg_ok r \<longleftrightarrow> (\<forall>i e. fmlookup (ragents r) i = Some e \<longrightarrow> i \<noteq> [] \<and> aiID (deInstance e) = i)"

definition frozen_ok :: "(string, agentInst option) fmap \<Rightarrow> bool" where
  "frozen_ok m \<longleftrightarrow> (\<forall>i a. fmlookup m i = Some (Some a) \<longrightarrow> target_id i a = i)"

lemma sorted_fset_distinct [simp]: "distinct (sorted_list_of_fset X)" "set (sorted_list_of_fset X) = fset X"
  by (simp_all add: sorted_list_of_fset.rep_eq)

interpretation live: target_provider reg_ok registry_view
proof unfold_locales
  show "distinct (fst (registry_view r))" for r by (simp add: registry_view_def DynamicNames_def)
  show "n \<in> set (fst (registry_view r))" if "snd (registry_view r) n = Some a" for r n a
    using that by (auto simp: registry_view_def DynamicNames_def Dynamic_def intro: fmdomI)
  show "target_id n a = n" if "reg_ok r" "snd (registry_view r) n = Some a" for r n a
    using that by (auto simp: registry_view_def Dynamic_def reg_ok_def target_id_def)
qed

interpretation pinned: target_provider frozen_ok frozen_view
proof unfold_locales
  show "distinct (fst (frozen_view m))" for m by (simp add: frozen_view_def)
  show "n \<in> set (fst (frozen_view m))" if "snd (frozen_view m) n = Some a" for m n a
    using that by (auto simp: frozen_view_def intro: fmdomI split: option.splits)
  show "target_id n a = n" if "frozen_ok m" "snd (frozen_view m) n = Some a" for m n a
    using that by (auto simp: frozen_view_def frozen_ok_def split: option.splits)
qed

interpretation unattached: target_provider "\<lambda>_ :: unit. True" "\<lambda>_. ([], \<lambda>i. None)"
  by unfold_locales simp_all

datatype dir_op = OpSource | OpFreeze "(string, agentInst option) fmap" | OpUnfreeze

definition dir_do :: "dir_op \<Rightarrow> LocalDirectory \<Rightarrow> LocalDirectory" where
  "dir_do p d = (case p of OpSource \<Rightarrow> snd (BindTargetSource d) | OpFreeze m \<Rightarrow> FreezeTargets m d | OpUnfreeze \<Rightarrow> UnfreezeTargets d)"

lemma dir_run_ok:
  assumes "dir_ok d" "\<And>m. OpFreeze m \<in> set ps \<Longrightarrow> frozen_ok m" "\<And>m. dirFrozen d = Some m \<Longrightarrow> frozen_ok m"
  shows "dir_ok (fold dir_do ps d) \<and> (\<forall>m. dirFrozen (fold dir_do ps d) = Some m \<longrightarrow> frozen_ok m)"
  using assms
proof (induction ps arbitrary: d)
  case (Cons p ps)
  have 1: "dir_ok (dir_do p d)" using Cons.prems(1) by (cases p) (simp_all add: dir_do_def)
  have 2: "frozen_ok m" if "OpFreeze m \<in> set ps" for m using Cons.prems(2) that by simp
  have 3: "frozen_ok m" if "dirFrozen (dir_do p d) = Some m" for m
    using that Cons.prems(2,3) by (cases p) (auto simp: dir_do_def FreezeTargets_def UnfreezeTargets_def BindTargetSource_def split: if_splits)
  show ?case using Cons.IH [OF 1 2 3] by simp
qed simp

text \<open>C40. The three reads of the directory agree. After a successful bind and any attaching, freezing and unfreezing of the dynamic
  view, as long as no dynamic target has the id of a deployed one: \<open>List\<close> names every target once, \<open>Get\<close> returns each
  listed target under its id, \<open>Lookup\<close> resolves each of them to an agent it describes, and it resolves nothing
  that is not listed.\<close>

theorem directory_views_agree:
  assumes "Bind names get d0 = (None, d1)" "\<not> dirBound d0" "dirFrozen d0 = None"
    and "\<And>m. OpFreeze m \<in> set ps \<Longrightarrow> frozen_ok m" "d = fold dir_do ps d1" "reg_ok r"
    and "\<And>n. snd (current_view (registry_view r) d) n \<noteq> None \<Longrightarrow> fmlookup (dirByID d) n = None"
  shows "\<exists>ts. dir_List (registry_view r) d = Inr ts \<and> distinct (map tID ts) \<and>
    (\<forall>t\<in>set ts. dir_Get (registry_view r) d (tID t) = Inr t) \<and>
    (\<forall>i a. dir_Lookup (registry_view r) d i = Inr a \<longrightarrow> (\<exists>t\<in>set ts. tID t = i \<and> targetFromAgent i a = t)) \<and>
    (\<forall>t\<in>set ts. \<exists>a. dir_Lookup (registry_view r) d (tID t) = Inr a \<and> targetFromAgent (tID t) a = t)"
proof -
  have f: "dirFrozen d1 = None" using Bind_frozen [of names get d0] assms(1,3) by simp
  have "dir_ok d \<and> (\<forall>m. dirFrozen d = Some m \<longrightarrow> frozen_ok m)"
    unfolding assms(5)
  proof (rule dir_run_ok [OF Bind_ok [OF assms(1,2)]])
    show "frozen_ok m" if "OpFreeze m \<in> set ps" for m by (rule assms(4) [OF that])
    show "frozen_ok m" if "dirFrozen d1 = Some m" for m using that f by simp
  qed
  then have ok: "dir_ok d" "\<And>m. dirFrozen d = Some m \<Longrightarrow> frozen_ok m" by simp_all
  show ?thesis
  proof (cases "dirFrozen d")
    case (Some m)
    then have v: "current_view (registry_view r) d = frozen_view m" by (simp add: current_view_def)
    show ?thesis by (rule pinned.list_get_lookup [OF ok(1) v ok(2) [OF Some]]) (use assms(7) v in simp)
  next
    case None
    show ?thesis
    proof (cases "dirDynamic d")
      case True
      then have v: "current_view (registry_view r) d = registry_view r" using None by (simp add: current_view_def)
      show ?thesis by (rule live.list_get_lookup [OF ok(1) v assms(6)]) (use assms(7) v in simp)
    next
      case False
      then have v: "current_view (registry_view r) d = ([], \<lambda>i. None)" using None by (simp add: current_view_def)
      show ?thesis by (rule unattached.list_get_lookup [OF ok(1) v]) simp_all
    qed
  qed
qed

definition demo_inst :: "nat \<Rightarrow> string \<Rightarrow> agentInst" where
  "demo_inst n i = \<lparr>aiNo = n, aiID = i, aiDescription = ''d'', aiName = []\<rparr>"

definition demo_registry :: AgentRegistry where
  "demo_registry =
     \<lparr>ragents = fmupd ''b'' \<lparr>deInstance = demo_inst 1 ''b'', deDefinition = ''def'', deToolAssembly = []\<rparr> fmempty,
      rdeployed = \<lparr>dpNo = 1, dpBus = 1, dpAgents = fmupd ''a'' (demo_inst 0 ''a'') fmempty, dpAssemblies = fmempty\<rparr>\<rparr>"

definition demo_ops :: "dir_op list" where
  "demo_ops = [OpSource, OpFreeze (fmupd ''b'' (Some (demo_inst 1 ''b'')) fmempty), OpUnfreeze]"

definition demo_bound :: LocalDirectory where
  "demo_bound = snd (Bind [''a''] (fmlookup (dpAgents (rdeployed demo_registry))) NewDirectory)"

lemma demo_bound_eq:
  "Bind [''a''] (fmlookup (dpAgents (rdeployed demo_registry))) NewDirectory = (None, demo_bound)"
  by (simp add: demo_bound_def Bind_def NewDirectory_def demo_registry_def)

lemma demo_live: "current_view (registry_view demo_registry) (fold dir_do demo_ops demo_bound) = registry_view demo_registry"
  by (simp add: demo_ops_def demo_bound_def Bind_def NewDirectory_def demo_registry_def dir_do_def BindTargetSource_def
      FreezeTargets_def UnfreezeTargets_def current_view_def)

lemma demo_apart:
  assumes "snd (registry_view demo_registry) n \<noteq> None"
  shows "fmlookup (dirByID (fold dir_do demo_ops demo_bound)) n = None"
proof -
  have "n = ''b''" using assms by (auto simp: registry_view_def Dynamic_def demo_registry_def split: if_splits)
  then show ?thesis
    by (simp add: demo_ops_def demo_bound_def Bind_def NewDirectory_def demo_registry_def dir_do_def BindTargetSource_def
      FreezeTargets_def UnfreezeTargets_def demo_inst_def target_id_def)
qed

theorem directory_views_agree_witness:
  "\<exists>ts. dir_List (registry_view demo_registry) (fold dir_do demo_ops demo_bound) = Inr ts \<and> distinct (map tID ts) \<and>
     map tID ts = [''a'', ''b''] \<and> map (\<lambda>t. dir_Get (registry_view demo_registry) (fold dir_do demo_ops demo_bound) (tID t)) ts = map Inr ts"
proof -
  have fz: "frozen_ok m" if "OpFreeze m \<in> set demo_ops" for m
    using that by (auto simp: demo_ops_def frozen_ok_def demo_inst_def target_id_def split: if_splits)
  have ro: "reg_ok demo_registry" by (auto simp: reg_ok_def demo_registry_def demo_inst_def split: if_splits)
  have nd: "\<not> dirBound NewDirectory" "dirFrozen NewDirectory = None" by (simp_all add: NewDirectory_def)
  obtain ts where ts: "dir_List (registry_view demo_registry) (fold dir_do demo_ops demo_bound) = Inr ts" "distinct (map tID ts)"
    "\<And>t. t \<in> set ts \<Longrightarrow> dir_Get (registry_view demo_registry) (fold dir_do demo_ops demo_bound) (tID t) = Inr t"
  proof -
    have "\<exists>ts. dir_List (registry_view demo_registry) (fold dir_do demo_ops demo_bound) = Inr ts \<and> distinct (map tID ts) \<and>
        (\<forall>t\<in>set ts. dir_Get (registry_view demo_registry) (fold dir_do demo_ops demo_bound) (tID t) = Inr t)"
      using directory_views_agree [where ps = demo_ops, OF demo_bound_eq nd fz refl ro] demo_apart unfolding demo_live by blast
    then show thesis using that by blast
  qed
  have "dir_List (registry_view demo_registry) (fold dir_do demo_ops demo_bound) =
      Inr [targetFromAgent ''a'' (demo_inst 0 ''a''), targetFromAgent ''b'' (demo_inst 1 ''b'')]"
  proof -
    have "DynamicNames demo_registry = [''b'']" by (simp add: DynamicNames_def demo_registry_def sorted_list_of_fset.rep_eq)
    then show ?thesis unfolding dir_List_def dynamicTargetsLocked_def demo_live
      by (simp add: registry_view_def Dynamic_def demo_ops_def demo_bound_def Bind_def NewDirectory_def demo_registry_def dir_do_def BindTargetSource_def
          FreezeTargets_def UnfreezeTargets_def demo_inst_def target_id_def)
  qed
  then have "map tID ts = [''a'', ''b'']" using ts(1) by (simp add: demo_inst_def target_id_def)
  then show ?thesis using ts by (intro exI [of _ ts]) simp
qed

end
