(* ===== verification/Runtime_Reload.thy ===== *)
theory Runtime_Reload
  imports Runtime_Registry
begin

text \<open>
  The lifecycle of a runtime (\<open>core/runtime\<close>: \<open>lifecycle.go\<close>, \<open>reload.go\<close>, \<open>generation.go\<close>, \<open>runtime.go\<close>) over the epochs of the
  session manager (\<open>session/epoch.go\<close>): registering and removing agents, replacing the deployment by a new generation, turns that
  pin an epoch, retiring and closing generations.

  \<open>lifecycleMu\<close> serialises \<open>RegisterAgent\<close>, \<open>UnregisterAgent\<close>, \<open>Reload\<close> and \<open>Close\<close>; turns run beside them. An operation in whose middle
  a turn can see or wait for something is split there, and the part still to come is \<open>rtPending\<close>. A resolver is a value that
  \<open>NewManager\<close> and \<open>SwapDeps\<close> copy into the epoch. What building a deployment, binding an agent, draining sessions
  and the router answer are arguments. The log fields record what was built, bound and closed, in order.
\<close>

subsection \<open>Generations and epochs\<close>

record resolver =
  rvResult :: deployment
  rvFrozen :: "(string, agentInst) fmap option"

definition resolver_Instance :: "AgentRegistry \<Rightarrow> resolver \<Rightarrow> string \<Rightarrow> agentInst option" where
  "resolver_Instance reg rv name =
     (case rvFrozen rv of
        Some m \<Rightarrow> (case fmlookup m name of Some a \<Rightarrow> Some a | None \<Rightarrow> fmlookup (dpAgents (rvResult rv)) name)
      | None \<Rightarrow> (case Dynamic reg name of Some a \<Rightarrow> Some a | None \<Rightarrow> fmlookup (dpAgents (rvResult rv)) name))"

record Generation =
  genID :: nat
  genResult :: deployment
  genDir :: LocalDirectory
  genResolver :: resolver
  genAdopted :: "(string, agentInst) fmap"

definition live_resolver :: "deployment \<Rightarrow> resolver" where
  "live_resolver d = \<lparr>rvResult = d, rvFrozen = None\<rparr>"

definition gen_freeze :: "(string, agentInst) fmap \<Rightarrow> Generation \<Rightarrow> Generation" where
  "gen_freeze m g = g\<lparr>genAdopted := m, genResolver := \<lparr>rvResult = genResult g, rvFrozen = Some m\<rparr>\<rparr>"

definition gen_unfreeze :: "Generation \<Rightarrow> Generation" where
  "gen_unfreeze g = g\<lparr>genAdopted := fmempty, genResolver := live_resolver (genResult g)\<rparr>"

definition freezeTargetViews :: "(string, agentInst) fmap \<Rightarrow> Generation \<Rightarrow> Generation" where
  "freezeTargetViews m g = g\<lparr>genDir := FreezeTargets (fmmap Some m) (genDir g)\<rparr>"

definition unfreezeTargetViews :: "Generation \<Rightarrow> Generation" where
  "unfreezeTargetViews g = g\<lparr>genDir := UnfreezeTargets (genDir g)\<rparr>"

record epochState =
  epResolver :: resolver
  epRefs :: nat
  epHook :: "Generation option"

record rtTurn =
  tnEpoch :: nat
  tnAgent :: string
  tnInst :: "agentInst option"
  tnCurrent :: bool

datatype rt_event =
  Started nat
| Completed nat nat "string list" "string list"
| Failed nat "string list" go_error
| Registered string
| Removed string

record inputs =
  inExternals :: nat
  inResolver :: nat
  inHost :: nat
  inResultHost :: nat

record swap_plan =
  swGen :: Generation
  swOld :: Generation
  swEntries :: "(string, dynamicAgentEntry) fmap"
  swNew :: "(string, dynamicAgentEntry) fmap"
  swRebound :: "(string, agentInst) fmap"
  swCatalog :: "catalogRegistry option"
  swInputs :: inputs
  swAttempted :: "string list"
  swDrained :: "string list"

datatype pending = PNone | PRemove string dynamicAgentEntry | PSwap swap_plan

record Runtime =
  rtRegistry :: AgentRegistry
  rtCurrent :: Generation
  rtResult :: deployment
  rtLive :: "catalogRegistry option"
  rtEpochs :: "(nat, epochState) fmap"
  rtEpochSeq :: nat
  rtDraining :: bool
  rtRemoved :: "string set"
  rtBuses :: "nat list"
  rtNextGen :: nat
  rtInputs :: inputs
  rtTunables :: nat
  rtClosed :: bool
  rtDue :: "Generation list"
  rtPending :: pending
  rtTurns :: "(nat, rtTurn) fmap"
  rtBound :: "nat list"
  rtBuilt :: "nat list"
  rtInstClosed :: "nat list"
  rtDepClosed :: "nat list"
  rtEvents :: "rt_event list"

definition insts_in_order :: "(string, agentInst) fmap \<Rightarrow> nat list" where
  "insts_in_order m = map (\<lambda>n. aiNo (the (fmlookup m n))) (sorted_list_of_fset (fmdom m))"

definition close_insts :: "nat list \<Rightarrow> Runtime \<Rightarrow> Runtime" where
  "close_insts is s = s\<lparr>rtInstClosed := rtInstClosed s @ is\<rparr>"

definition gen_close :: "Generation \<Rightarrow> Runtime \<Rightarrow> Runtime" where
  "gen_close g s = close_insts (insts_in_order (genAdopted g)) (s\<lparr>rtDepClosed := rtDepClosed s @ [dpNo (genResult g)]\<rparr>)"

definition retire :: "Generation \<Rightarrow> Runtime \<Rightarrow> Runtime" where
  "retire g s = gen_close g (s\<lparr>rtBuses := removeAll (dpBus (genResult g)) (rtBuses s)\<rparr>)"

definition emit :: "rt_event \<Rightarrow> Runtime \<Rightarrow> Runtime" where
  "emit e s = s\<lparr>rtEvents := rtEvents s @ [e]\<rparr>"

definition ReopenAgent :: "string \<Rightarrow> Runtime \<Rightarrow> Runtime" where
  "ReopenAgent name s = s\<lparr>rtRemoved := rtRemoved s - {name}\<rparr>"

subsection \<open>Turns\<close>

definition beginEpoch :: "nat \<Rightarrow> string \<Rightarrow> Runtime \<Rightarrow> Runtime option" where
  "beginEpoch t name s =
     (if rtDraining s \<or> fmlookup (rtTurns s) t \<noteq> None then None
      else case fmlookup (rtEpochs s) (rtEpochSeq s) of
        None \<Rightarrow> None
      | Some e \<Rightarrow>
          Some (s\<lparr>rtEpochs := fmupd (rtEpochSeq s) (e\<lparr>epRefs := Suc (epRefs e)\<rparr>) (rtEpochs s),
                  rtTurns := fmupd t \<lparr>tnEpoch = rtEpochSeq s, tnAgent = name, tnInst = None, tnCurrent = False\<rparr> (rtTurns s)\<rparr>))"

text \<open>Resolving the instance, later in \<open>Start\<close>, through the resolver of the captured epoch; \<open>tnCurrent\<close> records that the
  registry was still the one of that epoch.\<close>

definition resolve_turn :: "nat \<Rightarrow> Runtime \<Rightarrow> Runtime option" where
  "resolve_turn t s =
     (case fmlookup (rtTurns s) t of
        None \<Rightarrow> None
      | Some tn \<Rightarrow>
          if tnInst tn \<noteq> None then None
          else case fmlookup (rtEpochs s) (tnEpoch tn) of
            None \<Rightarrow> None
          | Some e \<Rightarrow>
              (case resolver_Instance (rtRegistry s) (epResolver e) (tnAgent tn) of
                 None \<Rightarrow> None
               | Some a \<Rightarrow>
                   Some (s\<lparr>rtTurns := fmupd t (tn\<lparr>tnInst := Some a,
                       tnCurrent := (tnEpoch tn = rtEpochSeq s \<and> (case rtPending s of PSwap p \<Rightarrow> False | _ \<Rightarrow> True))\<rparr>) (rtTurns s)\<rparr>)))"

definition endEpoch :: "nat \<Rightarrow> Runtime \<Rightarrow> Runtime" where
  "endEpoch n s =
     (case fmlookup (rtEpochs s) n of
        None \<Rightarrow> s
      | Some e \<Rightarrow>
          if epRefs e = 0 then s
          else let e1 = e\<lparr>epRefs := epRefs e - 1\<rparr> in
            if epRefs e1 > 0 \<or> epHook e1 = None then s\<lparr>rtEpochs := fmupd n e1 (rtEpochs s)\<rparr>
            else s\<lparr>rtEpochs := fmdrop n (rtEpochs s), rtDue := rtDue s @ [the (epHook e1)]\<rparr>)"

definition end_turn :: "nat \<Rightarrow> Runtime \<Rightarrow> Runtime option" where
  "end_turn t s =
     (case fmlookup (rtTurns s) t of
        None \<Rightarrow> None
      | Some tn \<Rightarrow> Some (endEpoch (tnEpoch tn) (s\<lparr>rtTurns := fmdrop t (rtTurns s)\<rparr>)))"

definition run_hook :: "Runtime \<Rightarrow> Runtime option" where
  "run_hook s = (case rtDue s of [] \<Rightarrow> None | g # gs \<Rightarrow> Some (retire g (s\<lparr>rtDue := gs\<rparr>)))"

text \<open>\<open>SwapDeps\<close> with the hook that retires the replaced generation.\<close>

definition SwapDeps :: "resolver \<Rightarrow> Generation \<Rightarrow> Runtime \<Rightarrow> Runtime" where
  "SwapDeps rv old s =
     (let n = rtEpochSeq s;
          s1 = s\<lparr>rtEpochSeq := Suc n, rtEpochs := fmupd (Suc n) \<lparr>epResolver = rv, epRefs = 0, epHook = None\<rparr> (rtEpochs s)\<rparr>
      in case fmlookup (rtEpochs s) n of
           None \<Rightarrow> s1
         | Some e \<Rightarrow>
             if epRefs e = 0 then retire old (s1\<lparr>rtEpochs := fmdrop n (rtEpochs s1)\<rparr>)
             else s1\<lparr>rtEpochs := fmupd n (e\<lparr>epHook := Some old\<rparr>) (rtEpochs s1)\<rparr>)"

subsection \<open>Registering and removing agents\<close>

record regAns =
  rgValidate :: err
  rgOptions :: err
  rgBind :: "go_error + agentInst"

definition RegisterAgent :: "string \<Rightarrow> string \<Rightarrow> string \<Rightarrow> regAns \<Rightarrow> Runtime \<Rightarrow> (go_error + agentInst) \<times> Runtime" where
  "RegisterAgent name def tool an s =
     (case validateAgentID name of
        Some e \<Rightarrow> (Inl e, s)
      | None \<Rightarrow>
      (case rgValidate an of
        Some e \<Rightarrow> (Inl (Mark Validation (Wrapf ''runtime: register agent'' e)), s)
      | None \<Rightarrow>
      (case rgOptions an of
        Some e \<Rightarrow> (Inl e, s)
      | None \<Rightarrow>
        if rtClosed s then (Inl (errf NotAvailable ''runtime: closed''), s)
        else if registry_Agent (rtRegistry s) name \<noteq> None then (Inl (errf Conflict ''runtime: agent is already registered''), s)
        else if fmlookup (dpAgents (rtResult s)) name \<noteq> None then (Inl (errf Conflict ''runtime: agent is a deployed agent''), s)
        else (case rgBind an of
          Inl e \<Rightarrow> (Inl e, s)
        | Inr a \<Rightarrow>
          (let s1 = s\<lparr>rtBound := rtBound s @ [aiNo a]\<rparr>;
               fail = (\<lambda>e. (Inl e, close_insts [aiNo a] s1));
               go = (\<lambda>asm.
                 (let s2 = ReopenAgent name s1;
                      s3 = s2\<lparr>rtLive := map_option (catalog_Set name asm) (rtLive s2)\<rparr>;
                      entry = \<lparr>deInstance = a, deDefinition = def, deToolAssembly = tool\<rparr>
                  in case registry_Put name entry (rtRegistry s3) of
                       (Some e, r) \<Rightarrow> (Inl e, close_insts [aiNo a] s3)
                     | (None, r) \<Rightarrow> (Inr a, emit (Registered name) (s3\<lparr>rtRegistry := r\<rparr>))))
           in if tool \<noteq> [] then
                (case rtLive s of
                   None \<Rightarrow> fail (errf Validation ''runtime: dynamic catalog is not configured; cannot attach tool assembly'')
                 | Some c \<Rightarrow>
                     (case Resolve_assembly (rtResult s) tool of
                        Inl e \<Rightarrow> fail (Wrapf ''runtime'' e)
                      | Inr asm \<Rightarrow> go (Some asm)))
              else (case rtLive s of
                      Some c \<Rightarrow>
                        if \<not> hasDefault c then fail (errf Validation ''runtime: dynamic catalog has no default; agent needs WithToolAssembly'')
                        else go None
                    | None \<Rightarrow> go None))))))"

text \<open>\<open>UnregisterAgent\<close> up to the drain, and after \<open>RemoveAgent\<close> answered: \<open>refused\<close> when the manager did not even
  place its tombstone.\<close>

definition Unregister_begin :: "string \<Rightarrow> err \<Rightarrow> Runtime \<Rightarrow> err \<times> Runtime" where
  "Unregister_begin name options s =
     (case validateAgentID name of
        Some e \<Rightarrow> (Some e, s)
      | None \<Rightarrow>
      (case options of
        Some e \<Rightarrow> (Some e, s)
      | None \<Rightarrow>
        if rtClosed s then (Some (errf NotAvailable ''runtime: closed''), s)
        else case registry_Delete name (rtRegistry s) of
          (None, r) \<Rightarrow>
            (if fmlookup (dpAgents (rtResult s)) name \<noteq> None
             then Some (errf Conflict ''runtime: agent is a deployed agent; remove it from the deployment document'') else None, s)
        | (Some entry, r) \<Rightarrow> (None, s\<lparr>rtRegistry := r, rtPending := PRemove name entry\<rparr>)))"

definition Unregister_end :: "err \<Rightarrow> bool \<Rightarrow> err \<Rightarrow> Runtime \<Rightarrow> err \<times> Runtime" where
  "Unregister_end drain refused closing s =
     (case rtPending s of
        PRemove name entry \<Rightarrow>
          (let s1 = s\<lparr>rtPending := PNone, rtRemoved := (if refused then rtRemoved s else insert name (rtRemoved s))\<rparr> in
           case drain of
             Some e \<Rightarrow> (Some e, s1\<lparr>rtRegistry := snd (registry_Put name entry (rtRegistry s1))\<rparr>)
           | None \<Rightarrow>
               (let s2 = close_insts [aiNo (deInstance entry)] (s1\<lparr>rtLive := map_option (catalog_Delete name) (rtLive s1)\<rparr>)
                in case closing of Some e \<Rightarrow> (Some e, s2) | None \<Rightarrow> (None, emit (Removed name) s2)))
      | _ \<Rightarrow> (None, s))"

subsection \<open>Reloading\<close>

record reloadAns =
  raPrepare :: err
  raDocAgents :: "string list"
  raInputs :: "inputs \<Rightarrow> inputs"
  raTunables :: nat
  raBuild :: "go_error + deployment"
  raDir :: LocalDirectory
  raBind :: err
  raValues :: err
  raHost :: err
  raTools :: "(string \<times> string) list option"
  raRebind :: "string \<Rightarrow> go_error + agentInst"
  raDrain :: "string \<Rightarrow> err \<times> bool"
  raAddBus :: err
  raSetTunables :: err

record rebinding =
  rbBound :: "(string, agentInst) fmap"
  rbEntries :: "(string, dynamicAgentEntry) fmap"
  rbCatalog :: "catalogRegistry option"

definition rebindAgent ::
  "deployment \<Rightarrow> (string \<Rightarrow> go_error + agentInst) \<Rightarrow> (string, dynamicAgentEntry) fmap \<Rightarrow> string \<Rightarrow> rebinding \<Rightarrow> err \<times> rebinding" where
  "rebindAgent result bind entries name rb =
     (let entry = the (fmlookup entries name) in
      case bind name of
        Inl e \<Rightarrow> (Some (Wrapf ''runtime reload: re-bind agent'' e), rb)
      | Inr a \<Rightarrow>
          (let rb1 = rb\<lparr>rbBound := fmupd name a (rbBound rb)\<rparr>;
               keep = (\<lambda>r. r\<lparr>rbEntries := fmupd name (entry\<lparr>deInstance := a\<rparr>) (rbEntries r)\<rparr>)
           in if deToolAssembly entry \<noteq> [] then
                (case rbCatalog rb1 of
                   None \<Rightarrow> (Some (errf Validation ''runtime reload: agent has a tool assembly but the new document has no dynamic_catalog''), rb1)
                 | Some c \<Rightarrow>
                     (case Resolve_assembly result (deToolAssembly entry) of
                        Inl e \<Rightarrow> (Some (Wrapf ''runtime reload: agent'' e), rb1)
                      | Inr asm \<Rightarrow> (None, keep (rb1\<lparr>rbCatalog := Some (catalog_Set name (Some asm) c)\<rparr>))))
              else (case rbCatalog rb1 of
                      Some c \<Rightarrow>
                        if \<not> hasDefault c then
                          (Some (errf Validation ''runtime reload: dynamic catalog has no default; agent needs WithToolAssembly''), rb1)
                        else (None, keep rb1)
                    | None \<Rightarrow> (None, keep rb1))))"

fun rebindAgents ::
  "deployment \<Rightarrow> (string \<Rightarrow> go_error + agentInst) \<Rightarrow> (string, dynamicAgentEntry) fmap \<Rightarrow> string list \<Rightarrow> rebinding \<Rightarrow> err \<times> rebinding" where
  "rebindAgents result bind entries [] rb = (None, rb)"
| "rebindAgents result bind entries (n # ns) rb =
     (case rebindAgent result bind entries n rb of
        (Some e, rb') \<Rightarrow> (Some e, rb')
      | (None, rb') \<Rightarrow> rebindAgents result bind entries ns rb')"

text \<open>Drains in order until one fails; the last component is whether the sessions of each attempted agent were closed.\<close>

fun drain_agents :: "(string \<Rightarrow> err \<times> bool) \<Rightarrow> string list \<Rightarrow> err \<times> string list \<times> string list" where
  "drain_agents dr [] = (None, [], [])"
| "drain_agents dr (n # ns) =
     (case dr n of
        (Some e, closedAll) \<Rightarrow> (Some (Wrapf ''runtime reload: drain removed agent'' e), [n], if closedAll then [n] else [])
      | (None, closedAll) \<Rightarrow> (case drain_agents dr ns of (e, att, drd) \<Rightarrow> (e, n # att, n # drd)))"

definition reject :: "go_error \<Rightarrow> Runtime \<Rightarrow> err \<times> Runtime" where
  "reject e s = (Some e, emit (Failed (rtNextGen s) [] e) s)"

definition abort_reload :: "deployment \<Rightarrow> string list \<Rightarrow> string list \<Rightarrow> go_error \<Rightarrow> Runtime \<Rightarrow> err \<times> Runtime" where
  "abort_reload result attempted drained e s =
     (let s1 = fold ReopenAgent attempted s;
          s2 = s1\<lparr>rtDepClosed := rtDepClosed s1 @ [dpNo result]\<rparr>
      in (Some e, emit (Failed (rtNextGen s2) (sort drained) e) s2))"

definition new_catalog :: "reloadAns \<Rightarrow> deployment \<Rightarrow> go_error + catalogRegistry option" where
  "new_catalog an result =
     (case raTools an of
        None \<Rightarrow> Inr None
      | Some tools \<Rightarrow>
          (case resolveDynamicCatalogAssemblies (raDocAgents an) result tools of
             Inl e \<Rightarrow> Inl e
           | Inr m \<Rightarrow> Inr (Some (newCatalogRegistry m))))"

definition removed_names :: "reloadAns \<Rightarrow> Runtime \<Rightarrow> string list" where
  "removed_names an s = filter (\<lambda>n. n \<notin> set (raDocAgents an)) (dp_AgentNames (rtResult s))"

text \<open>\<open>commit\<close> up to the swap: freeze the old generation, replace the live view, attach the bus, set the tunables.\<close>

definition commit_begin ::
  "reloadAns \<Rightarrow> deployment \<Rightarrow> rebinding \<Rightarrow> string list \<Rightarrow> string list \<Rightarrow> Runtime \<Rightarrow> err \<times> Runtime" where
  "commit_begin an result rb attempted drained s =
     (let entries = ragents (rtRegistry s);
          adopted = dynamicInstances entries;
          old = freezeTargetViews adopted (gen_freeze adopted (rtCurrent s));
          new = \<lparr>genID = rtNextGen s, genResult = result, genDir = raDir an, genResolver = live_resolver result, genAdopted = fmempty\<rparr>;
          s1 = s\<lparr>rtCurrent := old, rtRegistry := registry_Replace (rbEntries rb) result (rtRegistry s)\<rparr>;
          plan = \<lparr>swGen = new, swOld = old, swEntries = entries, swNew = rbEntries rb, swRebound = rbBound rb,
                  swCatalog = rbCatalog rb, swInputs = raInputs an (rtInputs s), swAttempted = attempted, swDrained = drained\<rparr>;
          rollback = (\<lambda>u. close_insts (insts_in_order (rbBound rb))
             (u\<lparr>rtCurrent := unfreezeTargetViews (gen_unfreeze (rtCurrent u)), rtBuses := removeAll (dpBus result) (rtBuses u),
                rtRegistry := registry_Replace entries (genResult old) (rtRegistry u)\<rparr>))
      in case raAddBus an of
           Some e \<Rightarrow> abort_reload result attempted drained (Wrapf ''runtime reload attach bus'' e) (rollback s1)
         | None \<Rightarrow>
             (let s2 = s1\<lparr>rtBuses := rtBuses s1 @ [dpBus result]\<rparr> in
              case raSetTunables an of
                Some e \<Rightarrow> abort_reload result attempted drained e (rollback s2)
              | None \<Rightarrow> (None, s2\<lparr>rtTunables := raTunables an, rtPending := PSwap plan\<rparr>)))"

definition after_build :: "reloadAns \<Rightarrow> deployment \<Rightarrow> Runtime \<Rightarrow> err \<times> Runtime" where
  "after_build an result s =
     (case raBind an of
        Some e \<Rightarrow> abort_reload result [] [] e s
      | None \<Rightarrow>
      (case raValues an of
        Some e \<Rightarrow> abort_reload result [] [] e s
      | None \<Rightarrow>
        if dpBus result = dpBus (rtResult s) then
          abort_reload result [] [] (errf Conflict ''runtime reload: event_bus factory returned the current generation's bus'') s
        else
      (case raHost an of
        Some e \<Rightarrow> abort_reload result [] [] e s
      | None \<Rightarrow>
      (case new_catalog an result of
        Inl e \<Rightarrow> abort_reload result [] [] e s
      | Inr cat \<Rightarrow>
      (case rebindAgents result (raRebind an) (ragents (rtRegistry s)) (DynamicNames (rtRegistry s))
              \<lparr>rbBound = fmempty, rbEntries = fmempty, rbCatalog = cat\<rparr> of
         (res, rb) \<Rightarrow>
           (let s1 = s\<lparr>rtBound := rtBound s @ insts_in_order (rbBound rb)\<rparr>;
                undo = close_insts (insts_in_order (rbBound rb))
            in case res of
                 Some e \<Rightarrow> abort_reload result [] [] e (undo s1)
               | None \<Rightarrow>
                   (case drain_agents (raDrain an) (removed_names an s) of
                      (dres, attempted, drained) \<Rightarrow>
                        (let s2 = s1\<lparr>rtRemoved := rtRemoved s1 \<union> set attempted\<rparr> in
                         case dres of
                           Some e \<Rightarrow> abort_reload result attempted drained e (undo s2)
                         | None \<Rightarrow> commit_begin an result rb attempted drained (fold ReopenAgent (raDocAgents an) s2)))))))))"

definition Reload_begin :: "reloadAns \<Rightarrow> Runtime \<Rightarrow> err \<times> Runtime" where
  "Reload_begin an s =
     (if rtClosed s then (Some (errf NotAvailable ''runtime: closed''), s)
      else
        let s1 = emit (Started (Suc (rtNextGen s))) (s\<lparr>rtNextGen := Suc (rtNextGen s)\<rparr>) in
        case raPrepare an of
          Some e \<Rightarrow> reject e s1
        | None \<Rightarrow>
          (case raBuild an of
             Inl e \<Rightarrow> reject (Wrapf ''runtime reload build deployment'' e) s1
           | Inr result \<Rightarrow> after_build an result (s1\<lparr>rtBuilt := rtBuilt s1 @ [dpNo result]\<rparr>)))"

text \<open>The swap and what \<open>Reload\<close> does after it.\<close>

definition Reload_end :: "Runtime \<Rightarrow> Runtime" where
  "Reload_end s =
     (case rtPending s of
        PSwap p \<Rightarrow>
          (let s1 = SwapDeps (genResolver (swGen p)) (swOld p) s;
               s2 = s1\<lparr>rtCurrent := swGen p, rtResult := genResult (swGen p), rtLive := swCatalog p, rtInputs := swInputs p, rtPending := PNone\<rparr>
           in emit (Completed (genID (swGen p)) (genID (swOld p)) (sorted_list_of_fset (fmdom (swNew p))) (sort (swDrained p))) s2)
      | _ \<Rightarrow> s)"

definition Close_runtime :: "Runtime \<Rightarrow> Runtime" where
  "Close_runtime s =
     (if rtClosed s then s
      else let g = gen_freeze (dynamicInstances (ragents (rtRegistry s))) (rtCurrent s)
           in gen_close g (s\<lparr>rtClosed := True, rtCurrent := g, rtBuses := []\<rparr>))"

subsection \<open>The step relation\<close>

text \<open>
  Instances are numbered: a deployment owns the ones with number 0, an agent bound on its own gets a fresh number. A deployment
  has the number of the generation it is built for. A drain that succeeds leaves no turn of the agent in flight.
\<close>

definition dir_live :: "LocalDirectory \<Rightarrow> bool" where
  "dir_live d \<longleftrightarrow> dirFrozen d = None \<and> dirDynamic d = dirSource d"

definition owned_agents :: "deployment \<Rightarrow> bool" where
  "owned_agents d \<longleftrightarrow> (\<forall>n a. fmlookup (dpAgents d) n = Some a \<longrightarrow> aiNo a = 0)"

definition fresh_inst :: "string \<Rightarrow> Runtime \<Rightarrow> agentInst \<Rightarrow> bool" where
  "fresh_inst name s a \<longleftrightarrow> aiNo a \<noteq> 0 \<and> aiNo a \<notin> set (rtBound s) \<and> aiID a = name"

definition agent_idle :: "string \<Rightarrow> Runtime \<Rightarrow> bool" where
  "agent_idle name s \<longleftrightarrow> (\<forall>t tn. fmlookup (rtTurns s) t = Some tn \<longrightarrow> tnAgent tn \<noteq> name)"

definition reload_ok :: "reloadAns \<Rightarrow> Runtime \<Rightarrow> bool" where
  "reload_ok an s \<longleftrightarrow> dir_live (raDir an) \<and>
     (\<forall>d. raBuild an = Inr d \<longrightarrow> dpNo d = Suc (rtNextGen s) \<and> dpBus d \<notin> set (rtBuses s) \<and> owned_agents d) \<and>
     (\<forall>n a. raRebind an n = Inr a \<longrightarrow> fresh_inst n s a) \<and>
     (\<forall>n m a b. raRebind an n = Inr a \<longrightarrow> raRebind an m = Inr b \<longrightarrow> aiNo a = aiNo b \<longrightarrow> n = m)"

definition NewRuntime :: "deployment \<Rightarrow> LocalDirectory \<Rightarrow> catalogRegistry option \<Rightarrow> inputs \<Rightarrow> nat \<Rightarrow> Runtime" where
  "NewRuntime d dir cat inp tun =
     \<lparr>rtRegistry = newAgentRegistry d,
      rtCurrent = \<lparr>genID = 1, genResult = d, genDir = dir, genResolver = live_resolver d, genAdopted = fmempty\<rparr>,
      rtResult = d, rtLive = cat, rtEpochs = fmupd 1 \<lparr>epResolver = live_resolver d, epRefs = 0, epHook = None\<rparr> fmempty,
      rtEpochSeq = 1, rtDraining = False, rtRemoved = {}, rtBuses = [dpBus d], rtNextGen = 1, rtInputs = inp, rtTunables = tun,
      rtClosed = False, rtDue = [], rtPending = PNone, rtTurns = fmempty, rtBound = [], rtBuilt = [dpNo d], rtInstClosed = [], rtDepClosed = [],
      rtEvents = []\<rparr>"

definition rt_init :: "Runtime \<Rightarrow> bool" where
  "rt_init s \<longleftrightarrow> (\<exists>d dir cat inp tun. dpNo d = 1 \<and> owned_agents d \<and> dir_live dir \<and> s = NewRuntime d dir cat inp tun)"

inductive rt_step :: "Runtime \<Rightarrow> Runtime \<Rightarrow> bool" where
  rt_register: "rtPending s = PNone \<Longrightarrow> (\<And>a. rgBind an = Inr a \<Longrightarrow> fresh_inst name s a) \<Longrightarrow>
    rt_step s (snd (RegisterAgent name def tool an s))"
| rt_unregister: "rtPending s = PNone \<Longrightarrow> rt_step s (snd (Unregister_begin name opts s))"
| rt_unregistered: "rtPending s = PRemove name entry \<Longrightarrow> (drain = None \<Longrightarrow> agent_idle name s \<and> \<not> refused) \<Longrightarrow>
    rt_step s (snd (Unregister_end drain refused closing s))"
| rt_reload: "rtPending s = PNone \<Longrightarrow> reload_ok an s \<Longrightarrow> rt_step s (snd (Reload_begin an s))"
| rt_reloaded: "rtPending s = PSwap p \<Longrightarrow> rt_step s (Reload_end s)"
| rt_begin: "\<not> rtClosed s \<Longrightarrow> beginEpoch t name s = Some s' \<Longrightarrow> rt_step s s'"
| rt_resolve: "\<not> rtClosed s \<Longrightarrow> resolve_turn t s = Some s' \<Longrightarrow> rt_step s s'"
| rt_end: "end_turn t s = Some s' \<Longrightarrow> rt_step s s'"
| rt_hook: "run_hook s = Some s' \<Longrightarrow> rt_step s s'"
| rt_drain: "rtPending s = PNone \<Longrightarrow> rt_step s (s\<lparr>rtDraining := True\<rparr>)"
| rt_close: "rtPending s = PNone \<Longrightarrow> rt_step s (Close_runtime s)"

end
