(* ===== verification/Runtime_Safety.thy ===== *)
theory Runtime_Safety
  imports Runtime_Reload Finite_Counting "HOL-Library.Multiset"
begin

text \<open>
  Invariants of the runtime's lifecycle. Every instance bound and every deployment built has exactly one owner at any
  time: the live registry, the current generation, the operation in progress, a retired generation that waits for
  its turns, or the log of what was closed.
\<close>

subsection \<open>What the operations do\<close>

lemma RegisterAgent_cases:
  fixes s s' :: Runtime
  assumes s': "s' = snd (RegisterAgent name def tool an s)"
  obtains (same) "s' = s"
  | (failed) a where "rgBind an = Inr a" "\<not> rtClosed s" "s' = s\<lparr>rtBound := rtBound s @ [aiNo a], rtInstClosed := rtInstClosed s @ [aiNo a]\<rparr>"
  | (ok) a where "rgBind an = Inr a" "\<not> rtClosed s" "name \<noteq> []" "fmlookup (ragents (rtRegistry s)) name = None"
      "s' = s\<lparr>rtRegistry := (rtRegistry s)\<lparr>ragents := fmupd name \<lparr>deInstance = a, deDefinition = def, deToolAssembly = tool\<rparr> (ragents (rtRegistry s))\<rparr>,
          rtLive := rtLive s', rtRemoved := rtRemoved s - {name}, rtBound := rtBound s @ [aiNo a], rtEvents := rtEvents s @ [Registered name]\<rparr>"
proof (cases "validateAgentID name = None \<and> rgValidate an = None \<and> rgOptions an = None \<and> \<not> rtClosed s \<and>
    registry_Agent (rtRegistry s) name = None \<and> fmlookup (dpAgents (rtResult s)) name = None \<and> (\<exists>a. rgBind an = Inr a)")
  case False
  then have "s' = s"
    unfolding s' by (cases "rgBind an") (auto simp: RegisterAgent_def split: option.split)
  then show ?thesis by (rule same)
next
  case True
  then obtain a where a: "rgBind an = Inr a" by blast
  have n: "name \<noteq> []" "fmlookup (ragents (rtRegistry s)) name = None"
    using True by (auto simp: validateAgentID_def registry_Agent_def split: option.splits)
  let ?asm = "if tool = [] then None else case Resolve_assembly (rtResult s) tool of Inl e \<Rightarrow> None | Inr x \<Rightarrow> Some x"
  let ?bad = "s\<lparr>rtBound := rtBound s @ [aiNo a], rtInstClosed := rtInstClosed s @ [aiNo a]\<rparr>"
  let ?good = "s\<lparr>rtRegistry := (rtRegistry s)\<lparr>ragents := fmupd name \<lparr>deInstance = a, deDefinition = def, deToolAssembly = tool\<rparr> (ragents (rtRegistry s))\<rparr>,
          rtLive := map_option (catalog_Set name ?asm) (rtLive s), rtRemoved := rtRemoved s - {name}, rtBound := rtBound s @ [aiNo a],
          rtEvents := rtEvents s @ [Registered name]\<rparr>"
  note defs = RegisterAgent_def a Let_def registry_Put_def ReopenAgent_def close_insts_def emit_def
  have "s' = ?bad \<or> s' = ?good"
  proof (cases "tool = []")
    case T: True
    then show ?thesis using True n unfolding s' by (cases "rtLive s") (simp_all add: defs)
  next
    case False
    then show ?thesis using True n unfolding s'
      by (cases "rtLive s"; cases "Resolve_assembly (rtResult s) tool") (simp_all add: defs)
  qed
  then consider "s' = ?bad" | "s' = ?good" by blast
  then show ?thesis
  proof cases
    case 1
    then show ?thesis using a True by (intro failed) simp_all
  next
    case 2
    then have "rtLive s' = map_option (catalog_Set name ?asm) (rtLive s)" by simp
    then show ?thesis using 2 a True n by (intro ok) simp_all
  qed
qed

lemma Unregister_begin_cases:
  "snd (Unregister_begin name opts s) = s \<or>
   (\<exists>e. \<not> rtClosed s \<and> name \<noteq> [] \<and> fmlookup (ragents (rtRegistry s)) name = Some e \<and>
      snd (Unregister_begin name opts s) =
        s\<lparr>rtRegistry := (rtRegistry s)\<lparr>ragents := fmdrop name (ragents (rtRegistry s))\<rparr>, rtPending := PRemove name e\<rparr>)"
  by (auto simp: Unregister_begin_def registry_Delete_def validateAgentID_def split: option.split)

lemma Unregister_end_cases:
  assumes "rtPending s = PRemove name entry" "fmlookup (ragents (rtRegistry s)) name = None" "name \<noteq> []"
  shows "(drain \<noteq> None \<and> (\<exists>R. snd (Unregister_end drain refused closing s) =
        s\<lparr>rtPending := PNone, rtRemoved := R, rtRegistry := (rtRegistry s)\<lparr>ragents := fmupd name entry (ragents (rtRegistry s))\<rparr>\<rparr>)) \<or>
     (drain = None \<and> (\<exists>R cat ev. snd (Unregister_end drain refused closing s) =
        s\<lparr>rtPending := PNone, rtRemoved := R, rtLive := cat, rtInstClosed := rtInstClosed s @ [aiNo (deInstance entry)], rtEvents := ev\<rparr>))"
proof (cases drain)
  case (Some e)
  then show ?thesis
    using assms by (auto simp: Unregister_end_def Let_def registry_Put_def intro!: exI [of _ "if refused then rtRemoved s else insert name (rtRemoved s)"])
next
  case None
  have "\<exists>ev. snd (Unregister_end drain refused closing s) =
      s\<lparr>rtPending := PNone, rtRemoved := (if refused then rtRemoved s else insert name (rtRemoved s)),
        rtLive := map_option (catalog_Delete name) (rtLive s), rtInstClosed := rtInstClosed s @ [aiNo (deInstance entry)], rtEvents := ev\<rparr>"
  proof (cases closing)
    case None
    with \<open>drain = None\<close> show ?thesis using assms(1)
      by (intro exI [of _ "rtEvents s @ [Removed name]"]) (simp add: Unregister_end_def Let_def close_insts_def emit_def)
  next
    case (Some e)
    with \<open>drain = None\<close> show ?thesis using assms(1)
      by (intro exI [of _ "rtEvents s"]) (simp add: Unregister_end_def Let_def close_insts_def)
  qed
  then show ?thesis using None by blast
qed

lemma fold_Reopen: "fold ReopenAgent ns s = s\<lparr>rtRemoved := rtRemoved s - set ns\<rparr>"
proof (induction ns arbitrary: s)
  case (Cons n ns)
  have "rtRemoved s - {n} - set ns = rtRemoved s - set (n # ns)" by auto
  moreover have "fold ReopenAgent (n # ns) s = (ReopenAgent n s)\<lparr>rtRemoved := rtRemoved (ReopenAgent n s) - set ns\<rparr>"
    by (simp add: Cons.IH)
  moreover have "\<dots> = s\<lparr>rtRemoved := rtRemoved s - {n} - set ns\<rparr>" by (simp add: ReopenAgent_def)
  ultimately show ?case by simp
qed simp

lemma rebindAgent_bound:
  "rebindAgent result bind es n rb = (res, rb') \<Longrightarrow> rbBound rb' = rbBound rb \<or> (\<exists>a. bind n = Inr a \<and> rbBound rb' = fmupd n a (rbBound rb))"
  by (auto simp: rebindAgent_def Let_def split: sum.splits option.splits if_splits)

lemma rebindAgent_entries:
  "rebindAgent result bind es n rb = (None, rb') \<Longrightarrow>
     \<exists>a. bind n = Inr a \<and> rbBound rb' = fmupd n a (rbBound rb) \<and> rbEntries rb' = fmupd n ((the (fmlookup es n))\<lparr>deInstance := a\<rparr>) (rbEntries rb)"
  by (auto simp: rebindAgent_def Let_def split: sum.splits option.splits if_splits)

lemma rebindAgents_bound:
  assumes "rebindAgents result bind es ns rb = (res, rb')" "\<And>n a. fmlookup (rbBound rb) n = Some a \<Longrightarrow> bind n = Inr a"
    and "fmlookup (rbBound rb') n = Some a"
  shows "bind n = Inr a"
  using assms
proof (induction result bind es ns rb rule: rebindAgents.induct)
  case (2 result bind es m ms rb)
  obtain res1 rb1 where r: "rebindAgent result bind es m rb = (res1, rb1)" by fastforce
  have b: "bind k = Inr x" if "fmlookup (rbBound rb1) k = Some x" for k x
    using rebindAgent_bound [OF r] 2(3) that by (auto split: if_splits)
  show ?case
  proof (cases res1)
    case None
    then show ?thesis using 2(1) [OF r [symmetric] None _ b] 2(2,4) r by simp
  next
    case (Some e)
    then show ?thesis using 2(2,4) r b by simp
  qed
qed simp

lemma dynamicInstances_upd: "dynamicInstances (fmupd n e m) = fmupd n (deInstance e) (dynamicInstances m)"
  unfolding dynamicInstances_def by (intro fmap_ext) simp

lemma rebindAgents_entries:
  "rebindAgents result bind es ns rb = (None, rb') \<Longrightarrow> dynamicInstances (rbEntries rb) = rbBound rb \<Longrightarrow>
     dynamicInstances (rbEntries rb') = rbBound rb'"
proof (induction result bind es ns rb rule: rebindAgents.induct)
  case (2 result bind es m ms rb)
  obtain res1 rb1 where r: "rebindAgent result bind es m rb = (res1, rb1)" by fastforce
  then have n: "res1 = None" "rebindAgents result bind es ms rb1 = (None, rb')"
    using 2(2) by (auto split: option.splits)
  have "dynamicInstances (rbEntries rb1) = rbBound rb1"
    using rebindAgent_entries [OF r [unfolded n(1)]] 2(3) by (auto simp: dynamicInstances_upd)
  then show ?case using 2(1) [OF r [symmetric] n] by blast
qed simp

text \<open>A runtime outside a reload: the current generation serves the live registry.\<close>

definition steady :: "Runtime \<Rightarrow> bool" where
  "steady s \<longleftrightarrow> genAdopted (rtCurrent s) = fmempty \<and> genResolver (rtCurrent s) = live_resolver (genResult (rtCurrent s)) \<and>
     dir_live (genDir (rtCurrent s)) \<and> rdeployed (rtRegistry s) = genResult (rtCurrent s)"

lemma freeze_undone:
  assumes "steady s"
  shows "unfreezeTargetViews (gen_unfreeze (freezeTargetViews m (gen_freeze m (rtCurrent s)))) = rtCurrent s"
  using assms
  by (simp add: steady_def unfreezeTargetViews_def gen_unfreeze_def freezeTargetViews_def gen_freeze_def UnfreezeTargets_def
      FreezeTargets_def dir_live_def)

definition undone :: "string set \<Rightarrow> nat list \<Rightarrow> nat list \<Rightarrow> rt_event list \<Rightarrow> Runtime \<Rightarrow> Runtime" where
  "undone R bs ds evs s = s\<lparr>rtRemoved := R, rtBound := rtBound s @ bs, rtInstClosed := rtInstClosed s @ bs,
     rtDepClosed := rtDepClosed s @ ds, rtEvents := rtEvents s @ evs\<rparr>"

definition swapping ::
  "string set \<Rightarrow> reloadAns \<Rightarrow> deployment \<Rightarrow> rebinding \<Rightarrow> string list \<Rightarrow> string list \<Rightarrow> Runtime \<Rightarrow> Runtime" where
  "swapping R an result rb att drd s =
     (let adopted = dynamicInstances (ragents (rtRegistry s));
          old = freezeTargetViews adopted (gen_freeze adopted (rtCurrent s));
          new = \<lparr>genID = rtNextGen s, genResult = result, genDir = raDir an, genResolver = live_resolver result, genAdopted = fmempty\<rparr>
      in s\<lparr>rtRemoved := R, rtBound := rtBound s @ insts_in_order (rbBound rb), rtCurrent := old,
           rtRegistry := \<lparr>ragents = rbEntries rb, rdeployed = result\<rparr>, rtBuses := rtBuses s @ [dpBus result], rtTunables := raTunables an,
           rtPending := PSwap \<lparr>swGen = new, swOld = old, swEntries = ragents (rtRegistry s), swNew = rbEntries rb, swRebound = rbBound rb,
              swCatalog = rbCatalog rb, swInputs = raInputs an (rtInputs s), swAttempted = att, swDrained = drd\<rparr>\<rparr>)"

lemma abort_reload_eq:
  "abort_reload result att drd e s =
     (Some e, s\<lparr>rtRemoved := rtRemoved s - set att, rtDepClosed := rtDepClosed s @ [dpNo result], rtEvents := rtEvents s @ [Failed (rtNextGen s) (sort drd) e]\<rparr>)"
  by (simp add: abort_reload_def fold_Reopen emit_def Let_def)

lemma registry_back:
  "registry_Replace (ragents r) (rdeployed r) (registry_Replace es d r) = r"
  by (simp add: registry_Replace_def)

lemma commit_cases:
  fixes s u :: Runtime
  assumes st: "steady s" and bus: "dpBus result \<notin> set (rtBuses s)"
    and u: "u = s\<lparr>rtBound := rtBound s @ insts_in_order (rbBound rb), rtRemoved := R\<rparr>"
  shows "(\<exists>e. commit_begin an result rb att drd u =
      (Some e, undone (R - set att) (insts_in_order (rbBound rb)) [dpNo result] [Failed (rtNextGen s) (sort drd) e] s)) \<or>
    (commit_begin an result rb att drd u = (None, swapping R an result rb att drd s))"
proof (cases "raAddBus an = None \<and> raSetTunables an = None")
  case True
  then show ?thesis
    by (simp add: commit_begin_def u Let_def swapping_def registry_Replace_def)
next
  case False
  have b: "removeAll (dpBus result) (rtBuses s) = rtBuses s" using bus by (simp add: removeAll_id)
  have d: "genResult (freezeTargetViews m (gen_freeze m g)) = genResult g" for m g
    by (simp add: freezeTargetViews_def gen_freeze_def)
  have r: "registry_Replace (ragents (rtRegistry s)) (genResult (rtCurrent s)) (registry_Replace es dd (rtRegistry s)) = rtRegistry s" for es dd
    using registry_back [of "rtRegistry s"] st by (simp add: steady_def)
  obtain e where "commit_begin an result rb att drd u =
      (Some e, undone (R - set att) (insts_in_order (rbBound rb)) [dpNo result] [Failed (rtNextGen s) (sort drd) e] s)"
  proof (cases "raAddBus an")
    case (Some e)
    show ?thesis
      by (rule that [of "Wrapf ''runtime reload attach bus'' e"])
        (simp add: commit_begin_def u Let_def Some abort_reload_eq close_insts_def undone_def freeze_undone [OF st] b d r)
  next
    case None
    then obtain e where e: "raSetTunables an = Some e" using False by auto
    show ?thesis
      by (rule that [of e])
        (simp add: commit_begin_def u Let_def None e abort_reload_eq close_insts_def undone_def freeze_undone [OF st] b d r)
  qed
  then show ?thesis by blast
qed

lemma rebindAgents_dom:
  "rebindAgents result bind es ns rb = (res, rb') \<Longrightarrow> fset (fmdom (rbBound rb')) \<subseteq> fset (fmdom (rbBound rb)) \<union> set ns"
proof (induction result bind es ns rb rule: rebindAgents.induct)
  case (2 result bind es m ms rb)
  obtain res1 rb1 where r: "rebindAgent result bind es m rb = (res1, rb1)" by fastforce
  have "fset (fmdom (rbBound rb1)) \<subseteq> insert m (fset (fmdom (rbBound rb)))" using rebindAgent_bound [OF r] by auto
  then show ?case using 2(1) [OF r [symmetric]] 2(2) r by (cases res1) auto
qed simp

lemma insts_in_order_empty [simp]: "insts_in_order fmempty = []"
  by (simp add: insts_in_order_def sorted_list_of_fset.rep_eq)

definition rebound :: "reloadAns \<Rightarrow> Runtime \<Rightarrow> (string, agentInst) fmap \<Rightarrow> bool" where
  "rebound an s m \<longleftrightarrow> (\<forall>n a. fmlookup m n = Some a \<longrightarrow> raRebind an n = Inr a \<and> fmlookup (ragents (rtRegistry s)) n \<noteq> None)"

lemma after_build_cases:
  fixes s :: Runtime
  assumes st: "steady s" and bus: "dpBus result \<notin> set (rtBuses s)"
  obtains (failed) e R m drd where "after_build an result s = (Some e, undone R (insts_in_order m) [dpNo result] [Failed (rtNextGen s) drd e] s)"
      "R \<subseteq> rtRemoved s" "rebound an s m"
  | (ok) R rb att drd where "after_build an result s = (None, swapping R an result rb att drd s)"
      "rebound an s (rbBound rb)" "dynamicInstances (rbEntries rb) = rbBound rb"
proof -
  have early: thesis if "after_build an result s = abort_reload result [] [] e s" for e
    by (rule failed [of e "rtRemoved s" fmempty "[]"]) (use that in \<open>simp_all add: abort_reload_eq undone_def rebound_def\<close>)
  show thesis
  proof (cases "raBind an = None \<and> raValues an = None \<and> dpBus result \<noteq> dpBus (rtResult s) \<and> raHost an = None \<and> (\<exists>c. new_catalog an result = Inr c)")
    case False
    then have "\<exists>e. after_build an result s = abort_reload result [] [] e s"
      by (cases "new_catalog an result") (auto simp: after_build_def split: option.split)
    then show thesis using early by blast
  next
    case True
    then obtain c where c: "new_catalog an result = Inr c" by blast
    obtain res rb where rb: "rebindAgents result (raRebind an) (ragents (rtRegistry s)) (DynamicNames (rtRegistry s))
        \<lparr>rbBound = fmempty, rbEntries = fmempty, rbCatalog = c\<rparr> = (res, rb)" by fastforce
    obtain dres att drd where dr: "drain_agents (raDrain an) (removed_names an s) = (dres, att, drd)" by (cases "drain_agents (raDrain an) (removed_names an s)")
    have b: "rebound an s (rbBound rb)"
      unfolding rebound_def
    proof (intro allI impI conjI)
      fix n a
      assume n: "fmlookup (rbBound rb) n = Some a"
      show "raRebind an n = Inr a" by (rule rebindAgents_bound [OF rb _ n]) simp
      have "n \<in> fset (fmdom (rbBound rb))" using n by (rule fmdomI)
      then have "n \<in> fset (fmdom (ragents (rtRegistry s)))"
        using rebindAgents_dom [OF rb] by (auto simp: DynamicNames_def)
      then show "fmlookup (ragents (rtRegistry s)) n \<noteq> None" by (simp add: fmlookup_dom_iff)
    qed
    let ?s1 = "s\<lparr>rtBound := rtBound s @ insts_in_order (rbBound rb)\<rparr>"
    have eq: "after_build an result s =
        (case res of Some e \<Rightarrow> abort_reload result [] [] e (close_insts (insts_in_order (rbBound rb)) ?s1)
         | None \<Rightarrow> (case dres of
             Some e \<Rightarrow> abort_reload result att drd e (close_insts (insts_in_order (rbBound rb)) (?s1\<lparr>rtRemoved := rtRemoved ?s1 \<union> set att\<rparr>))
           | None \<Rightarrow> commit_begin an result rb att drd (?s1\<lparr>rtRemoved := rtRemoved s \<union> set att - set (raDocAgents an)\<rparr>)))"
      using True c rb dr by (cases res; cases dres) (simp_all add: after_build_def Let_def fold_Reopen)
    show thesis
    proof (cases res)
      case (Some e)
      show thesis
        by (rule failed [of e "rtRemoved s" "rbBound rb" "[]"]) (simp_all add: eq Some abort_reload_eq undone_def close_insts_def b)
    next
      case None
      show thesis
      proof (cases dres)
        case (Some e)
        show thesis
          by (rule failed [of e "(rtRemoved s \<union> set att) - set att" "rbBound rb" "sort drd"])
            (auto simp: eq None Some abort_reload_eq undone_def close_insts_def b)
      next
        case N: None
        let ?R = "rtRemoved s \<union> set att - set (raDocAgents an)"
        have en: "dynamicInstances (rbEntries rb) = rbBound rb"
          by (rule rebindAgents_entries [OF rb [unfolded None]]) (simp add: dynamicInstances_def)
        have "after_build an result s = commit_begin an result rb att drd (s\<lparr>rtBound := rtBound s @ insts_in_order (rbBound rb), rtRemoved := ?R\<rparr>)"
          by (simp add: eq None N)
        with commit_cases [OF st bus refl, of an rb att drd ?R] show thesis
          using failed [of _ "?R - set att" "rbBound rb" "sort drd"] ok [OF _ b en, of ?R att drd] b by fastforce
      qed
    qed
  qed
qed

lemma steady_log [simp]: "steady (s\<lparr>rtNextGen := n\<rparr>) = steady s" "steady (s\<lparr>rtBuilt := bs\<rparr>) = steady s" "steady (s\<lparr>rtEvents := es\<rparr>) = steady s"
  by (simp_all add: steady_def)

lemma Reload_cases:
  fixes s s' :: Runtime
  assumes r: "Reload_begin an s = (res, s')" and st: "steady s" and ok: "reload_ok an s"
  obtains (closed) e where "rtClosed s" "res = Some e" "s' = s"
  | (failed) e R m ds drd where "\<not> rtClosed s" "res = Some e" "R \<subseteq> rtRemoved s" "rebound an s m"
      "ds = [] \<and> m = fmempty \<or> ds = [Suc (rtNextGen s)]"
      "s' = undone R (insts_in_order m) ds [Started (Suc (rtNextGen s)), Failed (Suc (rtNextGen s)) drd e]
         (s\<lparr>rtNextGen := Suc (rtNextGen s), rtBuilt := rtBuilt s @ ds\<rparr>)"
  | (swap) R rb att drd result where "\<not> rtClosed s" "res = None" "raBuild an = Inr result" "dpNo result = Suc (rtNextGen s)"
      "rebound an s (rbBound rb)" "dynamicInstances (rbEntries rb) = rbBound rb"
      "s' = swapping R an result rb att drd
         (s\<lparr>rtNextGen := Suc (rtNextGen s), rtEvents := rtEvents s @ [Started (Suc (rtNextGen s))], rtBuilt := rtBuilt s @ [dpNo result]\<rparr>)"
proof (cases "rtClosed s")
  case True
  then have "res = Some (errf NotAvailable ''runtime: closed'')" "s' = s" using r by (simp_all add: Reload_begin_def)
  then show thesis by (rule closed [OF True])
next
  case False
  have early: thesis if "res = Some e" "s' = s\<lparr>rtNextGen := Suc (rtNextGen s), rtEvents := rtEvents s @ [Started (Suc (rtNextGen s)), Failed (Suc (rtNextGen s)) [] e]\<rparr>" for e
    by (rule failed [OF False that(1), of "rtRemoved s" fmempty "[]" "[]"]) (simp_all add: that(2) rebound_def undone_def)
  show thesis
  proof (cases "raPrepare an")
    case (Some e)
    have "(res, s') = reject e (emit (Started (Suc (rtNextGen s))) (s\<lparr>rtNextGen := Suc (rtNextGen s)\<rparr>))"
      using r False Some by (simp add: Reload_begin_def)
    then show thesis by (intro early [of e]) (simp_all add: reject_def emit_def)
  next
    case None
    show thesis
    proof (cases "raBuild an")
      case (Inl e)
      let ?e = "Wrapf ''runtime reload build deployment'' e"
      have "(res, s') = reject ?e (emit (Started (Suc (rtNextGen s))) (s\<lparr>rtNextGen := Suc (rtNextGen s)\<rparr>))"
        using r False None Inl by (simp add: Reload_begin_def)
      then show thesis by (intro early [of ?e]) (simp_all add: reject_def emit_def)
    next
      case (Inr result)
      have no: "dpNo result = Suc (rtNextGen s)" "dpBus result \<notin> set (rtBuses s)" using ok Inr by (auto simp: reload_ok_def)
      let ?s1 = "s\<lparr>rtNextGen := Suc (rtNextGen s), rtEvents := rtEvents s @ [Started (Suc (rtNextGen s))], rtBuilt := rtBuilt s @ [dpNo result]\<rparr>"
      have eq: "after_build an result ?s1 = (res, s')"
        using r False None Inr by (simp add: Reload_begin_def emit_def Let_def)
      have st1: "steady ?s1" "dpBus result \<notin> set (rtBuses ?s1)" using st no(2) by simp_all
      have rbd: "rebound an ?s1 m = rebound an s m" for m by (simp add: rebound_def)
      show thesis
      proof (rule after_build_cases [OF st1, of an])
        fix e R m drd
        assume "after_build an result ?s1 = (Some e, undone R (insts_in_order m) [dpNo result] [Failed (rtNextGen ?s1) drd e] ?s1)"
          "R \<subseteq> rtRemoved ?s1" "rebound an ?s1 m"
        then show thesis using eq rbd no(1)
          by (intro failed [OF False, of e R m "[Suc (rtNextGen s)]" drd]) (simp_all add: undone_def)
      next
        fix R rb att drd
        assume "after_build an result ?s1 = (None, swapping R an result rb att drd ?s1)" "rebound an ?s1 (rbBound rb)"
          "dynamicInstances (rbEntries rb) = rbBound rb"
        then show thesis using eq rbd no(1) Inr by (intro swap [OF False, of result rb R att drd]) simp_all
      qed
    qed
  qed
qed

end
