(* ===== verification/Runtime_Invariant.thy ===== *)
theory Runtime_Invariant
  imports Runtime_Safety
begin

text \<open>
  The invariant of a runtime and that every step keeps it: who owns each instance and deployment, what the live views
  hold, how many turns an epoch counts, and where the instance of a turn is kept.
\<close>

subsection \<open>Owners\<close>

datatype owned = Inst nat | Dep nat

definition insts :: "(string, agentInst) fmap \<Rightarrow> owned multiset" where
  "insts m = fm_sum (\<lambda>a. {#Inst (aiNo a)#}) m"

definition reg_own :: "(string, dynamicAgentEntry) fmap \<Rightarrow> owned multiset" where
  "reg_own es = insts (dynamicInstances es)"

definition gen_own :: "Generation \<Rightarrow> owned multiset" where
  "gen_own g = add_mset (Dep (dpNo (genResult g))) (insts (genAdopted g))"

definition pend_own :: "pending \<Rightarrow> owned multiset" where
  "pend_own p = (case p of PNone \<Rightarrow> {#} | PRemove n e \<Rightarrow> {#Inst (aiNo (deInstance e))#} | PSwap q \<Rightarrow> {#Dep (dpNo (genResult (swGen q)))#})"

definition hook_own :: "epochState \<Rightarrow> owned multiset" where
  "hook_own e = (case epHook e of None \<Rightarrow> {#} | Some g \<Rightarrow> gen_own g)"

definition serving :: "Runtime \<Rightarrow> owned multiset" where
  "serving s = (if rtClosed s then {#} else gen_own (rtCurrent s) + reg_own (ragents (rtRegistry s)) + pend_own (rtPending s))"

definition waiting :: "Runtime \<Rightarrow> owned multiset" where
  "waiting s = fm_sum hook_own (rtEpochs s) + sum_list (map gen_own (rtDue s))"

definition released :: "Runtime \<Rightarrow> owned multiset" where
  "released s = image_mset Inst (mset (rtInstClosed s)) + image_mset Dep (mset (rtDepClosed s))"

definition made :: "Runtime \<Rightarrow> owned multiset" where
  "made s = image_mset Inst (mset (rtBound s)) + image_mset Dep (mset (rtBuilt s))"

definition own_inv :: "Runtime \<Rightarrow> bool" where
  "own_inv s \<longleftrightarrow> made s = serving s + waiting s + released s \<and> distinct (rtBound s) \<and> distinct (rtBuilt s) \<and>
     0 \<notin> set (rtBound s) \<and> (\<forall>n\<in>set (rtBuilt s). n \<le> rtNextGen s)"

lemma insts_empty [simp]: "insts fmempty = {#}"
  by (simp add: insts_def)

lemma dynamicInstances_lookup [simp]: "fmlookup (dynamicInstances es) n = map_option deInstance (fmlookup es n)"
  by (simp add: dynamicInstances_def)

lemma reg_own_new: "fmlookup es n = None \<Longrightarrow> reg_own (fmupd n e es) = add_mset (Inst (aiNo (deInstance e))) (reg_own es)"
  by (simp add: reg_own_def dynamicInstances_upd insts_def fm_sum_new)

lemma reg_own_drop:
  assumes "fmlookup es n = Some e"
  shows "reg_own es = add_mset (Inst (aiNo (deInstance e))) (reg_own (fmdrop n es))"
proof -
  have "es = fmupd n e (fmdrop n es)" using assms by (intro fmap_ext) auto
  then show ?thesis using reg_own_new [of "fmdrop n es" n e] by simp
qed

lemma insts_in_order_own: "image_mset Inst (mset (insts_in_order m)) = insts m"
proof -
  have "(\<Sum>k\<in>A. {#f k#}) = image_mset f (mset_set A)" if "finite A" for f :: "string \<Rightarrow> owned" and A
    using that by induction auto
  from this [of "fset (fmdom m)" "\<lambda>k. Inst (aiNo (the (fmlookup m k)))"]
  have "insts m = image_mset (\<lambda>k. Inst (aiNo (the (fmlookup m k)))) (mset_set (fset (fmdom m)))"
    by (simp add: insts_def fm_sum_def)
  also have "mset_set (fset (fmdom m)) = mset (sorted_list_of_fset (fmdom m))"
    using mset_set_set [of "sorted_list_of_fset (fmdom m)"] by simp
  finally show ?thesis by (simp add: insts_in_order_def multiset.map_comp comp_def)
qed

lemma insts_count: "fmlookup m n = Some a \<Longrightarrow> Inst (aiNo a) \<in># insts m"
  using fm_sum_drop [of m n a "\<lambda>a. {#Inst (aiNo a)#}"] by (simp add: insts_def)

lemma released_gen_close [simp]: "released (gen_close g s) = gen_own g + released s"
  by (simp add: released_def gen_close_def close_insts_def gen_own_def insts_in_order_own [symmetric])

lemma gen_close_frame [simp]:
  "serving (gen_close g s) = serving s" "waiting (gen_close g s) = waiting s" "made (gen_close g s) = made s"
  "rtBound (gen_close g s) = rtBound s" "rtBuilt (gen_close g s) = rtBuilt s" "rtNextGen (gen_close g s) = rtNextGen s"
  by (simp_all add: serving_def waiting_def made_def gen_close_def close_insts_def)

lemma rebound_distinct:
  assumes "rebound an s m" "reload_ok an s"
  shows "distinct (insts_in_order m)" "set (insts_in_order m) \<inter> set (rtBound s) = {}" "0 \<notin> set (insts_in_order m)"
proof -
  have ans: "raRebind an n = Inr a" if "fmlookup m n = Some a" for n a using assms(1) that by (auto simp: rebound_def)
  have el: "\<exists>n a. fmlookup m n = Some a \<and> x = aiNo a" if "x \<in> set (insts_in_order m)" for x
    using that by (auto simp: insts_in_order_def) (metis fmdomE option.sel)
  have fr: "fresh_inst n s a" if "raRebind an n = Inr a" for n a using assms(2) that by (auto simp: reload_ok_def)
  show "set (insts_in_order m) \<inter> set (rtBound s) = {}" "0 \<notin> set (insts_in_order m)"
    using el ans fr by (fastforce simp: fresh_inst_def)+
  have inj: "n = k" if "raRebind an n = Inr a" "raRebind an k = Inr b" "aiNo a = aiNo b" for n k a b
    using assms(2) that unfolding reload_ok_def by blast
  have "inj_on (\<lambda>n. aiNo (the (fmlookup m n))) (fset (fmdom m))"
  proof (rule inj_onI)
    fix x y
    assume "x \<in> fset (fmdom m)" "y \<in> fset (fmdom m)" and e: "aiNo (the (fmlookup m x)) = aiNo (the (fmlookup m y))"
    then obtain a b where "fmlookup m x = Some a" "fmlookup m y = Some b" by (auto elim!: fmdomE)
    then show "x = y" using inj [OF ans ans] e by simp
  qed
  then show "distinct (insts_in_order m)" by (simp add: insts_in_order_def distinct_map)
qed

subsection \<open>Views, epochs and turns\<close>

definition view_inv :: "Runtime \<Rightarrow> bool" where
  "view_inv s \<longleftrightarrow> rtResult s = genResult (rtCurrent s) \<and> owned_agents (rtResult s) \<and> reg_ok (rtRegistry s) \<and>
     (rtClosed s \<longrightarrow> rtPending s = PNone) \<and>
     (\<not> rtClosed s \<longrightarrow>
       (case rtPending s of
          PNone \<Rightarrow> steady s
        | PRemove n e \<Rightarrow> steady s \<and> fmlookup (ragents (rtRegistry s)) n = None \<and> n \<noteq> [] \<and> aiID (deInstance e) = n
        | PSwap p \<Rightarrow> swOld p = rtCurrent s \<and> genAdopted (swGen p) = fmempty \<and>
            genResolver (swGen p) = live_resolver (genResult (swGen p)) \<and> dir_live (genDir (swGen p)) \<and>
            owned_agents (genResult (swGen p)) \<and> rdeployed (rtRegistry s) = genResult (swGen p)))"

definition epoch_ok :: "Runtime \<Rightarrow> nat \<Rightarrow> epochState \<Rightarrow> bool" where
  "epoch_ok s n e \<longleftrightarrow> n \<le> rtEpochSeq s \<and> rvFrozen (epResolver e) = None \<and> owned_agents (rvResult (epResolver e)) \<and>
     epRefs e = fm_count (\<lambda>tn. tnEpoch tn = n) (rtTurns s) \<and>
     (if n = rtEpochSeq s then epHook e = None \<and> epResolver e = live_resolver (genResult (rtCurrent s))
      else 0 < epRefs e \<and> (\<exists>g. epHook e = Some g \<and> genResult g = rvResult (epResolver e)))"

definition epoch_inv :: "Runtime \<Rightarrow> bool" where
  "epoch_inv s \<longleftrightarrow> fmlookup (rtEpochs s) (rtEpochSeq s) \<noteq> None \<and>
     (\<forall>n e. fmlookup (rtEpochs s) n = Some e \<longrightarrow> epoch_ok s n e) \<and>
     (\<forall>t tn. fmlookup (rtTurns s) t = Some tn \<longrightarrow> fmlookup (rtEpochs s) (tnEpoch tn) \<noteq> None)"

text \<open>Where the dynamic instance of a turn on the current epoch is kept.\<close>

definition served :: "Runtime \<Rightarrow> string \<Rightarrow> agentInst \<Rightarrow> bool" where
  "served s name a \<longleftrightarrow>
     (case rtPending s of
        PNone \<Rightarrow> Dynamic (rtRegistry s) name = Some a
      | PRemove n e \<Rightarrow> (if name = n then deInstance e = a else Dynamic (rtRegistry s) name = Some a)
      | PSwap p \<Rightarrow> fmlookup (genAdopted (rtCurrent s)) name = Some a)"

definition turn_ok :: "Runtime \<Rightarrow> rtTurn \<Rightarrow> epochState \<Rightarrow> agentInst \<Rightarrow> bool" where
  "turn_ok s tn e a \<longleftrightarrow> fmlookup (dpAgents (rvResult (epResolver e))) (tnAgent tn) = Some a \<or>
     (if tnEpoch tn = rtEpochSeq s then rtClosed s \<or> served s (tnAgent tn) a
      else \<exists>g. epHook e = Some g \<and> fmlookup (genAdopted g) (tnAgent tn) = Some a)"

definition turn_inv :: "Runtime \<Rightarrow> bool" where
  "turn_inv s \<longleftrightarrow> (\<forall>t tn a e. fmlookup (rtTurns s) t = Some tn \<and> tnInst tn = Some a \<and> tnCurrent tn \<and>
     fmlookup (rtEpochs s) (tnEpoch tn) = Some e \<longrightarrow> turn_ok s tn e a)"

definition rt_inv :: "Runtime \<Rightarrow> bool" where
  "rt_inv s \<longleftrightarrow> own_inv s \<and> view_inv s \<and> epoch_inv s \<and> turn_inv s"

lemma live_resolver_fields [simp]: "rvFrozen (live_resolver d) = None" "rvResult (live_resolver d) = d"
  by (simp_all add: live_resolver_def)

lemma epoch_inv_same:
  assumes "epoch_inv s" "rtEpochs s' = rtEpochs s" "rtEpochSeq s' = rtEpochSeq s" "rtTurns s' = rtTurns s"
    "genResult (rtCurrent s') = genResult (rtCurrent s)"
  shows "epoch_inv s'"
proof -
  have "epoch_ok s' n e = epoch_ok s n e" for n e using assms(2-5) unfolding epoch_ok_def by simp
  then show ?thesis using assms(1-4) unfolding epoch_inv_def by simp
qed

lemma turn_inv_same:
  assumes "turn_inv s" "rtEpochs s' = rtEpochs s" "rtEpochSeq s' = rtEpochSeq s" "rtTurns s' = rtTurns s"
    and "\<And>t tn a. fmlookup (rtTurns s) t = Some tn \<Longrightarrow> rtClosed s \<or> served s (tnAgent tn) a \<Longrightarrow> rtClosed s' \<or> served s' (tnAgent tn) a"
  shows "turn_inv s'"
  unfolding turn_inv_def
proof (intro allI impI)
  fix t tn a e
  assume "fmlookup (rtTurns s') t = Some tn \<and> tnInst tn = Some a \<and> tnCurrent tn \<and> fmlookup (rtEpochs s') (tnEpoch tn) = Some e"
  then have t: "fmlookup (rtTurns s) t = Some tn" and "turn_ok s tn e a"
    using assms(1-4) by (auto simp: turn_inv_def)
  then show "turn_ok s' tn e a" using assms(3) assms(5) [OF t, of a] by (auto simp: turn_ok_def split: if_splits)
qed

lemma served_same:
  assumes "rtPending s' = rtPending s" "rtRegistry s' = rtRegistry s" "rtCurrent s' = rtCurrent s"
  shows "served s' = served s"
  unfolding served_def assms by (rule refl)

lemma view_inv_same:
  assumes "view_inv s" "rtResult s' = rtResult s" "rtCurrent s' = rtCurrent s" "rtRegistry s' = rtRegistry s" "rtClosed s' = rtClosed s"
    "rtPending s' = rtPending s"
  shows "view_inv s'"
  using assms(1) unfolding view_inv_def steady_def assms(2-) .

lemma view_base: "view_inv s \<Longrightarrow> rtResult s = genResult (rtCurrent s) \<and> owned_agents (genResult (rtCurrent s)) \<and> reg_ok (rtRegistry s)"
  by (auto simp: view_inv_def)

lemma view_steady: "view_inv s \<Longrightarrow> rtPending s = PNone \<Longrightarrow> \<not> rtClosed s \<Longrightarrow> steady s"
  by (simp add: view_inv_def)

subsection \<open>Registering and removing\<close>

lemma rt_inv_quiet:
  assumes "rt_inv s" "serving s' = serving s" "waiting s' = waiting s" "made s' = made s" "released s' = released s"
    and "rtBound s' = rtBound s" "rtBuilt s' = rtBuilt s" "rtNextGen s' = rtNextGen s"
    and "view_inv s'" "epoch_inv s'" "turn_inv s'"
  shows "rt_inv s'"
  using assms by (simp add: rt_inv_def own_inv_def)

lemma rt_inv_bound_closed:
  assumes i: "rt_inv s" and bs: "distinct bs" "set bs \<inter> set (rtBound s) = {}" "0 \<notin> set bs"
    and ds: "ds = [] \<or> ds = [Suc (rtNextGen s)]" and n: "k = rtNextGen s \<and> ds = [] \<or> k = Suc (rtNextGen s)"
    and s': "s' = s\<lparr>rtRemoved := R, rtBound := rtBound s @ bs, rtBuilt := rtBuilt s @ ds, rtInstClosed := rtInstClosed s @ bs,
       rtDepClosed := rtDepClosed s @ ds, rtNextGen := k, rtEvents := ev\<rparr>"
  shows "rt_inv s'"
proof -
  have o: "own_inv s" "view_inv s" "epoch_inv s" "turn_inv s" using i by (simp_all add: rt_inv_def)
  have "made s' = made s + image_mset Inst (mset bs) + image_mset Dep (mset ds)" by (simp add: s' made_def)
  moreover have "released s' = released s + image_mset Inst (mset bs) + image_mset Dep (mset ds)" by (simp add: s' released_def)
  moreover have "serving s' = serving s" "waiting s' = waiting s" by (simp_all add: s' serving_def waiting_def)
  moreover have "made s = serving s + waiting s + released s" using o(1) by (simp add: own_inv_def)
  ultimately have eq: "made s' = serving s' + waiting s' + released s'" by simp
  have le: "m \<le> rtNextGen s" if "m \<in> set (rtBuilt s)" for m using o(1) that by (simp add: own_inv_def)
  have "Suc (rtNextGen s) \<notin> set (rtBuilt s)" using le [of "Suc (rtNextGen s)"] by auto
  then have "distinct (rtBuilt s')" "\<forall>m\<in>set (rtBuilt s'). m \<le> rtNextGen s'"
    using ds n o(1) by (auto simp: s' own_inv_def intro: le_SucI)
  moreover have "distinct (rtBound s')" "0 \<notin> set (rtBound s')" using bs o(1) by (auto simp: s' own_inv_def)
  ultimately have "own_inv s'" using eq by (simp add: own_inv_def)
  moreover have "view_inv s'" by (rule view_inv_same [OF o(2)]) (simp_all add: s')
  moreover have "epoch_inv s'" by (rule epoch_inv_same [OF o(3)]) (simp_all add: s')
  moreover have "served s' = served s" by (rule served_same) (simp_all add: s')
  then have "turn_inv s'" by (intro turn_inv_same [OF o(4)]) (simp_all add: s')
  ultimately show ?thesis by (simp add: rt_inv_def)
qed

lemma reg_ok_upd: "reg_ok r \<Longrightarrow> n \<noteq> [] \<Longrightarrow> aiID (deInstance e) = n \<Longrightarrow> reg_ok (r\<lparr>ragents := fmupd n e (ragents r)\<rparr>)"
  by (auto simp: reg_ok_def)

lemma reg_ok_drop: "reg_ok r \<Longrightarrow> reg_ok (r\<lparr>ragents := fmdrop n (ragents r)\<rparr>)"
  by (auto simp: reg_ok_def split: if_splits)

lemma rt_inv_register:
  assumes i: "rt_inv s" and p: "rtPending s = PNone" and fr: "\<And>a. rgBind an = Inr a \<Longrightarrow> fresh_inst name s a"
  shows "rt_inv (snd (RegisterAgent name def tool an s))"
proof (rule RegisterAgent_cases [OF refl, of name "def" tool an s])
  assume "snd (RegisterAgent name def tool an s) = s"
  then show ?thesis using i by simp
next
  fix a
  assume a: "rgBind an = Inr a"
    and s': "snd (RegisterAgent name def tool an s) = s\<lparr>rtBound := rtBound s @ [aiNo a], rtInstClosed := rtInstClosed s @ [aiNo a]\<rparr>"
  then have "aiNo a \<noteq> 0" "aiNo a \<notin> set (rtBound s)" using fr by (auto simp: fresh_inst_def)
  then show ?thesis unfolding s'
    by (intro rt_inv_bound_closed [OF i, where bs = "[aiNo a]" and ds = "[]" and k = "rtNextGen s" and R = "rtRemoved s" and ev = "rtEvents s"]) simp_all
next
  fix a
  let ?e = "\<lparr>deInstance = a, deDefinition = def, deToolAssembly = tool\<rparr>"
  assume ok: "rgBind an = Inr a" "\<not> rtClosed s" "name \<noteq> []" "fmlookup (ragents (rtRegistry s)) name = None"
    "snd (RegisterAgent name def tool an s) = s\<lparr>rtRegistry := (rtRegistry s)\<lparr>ragents := fmupd name ?e (ragents (rtRegistry s))\<rparr>,
       rtLive := rtLive (snd (RegisterAgent name def tool an s)), rtRemoved := rtRemoved s - {name}, rtBound := rtBound s @ [aiNo a],
       rtEvents := rtEvents s @ [Registered name]\<rparr>"
  let ?s' = "snd (RegisterAgent name def tool an s)"
  define s' where "s' = ?s'"
  note s' = ok(5) [folded s'_def]
  have f: "aiNo a \<noteq> 0" "aiNo a \<notin> set (rtBound s)" "aiID a = name" using fr [OF ok(1)] by (auto simp: fresh_inst_def)
  have o: "own_inv s" "view_inv s" "epoch_inv s" "turn_inv s" using i by (simp_all add: rt_inv_def)
  note st = view_steady [OF o(2) p ok(2)]
  have reg: "rtRegistry s' = (rtRegistry s)\<lparr>ragents := fmupd name ?e (ragents (rtRegistry s))\<rparr>" by (subst s') simp
  have same: "rtEpochs s' = rtEpochs s" "rtEpochSeq s' = rtEpochSeq s" "rtTurns s' = rtTurns s" "rtCurrent s' = rtCurrent s"
    "rtResult s' = rtResult s" "rtPending s' = PNone" "rtClosed s' = rtClosed s" "rtDue s' = rtDue s" "rtBound s' = rtBound s @ [aiNo a]"
    "rtBuilt s' = rtBuilt s" "rtInstClosed s' = rtInstClosed s" "rtDepClosed s' = rtDepClosed s" "rtNextGen s' = rtNextGen s"
    using p by (subst s', simp)+
  have "own_inv s'"
    using o(1) f p by (simp add: own_inv_def made_def serving_def waiting_def released_def same reg reg_own_new [OF ok(4)] ok(2) pend_own_def)
  moreover have "view_inv s'"
    using view_base [OF o(2)] st f(3) reg_ok_upd [of "rtRegistry s" name ?e] ok(2,3) by (simp add: view_inv_def same reg steady_def)
  moreover have "epoch_inv s'" by (rule epoch_inv_same [OF o(3)]) (simp_all add: same)
  moreover have "turn_inv s'"
    by (rule turn_inv_same [OF o(4)]) (use ok(2,4) in \<open>auto simp: same served_def p reg Dynamic_def split: if_splits\<close>)
  ultimately show ?thesis by (simp add: rt_inv_def s'_def)
qed

lemma rt_inv_unregister:
  assumes i: "rt_inv s" and p: "rtPending s = PNone"
  shows "rt_inv (snd (Unregister_begin name opts s))"
  using Unregister_begin_cases [of name opts s]
proof (elim disjE exE conjE)
  assume "snd (Unregister_begin name opts s) = s"
  then show ?thesis using i by simp
next
  fix e
  assume c: "\<not> rtClosed s" "name \<noteq> []" "fmlookup (ragents (rtRegistry s)) name = Some e"
    and s': "snd (Unregister_begin name opts s) =
      s\<lparr>rtRegistry := (rtRegistry s)\<lparr>ragents := fmdrop name (ragents (rtRegistry s))\<rparr>, rtPending := PRemove name e\<rparr>"
  have o: "own_inv s" "view_inv s" "epoch_inv s" "turn_inv s" using i by (simp_all add: rt_inv_def)
  show ?thesis unfolding s'
  proof (rule rt_inv_quiet [OF i], goal_cases)
    case 1
    show ?case using c p reg_own_drop [OF c(3)] by (simp add: serving_def pend_own_def)
  next
    case 8
    have "aiID (deInstance e) = name" using o(2) c(3) by (simp add: view_inv_def reg_ok_def)
    then show ?case
      using view_base [OF o(2)] view_steady [OF o(2) p c(1)] c reg_ok_drop [of "rtRegistry s" name] by (simp add: view_inv_def steady_def)
  next
    case 9
    show ?case by (rule epoch_inv_same [OF o(3)]) simp_all
  next
    case 10
    show ?case by (rule turn_inv_same [OF o(4)]) (use c in \<open>auto simp: served_def p Dynamic_def\<close>)
  qed (simp_all add: waiting_def made_def released_def)
qed

lemma rt_inv_unregistered:
  assumes i: "rt_inv s" and p: "rtPending s = PRemove name entry" and idle: "drain = None \<Longrightarrow> agent_idle name s \<and> \<not> refused"
  shows "rt_inv (snd (Unregister_end drain refused closing s))"
proof -
  have o: "own_inv s" "view_inv s" "epoch_inv s" "turn_inv s" using i by (simp_all add: rt_inv_def)
  have nc: "\<not> rtClosed s" using o(2) p by (auto simp: view_inv_def)
  then have v: "steady s" "fmlookup (ragents (rtRegistry s)) name = None" "name \<noteq> []" "aiID (deInstance entry) = name"
    using o(2) p by (simp_all add: view_inv_def)
  show ?thesis
    using Unregister_end_cases [OF p v(2,3), of drain refused closing]
  proof (elim disjE exE conjE)
    fix R
    assume s': "snd (Unregister_end drain refused closing s) =
        s\<lparr>rtPending := PNone, rtRemoved := R, rtRegistry := (rtRegistry s)\<lparr>ragents := fmupd name entry (ragents (rtRegistry s))\<rparr>\<rparr>"
    show ?thesis unfolding s'
    proof (rule rt_inv_quiet [OF i], goal_cases)
      case 1
      show ?case using nc p reg_own_new [OF v(2)] by (simp add: serving_def pend_own_def)
    next
      case 8
      show ?case using view_base [OF o(2)] v reg_ok_upd [of "rtRegistry s" name entry] nc by (simp add: view_inv_def steady_def)
    next
      case 9
      show ?case by (rule epoch_inv_same [OF o(3)]) simp_all
    next
      case 10
      show ?case by (rule turn_inv_same [OF o(4)]) (use nc v in \<open>auto simp: served_def p Dynamic_def split: if_splits\<close>)
    qed (simp_all add: waiting_def made_def released_def)
  next
    fix R cat ev
    assume d: "drain = None" and s': "snd (Unregister_end drain refused closing s) =
        s\<lparr>rtPending := PNone, rtRemoved := R, rtLive := cat, rtInstClosed := rtInstClosed s @ [aiNo (deInstance entry)], rtEvents := ev\<rparr>"
    let ?s = "s\<lparr>rtPending := PNone, rtRemoved := R, rtLive := cat, rtInstClosed := rtInstClosed s @ [aiNo (deInstance entry)], rtEvents := ev\<rparr>"
    have "own_inv ?s" using o(1) nc p by (simp add: own_inv_def made_def serving_def waiting_def released_def pend_own_def)
    moreover have "view_inv ?s" using view_base [OF o(2)] v nc by (simp add: view_inv_def steady_def)
    moreover have "epoch_inv ?s" by (rule epoch_inv_same [OF o(3)]) simp_all
    moreover have "turn_inv ?s"
    proof (rule turn_inv_same [OF o(4)])
      fix t tn a
      assume "fmlookup (rtTurns s) t = Some tn" "rtClosed s \<or> served s (tnAgent tn) a"
      then show "rtClosed ?s \<or> served ?s (tnAgent tn) a"
        using idle [OF d] by (auto simp: served_def p agent_idle_def)
    qed simp_all
    ultimately show ?thesis unfolding s' by (simp add: rt_inv_def)
  qed
qed

subsection \<open>Reloading and closing\<close>

lemma reg_ok_rebound:
  assumes "rebound an s m" "reload_ok an s" "reg_ok (rtRegistry s)" "dynamicInstances es = m"
  shows "reg_ok \<lparr>ragents = es, rdeployed = d\<rparr>"
  unfolding reg_ok_def
proof (intro allI impI)
  fix i e
  assume "fmlookup (ragents \<lparr>ragents = es, rdeployed = d\<rparr>) i = Some e"
  then have m: "fmlookup m i = Some (deInstance e)" using assms(4) by auto
  then have "fresh_inst i s (deInstance e)" "fmlookup (ragents (rtRegistry s)) i \<noteq> None"
    using assms(1,2) by (auto simp: rebound_def reload_ok_def)
  then show "i \<noteq> [] \<and> aiID (deInstance e) = i" using assms(3) by (auto simp: reg_ok_def fresh_inst_def)
qed

lemma rt_inv_reload:
  assumes i: "rt_inv s" and p: "rtPending s = PNone" and ok: "reload_ok an s"
  shows "rt_inv (snd (Reload_begin an s))"
proof (cases "rtClosed s")
  case True
  then show ?thesis using i by (simp add: Reload_begin_def)
next
  case nc: False
  have o: "own_inv s" "view_inv s" "epoch_inv s" "turn_inv s" using i by (simp_all add: rt_inv_def)
  note st = view_steady [OF o(2) p nc]
  obtain res s' where r: "Reload_begin an s = (res, s')" by fastforce
  have "rt_inv s'"
  proof (rule Reload_cases [OF r st ok])
    fix e R m ds drd
    assume a: "rebound an s m" "ds = [] \<and> m = fmempty \<or> ds = [Suc (rtNextGen s)]"
      "s' = undone R (insts_in_order m) ds [Started (Suc (rtNextGen s)), Failed (Suc (rtNextGen s)) drd e]
         (s\<lparr>rtNextGen := Suc (rtNextGen s), rtBuilt := rtBuilt s @ ds\<rparr>)"
    show ?thesis
      by (rule rt_inv_bound_closed [OF i rebound_distinct [OF a(1) ok], where ds = ds and k = "Suc (rtNextGen s)" and R = R
            and ev = "rtEvents s @ [Started (Suc (rtNextGen s)), Failed (Suc (rtNextGen s)) drd e]"])
        (use a(2) in \<open>auto simp: a(3) undone_def\<close>)
  next
    fix R rb att drd result
    assume a: "raBuild an = Inr result" "dpNo result = Suc (rtNextGen s)" "rebound an s (rbBound rb)"
      "dynamicInstances (rbEntries rb) = rbBound rb"
      "s' = swapping R an result rb att drd
         (s\<lparr>rtNextGen := Suc (rtNextGen s), rtEvents := rtEvents s @ [Started (Suc (rtNextGen s))], rtBuilt := rtBuilt s @ [dpNo result]\<rparr>)"
    let ?ad = "dynamicInstances (ragents (rtRegistry s))"
    have f: "rtEpochs s' = rtEpochs s" "rtEpochSeq s' = rtEpochSeq s" "rtTurns s' = rtTurns s" "rtDue s' = rtDue s"
      "rtResult s' = rtResult s" "\<not> rtClosed s'" "rtBound s' = rtBound s @ insts_in_order (rbBound rb)"
      "rtBuilt s' = rtBuilt s @ [Suc (rtNextGen s)]" "rtNextGen s' = Suc (rtNextGen s)" "rtInstClosed s' = rtInstClosed s"
      "rtDepClosed s' = rtDepClosed s" "rtRegistry s' = \<lparr>ragents = rbEntries rb, rdeployed = result\<rparr>"
      "genResult (rtCurrent s') = genResult (rtCurrent s)" "genAdopted (rtCurrent s') = ?ad"
      using nc by (simp_all add: a(5,2) swapping_def Let_def freezeTargetViews_def gen_freeze_def)
    obtain q where q: "rtPending s' = PSwap q" "swOld q = rtCurrent s'" "genAdopted (swGen q) = fmempty"
      "genResolver (swGen q) = live_resolver result" "genDir (swGen q) = raDir an" "genResult (swGen q) = result"
      by (simp add: a(5) swapping_def Let_def)
    have "gen_own (rtCurrent s') = gen_own (rtCurrent s) + reg_own (ragents (rtRegistry s))"
      using st by (simp add: gen_own_def f reg_own_def steady_def)
    then have "serving s' = serving s + insts (rbBound rb) + {#Dep (Suc (rtNextGen s))#}"
      using nc p a(2,4) by (simp add: serving_def f q pend_own_def reg_own_def)
    moreover have "made s' = made s + insts (rbBound rb) + {#Dep (Suc (rtNextGen s))#}"
      by (simp add: made_def f insts_in_order_own)
    moreover have "Suc (rtNextGen s) \<notin> set (rtBuilt s)" using o(1) by (auto simp: own_inv_def)
    ultimately have "own_inv s'"
      using o(1) rebound_distinct [OF a(3) ok] by (auto simp: own_inv_def waiting_def released_def f)
    moreover have "view_inv s'"
    proof -
      have "dir_live (raDir an)" "owned_agents result" using ok a(1) by (auto simp: reload_ok_def)
      moreover have "reg_ok (rtRegistry s')"
        using reg_ok_rebound [OF a(3) ok _ a(4)] view_base [OF o(2)] by (simp add: f)
      ultimately show ?thesis using view_base [OF o(2)] by (simp add: view_inv_def f q)
    qed
    moreover have "epoch_inv s'" by (rule epoch_inv_same [OF o(3)]) (simp_all add: f)
    moreover have "turn_inv s'"
      by (rule turn_inv_same [OF o(4)]) (use nc in \<open>auto simp: f q served_def p Dynamic_def\<close>)
    ultimately show ?thesis by (simp add: rt_inv_def)
  qed (use i in simp)
  then show ?thesis using r by simp
qed

lemma rt_inv_drain:
  assumes i: "rt_inv s"
  shows "rt_inv (s\<lparr>rtDraining := True\<rparr>)"
proof (rule rt_inv_quiet [OF i])
  have o: "view_inv s" "epoch_inv s" "turn_inv s" using i by (simp_all add: rt_inv_def)
  show "view_inv (s\<lparr>rtDraining := True\<rparr>)" by (rule view_inv_same [OF o(1)]) simp_all
  show "epoch_inv (s\<lparr>rtDraining := True\<rparr>)" by (rule epoch_inv_same [OF o(2)]) simp_all
  have "served (s\<lparr>rtDraining := True\<rparr>) = served s" by (rule served_same) simp_all
  then show "turn_inv (s\<lparr>rtDraining := True\<rparr>)" by (intro turn_inv_same [OF o(3)]) simp_all
qed (simp_all add: serving_def waiting_def made_def released_def)

subsection \<open>Turns\<close>

lemma hooks_upd:
  assumes "fmlookup m n = Some e" "hook_own e' = hook_own e"
  shows "fm_sum hook_own (fmupd n e' m) = fm_sum hook_own m"
  using fm_sum_drop [OF assms(1), of hook_own] by (simp add: fm_sum_upd assms(2))

lemma turn_ok_refs: "turn_ok s tn (e\<lparr>epRefs := r\<rparr>) a = turn_ok s tn e a"
  by (simp add: turn_ok_def)

lemma turn_ok_same:
  assumes "rtEpochSeq s' = rtEpochSeq s" "rtClosed s' = rtClosed s" "served s' = served s"
  shows "turn_ok s' = turn_ok s"
  unfolding turn_ok_def assms by (rule refl)

text \<open>What a step of a turn has to show: the counts fit, the rest of each epoch is as it was, every turn has an epoch and what it
  resolved is kept.\<close>

lemma rt_inv_turn:
  assumes i: "rt_inv s" and s': "s' = s\<lparr>rtTurns := T, rtEpochs := E, rtDue := D\<rparr>" and w: "waiting s' = waiting s"
    and sq: "fmlookup E (rtEpochSeq s) \<noteq> None"
    and E: "\<And>n x. fmlookup E n = Some x \<Longrightarrow> epRefs x = fm_count (\<lambda>tn. tnEpoch tn = n) T \<and> (n \<noteq> rtEpochSeq s \<longrightarrow> 0 < epRefs x) \<and>
      (\<exists>r. fmlookup (rtEpochs s) n = Some (x\<lparr>epRefs := r\<rparr>))"
    and T: "\<And>t tn. fmlookup T t = Some tn \<Longrightarrow> fmlookup E (tnEpoch tn) \<noteq> None"
    and C: "\<And>t tn a e. fmlookup T t = Some tn \<Longrightarrow> tnInst tn = Some a \<Longrightarrow> tnCurrent tn \<Longrightarrow> fmlookup (rtEpochs s) (tnEpoch tn) = Some e \<Longrightarrow> turn_ok s tn e a"
  shows "rt_inv s'"
proof (rule rt_inv_quiet [OF i _ w])
  have o: "view_inv s" "epoch_inv s" using i by (simp_all add: rt_inv_def)
  show "view_inv s'" by (rule view_inv_same [OF o(1)]) (simp_all add: s')
  have "epoch_ok s' n x" if x: "fmlookup E n = Some x" for n x
  proof -
    obtain r where "fmlookup (rtEpochs s) n = Some (x\<lparr>epRefs := r\<rparr>)" using E [OF x] by blast
    then have "epoch_ok s n (x\<lparr>epRefs := r\<rparr>)" using o(2) by (simp add: epoch_inv_def)
    then show ?thesis using E [OF x] by (cases "n = rtEpochSeq s") (auto simp: epoch_ok_def s')
  qed
  then show "epoch_inv s'" unfolding epoch_inv_def using sq T by (simp add: s')
  have sv: "served s' = served s" by (rule served_same) (simp_all add: s')
  have tk: "turn_ok s' = turn_ok s" by (rule turn_ok_same) (simp_all add: sv, simp_all add: s')
  show "turn_inv s'" unfolding turn_inv_def tk
  proof (intro allI impI)
    fix t tn a x
    assume u: "fmlookup (rtTurns s') t = Some tn \<and> tnInst tn = Some a \<and> tnCurrent tn \<and> fmlookup (rtEpochs s') (tnEpoch tn) = Some x"
    then obtain r where "fmlookup (rtEpochs s) (tnEpoch tn) = Some (x\<lparr>epRefs := r\<rparr>)" using E [of "tnEpoch tn" x] by (auto simp: s')
    then have "turn_ok s tn (x\<lparr>epRefs := r\<rparr>) a" using C [of t tn a] u by (simp add: s')
    then show "turn_ok s tn x a" by (simp add: turn_ok_refs)
  qed
qed (simp_all add: s' serving_def made_def released_def)

lemma epoch_refs_same: "fmlookup m n = Some x \<Longrightarrow> \<exists>r. fmlookup m n = Some (x\<lparr>epRefs := r\<rparr>)"
  by (rule exI [of _ "epRefs x"]) simp

lemma epoch_ok_refs:
  "epoch_inv s \<Longrightarrow> fmlookup (rtEpochs s) n = Some x \<Longrightarrow> epRefs x = fm_count (\<lambda>tn. tnEpoch tn = n) (rtTurns s) \<and> (n \<noteq> rtEpochSeq s \<longrightarrow> 0 < epRefs x)"
  by (auto simp: epoch_inv_def epoch_ok_def split: if_splits)

lemma epoch_kept:
  assumes "epoch_inv s" "fmlookup (rtEpochs s) n = Some x" "fm_count (\<lambda>tn. tnEpoch tn = n) T = fm_count (\<lambda>tn. tnEpoch tn = n) (rtTurns s)"
  shows "epRefs x = fm_count (\<lambda>tn. tnEpoch tn = n) T \<and> (n \<noteq> rtEpochSeq s \<longrightarrow> 0 < epRefs x) \<and>
    (\<exists>r. fmlookup (rtEpochs s) n = Some (x\<lparr>epRefs := r\<rparr>))"
  unfolding assms(3) using epoch_ok_refs [OF assms(1,2)] epoch_refs_same [OF assms(2)] by blast

lemma rt_inv_begin:
  assumes i: "rt_inv s" and b: "beginEpoch t name s = Some s'"
  shows "rt_inv s'"
proof -
  have o: "epoch_inv s" "turn_inv s" using i by (simp_all add: rt_inv_def)
  let ?tn = "\<lparr>tnEpoch = rtEpochSeq s, tnAgent = name, tnInst = None, tnCurrent = False\<rparr>"
  obtain e where e: "fmlookup (rtEpochs s) (rtEpochSeq s) = Some e" and nt: "fmlookup (rtTurns s) t = None"
    and s': "s' = s\<lparr>rtEpochs := fmupd (rtEpochSeq s) (e\<lparr>epRefs := Suc (epRefs e)\<rparr>) (rtEpochs s), rtTurns := fmupd t ?tn (rtTurns s)\<rparr>"
    using b by (auto simp: beginEpoch_def split: if_splits option.splits)
  note cnt = fm_count_new [OF nt, of "\<lambda>tn. tnEpoch tn = n" ?tn for n]
  show ?thesis
  proof (rule rt_inv_turn [OF i, where D = "rtDue s"])
    show "s' = s\<lparr>rtTurns := fmupd t ?tn (rtTurns s), rtEpochs := fmupd (rtEpochSeq s) (e\<lparr>epRefs := Suc (epRefs e)\<rparr>) (rtEpochs s), rtDue := rtDue s\<rparr>"
      by (simp add: s')
    show "waiting s' = waiting s"
      using hooks_upd [OF e, of "e\<lparr>epRefs := Suc (epRefs e)\<rparr>"] by (simp add: s' waiting_def hook_own_def)
    show "epRefs x = fm_count (\<lambda>tn. tnEpoch tn = n) (fmupd t ?tn (rtTurns s)) \<and> (n \<noteq> rtEpochSeq s \<longrightarrow> 0 < epRefs x) \<and>
        (\<exists>r. fmlookup (rtEpochs s) n = Some (x\<lparr>epRefs := r\<rparr>))"
      if x: "fmlookup (fmupd (rtEpochSeq s) (e\<lparr>epRefs := Suc (epRefs e)\<rparr>) (rtEpochs s)) n = Some x" for n x
    proof (cases "n = rtEpochSeq s")
      case True
      then have "x = e\<lparr>epRefs := Suc (epRefs e)\<rparr>" using x by simp
      then show ?thesis using epoch_ok_refs [OF o(1) e] cnt True epoch_refs_same [OF e] e by simp
    next
      case False
      then have "fmlookup (rtEpochs s) n = Some x" using x by simp
      then show ?thesis by (rule epoch_kept [OF o(1)]) (use cnt [of n] False in simp)
    qed
    show "turn_ok s tn y a" if "fmlookup (fmupd t ?tn (rtTurns s)) k = Some tn" "tnInst tn = Some a" "tnCurrent tn"
      "fmlookup (rtEpochs s) (tnEpoch tn) = Some y" for k tn a y
      using that o(2) by (cases "k = t") (auto simp: turn_inv_def)
  qed (use o(1) in \<open>auto simp: epoch_inv_def split: if_splits\<close>)
qed

lemma resolved_ok:
  assumes i: "rt_inv s" and e: "fmlookup (rtEpochs s) (tnEpoch tn) = Some e"
    and a: "resolver_Instance (rtRegistry s) (epResolver e) (tnAgent tn) = Some a" and q: "tnEpoch tn = rtEpochSeq s" "\<And>p. rtPending s \<noteq> PSwap p"
  shows "turn_ok s tn e a"
proof -
  have o: "view_inv s" "epoch_inv s" using i by (simp_all add: rt_inv_def)
  have "rvFrozen (epResolver e) = None" using o(2) e by (simp add: epoch_inv_def epoch_ok_def)
  then consider "Dynamic (rtRegistry s) (tnAgent tn) = Some a" | "fmlookup (dpAgents (rvResult (epResolver e))) (tnAgent tn) = Some a"
    using a by (auto simp: resolver_Instance_def split: option.splits)
  then show ?thesis
  proof cases
    case 1
    have "rtClosed s \<or> served s (tnAgent tn) a"
      using 1 q(2) o(1) by (auto simp: served_def view_inv_def Dynamic_def split: pending.splits)
    then show ?thesis using q(1) by (simp add: turn_ok_def)
  qed (simp add: turn_ok_def)
qed

lemma rt_inv_resolve:
  assumes i: "rt_inv s" and r: "resolve_turn t s = Some s'"
  shows "rt_inv s'"
proof -
  have o: "epoch_inv s" "turn_inv s" using i by (simp_all add: rt_inv_def)
  obtain tn e a where tn: "fmlookup (rtTurns s) t = Some tn" and e: "fmlookup (rtEpochs s) (tnEpoch tn) = Some e"
    and a: "resolver_Instance (rtRegistry s) (epResolver e) (tnAgent tn) = Some a"
    and s'0: "s' = s\<lparr>rtTurns := fmupd t (tn\<lparr>tnInst := Some a,
       tnCurrent := (tnEpoch tn = rtEpochSeq s \<and> (case rtPending s of PSwap p \<Rightarrow> False | _ \<Rightarrow> True))\<rparr>) (rtTurns s)\<rparr>"
    using r by (auto simp: resolve_turn_def split: option.splits if_splits)
  define c where "c = (tnEpoch tn = rtEpochSeq s \<and> (case rtPending s of PSwap p \<Rightarrow> False | _ \<Rightarrow> True))"
  let ?tn = "tn\<lparr>tnInst := Some a, tnCurrent := c\<rparr>"
  note s' = s'0 [folded c_def]
  have cnt: "fm_count (\<lambda>x. tnEpoch x = n) (fmupd t ?tn (rtTurns s)) = fm_count (\<lambda>x. tnEpoch x = n) (rtTurns s)" for n
    using fm_count_upd [OF tn, of "\<lambda>x. tnEpoch x = n" ?tn] by simp
  show ?thesis
  proof (rule rt_inv_turn [OF i, where D = "rtDue s"])
    show "s' = s\<lparr>rtTurns := fmupd t ?tn (rtTurns s), rtEpochs := rtEpochs s, rtDue := rtDue s\<rparr>" by (simp add: s')
    show "waiting s' = waiting s" by (simp add: s' waiting_def)
    show "epRefs x = fm_count (\<lambda>tn. tnEpoch tn = n) (fmupd t ?tn (rtTurns s)) \<and> (n \<noteq> rtEpochSeq s \<longrightarrow> 0 < epRefs x) \<and>
        (\<exists>r. fmlookup (rtEpochs s) n = Some (x\<lparr>epRefs := r\<rparr>))" if "fmlookup (rtEpochs s) n = Some x" for n x
      by (rule epoch_kept [OF o(1) that cnt])
    show "turn_ok s x y b" if u: "fmlookup (fmupd t ?tn (rtTurns s)) k = Some x" "tnInst x = Some b" "tnCurrent x"
      "fmlookup (rtEpochs s) (tnEpoch x) = Some y" for k x b y
    proof (cases "k = t")
      case True
      then have x: "x = ?tn" "b = a" c "y = e" using u e by auto
      have "turn_ok s tn e a" by (rule resolved_ok [OF i e a]) (use x(3) in \<open>auto simp: c_def\<close>)
      moreover have "turn_ok s ?tn e a = turn_ok s tn e a" by (simp add: turn_ok_def)
      ultimately show ?thesis using x by simp
    qed (use u o(2) in \<open>auto simp: turn_inv_def\<close>)
    show "fmlookup (rtEpochs s) (tnEpoch x) \<noteq> None" if "fmlookup (fmupd t ?tn (rtTurns s)) k = Some x" for k x
      using that o(1) e by (auto simp: epoch_inv_def split: if_splits)
  qed (use o(1) in \<open>simp add: epoch_inv_def\<close>)
qed

text \<open>The two ways a turn ends: its epoch stays, with one reference less, or goes, and its hook becomes due.\<close>

lemma end_turn_cases:
  assumes i: "epoch_inv s" and r: "end_turn t s = Some s'"
  obtains (stays) tn e where "fmlookup (rtTurns s) t = Some tn" "fmlookup (rtEpochs s) (tnEpoch tn) = Some e"
      "tnEpoch tn \<noteq> rtEpochSeq s \<longrightarrow> 1 < epRefs e"
      "s' = s\<lparr>rtTurns := fmdrop t (rtTurns s), rtEpochs := fmupd (tnEpoch tn) (e\<lparr>epRefs := epRefs e - 1\<rparr>) (rtEpochs s)\<rparr>"
  | (goes) tn e g where "fmlookup (rtTurns s) t = Some tn" "fmlookup (rtEpochs s) (tnEpoch tn) = Some e" "epHook e = Some g" "epRefs e = 1"
      "tnEpoch tn \<noteq> rtEpochSeq s"
      "s' = s\<lparr>rtTurns := fmdrop t (rtTurns s), rtEpochs := fmdrop (tnEpoch tn) (rtEpochs s), rtDue := rtDue s @ [g]\<rparr>"
proof -
  obtain tn where tn: "fmlookup (rtTurns s) t = Some tn"
    and s': "s' = endEpoch (tnEpoch tn) (s\<lparr>rtTurns := fmdrop t (rtTurns s)\<rparr>)"
    using r by (auto simp: end_turn_def split: option.splits)
  have "fmlookup (rtEpochs s) (tnEpoch tn) \<noteq> None" using i tn unfolding epoch_inv_def by blast
  then obtain e where e: "fmlookup (rtEpochs s) (tnEpoch tn) = Some e" by blast
  have ok: "epoch_ok s (tnEpoch tn) e" using i e by (simp add: epoch_inv_def)
  have pos: "epRefs e > 0"
    using ok fm_count_pos [OF tn, of "\<lambda>x. tnEpoch x = tnEpoch tn"] by (simp add: epoch_ok_def)
  show thesis
  proof (cases "1 < epRefs e \<or> epHook e = None")
    case True
    then show thesis using ok pos by (intro stays [OF tn e]) (auto simp: s' endEpoch_def Let_def e epoch_ok_def)
  next
    case False
    then obtain g where "epHook e = Some g" "epRefs e = 1" using pos by fastforce
    then show thesis using ok by (intro goes [OF tn e]) (auto simp: s' endEpoch_def Let_def e epoch_ok_def)
  qed
qed

lemma rt_inv_end:
  assumes i: "rt_inv s" and r: "end_turn t s = Some s'"
  shows "rt_inv s'"
proof -
  have o: "epoch_inv s" "turn_inv s" using i by (simp_all add: rt_inv_def)
  have C: "turn_ok s x y b" if "fmlookup (fmdrop t (rtTurns s)) k = Some x" "tnInst x = Some b" "tnCurrent x"
      "fmlookup (rtEpochs s) (tnEpoch x) = Some y" for k x b y
    using that o(2) by (auto simp: turn_inv_def split: if_splits)
  have T: "fmlookup (rtEpochs s) (tnEpoch x) \<noteq> None" if "fmlookup (fmdrop t (rtTurns s)) k = Some x" for k x
    using that o(1) unfolding epoch_inv_def by (auto split: if_splits)
  show ?thesis
  proof (rule end_turn_cases [OF o(1) r])
    fix tn e
    assume tn: "fmlookup (rtTurns s) t = Some tn" and e: "fmlookup (rtEpochs s) (tnEpoch tn) = Some e"
      and more: "tnEpoch tn \<noteq> rtEpochSeq s \<longrightarrow> 1 < epRefs e"
      and s': "s' = s\<lparr>rtTurns := fmdrop t (rtTurns s), rtEpochs := fmupd (tnEpoch tn) (e\<lparr>epRefs := epRefs e - 1\<rparr>) (rtEpochs s)\<rparr>"
    let ?E = "fmupd (tnEpoch tn) (e\<lparr>epRefs := epRefs e - 1\<rparr>) (rtEpochs s)"
    note cnt = fm_count_drop [OF tn, of "\<lambda>x. tnEpoch x = n" for n]
    show ?thesis
    proof (rule rt_inv_turn [OF i, where D = "rtDue s" and T = "fmdrop t (rtTurns s)" and E = ?E])
      show "waiting s' = waiting s" using hooks_upd [OF e, of "e\<lparr>epRefs := epRefs e - 1\<rparr>"] by (simp add: s' waiting_def hook_own_def)
      show "epRefs x = fm_count (\<lambda>tn. tnEpoch tn = n) (fmdrop t (rtTurns s)) \<and> (n \<noteq> rtEpochSeq s \<longrightarrow> 0 < epRefs x) \<and>
          (\<exists>r. fmlookup (rtEpochs s) n = Some (x\<lparr>epRefs := r\<rparr>))" if x: "fmlookup ?E n = Some x" for n x
      proof (cases "n = tnEpoch tn")
        case True
        then have "x = e\<lparr>epRefs := epRefs e - 1\<rparr>" using x by simp
        then show ?thesis using epoch_ok_refs [OF o(1) e] cnt [of n] True more epoch_refs_same [OF e] e by simp
      next
        case False
        then have "fmlookup (rtEpochs s) n = Some x" using x by simp
        then show ?thesis by (rule epoch_kept [OF o(1)]) (use cnt [of n] False in simp)
      qed
    qed (use C T o(1) in \<open>auto simp: s' epoch_inv_def\<close>)
  next
    fix tn e g
    assume tn: "fmlookup (rtTurns s) t = Some tn" and e: "fmlookup (rtEpochs s) (tnEpoch tn) = Some e"
      and g: "epHook e = Some g" "epRefs e = 1" "tnEpoch tn \<noteq> rtEpochSeq s"
      and s': "s' = s\<lparr>rtTurns := fmdrop t (rtTurns s), rtEpochs := fmdrop (tnEpoch tn) (rtEpochs s), rtDue := rtDue s @ [g]\<rparr>"
    note cnt = fm_count_drop [OF tn, of "\<lambda>x. tnEpoch x = n" for n]
    have "fm_count (\<lambda>x. tnEpoch x = tnEpoch tn) (fmdrop t (rtTurns s)) = 0"
      using cnt [of "tnEpoch tn"] epoch_ok_refs [OF o(1) e] g(2) by simp
    then have none: "tnEpoch x \<noteq> tnEpoch tn" if "fmlookup (fmdrop t (rtTurns s)) k = Some x" for k x
      using that unfolding fm_count_zero by blast
    show ?thesis
    proof (rule rt_inv_turn [OF i s'])
      show "waiting s' = waiting s" using fm_sum_drop [OF e, of hook_own] g by (simp add: s' waiting_def hook_own_def)
      show "epRefs x = fm_count (\<lambda>tn. tnEpoch tn = n) (fmdrop t (rtTurns s)) \<and> (n \<noteq> rtEpochSeq s \<longrightarrow> 0 < epRefs x) \<and>
          (\<exists>r. fmlookup (rtEpochs s) n = Some (x\<lparr>epRefs := r\<rparr>))" if x: "fmlookup (fmdrop (tnEpoch tn) (rtEpochs s)) n = Some x" for n x
      proof -
        have "n \<noteq> tnEpoch tn" and y: "fmlookup (rtEpochs s) n = Some x" using x by (auto split: if_splits)
        then show ?thesis by (intro epoch_kept [OF o(1) y]) (use cnt [of n] in simp)
      qed
      show "fmlookup (fmdrop (tnEpoch tn) (rtEpochs s)) (tnEpoch x) \<noteq> None" if "fmlookup (fmdrop t (rtTurns s)) k = Some x" for k x
        using T [OF that] none [OF that] by simp
    qed (use C o(1) g(3) in \<open>auto simp: epoch_inv_def\<close>)
  qed
qed

subsection \<open>Retiring, swapping and closing\<close>

lemma retire_frame [simp]:
  "rtEpochs (retire g s) = rtEpochs s" "rtEpochSeq (retire g s) = rtEpochSeq s" "rtTurns (retire g s) = rtTurns s"
  "rtCurrent (retire g s) = rtCurrent s" "rtRegistry (retire g s) = rtRegistry s" "rtPending (retire g s) = rtPending s"
  "rtClosed (retire g s) = rtClosed s" "rtResult (retire g s) = rtResult s" "rtDue (retire g s) = rtDue s"
  "rtBound (retire g s) = rtBound s" "rtBuilt (retire g s) = rtBuilt s" "rtNextGen (retire g s) = rtNextGen s"
  by (simp_all add: retire_def gen_close_def close_insts_def)

lemma retire_own [simp]: "released (retire g s) = gen_own g + released s"
  by (simp add: retire_def) (simp add: released_def)

lemma rt_inv_hook:
  assumes i: "rt_inv s" and r: "run_hook s = Some s'"
  shows "rt_inv s'"
proof -
  have o: "own_inv s" "view_inv s" "epoch_inv s" "turn_inv s" using i by (simp_all add: rt_inv_def)
  obtain g gs where g: "rtDue s = g # gs" and s': "s' = retire g (s\<lparr>rtDue := gs\<rparr>)"
    using r by (auto simp: run_hook_def split: list.splits)
  have "released s' = gen_own g + released s" by (simp add: s') (simp add: released_def)
  then have "own_inv s'" using o(1) g by (simp add: own_inv_def made_def serving_def waiting_def) (simp add: s' ac_simps)
  moreover have "view_inv s'" by (rule view_inv_same [OF o(2)]) (simp_all add: s')
  moreover have "epoch_inv s'" by (rule epoch_inv_same [OF o(3)]) (simp_all add: s')
  moreover have "served s' = served s" by (rule served_same) (simp_all add: s')
  then have "turn_inv s'" by (intro turn_inv_same [OF o(4)]) (simp_all add: s')
  ultimately show ?thesis by (simp add: rt_inv_def)
qed

lemma rt_inv_close:
  assumes i: "rt_inv s" and p: "rtPending s = PNone"
  shows "rt_inv (Close_runtime s)"
proof (cases "rtClosed s")
  case True
  then show ?thesis using i by (simp add: Close_runtime_def)
next
  case nc: False
  have o: "own_inv s" "view_inv s" "epoch_inv s" "turn_inv s" using i by (simp_all add: rt_inv_def)
  note st = view_steady [OF o(2) p nc]
  define g where "g = gen_freeze (dynamicInstances (ragents (rtRegistry s))) (rtCurrent s)"
  define s' where "s' = Close_runtime s"
  have s'1: "s' = gen_close g (s\<lparr>rtClosed := True, rtCurrent := g, rtBuses := []\<rparr>)"
    using nc by (simp add: s'_def Close_runtime_def g_def Let_def)
  have gr: "genResult g = genResult (rtCurrent s)" by (simp add: g_def gen_freeze_def)
  have "gen_own g = serving s" using nc p st by (simp add: g_def gen_own_def gen_freeze_def serving_def steady_def reg_own_def pend_own_def)
  then have "released s' = serving s + released s" by (simp add: s'1) (simp add: released_def)
  moreover have "serving s' = {#}" "waiting s' = waiting s" "made s' = made s"
    by (simp_all add: s'1) (simp_all add: serving_def waiting_def made_def)
  ultimately have "own_inv s'" using o(1) by (simp add: own_inv_def) (simp add: s'1 ac_simps)
  moreover have f: "rtResult s' = rtResult s" "rtCurrent s' = g" "rtRegistry s' = rtRegistry s" "rtClosed s'" "rtPending s' = PNone"
    "rtEpochs s' = rtEpochs s" "rtEpochSeq s' = rtEpochSeq s" "rtTurns s' = rtTurns s"
    using p by (simp_all add: s'1 gen_close_def close_insts_def)
  have "view_inv s'" using view_base [OF o(2)] by (simp add: view_inv_def f gr)
  moreover have "epoch_inv s'" by (rule epoch_inv_same [OF o(3)]) (simp_all add: f gr)
  moreover have "turn_inv s'" by (rule turn_inv_same [OF o(4)]) (simp_all add: f)
  ultimately show ?thesis by (simp add: rt_inv_def s'_def)
qed

lemma Reload_end_fields:
  assumes p: "rtPending s = PSwap p" and e: "fmlookup (rtEpochs s) (rtEpochSeq s) = Some e"
    and new: "fmlookup (rtEpochs s) (Suc (rtEpochSeq s)) = None"
  defines "s' \<equiv> Reload_end s" and "fresh \<equiv> \<lparr>epResolver = genResolver (swGen p), epRefs = 0, epHook = None\<rparr>"
  shows "rtEpochSeq s' = Suc (rtEpochSeq s)" "rtTurns s' = rtTurns s" "rtCurrent s' = swGen p" "rtResult s' = genResult (swGen p)"
    "rtRegistry s' = rtRegistry s" "rtPending s' = PNone" "rtClosed s' = rtClosed s" "rtDue s' = rtDue s" "rtBound s' = rtBound s"
    "rtBuilt s' = rtBuilt s" "rtNextGen s' = rtNextGen s"
    "rtEpochs s' = fmupd (Suc (rtEpochSeq s)) fresh
       (if epRefs e = 0 then fmdrop (rtEpochSeq s) (rtEpochs s) else fmupd (rtEpochSeq s) (e\<lparr>epHook := Some (swOld p)\<rparr>) (rtEpochs s))"
    "released s' = (if epRefs e = 0 then gen_own (swOld p) else {#}) + released s"
proof -
  have s': "s' = emit (Completed (genID (swGen p)) (genID (swOld p)) (sorted_list_of_fset (fmdom (swNew p))) (sort (swDrained p)))
     ((SwapDeps (genResolver (swGen p)) (swOld p) s)\<lparr>rtCurrent := swGen p, rtResult := genResult (swGen p), rtLive := swCatalog p,
        rtInputs := swInputs p, rtPending := PNone\<rparr>)"
    by (simp add: s'_def Reload_end_def p Let_def)
  show "rtEpochs s' = fmupd (Suc (rtEpochSeq s)) fresh
       (if epRefs e = 0 then fmdrop (rtEpochSeq s) (rtEpochs s) else fmupd (rtEpochSeq s) (e\<lparr>epHook := Some (swOld p)\<rparr>) (rtEpochs s))"
    by (intro fmap_ext) (simp add: s' emit_def SwapDeps_def Let_def e fresh_def)
  have rel: "released (emit ev (x\<lparr>rtCurrent := c, rtResult := d, rtLive := l, rtInputs := j, rtPending := q\<rparr>)) = released x" for ev x c d l j q
    by (simp add: released_def emit_def)
  show "released s' = (if epRefs e = 0 then gen_own (swOld p) else {#}) + released s"
    unfolding s' rel by (simp add: SwapDeps_def Let_def e) (simp add: released_def)
qed (simp_all add: s'_def Reload_end_def p emit_def SwapDeps_def Let_def e)

lemma swap_setup:
  assumes i: "rt_inv s" and p: "rtPending s = PSwap p"
  obtains e where "\<not> rtClosed s" "swOld p = rtCurrent s" "genAdopted (swGen p) = fmempty" "genResolver (swGen p) = live_resolver (genResult (swGen p))"
    "dir_live (genDir (swGen p))" "owned_agents (genResult (swGen p))" "rdeployed (rtRegistry s) = genResult (swGen p)"
    "fmlookup (rtEpochs s) (rtEpochSeq s) = Some e" "epHook e = None" "fmlookup (rtEpochs s) (Suc (rtEpochSeq s)) = None"
proof -
  have o: "view_inv s" "epoch_inv s" using i by (simp_all add: rt_inv_def)
  have nc: "\<not> rtClosed s" using o(1) p by (auto simp: view_inv_def)
  have "fmlookup (rtEpochs s) (rtEpochSeq s) \<noteq> None" using o(2) unfolding epoch_inv_def by blast
  then obtain e where e: "fmlookup (rtEpochs s) (rtEpochSeq s) = Some e" by blast
  then have h: "epHook e = None" using o(2) by (simp add: epoch_inv_def epoch_ok_def)
  have new: "fmlookup (rtEpochs s) (Suc (rtEpochSeq s)) = None"
  proof (cases "fmlookup (rtEpochs s) (Suc (rtEpochSeq s))")
    case (Some x)
    then have "epoch_ok s (Suc (rtEpochSeq s)) x" using o(2) by (simp add: epoch_inv_def)
    then show ?thesis by (simp add: epoch_ok_def)
  qed
  show thesis by (rule that [OF nc _ _ _ _ _ _ e h new]) (use o(1) p nc in \<open>simp_all add: view_inv_def\<close>)
qed

lemma reloaded_own:
  assumes i: "rt_inv s" and p: "rtPending s = PSwap p"
  shows "own_inv (Reload_end s) \<and> view_inv (Reload_end s)"
proof (rule swap_setup [OF i p])
  fix e
  let ?n = "rtEpochSeq s" and ?s = "Reload_end s"
  assume nc: "\<not> rtClosed s" and v: "swOld p = rtCurrent s" "genAdopted (swGen p) = fmempty"
      "genResolver (swGen p) = live_resolver (genResult (swGen p))" "dir_live (genDir (swGen p))" "owned_agents (genResult (swGen p))"
      "rdeployed (rtRegistry s) = genResult (swGen p)"
    and e: "fmlookup (rtEpochs s) ?n = Some e" "epHook e = None" and new: "fmlookup (rtEpochs s) (Suc ?n) = None"
  have o: "own_inv s" "view_inv s" using i by (simp_all add: rt_inv_def)
  note f = Reload_end_fields [OF p e(1) new]
  let ?m = "if epRefs e = 0 then fmdrop ?n (rtEpochs s) else fmupd ?n (e\<lparr>epHook := Some (swOld p)\<rparr>) (rtEpochs s)"
  have "fm_sum hook_own (rtEpochs ?s) = fm_sum hook_own ?m"
    using new unfolding f(12) by (subst fm_sum_new) (auto simp: hook_own_def)
  also have "\<dots> = (if epRefs e = 0 then {#} else gen_own (rtCurrent s)) + fm_sum hook_own (fmdrop ?n (rtEpochs s))"
    by (simp add: fm_sum_upd hook_own_def v(1))
  finally have w: "waiting ?s = (if epRefs e = 0 then {#} else gen_own (rtCurrent s)) + waiting s"
    using fm_sum_drop [OF e(1), of hook_own] by (simp add: hook_own_def e(2) waiting_def f)
  have sv: "serving s = gen_own (rtCurrent s) + serving ?s"
    using nc p v(2) by (simp add: serving_def f pend_own_def gen_own_def)
  have "made ?s = made s" by (simp add: made_def f)
  then have "own_inv ?s" using o(1) w sv by (simp add: own_inv_def f v(1) ac_simps)
  moreover have "view_inv ?s" using view_base [OF o(2)] v nc by (simp add: view_inv_def f steady_def)
  ultimately show ?thesis by blast
qed

lemma reloaded_epochs:
  assumes i: "rt_inv s" and p: "rtPending s = PSwap p"
  shows "epoch_inv (Reload_end s)"
proof (rule swap_setup [OF i p])
  fix e
  let ?n = "rtEpochSeq s" and ?s = "Reload_end s"
  assume v: "swOld p = rtCurrent s" "genResolver (swGen p) = live_resolver (genResult (swGen p))" "owned_agents (genResult (swGen p))"
    and e: "fmlookup (rtEpochs s) ?n = Some e" and new: "fmlookup (rtEpochs s) (Suc ?n) = None"
  have o: "epoch_inv s" using i by (simp add: rt_inv_def)
  have ok: "epoch_ok s k x" if "fmlookup (rtEpochs s) k = Some x" for k x using o that by (simp add: epoch_inv_def)
  note f = Reload_end_fields [OF p e new]
  have "epoch_ok ?s k x" if l: "fmlookup (rtEpochs ?s) k = Some x" for k x
  proof -
    consider (new) "k = Suc ?n" | (old) "k = ?n" | (other) "k \<noteq> Suc ?n" "k \<noteq> ?n" by blast
    then show ?thesis
    proof cases
      case new
      have "fm_count (\<lambda>tn. tnEpoch tn = k) (rtTurns s) = 0"
        unfolding fm_count_zero using o \<open>fmlookup (rtEpochs s) (Suc ?n) = None\<close> new unfolding epoch_inv_def by metis
      then show ?thesis using l new v(2,3) by (simp add: epoch_ok_def f) auto
    next
      case old
      then have "epRefs e > 0" "x = e\<lparr>epHook := Some (rtCurrent s)\<rparr>" using l by (auto simp: f v(1) split: if_splits)
      then show ?thesis using ok [OF e] old by (auto simp: epoch_ok_def f)
    next
      case other
      then have "fmlookup (rtEpochs s) k = Some x" using l by (auto simp: f split: if_splits)
      from ok [OF this] show ?thesis using other by (auto simp: epoch_ok_def f)
    qed
  qed
  moreover have "fmlookup (rtEpochs ?s) (tnEpoch tn) \<noteq> None" if t: "fmlookup (rtTurns ?s) k = Some tn" for k tn
  proof -
    have "fmlookup (rtEpochs s) (tnEpoch tn) \<noteq> None" using t o unfolding epoch_inv_def f by blast
    moreover have "epRefs e > 0" if "tnEpoch tn = ?n"
      using ok [OF e] fm_count_pos [of "rtTurns s" k tn "\<lambda>tn. tnEpoch tn = ?n"] t that by (simp add: epoch_ok_def f)
    ultimately show ?thesis by (auto simp: f)
  qed
  ultimately show ?thesis unfolding epoch_inv_def by (simp add: f)
qed

lemma reloaded_turns:
  assumes i: "rt_inv s" and p: "rtPending s = PSwap p"
  shows "turn_inv (Reload_end s)"
proof (rule swap_setup [OF i p])
  fix e
  let ?n = "rtEpochSeq s" and ?s = "Reload_end s"
  assume nc: "\<not> rtClosed s" and v: "swOld p = rtCurrent s"
    and e: "fmlookup (rtEpochs s) ?n = Some e" and new: "fmlookup (rtEpochs s) (Suc ?n) = None"
  have o: "epoch_inv s" "turn_inv s" using i by (simp_all add: rt_inv_def)
  note f = Reload_end_fields [OF p e new]
  show ?thesis unfolding turn_inv_def
  proof (intro allI impI)
    fix k tn a x
    assume u: "fmlookup (rtTurns ?s) k = Some tn \<and> tnInst tn = Some a \<and> tnCurrent tn \<and> fmlookup (rtEpochs ?s) (tnEpoch tn) = Some x"
    have "fmlookup (rtEpochs s) (tnEpoch tn) \<noteq> None" using u o(1) unfolding epoch_inv_def f by blast
    then obtain y where y: "fmlookup (rtEpochs s) (tnEpoch tn) = Some y" by blast
    then have t: "turn_ok s tn y a" using o(2) u unfolding turn_inv_def f by blast
    have F: "tnEpoch tn \<noteq> Suc ?n" using y new by auto
    show "turn_ok ?s tn x a"
    proof (cases "tnEpoch tn = ?n")
      case True
      then have "y = e" "x = e\<lparr>epHook := Some (rtCurrent s)\<rparr>" using y e u F by (auto simp: f v split: if_splits)
      then show ?thesis using t True F nc by (auto simp: turn_ok_def f served_def p)
    next
      case False
      then have "x = y" using y u F by (auto simp: f split: if_splits)
      then show ?thesis using t False F by (auto simp: turn_ok_def f)
    qed
  qed
qed

lemma rt_inv_reloaded: "rt_inv s \<Longrightarrow> rtPending s = PSwap p \<Longrightarrow> rt_inv (Reload_end s)"
  using reloaded_own reloaded_epochs reloaded_turns unfolding rt_inv_def by blast

subsection \<open>Reachable runtimes\<close>

lemma rt_inv_init: "rt_init s \<Longrightarrow> rt_inv s"
proof -
  assume "rt_init s"
  then obtain d dir cat inp tun where d: "dpNo d = 1" "owned_agents d" "dir_live dir" "s = NewRuntime d dir cat inp tun"
    by (auto simp: rt_init_def)
  have "own_inv s"
    using d by (simp add: own_inv_def made_def serving_def waiting_def released_def NewRuntime_def newAgentRegistry_def gen_own_def
        reg_own_def pend_own_def dynamicInstances_def fm_sum_new hook_own_def)
  moreover have "view_inv s"
    using d by (simp add: view_inv_def NewRuntime_def newAgentRegistry_def reg_ok_def steady_def)
  moreover have "epoch_inv s" using d by (auto simp: epoch_inv_def epoch_ok_def NewRuntime_def)
  moreover have "turn_inv s" using d by (simp add: turn_inv_def NewRuntime_def)
  ultimately show ?thesis by (simp add: rt_inv_def)
qed

lemma rt_inv_step: "rt_step s s' \<Longrightarrow> rt_inv s \<Longrightarrow> rt_inv s'"
  by (induction rule: rt_step.induct)
    (blast intro: rt_inv_register rt_inv_unregister rt_inv_unregistered rt_inv_reload rt_inv_reloaded rt_inv_begin rt_inv_resolve
      rt_inv_end rt_inv_hook rt_inv_drain rt_inv_close)+

end
