(* ===== verification/Runtime_Props.thy ===== *)
theory Runtime_Props
  imports Runtime_Invariant
begin

text \<open>
  What the runtime promises: everything is closed exactly once, a turn keeps the instance it resolved, a failed reload
  leaves the runtime as it was; and what it does not: a start that resolves after a swap runs on an instance of the wrong
  generation, an agent named like the catalogue's default replaces it, and removing an agent blocks a deployed one.
\<close>

interpretation lifecycle: invariant_system rt_init rt_step rt_inv
  by unfold_locales (blast intro: rt_inv_init rt_inv_step)+

subsection \<open>Closing\<close>

lemma count_owned [simp]:
  "count (image_mset Inst M) (Inst n) = count M n" "count (image_mset Dep M) (Dep n) = count M n"
  "count (image_mset Inst M) (Dep n) = 0" "count (image_mset Dep M) (Inst n) = 0"
  by (induction M) auto

lemma distinct_count: "distinct xs \<longleftrightarrow> (\<forall>a. count (mset xs) a \<le> 1)"
  unfolding distinct_count_atmost_1
proof (intro iffI allI)
  fix a
  assume le: "\<forall>a. count (mset xs) a \<le> 1"
  show "count (mset xs) a = (if a \<in> set xs then 1 else 0)"
  proof (cases "a \<in> set xs")
    case True
    then have "0 < count (mset xs) a" by simp
    then have "count (mset xs) a = 1" using le [rule_format, of a] by linarith
    then show ?thesis using True by simp
  qed (simp add: count_eq_zero_iff)
qed simp

lemma own_disjoint:
  assumes "own_inv s" "x \<in># serving s + waiting s"
  shows "x \<notin># released s"
proof
  assume r: "x \<in># released s"
  have "count (made s) x \<le> 1"
  proof -
    have "distinct (rtBound s)" "distinct (rtBuilt s)" using assms(1) by (simp_all add: own_inv_def)
    then show ?thesis by (cases x) (simp_all add: made_def distinct_count)
  qed
  moreover have "count (made s) x = count (serving s + waiting s) x + count (released s) x" using assms(1) by (simp add: own_inv_def)
  moreover have "count (serving s + waiting s) x > 0" "count (released s) x > 0" using assms(2) r by (simp_all only: count_greater_zero_iff)
  ultimately show False by linarith
qed

lemma owned_image:
  assumes "image_mset Inst A + image_mset Dep B = image_mset Inst C + image_mset Dep D + X"
  shows "C \<subseteq># A" "D \<subseteq># B" "X = {#} \<Longrightarrow> A = C" "X = {#} \<Longrightarrow> B = D"
proof -
  have a: "count A n = count C n + count X (Inst n)" and d: "count B n = count D n + count X (Dep n)" for n
    using arg_cong [OF assms, of "\<lambda>M. count M (Inst n)"] arg_cong [OF assms, of "\<lambda>M. count M (Dep n)"] by simp_all
  show "C \<subseteq># A" "D \<subseteq># B" using a d by (simp_all add: subseteq_mset_def)
  show "X = {#} \<Longrightarrow> A = C" "X = {#} \<Longrightarrow> B = D" using a d by (simp_all add: multiset_eq_iff)
qed

lemma no_turns_no_hooks:
  assumes "epoch_inv s" "rtTurns s = fmempty"
  shows "fm_sum hook_own (rtEpochs s) = {#}"
proof -
  have "hook_own x = {#}" if x: "fmlookup (rtEpochs s) k = Some x" for k x
  proof -
    have "epoch_ok s k x" using assms(1) x by (simp add: epoch_inv_def)
    then have "k = rtEpochSeq s" using assms(2) by (auto simp: epoch_ok_def split: if_splits)
    then show ?thesis using \<open>epoch_ok s k x\<close> by (simp add: epoch_ok_def hook_own_def)
  qed
  then show ?thesis unfolding fm_sum_def by (intro sum.neutral) (auto elim!: fmdomE)
qed

lemma released_all:
  assumes i: "rt_inv s" and c: "rtClosed s" "rtTurns s = fmempty" "rtDue s = []"
  shows "set (rtInstClosed s) = set (rtBound s)" "set (rtDepClosed s) = set (rtBuilt s)"
proof -
  have "serving s = {#}" using c by (simp add: serving_def)
  moreover have "waiting s = {#}" using no_turns_no_hooks [of s] i c by (simp add: waiting_def rt_inv_def)
  ultimately have e: "made s = released s + {#}" using i by (simp add: rt_inv_def own_inv_def)
  note o = owned_image [OF e [unfolded made_def released_def]]
  show "set (rtInstClosed s) = set (rtBound s)" "set (rtDepClosed s) = set (rtBuilt s)"
    using o(3,4) by (metis set_mset_mset)+
qed

lemma closed_once_inv:
  assumes "rt_inv s"
  shows "distinct (rtInstClosed s)" "distinct (rtDepClosed s)" "set (rtInstClosed s) \<subseteq> set (rtBound s)" "set (rtDepClosed s) \<subseteq> set (rtBuilt s)"
proof -
  have i: "own_inv s" using assms by (simp add: rt_inv_def)
  then have "made s = released s + (serving s + waiting s)" by (simp add: own_inv_def ac_simps)
  note o = owned_image [OF this [unfolded made_def released_def]]
  have "distinct ys" if "mset ys \<subseteq># mset xs" "distinct xs" for xs ys :: "nat list"
    unfolding distinct_count using mset_subset_eq_count [OF that(1)] that(2) [unfolded distinct_count] by (metis le_trans)
  then show "distinct (rtInstClosed s)" "distinct (rtDepClosed s)" using o(1,2) i by (auto simp: own_inv_def)
  show "set (rtInstClosed s) \<subseteq> set (rtBound s)" "set (rtDepClosed s) \<subseteq> set (rtBuilt s)"
    using set_mset_mono [OF o(1)] set_mset_mono [OF o(2)] by simp_all
qed


text \<open>Steps a closed runtime still takes: turns end and retired generations are released.\<close>

lemma settle_run:
  assumes "reach rt_init rt_step s"
  shows "\<exists>s'. rt_step\<^sup>*\<^sup>* s s' \<and> rtTurns s' = fmempty \<and> rtDue s' = [] \<and> rtClosed s' = rtClosed s \<and> rtBound s' = rtBound s \<and> rtBuilt s' = rtBuilt s"
  using assms
proof (induction "2 * fm_count (\<lambda>_. True) (rtTurns s) + length (rtDue s)" arbitrary: s rule: less_induct)
  case less
  show ?case
  proof (cases "rtTurns s = fmempty")
    case False
    then obtain t tn where tn: "fmlookup (rtTurns s) t = Some tn" by (metis fmap_ext fmempty_lookup not_None_eq)
    define s1 where "s1 = endEpoch (tnEpoch tn) (s\<lparr>rtTurns := fmdrop t (rtTurns s)\<rparr>)"
    have e: "end_turn t s = Some s1" using tn by (simp add: end_turn_def s1_def)
    have st: "rt_step s s1" by (rule rt_end [OF e])
    have f: "rtTurns s1 = fmdrop t (rtTurns s)" "rtClosed s1 = rtClosed s" "rtBound s1 = rtBound s" "rtBuilt s1 = rtBuilt s"
      "length (rtDue s1) \<le> Suc (length (rtDue s))"
      by (auto simp: s1_def endEpoch_def Let_def split: option.splits)
    have "2 * fm_count (\<lambda>_. True) (rtTurns s1) + length (rtDue s1) < 2 * fm_count (\<lambda>_. True) (rtTurns s) + length (rtDue s)"
      using fm_count_drop [OF tn, of "\<lambda>_. True"] f by simp
    from less.hyps [OF this reach_step [OF less.prems st]] show ?thesis
      using st f by (metis converse_rtranclp_into_rtranclp)
  next
    case T: True
    show ?thesis
    proof (cases "rtDue s")
      case Nil
      then show ?thesis using T by blast
    next
      case (Cons g gs)
      define s1 where "s1 = retire g (s\<lparr>rtDue := gs\<rparr>)"
      have st: "rt_step s s1" by (rule rt_hook) (simp add: run_hook_def Cons s1_def)
      have f: "rtTurns s1 = fmempty" "rtClosed s1 = rtClosed s" "rtBound s1 = rtBound s" "rtBuilt s1 = rtBuilt s" "rtDue s1 = gs"
        by (simp_all add: s1_def T)
      have "2 * fm_count (\<lambda>_. True) (rtTurns s1) + length (rtDue s1) < 2 * fm_count (\<lambda>_. True) (rtTurns s) + length (rtDue s)"
        by (simp add: f T Cons)
      from less.hyps [OF this reach_step [OF less.prems st]] show ?thesis
        using st f by (metis converse_rtranclp_into_rtranclp)
    qed
  qed
qed


subsection \<open>Turns and reloads\<close>

lemma turn_owner:
  assumes i: "rt_inv s" and tn: "fmlookup (rtTurns s) t = Some tn" "fmlookup (rtEpochs s) (tnEpoch tn) = Some e"
    and c: "tnEpoch tn = rtEpochSeq s \<Longrightarrow> \<not> rtClosed s"
  shows "Dep (dpNo (rvResult (epResolver e))) \<in># serving s + waiting s"
    and "tnInst tn = Some a \<Longrightarrow> tnCurrent tn \<Longrightarrow> fmlookup (dpAgents (rvResult (epResolver e))) (tnAgent tn) \<noteq> Some a \<Longrightarrow>
      Inst (aiNo a) \<in># serving s + waiting s"
proof -
  have ok: "epoch_ok s (tnEpoch tn) e" using i tn(2) by (simp add: rt_inv_def epoch_inv_def)
  have hk: "x \<in># serving s + waiting s" if "epHook e = Some g" "x \<in># gen_own g" for g x
    using fm_sum_drop [OF tn(2), of hook_own] that by (simp add: waiting_def hook_own_def)
  show "Dep (dpNo (rvResult (epResolver e))) \<in># serving s + waiting s"
  proof (cases "tnEpoch tn = rtEpochSeq s")
    case True
    then have "rvResult (epResolver e) = genResult (rtCurrent s)" using ok by (simp add: epoch_ok_def)
    then show ?thesis using c [OF True] by (simp add: serving_def gen_own_def)
  next
    case False
    then obtain g where "epHook e = Some g" "genResult g = rvResult (epResolver e)" using ok by (auto simp: epoch_ok_def)
    then show ?thesis using hk [of g] by (simp add: gen_own_def)
  qed
  assume a: "tnInst tn = Some a" "tnCurrent tn" "fmlookup (dpAgents (rvResult (epResolver e))) (tnAgent tn) \<noteq> Some a"
  have "turn_ok s tn e a" using i tn a(1,2) unfolding rt_inv_def turn_inv_def by blast
  then consider (cur) "tnEpoch tn = rtEpochSeq s" "served s (tnAgent tn) a"
    | (old) g where "epHook e = Some g" "fmlookup (genAdopted g) (tnAgent tn) = Some a"
    using a(3) c by (auto simp: turn_ok_def split: if_splits)
  then show "Inst (aiNo a) \<in># serving s + waiting s"
  proof cases
    case cur
    have reg: "Inst (aiNo a) \<in># reg_own (ragents (rtRegistry s))" if "Dynamic (rtRegistry s) (tnAgent tn) = Some a"
      using that insts_count [of "dynamicInstances (ragents (rtRegistry s))" "tnAgent tn" a] by (auto simp: reg_own_def Dynamic_def)
    show ?thesis
      using cur(2) c [OF cur(1)] reg insts_count [of "genAdopted (rtCurrent s)" "tnAgent tn" a]
      by (auto simp: served_def serving_def pend_own_def gen_own_def split: pending.splits if_splits)
  next
    case old
    then show ?thesis using hk [of g] insts_count [OF old(2)] by (simp add: gen_own_def)
  qed
qed



subsection \<open>The default assembly\<close>

text \<open>An agent named \<open>default\<close> takes the catalogue's default with it. Registering it without a tool assembly of its own
  succeeds, and from then on the catalogue has no default: no agent without an assembly of its own gets tools any more,
  and no further one can be registered. Removing the agent does not bring the default back.\<close>

theorem registering_default_drops_default:
  assumes "RegisterAgent dynamicCatalogDefaultAgent def [] an s = (Inr a, s')" "rtLive s = Some c"
    and "fmlookup (assemblies c) (aiID b) \<in> {None, Some None}"
  shows "hasDefault c \<and> (\<exists>c'. rtLive s' = Some c' \<and> catDef c' = None \<and> (\<exists>e. NewCatalog (Some c') (Some b) = Inl e) \<and>
    catDef (catalog_Delete dynamicCatalogDefaultAgent c') = None)"
proof -
  have p: "hasDefault c" "rtLive s' = Some (c\<lparr>catDef := None\<rparr>)"
    using assms(1,2)
    by (auto simp: RegisterAgent_def Let_def registry_Put_def ReopenAgent_def emit_def catalog_Set_def dynamicCatalogDefaultAgent_def
        split: option.splits sum.splits if_splits)
  then show ?thesis using assms(3)
    by (intro conjI exI [of _ "c\<lparr>catDef := None\<rparr>"]) (auto simp: NewCatalog_def Let_def catalog_Delete_def dynamicCatalogDefaultAgent_def)
qed

subsection \<open>Scripts\<close>

text \<open>Concrete runs: a deployment per generation with the named agents, one dynamic agent per registration. \<open>rt_do\<close> carries out one
  action when the step relation allows it.\<close>

datatype rt_act =
  ARegister string nat
| AUnregister string
| AUnregistered
| AReload "string list" "(string \<times> nat) list"
| ASwap
| ABegin nat string
| AResolve nat
| AEnd nat
| AHook
| AClose

definition demo_dep :: "nat \<Rightarrow> string list \<Rightarrow> deployment" where
  "demo_dep n names = \<lparr>dpNo = n, dpBus = n, dpAgents = fmap_of_list (map (\<lambda>i. (i, demo_inst 0 i)) names), dpAssemblies = fmempty\<rparr>"

definition demo_inputs :: inputs where
  "demo_inputs = \<lparr>inExternals = 0, inResolver = 0, inHost = 0, inResultHost = 0\<rparr>"

definition demo_runtime :: Runtime where
  "demo_runtime = NewRuntime (demo_dep 1 [''a'']) NewDirectory None demo_inputs 0"

definition reg_demo :: "string \<Rightarrow> nat \<Rightarrow> regAns" where
  "reg_demo name k = \<lparr>rgValidate = None, rgOptions = None, rgBind = Inr (demo_inst k name)\<rparr>"

definition reload_demo :: "string list \<Rightarrow> (string \<times> nat) list \<Rightarrow> nat \<Rightarrow> reloadAns" where
  "reload_demo names rs n =
     \<lparr>raPrepare = None, raDocAgents = names, raInputs = (\<lambda>x. x), raTunables = 0, raBuild = Inr (demo_dep n names), raDir = NewDirectory,
      raBind = None, raValues = None, raHost = None, raTools = None,
      raRebind = (\<lambda>i. case map_of rs i of Some k \<Rightarrow> Inr (demo_inst k i) | None \<Rightarrow> Inl (errf Internal ''no binding'')),
      raDrain = (\<lambda>i. (None, True)), raAddBus = None, raSetTunables = None\<rparr>"

definition idle_now :: "string \<Rightarrow> Runtime \<Rightarrow> bool" where
  "idle_now name s \<longleftrightarrow> fmpred (\<lambda>t tn. tnAgent tn \<noteq> name) (rtTurns s)"

definition rt_do :: "rt_act \<Rightarrow> Runtime \<Rightarrow> Runtime option" where
  "rt_do c s =
     (let calm = (case rtPending s of PNone \<Rightarrow> True | _ \<Rightarrow> False) in
      case c of
        ARegister name k \<Rightarrow> if calm \<and> k \<noteq> 0 \<and> k \<notin> set (rtBound s) then Some (snd (RegisterAgent name ''def'' [] (reg_demo name k) s)) else None
      | AUnregister name \<Rightarrow> if calm then Some (snd (Unregister_begin name None s)) else None
      | AUnregistered \<Rightarrow> (case rtPending s of
            PRemove name e \<Rightarrow> if idle_now name s then Some (snd (Unregister_end None False None s)) else None
          | _ \<Rightarrow> None)
      | AReload names rs \<Rightarrow>
          if calm \<and> Suc (rtNextGen s) \<notin> set (rtBuses s) \<and> distinct (map snd rs) \<and> 0 \<notin> set (map snd rs) \<and> set (map snd rs) \<inter> set (rtBound s) = {}
          then Some (snd (Reload_begin (reload_demo names rs (Suc (rtNextGen s))) s)) else None
      | ASwap \<Rightarrow> (case rtPending s of PSwap p \<Rightarrow> Some (Reload_end s) | _ \<Rightarrow> None)
      | ABegin t name \<Rightarrow> if rtClosed s then None else beginEpoch t name s
      | AResolve t \<Rightarrow> if rtClosed s then None else resolve_turn t s
      | AEnd t \<Rightarrow> end_turn t s
      | AHook \<Rightarrow> run_hook s
      | AClose \<Rightarrow> if calm then Some (Close_runtime s) else None)"

fun rt_script :: "rt_act list \<Rightarrow> Runtime \<Rightarrow> Runtime option" where
  "rt_script [] s = Some s"
| "rt_script (c # cs) s = (case rt_do c s of None \<Rightarrow> None | Some s' \<Rightarrow> rt_script cs s')"

lemma demo_dep_owned: "owned_agents (demo_dep n names)"
proof -
  have "aiNo a = 0" if "map_of (map (\<lambda>i. (i, demo_inst 0 i)) names) k = Some a" for k a
    using map_of_SomeD [OF that] by (auto simp: demo_inst_def)
  then show ?thesis by (auto simp: owned_agents_def demo_dep_def fmap_of_list.rep_eq)
qed

lemma reload_demo_ok:
  assumes "Suc (rtNextGen s) \<notin> set (rtBuses s)" "distinct (map snd rs)" "0 \<notin> set (map snd rs)" "set (map snd rs) \<inter> set (rtBound s) = {}"
  shows "reload_ok (reload_demo names rs (Suc (rtNextGen s))) s"
proof -
  have rb: "\<exists>k. (i, k) \<in> set rs \<and> a = demo_inst k i" if "raRebind (reload_demo names rs n) i = Inr a" for i a n
    using that by (auto simp: reload_demo_def split: option.splits dest: map_of_SomeD)
  have "fresh_inst i s a" if h: "raRebind (reload_demo names rs n) i = Inr a" for i a n
  proof -
    obtain k where k: "(i, k) \<in> set rs" "a = demo_inst k i" using rb [OF h] by blast
    then have "k \<in> set (map snd rs)" by force
    then show ?thesis using assms(3,4) k(2) unfolding fresh_inst_def demo_inst_def by auto
  qed
  moreover have "i = j" if h: "raRebind (reload_demo names rs n) i = Inr a" "raRebind (reload_demo names rs n) j = Inr b" "aiNo a = aiNo b" for i j a b n
  proof -
    obtain k l where "(i, k) \<in> set rs" "a = demo_inst k i" "(j, l) \<in> set rs" "b = demo_inst l j" using rb [OF h(1)] rb [OF h(2)] by blast
    moreover from this have "k = l" using h(3) by (simp add: demo_inst_def)
    ultimately have "(i, l) = (j, l)" using assms(2) unfolding distinct_map inj_on_def by (metis snd_conv)
    then show ?thesis by simp
  qed
  moreover have "raBuild (reload_demo names rs n) = Inr (demo_dep n names)" "raDir (reload_demo names rs n) = NewDirectory" for n
    by (simp_all add: reload_demo_def)
  ultimately show ?thesis
    using assms(1) demo_dep_owned unfolding reload_ok_def by (simp add: demo_dep_def dir_live_def NewDirectory_def)
qed

lemma rt_do_step:
  assumes "rt_do c s = Some s'"
  shows "rt_step s s'"
proof -
  have calm: "(case rtPending s of PNone \<Rightarrow> True | _ \<Rightarrow> False) \<Longrightarrow> rtPending s = PNone" by (cases "rtPending s") simp_all
  show ?thesis
  proof (cases c)
    case (ARegister name k)
    then show ?thesis using assms
      by (auto simp: rt_do_def reg_demo_def fresh_inst_def demo_inst_def split: if_splits intro!: rt_register calm)
  next
    case (AUnregister name)
    then show ?thesis using assms by (auto simp: rt_do_def split: if_splits intro!: rt_unregister calm)
  next
    case AUnregistered
    then show ?thesis using assms
      by (auto simp: rt_do_def idle_now_def agent_idle_def fmpred_iff split: pending.splits if_splits intro!: rt_unregistered)
  next
    case (AReload names rs)
    then show ?thesis using assms reload_demo_ok [of s rs names]
      by (auto simp: rt_do_def split: if_splits intro!: rt_reload calm)
  next
    case ASwap
    then show ?thesis using assms by (auto simp: rt_do_def split: pending.splits intro: rt_reloaded)
  next
    case (ABegin t name)
    then show ?thesis using assms by (auto simp: rt_do_def split: if_splits intro: rt_begin)
  next
    case (AResolve t)
    then show ?thesis using assms by (auto simp: rt_do_def split: if_splits intro: rt_resolve)
  next
    case (AEnd t)
    then show ?thesis using assms by (auto simp: rt_do_def intro: rt_end)
  next
    case AHook
    then show ?thesis using assms by (auto simp: rt_do_def intro: rt_hook)
  next
    case AClose
    then show ?thesis using assms by (auto simp: rt_do_def split: if_splits intro!: rt_close calm)
  qed
qed

lemma rt_script_run: "rt_script cs s = Some s' \<Longrightarrow> rt_step\<^sup>*\<^sup>* s s'"
  by (induction cs arbitrary: s) (auto split: option.splits intro: converse_rtranclp_into_rtranclp rt_do_step)

definition demo_after :: "rt_act list \<Rightarrow> Runtime" where
  "demo_after cs = (case rt_script cs demo_runtime of Some s \<Rightarrow> s | None \<Rightarrow> demo_runtime)"

lemma demo_after_reach: "reach rt_init rt_step (demo_after cs)"
proof -
  have "rt_init demo_runtime"
    unfolding rt_init_def demo_runtime_def
  proof (intro exI conjI)
    show "dpNo (demo_dep 1 [''a'']) = 1" by (simp add: demo_dep_def)
    show "owned_agents (demo_dep 1 [''a''])" by (rule demo_dep_owned)
    show "dir_live NewDirectory" by (simp add: dir_live_def NewDirectory_def)
  qed (rule refl)
  then have "reach rt_init rt_step demo_runtime" by (rule reach_init)
  then show ?thesis
    unfolding demo_after_def by (auto split: option.splits intro: reach_run rt_script_run)
qed

text \<open>A dynamic agent, a start that pins the first epoch, a reload, the start's resolution, and a second reload.\<close>

definition torn_script :: "rt_act list" where
  "torn_script = [ARegister ''b'' 1, ABegin 0 ''b'', AReload [''a''] [(''b'', 2)], ASwap, AResolve 0, AReload [''a''] [(''b'', 3)], ASwap]"

definition turn_inst :: "nat \<Rightarrow> Runtime \<Rightarrow> nat option" where
  "turn_inst t s = (case fmlookup (rtTurns s) t of None \<Rightarrow> None | Some tn \<Rightarrow> map_option aiNo (tnInst tn))"

lemma torn_facts:
  "turn_inst 0 (demo_after torn_script) = Some 2" "rtInstClosed (demo_after torn_script) = [2]" "\<not> rtClosed (demo_after torn_script)"
  by code_simp+


text \<open>A dynamic agent whose name a reloaded document also deploys, and its removal.\<close>

definition shadow_script :: "rt_act list" where
  "shadow_script = [ARegister ''b'' 1, AReload [''a'', ''b''] [(''b'', 2)], ASwap, AUnregister ''b'', AUnregistered]"

definition deployed_names :: "Runtime \<Rightarrow> string list" where
  "deployed_names s = dp_AgentNames (rtResult s)"

lemma shadow_facts:
  "deployed_names (demo_after shadow_script) = [''a'', ''b'']" "''b'' \<in> rtRemoved (demo_after shadow_script)"
  "Dynamic (rtRegistry (demo_after shadow_script)) ''b'' = None" "\<not> rtClosed (demo_after shadow_script)"
  "(case rtPending (demo_after shadow_script) of PNone \<Rightarrow> True | _ \<Rightarrow> False)"
  by code_simp+

text \<open>Removing a dynamic agent can block a deployed one. A reload accepts a document that deploys an agent under the name of a
  registered one; when the registered agent is then removed, the name stays blocked for sessions although the deployed agent
  is the one that is left, and registering the name again, which would lift the block, is refused as a conflict.\<close>

theorem removal_blocks_deployed_agent:
  "\<exists>s name a. reach rt_init rt_step s \<and> \<not> rtClosed s \<and> rtPending s = PNone \<and>
     registry_Agent (rtRegistry s) name = Some a \<and> fmlookup (dpAgents (rtResult s)) name = Some a \<and> name \<in> rtRemoved s \<and>
     (\<exists>e. fst (RegisterAgent name ''def'' [] (reg_demo name 9) s) = Inl e \<and> Is Conflict (Some e))"
proof -
  let ?s = "demo_after shadow_script"
  note i = lifecycle.reach_invar [OF demo_after_reach [of shadow_script]]
  have p: "rtPending ?s = PNone" using shadow_facts(5) by (cases "rtPending ?s") simp_all
  have "''b'' \<in> set (deployed_names ?s)" using shadow_facts(1) by simp
  then obtain a where a: "fmlookup (dpAgents (rtResult ?s)) ''b'' = Some a"
    by (auto simp: deployed_names_def dp_AgentNames_def elim!: fmdomE)
  have v: "view_inv ?s" using i by (simp add: rt_inv_def)
  have "rdeployed (rtRegistry ?s) = rtResult ?s"
    using view_steady [OF v p shadow_facts(4)] view_base [OF v] by (simp add: steady_def)
  then have r: "registry_Agent (rtRegistry ?s) ''b'' = Some a"
    using a shadow_facts(3) by (simp add: registry_Agent_def Dynamic_def split: option.splits)
  have "validateAgentID ''b'' = None" by code_simp
  then have "fst (RegisterAgent ''b'' ''def'' [] (reg_demo ''b'' 9) ?s) = Inl (errf Conflict ''runtime: agent is already registered'')"
    using r shadow_facts(4) by (simp add: RegisterAgent_def reg_demo_def)
  then have "\<exists>e. fst (RegisterAgent ''b'' ''def'' [] (reg_demo ''b'' 9) ?s) = Inl e \<and> Is Conflict (Some e)" by (simp add: Is_errf)
  then show ?thesis using demo_after_reach p a r shadow_facts(2,4) by blast
qed

subsection \<open>Witnesses\<close>

text \<open>A turn on a dynamic agent that is still running when the runtime is reloaded, and later closed.\<close>

definition busy_script :: "rt_act list" where
  "busy_script = [ARegister ''b'' 1, ABegin 0 ''b'', AResolve 0, AReload [''a''] [(''b'', 2)], ASwap, AClose]"

definition settled_script :: "rt_act list" where
  "settled_script = busy_script @ [AEnd 0, AHook]"

lemma busy_facts:
  "rtClosed (demo_after busy_script)" "turn_inst 0 (demo_after busy_script) = Some 1" "rtInstClosed (demo_after busy_script) = [2]"
  "rtBound (demo_after busy_script) = [1, 2]" "rtBuilt (demo_after busy_script) = [1, 2]" "rtEpochSeq (demo_after busy_script) = 2"
  "(case fmlookup (rtTurns (demo_after busy_script)) 0 of Some tn \<Rightarrow> tnEpoch tn = 1 \<and> tnCurrent tn | None \<Rightarrow> False)"
  by code_simp+

lemma settled_facts:
  "rtClosed (demo_after settled_script)" "rtDue (demo_after settled_script) = []" "fmdom (rtTurns (demo_after settled_script)) = {||}"
  "rtBound (demo_after settled_script) = [1, 2]" "rtBuilt (demo_after settled_script) = [1, 2]"
  by code_simp+




definition failing_reload :: reloadAns where
  "failing_reload = (reload_demo [''a''] [(''b'', 2)] 2)\<lparr>raAddBus := Some (errf Internal ''bus'')\<rparr>"

definition demo_registered :: Runtime where
  "demo_registered = demo_after [ARegister ''b'' 1]"

lemma demo_registered_reach: "reach rt_init rt_step demo_registered"
  unfolding demo_registered_def by (rule demo_after_reach)

lemma failing_facts:
  "(case rtPending demo_registered of PNone \<Rightarrow> True | _ \<Rightarrow> False)" "\<not> rtClosed demo_registered"
  "rtNextGen demo_registered = 1" "rtBuses demo_registered = [1]" "rtBound demo_registered = [1]"
  "fst (Reload_begin failing_reload demo_registered) \<noteq> None"
  "rtInstClosed (snd (Reload_begin failing_reload demo_registered)) = [2]"
  by code_simp+


definition demo_catalogued :: Runtime where
  "demo_catalogued = NewRuntime (demo_dep 1 [''a'']) NewDirectory (Some \<lparr>assemblies = fmempty, catDef = Some 7\<rparr>) demo_inputs 0"

lemma catalogued_facts:
  "(case fst (RegisterAgent ''default'' ''def'' [] (reg_demo ''default'' 1) demo_catalogued) of Inl e \<Rightarrow> False | Inr a \<Rightarrow> True)"
  by code_simp

theorem registering_default_drops_default_witness:
  "\<exists>c'. rtLive (snd (RegisterAgent ''default'' ''def'' [] (reg_demo ''default'' 1) demo_catalogued)) = Some c' \<and> catDef c' = None \<and>
     (\<exists>e. NewCatalog (Some c') (Some (demo_inst 0 ''a'')) = Inl e)"
proof -
  obtain a s' where r: "RegisterAgent dynamicCatalogDefaultAgent ''def'' [] (reg_demo ''default'' 1) demo_catalogued = (Inr a, s')"
    using catalogued_facts unfolding dynamicCatalogDefaultAgent_def
    by (cases "RegisterAgent ''default'' ''def'' [] (reg_demo ''default'' 1) demo_catalogued") (auto split: sum.splits)
  have l: "rtLive demo_catalogued = Some \<lparr>assemblies = fmempty, catDef = Some 7\<rparr>" by (simp add: demo_catalogued_def NewRuntime_def)
  show ?thesis
    using registering_default_drops_default [OF r l, of "demo_inst 0 ''a''"] r by (auto simp: dynamicCatalogDefaultAgent_def)
qed

end
