(* ===== verification/Spec2Isabelle.thy ===== *)
theory Spec2Isabelle
  imports Errdefs Event_Subject Agent_Board Resource_Reference Kanban_Props Graph_Parallel Graph_Definition
    Agent_Checkpoint Graph_Run Resource_Order Journal_Props Journal_Ring Bus_Close Agent_Turn Delegation_Backend
    Runtime_Props
begin

text \<open>
  A verification library for FlowCraft, a Go framework that runs agents: a graph of nodes works on a board
  of variables and message channels, the run is checkpointed so that a crashed process can go on, work is handed
  between agents through a board of cards, and events travel over an in-process bus. The theories model the
  packages under \<^verbatim>\<open>src/core\<close> (and the two backends that hold durable or shared state) in which that behaviour
  lives, and prove what callers rely on.

  \<^bold>\<open>How the parts meet.\<close> \<open>Errdefs\<close> classifies errors and every other part returns them. A graph definition is
  built (\<open>Graph_Definition\<close>) with the resources of a deployment (\<open>Resource_Graph\<close>) and settings expanded
  from references (\<open>Resource_Reference\<close>). Running it (\<open>Graph_Execute\<close>) moves a board (\<open>Agent_Board\<close>)
  through waves; a wave with several nodes forks the board and merges it again (\<open>Graph_Parallel\<close>); after each wave
  a checkpoint goes through the writer to a store (\<open>Agent_Checkpoint\<close>). One turn of an agent
  (\<open>Agent_Execute\<close>) seeds the board, calls the engine, lets referees ask for a revision and committers make the
  result durable; a crashed run goes on through \<open>LoadAndResume\<close>. A node that delegates hands a
  request (\<open>Delegation\<close>) to the delegation service (\<open>Delegation_Service\<close>), which runs it at once or submits it to the
  kanban backend (\<open>Kanban_Board\<close>), from which the service's workers claim it. Card and run events
  have subjects (\<open>Event_Subject\<close>) and are published on the bus (\<open>Event_Bus\<close>). A sandbox records what a
  run changed on disk in a journal (\<open>Journal_Fold\<close>, \<open>Journal_Ring\<close>). The theorem that spans the most parts is
  \<open>crash_resume\<close> below: board, delta, writer, store, build, engine and agent.

  \<^bold>\<open>Theories and sources.\<close>
  \<^item> \<open>Prelude\<close>: Go strings, trimming, sorting and integers as the sources use them; reachability of a step
    relation and the locale that lifts an inductive invariant to it; shared fact collections.
  \<^item> \<open>Errdefs\<close>: \<^verbatim>\<open>core/errdefs\<close> (\<^verbatim>\<open>errors.go\<close>, \<^verbatim>\<open>http.go\<close>, \<^verbatim>\<open>retry.go\<close>). An error is a tree of
    wrappers; \<open>Is\<close> searches it. Shown: what a classified provider error is and keeps, the status round trip,
    the exact value of a retry hint at 64 bits.
  \<^item> \<open>Event_Subject\<close>: \<^verbatim>\<open>core/event/subject.go\<close>. The index loop of the matcher equals an inductive reading of
    the wildcard rules.
  \<^item> \<open>Agent_Board\<close>: \<^verbatim>\<open>core/agent/board.go\<close>, \<^verbatim>\<open>board_delta.go\<close>. A delta since a mark replays the writes made
    after it; deltas of snapshots; the applied delta refines the snapshot operation; where a restored
    channel makes a delta wrong.
  \<^item> \<open>Resource_Reference\<close>: \<^verbatim>\<open>core/resource/reference.go\<close>, \<^verbatim>\<open>core/agent/board_refs.go\<close>. The scanner agrees with
    a template grammar.
  \<^item> \<open>Delegation\<close>: \<^verbatim>\<open>core/delegation\<close>, the request and response types with their validation.
  \<^item> \<open>Kanban_Board\<close>, \<open>Kanban_Safety\<close>, \<open>Kanban_Props\<close>: \<^verbatim>\<open>core/delegation/kanban\<close> (\<^verbatim>\<open>kanban.go\<close>,
    \<^verbatim>\<open>card.go\<close>, \<^verbatim>\<open>events.go\<close>). One function per critical section of the mutex, a step relation over them, two
    invariants (the views of the cards agree; retained answers belong to their operations), and what a
    client sees: idempotent admission, one completion, retention, leases, wake-ups.
  \<^item> \<open>Delegation_Service\<close> with \<open>Delegation_Safety\<close>, \<open>Delegation_Keys\<close>, \<open>Delegation_Close\<close>, \<open>Delegation_Live\<close>,
    \<open>Delegation_Props\<close>, \<open>Delegation_Backend\<close>: \<^verbatim>\<open>core/delegation/service.go\<close>, \<^verbatim>\<open>stream.go\<close>. Calls, workers, sweepers and
    \<open>Close\<close> are goroutines with positions; one step is one section under a mutex or one answer from outside. Invariants:
    idempotency keys and their leaders, the counts of slots and calls, the stages of closing. Shown: single flight per key,
    replay until expiry, bounded concurrency, closing completes and leaves nothing behind, the kanban board accepts
    what workers report; and the ways an attachment leaks, a cancelled answer is replayed and a blank error stops the service.
  \<^item> \<open>Runtime_Registry\<close>: \<^verbatim>\<open>core/runtime/registry.go\<close>, \<^verbatim>\<open>dynamic.go\<close>, \<^verbatim>\<open>core/delegation/directory.go\<close>. The live
    registry of agents, the tool catalogue, and the directory of delegation targets over a live or frozen view (a locale for
    the view's provider). Shown: \<open>List\<close>, \<open>Get\<close> and \<open>Lookup\<close> agree.
  \<^item> \<open>Runtime_Reload\<close>, \<open>Runtime_Safety\<close>, \<open>Runtime_Invariant\<close>, \<open>Runtime_Props\<close>: \<^verbatim>\<open>core/runtime\<close>
    (\<^verbatim>\<open>lifecycle.go\<close>, \<^verbatim>\<open>reload.go\<close>, \<^verbatim>\<open>generation.go\<close>, \<^verbatim>\<open>runtime.go\<close>) and \<^verbatim>\<open>session/epoch.go\<close>. Registering, removing,
    reloading with its rollback and closing are serial operations, split where a turn can run in between; turns pin an epoch and
    resolve their agent later. The invariant gives every instance and deployment exactly one owner (a multiset equation).
    Shown: everything is closed exactly once and a closed runtime can finish, a turn keeps what it resolved in time, a failed
    reload restores the runtime; and that a start which resolves after a swap can run on a closed agent, that an agent named
    \<open>default\<close> takes the catalogue's default with it, and that a removal can block a deployed agent.
  \<^item> \<open>Finite_Counting\<close>: how many entries of a finite map satisfy a predicate, and sums over a finite map, for the wait groups and
    semaphores of the bus and the service, the termination measure of the bus and the owners in the runtime.
  \<^item> \<open>Graph_Definition\<close>: \<^verbatim>\<open>core/graph\<close> from \<^verbatim>\<open>definition.go\<close> to \<open>Build\<close>. What a built graph guarantees and how
    each refusal is classified.
  \<^item> \<open>Graph_Parallel\<close>: \<^verbatim>\<open>core/graph/parallel.go\<close>. Merging does not depend on map order; a fork controller
    cancels branches but never the last one.
  \<^item> \<open>Agent_Checkpoint\<close>: \<^verbatim>\<open>core/agent/checkpoint*.go\<close>, \<^verbatim>\<open>backends/checkpoint/sqlite/checkpoint.go\<close>. Every chain of
    base and delta records, with any failing database call, loads as the last accepted boundary; the
    chain is bounded by the compaction window. The locale of a store is interpreted for SQLite.
  \<^item> \<open>Graph_Execute\<close>, \<open>Graph_Run\<close>: \<^verbatim>\<open>core/graph/execute.go\<close>, \<^verbatim>\<open>subjects.go\<close>. Node invocation with retries,
    parallel waves under every schedule, routing, the loop. Shown: branches work on private copies and are
    closed exactly once, a retry starts from a clean board, step events bracket, the loop ends within
    the iteration limit.
  \<^item> \<open>Agent_Execute\<close>, \<open>Agent_Turn\<close>: \<^verbatim>\<open>core/agent/execute.go\<close>, \<^verbatim>\<open>lifecycle.go\<close>, \<^verbatim>\<open>execute_request.go\<close>. Engine and
    hooks act on an arbitrary world and every call to them is traced. Shown for all of them: the lifecycle an observer
    sees, what each engine call is given, when committers run and what a committed result means, which
    messages and artifacts a result carries, and the one way a started run ends unannounced.
  \<^item> \<open>Resource_Graph\<close>, \<open>Resource_Order\<close>: \<^verbatim>\<open>core/resource/types.go\<close>, \<^verbatim>\<open>dag.go\<close>. The cycle search is exact and the
    topological order correct, for every map order.
  \<^item> \<open>Journal_Fold\<close>, \<open>Journal_Props\<close>, \<open>Journal_Ring\<close>: \<^verbatim>\<open>core/sandbox/journal\<close>. What the fold reports for a
    sequence of raw events, what a reader of the ring can conclude, and where both lose information.
  \<^item> \<open>Event_Bus\<close>, \<open>Bus_Safety\<close>, \<open>Bus_Publish\<close>, \<open>Bus_Props\<close>, \<open>Bus_Close\<close>: \<^verbatim>\<open>core/event\<close> (\<^verbatim>\<open>memory.go\<close>,
    \<^verbatim>\<open>bus.go\<close>, \<^verbatim>\<open>observer.go\<close>, \<^verbatim>\<open>telemetry.go\<close>). Publishers and closers as goroutines that interleave at
    every lock, channel and wait; the invariant of all reachable states; settlement of each publication,
    completion of closing, and the two situations that separate safe sends from a panic.

  \<^bold>\<open>Conventions.\<close> Source names are kept where Isabelle allows it. A struct is a record, a string type with named
  constants a datatype or a string, a map a finite map, an error an \<open>err\<close> (nil is \<open>None\<close>), a fallible
  function a sum. Where a loop ranges over a Go map the order is an argument and the results hold for all orders.
  Messages of errors keep their format string; formatting arguments are not rendered. Times are integers,
  the zero time is 0 or \<open>None\<close>. Mutex sections are single steps, which is what the mutex guarantees; blocking
  and interleaving between sections are explicit. What the source gets from elsewhere is an argument:
  \<^verbatim>\<open>encoding/json\<close>, \<^verbatim>\<open>expr-lang\<close>, hashing, database failures, clocks, node handlers, hosts.

  \<^bold>\<open>Termination.\<close> No fuel is used. Recursions are structural or have a measure (cells left to visit, attempts
  left, branch work left); the engine loop, which a host can keep alive, is a partial function into
  \<open>option\<close> and \<open>Graph_Run.execute_terminates\<close> proves that it returns.

  \<^bold>\<open>Not modelled.\<close> Logging, metrics and tracing only observe and are left out, as are JSON forms. Aliasing
  between a board and a shallow clone of it, reflection over config structs, and panics of handlers are outside the
  models. The event router, the inference and tool layers, network policy,
  the deployment builder, sandbox runners, the memory backends, the craft application, drivers, tools and
  examples have no theory: they are I/O, wiring, or left for later; the manifest lists each with its reason.
\<close>

subsection \<open>A graph run over the SQLite store\<close>

text \<open>The last boundary the store accepted, loaded: a valid record of the run that the graph accepts and whose start
  point is what the crashed run had computed.\<close>

lemma durable_boundary:
  assumes "graph_ok g" "start_point env g run b0 = Inr (fr, it, b1)"
    and "loop_reach env g run st \<lparr>frontier = fr, iters = it, writer = cw, lboard = b1, lworld = w\<rparr> s"
    and "wave_step env g run st s = Inr s'"
    and "jv = (\<lambda>p. jparse (ejson env) p \<noteq> None)" "db_ok jv db" "trim_space (rRunID run) \<noteq> []"
    and "durable_is (rRunID run) a (Load jv None db (rRunID run))"
    and "journal = None \<or> journal = Some (sqlite_Append jv)"
    and "ckpt_run sqlite_Delete
      (b, WithCompactionWindow k (NewCheckpointWriterForStore (Some (journal, Save jv)) (rRunID run)), db, a)
      (b', w', db', Some (stamp_meta g run (dedupIDs (frontier s)) (iters s') ts st, lboard s'))"
  obtains cp where "Load jv None db' (rRunID run) = Inr (Some cp)" "Checkpoint_Validate jv cp = None"
    "cpExecID cp = rRunID run" "CanResume g cp = None"
    "\<And>bx. \<exists>b2. start_point env g (run\<lparr>ResumeFrom := Some cp\<rparr>) bx = Inr (frontier s', iters s', b2) \<and>
      same_state (Snapshot b2) (lboard s')"
proof -
  let ?w = "WithCompactionWindow k (NewCheckpointWriterForStore (Some (journal, Save jv)) (rRunID run))"
  have i: "rRunID run \<noteq> []" using assms(7) by (auto simp: trim_space_def)
  then have w: "sqlite_writer jv ?w" "wexecID ?w = rRunID run" "\<not> hasBase ?w"
    using assms(9) by (auto simp: WithCompactionWindow_def NewCheckpointWriterForStore_def blank_writer_def
        CheckpointCapabilitiesForStore_def sqlite_writer_def DefaultCheckpointCompaction_def)
  then have "sq.wired jv ?w" using assms(7) by (auto simp: sq.wired_def sqlite_writer_def)
  from sq.run_durable [OF assms(10,6) this] w assms(8) ckpt_run_keeps [OF assms(10)]
  have "durable_is (rRunID run) (Some (stamp_meta g run (dedupIDs (frontier s)) (iters s') ts st, lboard s'))
      (Load jv None db' (rRunID run))" by simp
  then obtain cp where cp: "Load jv None db' (rRunID run) = Inr (Some cp)"
    and rep: "represents (rRunID run) (stamp_meta g run (dedupIDs (frontier s)) (iters s') ts st, lboard s') cp"
    by (auto simp: durable_is_def)
  have "db_ok jv db'" using run_db_ok [OF assms(10), of jv] w(1) assms(6) by simp
  from Load_valid [OF this assms(7) cp] have v: "Checkpoint_Validate jv cp = None" .
  note rs = resume_from_record [OF assms(1-4) rep v [unfolded assms(5)]]
  have "cpExecID cp = rRunID run" using rep by (simp add: represents_def)
  from that [OF cp v this conjunct1 [OF rs] conjunct2 [OF rs]] show thesis .
qed



end
